(* ===== verification/Prelude.thy ===== *)
theory Prelude
  imports Main
begin

text \<open>
  Shared vocabulary of the development: the errors the executive raises, sequential
  composition of operations that may raise, and the lemmas and fact collections the
  component theories use.

  The code reports an internal error with the macros of src/src/utils/Error.hh
  (\<open>errorMsg\<close>, \<open>checkError\<close>, \<open>assertTrue_1\<close>, \<open>assertTrue_2\<close>, \<open>assertTrueMsg\<close>) and a defect of
  the plan with those of src/src/utils/PlanError.hh. Both leave the function that
  reports; here each is a value of the sum type \<open>plexil_error + 'a\<close>.
\<close>

section \<open>Errors\<close>

datatype plexil_error =
    ErrorMsg      \<comment> \<open>errorMsg(...)\<close>
  | CheckError    \<comment> \<open>checkError(...), check_error_1, check_error_2\<close>
  | AssertFailed  \<comment> \<open>assertTrue_1, assertTrue_2, assertTrueMsg\<close>
  | PlanError     \<comment> \<open>checkPlanError, reportPlanError\<close>
  | InterfaceError  \<comment> \<open>checkInterfaceError\<close>
  | NullPointer   \<comment> \<open>dereference of a null pointer, undefined in C++\<close>
  | UninitializedRead  \<comment> \<open>read of a variable that was never assigned, undefined in C++\<close>
  | ParserException  \<comment> \<open>checkParserException, reportParserException\<close>
  | BufferOverrun  \<comment> \<open>read past the end of a buffer, undefined in C++\<close>
  | LengthError   \<comment> \<open>std::length_error from a container that cannot grow to the size asked for\<close>
  | DanglingPointer  \<comment> \<open>use of an object that was deleted, undefined in C++\<close>
  | SignedOverflow  \<comment> \<open>integer arithmetic out of range, undefined in C++\<close>
  | Deadlock      \<comment> \<open>a mutex locked again by the thread that holds it, undefined in C++\<close>
  | OutOfFuel     \<comment> \<open>the bound of a modelled loop was reached\<close>

type_synonym 'a result = "plexil_error + 'a"

definition bindE :: "'e + 'a \<Rightarrow> ('a \<Rightarrow> 'e + 'b) \<Rightarrow> 'e + 'b" where
  "bindE m f = (case m of Inl e \<Rightarrow> Inl e | Inr x \<Rightarrow> f x)"

lemma bindE_simps [simp]:
  "bindE (Inl e) f = Inl e"
  "bindE (Inr x) f = f x"
  by (simp_all add: bindE_def)

lemma bindE_eq_Inr [simp]:
  "bindE m f = Inr y \<longleftrightarrow> (\<exists>x. m = Inr x \<and> f x = Inr y)"
  by (cases m) simp_all

lemma bindE_InrE:
  assumes "bindE m f = Inr y"
  obtains v where "m = Inr v" and "f v = Inr y"
  using assms by (cases m) simp_all

lemma bindE_eq_Inl:
  "bindE m f = Inl e \<longleftrightarrow> m = Inl e \<or> (\<exists>x. m = Inr x \<and> f x = Inl e)"
  by (cases m) simp_all

lemma bindE_assoc: "bindE (bindE m f) g = bindE m (\<lambda>x. bindE (f x) g)"
  by (cases m) simp_all

definition check :: "'e \<Rightarrow> bool \<Rightarrow> 'e + unit" where
  "check e b = (if b then Inr () else Inl e)"

lemma check_simps [simp]:
  "check e True = Inr ()"
  "check e False = Inl e"
  by (simp_all add: check_def)

lemma check_eq_Inr [simp]: "check e b = Inr u \<longleftrightarrow> b"
  by (simp add: check_def)

section \<open>Sequences of state-changing steps\<close>

text \<open>
  A void C++ member function that changes the state and may raise is a function
  \<open>'s \<Rightarrow> 'e + 's\<close>; a block of statements is the list of them, run in order until one raises.
\<close>

fun seqs :: "('s \<Rightarrow> 'e + 's) list \<Rightarrow> 's \<Rightarrow> 'e + 's" where
  "seqs [] s = Inr s"
| "seqs (f # fs) s = bindE (f s) (seqs fs)"

lemma seqs_append: "seqs (fs @ gs) s = bindE (seqs fs s) (seqs gs)"
  by (induction fs arbitrary: s) (simp_all add: bindE_def split: sum.splits)

lemma seqs_snoc: "seqs (fs @ [f]) s = bindE (seqs fs s) f"
  by (simp add: seqs_append) (cases "seqs fs s"; simp add: bindE_def split: sum.splits)

text \<open>A range-based \<open>for\<close> loop over a container whose body changes the state.\<close>

fun forE :: "('a \<Rightarrow> 's \<Rightarrow> 'e + 's) \<Rightarrow> 'a list \<Rightarrow> 's \<Rightarrow> 'e + 's" where
  "forE f [] s = Inr s"
| "forE f (x # xs) s = bindE (f x s) (forE f xs)"

lemma forE_append: "forE f (xs @ ys) s = bindE (forE f xs s) (forE f ys)"
  by (induction xs arbitrary: s) (simp_all add: bindE_def split: sum.splits)

lemma forE_pure: "(\<And>x s. f x s = Inr (g x s)) \<Longrightarrow> forE f xs s = Inr (fold g xs s)"
  by (induction xs arbitrary: s) simp_all

section \<open>Preservation of invariants\<close>

named_theorems preserves_intros "rules that reduce preservation by a composite step"

definition preserves :: "('s \<Rightarrow> bool) \<Rightarrow> ('s \<Rightarrow> 'e + 's) \<Rightarrow> bool" where
  "preserves P f \<longleftrightarrow> (\<forall>s s'. P s \<longrightarrow> f s = Inr s' \<longrightarrow> P s')"

lemma preservesI: "(\<And>s s'. P s \<Longrightarrow> f s = Inr s' \<Longrightarrow> P s') \<Longrightarrow> preserves P f"
  by (simp add: preserves_def)

lemma preservesD: "preserves P f \<Longrightarrow> P s \<Longrightarrow> f s = Inr s' \<Longrightarrow> P s'"
  by (simp add: preserves_def)

lemma preserves_seqs [preserves_intros]:
  assumes "\<And>f. f \<in> set fs \<Longrightarrow> preserves P f"
  shows "preserves P (seqs fs)"
proof (rule preservesI)
  fix s s'
  assume "P s" and "seqs fs s = Inr s'"
  with assms show "P s'"
  proof (induction fs arbitrary: s)
    case Nil
    then show ?case by simp
  next
    case (Cons f fs)
    from Cons.prems(3) obtain t where f: "f s = Inr t" and fs: "seqs fs t = Inr s'"
      by auto
    have "preserves P f" using Cons.prems(1) by simp
    then have "P t" using Cons.prems(2) f by (rule preservesD)
    then show ?case using Cons.IH Cons.prems(1) fs by simp
  qed
qed

lemma preserves_forE [preserves_intros]:
  assumes "\<And>x. x \<in> set xs \<Longrightarrow> preserves P (f x)"
  shows "preserves P (forE f xs)"
proof (rule preservesI)
  fix s s'
  assume "P s" and "forE f xs s = Inr s'"
  with assms show "P s'"
  proof (induction xs arbitrary: s)
    case Nil
    then show ?case by simp
  next
    case (Cons x xs)
    from Cons.prems(3) obtain t where f: "f x s = Inr t" and fs: "forE f xs t = Inr s'"
      by auto
    have "preserves P (f x)" using Cons.prems(1) by simp
    then have "P t" using Cons.prems(2) f by (rule preservesD)
    then show ?case using Cons.IH Cons.prems(1) fs by simp
  qed
qed

lemma forE_preservesD:
  "(\<And>x. preserves P (f x)) \<Longrightarrow> P s \<Longrightarrow> forE f xs s = Inr s' \<Longrightarrow> P s'"
  by (rule preservesD [OF preserves_forE])

lemma preserves_bindE [preserves_intros]:
  assumes "preserves P f" and "preserves P g"
  shows "preserves P (\<lambda>s. bindE (f s) g)"
  by (rule preservesI) (auto dest: preservesD [OF assms(1)] intro: preservesD [OF assms(2)])

lemma preserves_skip [preserves_intros]: "preserves P Inr"
  by (simp add: preserves_def)

lemma preserves_raise [preserves_intros]: "preserves P (\<lambda>s. Inl e)"
  by (simp add: preserves_def)

section \<open>What a computation returns\<close>

text \<open>
  Whatever the computation returns, if it does, has the property: the weakest precondition of
  a result, taken apart along the text of the computation.
\<close>

named_theorems returns_intros "rules that take a computation apart"

definition returns :: "'e + 'a \<Rightarrow> ('a \<Rightarrow> bool) \<Rightarrow> bool" where
  "returns m Q \<longleftrightarrow> (\<forall>x. m = Inr x \<longrightarrow> Q x)"

lemma returns_Inr [simp]: "returns (Inr x) Q = Q x"
  by (simp add: returns_def)

lemma returns_Inl [simp]: "returns (Inl e) Q"
  by (simp add: returns_def)

lemma returnsD: "returns m Q \<Longrightarrow> m = Inr x \<Longrightarrow> Q x"
  by (simp add: returns_def)

lemma returns_bindE [returns_intros]: "(\<And>x. m = Inr x \<Longrightarrow> returns (f x) Q) \<Longrightarrow> returns (bindE m f) Q"
  by (auto simp: returns_def)

lemma returns_if [returns_intros]:
  "(b \<Longrightarrow> returns m Q) \<Longrightarrow> (\<not> b \<Longrightarrow> returns n Q) \<Longrightarrow> returns (if b then m else n) Q"
  by simp

lemma returns_option [returns_intros]:
  "(x = None \<Longrightarrow> returns m Q) \<Longrightarrow> (\<And>y. x = Some y \<Longrightarrow> returns (f y) Q) \<Longrightarrow> returns (case_option m f x) Q"
  by (cases x) simp_all

lemma returns_prod [returns_intros]:
  "(\<And>a b. x = (a, b) \<Longrightarrow> returns (f a b) Q) \<Longrightarrow> returns (case_prod f x) Q"
  by (cases x) simp

lemma preserves_returns: "preserves P f = (\<forall>s. P s \<longrightarrow> returns (f s) P)"
  by (auto simp: preserves_def returns_def)

section \<open>Lists without duplicates\<close>

text \<open>
  The insertion \<open>std::find\<close> followed by \<open>push_back\<close>, which keeps a vector free of
  duplicates, and the erasure of the first occurrence. They serve the listener lists of
  notifiers and the waiting lists of reservable objects.
\<close>

definition push_back_new :: "'a \<Rightarrow> 'a list \<Rightarrow> 'a list" where
  "push_back_new x xs = (if x \<in> set xs then xs else xs @ [x])"

lemma set_push_back_new [simp]: "set (push_back_new x xs) = insert x (set xs)"
  by (auto simp: push_back_new_def)

lemma distinct_push_back_new [simp]: "distinct (push_back_new x xs) = distinct xs"
  by (auto simp: push_back_new_def)

lemma push_back_new_idem [simp]: "push_back_new x (push_back_new x xs) = push_back_new x xs"
  by (simp add: push_back_new_def)

lemma remove1_push_back_new: "x \<notin> set xs \<Longrightarrow> remove1 x (push_back_new x xs) = xs"
  by (induction xs) (auto simp: push_back_new_def remove1_append)

end
