(* ===== verification/Node_Constants.thy ===== *)
theory Node_Constants
  imports Prelude
begin

text \<open>
  The enumerations of the executive and the functions that parse and print them:
  node states, outcomes and failure types (src/src/value/NodeConstants), command handles
  (src/src/value/CommandHandle), node types (src/src/exec/PlexilNodeType), queue statuses
  (src/src/exec/Node.hh) and condition indices (src/src/exec/NodeImpl).

  Each C++ enumeration is a datatype with the constructors of the source. The functions
  that take a raw code (\<open>nodeStateName\<close> and its kin compare their argument with the bounds
  of the enumeration) are on \<open>nat\<close>, with the code of a constructor given by its
  \<open>..._code\<close> function.
\<close>

section \<open>Node states, outcomes, failure types, command handles\<close>

datatype node_state =
    NO_NODE_STATE | INACTIVE_STATE | WAITING_STATE | EXECUTING_STATE
  | ITERATION_ENDED_STATE | FINISHED_STATE | FAILING_STATE | FINISHING_STATE

datatype node_outcome =
    NO_OUTCOME | SUCCESS_OUTCOME | FAILURE_OUTCOME | SKIPPED_OUTCOME | INTERRUPTED_OUTCOME

datatype failure_type =
    NO_FAILURE | PRE_CONDITION_FAILED | POST_CONDITION_FAILED
  | INVARIANT_CONDITION_FAILED | PARENT_FAILED | EXITED | PARENT_EXITED

datatype command_handle =
    NO_COMMAND_HANDLE | COMMAND_SENT_TO_SYSTEM | COMMAND_ACCEPTED | COMMAND_RCVD_BY_SYSTEM
  | COMMAND_FAILED | COMMAND_DENIED | COMMAND_SUCCESS | COMMAND_ABORTED
  | COMMAND_ABORT_FAILED | COMMAND_INTERFACE_ERROR

definition all_node_states :: "node_state list" where
  "all_node_states =
     [NO_NODE_STATE, INACTIVE_STATE, WAITING_STATE, EXECUTING_STATE,
      ITERATION_ENDED_STATE, FINISHED_STATE, FAILING_STATE, FINISHING_STATE]"

fun node_state_code :: "node_state \<Rightarrow> nat" where
  "node_state_code NO_NODE_STATE = 0"
| "node_state_code INACTIVE_STATE = 1"
| "node_state_code WAITING_STATE = 2"
| "node_state_code EXECUTING_STATE = 3"
| "node_state_code ITERATION_ENDED_STATE = 4"
| "node_state_code FINISHED_STATE = 5"
| "node_state_code FAILING_STATE = 6"
| "node_state_code FINISHING_STATE = 7"

definition NODE_STATE_MAX :: nat where "NODE_STATE_MAX = 8"

definition ALL_STATE_NAMES :: "string list" where
  "ALL_STATE_NAMES =
     [''NO_STATE'', ''INACTIVE'', ''WAITING'', ''EXECUTING'',
      ''ITERATION_ENDED'', ''FINISHED'', ''FAILING'', ''FINISHING'']"

text \<open>A linear search over the table, from \<open>INACTIVE_STATE\<close> on.\<close>

definition parseNodeState :: "string \<Rightarrow> node_state" where
  "parseNodeState name =
     (case find (\<lambda>i. ALL_STATE_NAMES ! i = name) [1..<NODE_STATE_MAX] of
        Some i \<Rightarrow> all_node_states ! i
      | None \<Rightarrow> NO_NODE_STATE)"

definition nodeStateName :: "nat \<Rightarrow> string" where
  "nodeStateName state =
     (if state \<ge> NODE_STATE_MAX then ALL_STATE_NAMES ! 0 else ALL_STATE_NAMES ! state)"

definition isNodeStateValid :: "nat \<Rightarrow> bool" where
  "isNodeStateValid val \<longleftrightarrow> val \<ge> node_state_code INACTIVE_STATE \<and> val < NODE_STATE_MAX"

definition all_node_outcomes :: "node_outcome list" where
  "all_node_outcomes =
     [NO_OUTCOME, SUCCESS_OUTCOME, FAILURE_OUTCOME, SKIPPED_OUTCOME, INTERRUPTED_OUTCOME]"

fun node_outcome_code :: "node_outcome \<Rightarrow> nat" where
  "node_outcome_code NO_OUTCOME = 16"
| "node_outcome_code SUCCESS_OUTCOME = 17"
| "node_outcome_code FAILURE_OUTCOME = 18"
| "node_outcome_code SKIPPED_OUTCOME = 19"
| "node_outcome_code INTERRUPTED_OUTCOME = 20"

definition OUTCOME_MAX :: nat where "OUTCOME_MAX = 21"

definition ALL_OUTCOME_NAMES :: "string list" where
  "ALL_OUTCOME_NAMES =
     [''NO_OUTCOME'', ''SUCCESS'', ''FAILURE'', ''SKIPPED'', ''INTERRUPTED'']"

definition parseNodeOutcome :: "string \<Rightarrow> node_outcome" where
  "parseNodeOutcome name =
     (case find (\<lambda>i. ALL_OUTCOME_NAMES ! (i - node_outcome_code NO_OUTCOME) = name)
             [17..<OUTCOME_MAX] of
        Some i \<Rightarrow> all_node_outcomes ! (i - node_outcome_code NO_OUTCOME)
      | None \<Rightarrow> NO_OUTCOME)"

definition outcomeName :: "nat \<Rightarrow> string" where
  "outcomeName outcome =
     (if outcome \<le> node_outcome_code NO_OUTCOME \<or> outcome \<ge> OUTCOME_MAX
      then ALL_OUTCOME_NAMES ! 0
      else ALL_OUTCOME_NAMES ! (outcome - node_outcome_code NO_OUTCOME))"

definition all_failure_types :: "failure_type list" where
  "all_failure_types =
     [NO_FAILURE, PRE_CONDITION_FAILED, POST_CONDITION_FAILED,
      INVARIANT_CONDITION_FAILED, PARENT_FAILED, EXITED, PARENT_EXITED]"

fun failure_type_code :: "failure_type \<Rightarrow> nat" where
  "failure_type_code NO_FAILURE = 32"
| "failure_type_code PRE_CONDITION_FAILED = 33"
| "failure_type_code POST_CONDITION_FAILED = 34"
| "failure_type_code INVARIANT_CONDITION_FAILED = 35"
| "failure_type_code PARENT_FAILED = 36"
| "failure_type_code EXITED = 37"
| "failure_type_code PARENT_EXITED = 38"

definition FAILURE_TYPE_MAX :: nat where "FAILURE_TYPE_MAX = 39"

definition ALL_FAILURE_NAMES :: "string list" where
  "ALL_FAILURE_NAMES =
     [''NO_FAILURE'', ''PRE_CONDITION_FAILED'', ''POST_CONDITION_FAILED'',
      ''INVARIANT_CONDITION_FAILED'', ''PARENT_FAILED'', ''EXITED'', ''PARENT_EXITED'']"

definition parseFailureType :: "string \<Rightarrow> failure_type" where
  "parseFailureType name =
     (case find (\<lambda>i. ALL_FAILURE_NAMES ! (i - failure_type_code NO_FAILURE) = name)
             [33..<FAILURE_TYPE_MAX] of
        Some i \<Rightarrow> all_failure_types ! (i - failure_type_code NO_FAILURE)
      | None \<Rightarrow> NO_FAILURE)"

definition failureTypeName :: "nat \<Rightarrow> string" where
  "failureTypeName fail =
     (if fail \<le> failure_type_code NO_FAILURE \<or> fail \<ge> FAILURE_TYPE_MAX
      then ALL_FAILURE_NAMES ! 0
      else ALL_FAILURE_NAMES ! (fail - failure_type_code NO_FAILURE))"

definition all_command_handles :: "command_handle list" where
  "all_command_handles =
     [NO_COMMAND_HANDLE, COMMAND_SENT_TO_SYSTEM, COMMAND_ACCEPTED, COMMAND_RCVD_BY_SYSTEM,
      COMMAND_FAILED, COMMAND_DENIED, COMMAND_SUCCESS, COMMAND_ABORTED,
      COMMAND_ABORT_FAILED, COMMAND_INTERFACE_ERROR]"

fun command_handle_code :: "command_handle \<Rightarrow> nat" where
  "command_handle_code NO_COMMAND_HANDLE = 48"
| "command_handle_code COMMAND_SENT_TO_SYSTEM = 49"
| "command_handle_code COMMAND_ACCEPTED = 50"
| "command_handle_code COMMAND_RCVD_BY_SYSTEM = 51"
| "command_handle_code COMMAND_FAILED = 52"
| "command_handle_code COMMAND_DENIED = 53"
| "command_handle_code COMMAND_SUCCESS = 54"
| "command_handle_code COMMAND_ABORTED = 55"
| "command_handle_code COMMAND_ABORT_FAILED = 56"
| "command_handle_code COMMAND_INTERFACE_ERROR = 57"

definition COMMAND_HANDLE_MAX :: nat where "COMMAND_HANDLE_MAX = 58"

definition ALL_COMMAND_HANDLE_NAMES :: "string list" where
  "ALL_COMMAND_HANDLE_NAMES =
     [''NO_COMMAND_HANDLE'', ''COMMAND_SENT_TO_SYSTEM'', ''COMMAND_ACCEPTED'',
      ''COMMAND_RCVD_BY_SYSTEM'', ''COMMAND_FAILED'', ''COMMAND_DENIED'',
      ''COMMAND_SUCCESS'', ''COMMAND_ABORTED'', ''COMMAND_ABORT_FAILED'',
      ''COMMAND_INTERFACE_ERROR'']"

definition parseCommandHandleValue :: "string \<Rightarrow> command_handle" where
  "parseCommandHandleValue name =
     (case find (\<lambda>i. ALL_COMMAND_HANDLE_NAMES ! (i - command_handle_code NO_COMMAND_HANDLE) = name)
             [49..<COMMAND_HANDLE_MAX] of
        Some i \<Rightarrow> all_command_handles ! (i - command_handle_code NO_COMMAND_HANDLE)
      | None \<Rightarrow> NO_COMMAND_HANDLE)"

definition commandHandleValueName :: "nat \<Rightarrow> string" where
  "commandHandleValueName handle =
     (if handle \<le> command_handle_code NO_COMMAND_HANDLE \<or> handle \<ge> COMMAND_HANDLE_MAX
      then ALL_COMMAND_HANDLE_NAMES ! 0
      else ALL_COMMAND_HANDLE_NAMES ! (handle - command_handle_code NO_COMMAND_HANDLE))"

section \<open>Node types\<close>

datatype node_type =
    NodeType_uninitialized | NodeType_NodeList | NodeType_Command | NodeType_Assignment
  | NodeType_Update | NodeType_Empty | NodeType_LibraryNodeCall | NodeType_error

text \<open>
  A C string is the list of its characters without the terminator; \<open>char_at s i\<close> is what
  \<open>s[i]\<close> reads, the terminator included.
\<close>

definition char_at :: "string \<Rightarrow> nat \<Rightarrow> char" where
  "char_at s i = (if i < length s then s ! i else CHR 0x00)"

definition parseNodeType :: "string \<Rightarrow> node_type" where
  "parseNodeType typeName =
     (let c = char_at typeName 0 in
      if c = CHR ''A'' \<and> typeName = ''Assignment'' then NodeType_Assignment
      else if c = CHR ''C'' \<and> typeName = ''Command'' then NodeType_Command
      else if c = CHR ''E'' \<and> typeName = ''Empty'' then NodeType_Empty
      else if c = CHR ''L'' \<and> typeName = ''LibraryNodeCall'' then NodeType_LibraryNodeCall
      else if c = CHR ''N'' \<and> typeName = ''NodeList'' then NodeType_NodeList
      else if c = CHR ''U'' \<and> typeName = ''Update'' then NodeType_Update
      else NodeType_error)"

definition nodeTypeString :: "node_type \<Rightarrow> string result" where
  "nodeTypeString nodeType =
     (case nodeType of
        NodeType_uninitialized \<Rightarrow> Inl AssertFailed
      | NodeType_NodeList \<Rightarrow> Inr ''NodeList''
      | NodeType_Command \<Rightarrow> Inr ''Command''
      | NodeType_Assignment \<Rightarrow> Inr ''Assignment''
      | NodeType_Update \<Rightarrow> Inr ''Update''
      | NodeType_Empty \<Rightarrow> Inr ''Empty''
      | NodeType_LibraryNodeCall \<Rightarrow> Inr ''LibraryNodeCall''
      | NodeType_error \<Rightarrow> Inl AssertFailed)"

section \<open>Queue statuses\<close>

datatype queue_status =
    QUEUE_NONE | QUEUE_CHECK | QUEUE_PENDING_TRY | QUEUE_PENDING_TRY_CHECK | QUEUE_PENDING
  | QUEUE_PENDING_CHECK | QUEUE_TRANSITION | QUEUE_TRANSITION_CHECK | QUEUE_DELETE

section \<open>Condition indices\<close>

datatype cond_index =
    ancestorExitIdx | ancestorInvariantIdx | ancestorEndIdx
  | skipIdx | startIdx | preIdx | exitIdx | invariantIdx | endIdx | postIdx | repeatIdx
  | actionCompleteIdx | abortCompleteIdx | conditionIndexMax

text \<open>The table \<open>ALL_CONDITIONS\<close>; the entry past the last condition is a null pointer.\<close>

fun ALL_CONDITIONS :: "cond_index \<Rightarrow> string option" where
  "ALL_CONDITIONS ancestorExitIdx = Some ''AncestorExitCondition''"
| "ALL_CONDITIONS ancestorInvariantIdx = Some ''AncestorInvariantCondition''"
| "ALL_CONDITIONS ancestorEndIdx = Some ''AncestorEndCondition''"
| "ALL_CONDITIONS skipIdx = Some ''SkipCondition''"
| "ALL_CONDITIONS startIdx = Some ''StartCondition''"
| "ALL_CONDITIONS preIdx = Some ''PreCondition''"
| "ALL_CONDITIONS exitIdx = Some ''ExitCondition''"
| "ALL_CONDITIONS invariantIdx = Some ''InvariantCondition''"
| "ALL_CONDITIONS endIdx = Some ''EndCondition''"
| "ALL_CONDITIONS postIdx = Some ''PostCondition''"
| "ALL_CONDITIONS repeatIdx = Some ''RepeatCondition''"
| "ALL_CONDITIONS actionCompleteIdx = Some ''ActionCompleteCondition''"
| "ALL_CONDITIONS abortCompleteIdx = Some ''AbortCompleteCondition''"
| "ALL_CONDITIONS conditionIndexMax = None"

text \<open>
  \<open>getConditionIndex\<close> guesses the only possible index from one or two characters, then
  compares the whole name with the table (\<open>strcmp\<close>).
\<close>

definition guessConditionIndex :: "string \<Rightarrow> cond_index" where
  "guessConditionIndex cName =
     (let c = char_at cName 0 in
      if c = CHR ''A'' then
        (if length cName < 11 then conditionIndexMax
         else let d = char_at cName 10 in
           if d = CHR ''d'' then ancestorEndIdx
           else if d = CHR ''e'' then abortCompleteIdx
           else if d = CHR ''i'' then ancestorExitIdx
           else if d = CHR ''l'' then abortCompleteIdx
           else if d = CHR ''v'' then ancestorInvariantIdx
           else conditionIndexMax)
      else if c = CHR ''E'' then (if char_at cName 1 = CHR ''n'' then endIdx else exitIdx)
      else if c = CHR ''I'' then invariantIdx
      else if c = CHR ''P'' then (if char_at cName 1 = CHR ''o'' then postIdx else preIdx)
      else if c = CHR ''R'' then repeatIdx
      else if c = CHR ''S'' then (if char_at cName 1 = CHR ''k'' then skipIdx else startIdx)
      else conditionIndexMax)"

definition getConditionIndex :: "string \<Rightarrow> cond_index" where
  "getConditionIndex cName =
     (let result = guessConditionIndex cName in
      if ALL_CONDITIONS result \<noteq> Some cName then conditionIndexMax else result)"

section \<open>Properties\<close>

text \<open>
  Instances of the library's order classes: the C++ enumerations are compared by their
  codes.
\<close>

instantiation node_state :: linorder
begin

definition less_eq_node_state :: "node_state \<Rightarrow> node_state \<Rightarrow> bool" where
  "less_eq_node_state a b \<longleftrightarrow> node_state_code a \<le> node_state_code b"

definition less_node_state :: "node_state \<Rightarrow> node_state \<Rightarrow> bool" where
  "less_node_state a b \<longleftrightarrow> node_state_code a < node_state_code b"

instance
proof
  fix x y z :: node_state
  show "(x < y) = (x \<le> y \<and> \<not> y \<le> x)"
    by (auto simp: less_eq_node_state_def less_node_state_def)
  show "x \<le> x" by (simp add: less_eq_node_state_def)
  show "x \<le> y \<Longrightarrow> y \<le> z \<Longrightarrow> x \<le> z" by (simp add: less_eq_node_state_def)
  show "x \<le> y \<Longrightarrow> y \<le> x \<Longrightarrow> x = y"
    by (cases x; cases y) (simp_all add: less_eq_node_state_def)
  show "x \<le> y \<or> y \<le> x" by (auto simp: less_eq_node_state_def)
qed

end

lemma upt_8: "[Suc 0..<8] = [1, 2, 3, 4, 5, 6, 7::nat]" by (simp add: upt_rec)
lemma upt_17_21: "[17..<21] = [17, 18, 19, 20::nat]" by (simp add: upt_rec)
lemma upt_33_39: "[33..<39] = [33, 34, 35, 36, 37, 38::nat]" by (simp add: upt_rec)
lemma upt_49_58: "[49..<58] = [49, 50, 51, 52, 53, 54, 55, 56, 57::nat]" by (simp add: upt_rec)

lemmas state_name_defs =
  parseNodeState_def nodeStateName_def NODE_STATE_MAX_def ALL_STATE_NAMES_def
  all_node_states_def upt_8
lemmas outcome_name_defs =
  parseNodeOutcome_def outcomeName_def OUTCOME_MAX_def ALL_OUTCOME_NAMES_def
  all_node_outcomes_def upt_17_21
lemmas failure_name_defs =
  parseFailureType_def failureTypeName_def FAILURE_TYPE_MAX_def ALL_FAILURE_NAMES_def
  all_failure_types_def upt_33_39
lemmas handle_name_defs =
  parseCommandHandleValue_def commandHandleValueName_def COMMAND_HANDLE_MAX_def
  ALL_COMMAND_HANDLE_NAMES_def all_command_handles_def upt_49_58

lemma parse_nodeStateName: "parseNodeState (nodeStateName (node_state_code s)) = s"
  by (cases s) (simp_all add: state_name_defs)

lemma parse_outcomeName: "parseNodeOutcome (outcomeName (node_outcome_code s)) = s"
  by (cases s) (simp_all add: outcome_name_defs)

lemma parse_failureTypeName: "parseFailureType (failureTypeName (failure_type_code s)) = s"
  by (cases s) (simp_all add: failure_name_defs)

lemma parse_commandHandleValueName:
  "parseCommandHandleValue (commandHandleValueName (command_handle_code s)) = s"
  by (cases s) (simp_all add: handle_name_defs)

lemma guess_of_name:
  "ALL_CONDITIONS i = Some n \<Longrightarrow> i \<noteq> actionCompleteIdx \<Longrightarrow> guessConditionIndex n = i"
  by (cases i) (auto simp: guessConditionIndex_def char_at_def)

lemma guess_actionComplete: "guessConditionIndex ''ActionCompleteCondition'' = abortCompleteIdx"
  by (simp add: guessConditionIndex_def char_at_def)

lemma guess_not_actionComplete: "guessConditionIndex n \<noteq> actionCompleteIdx"
  by (simp add: guessConditionIndex_def Let_def)

lemma ALL_CONDITIONS_inject:
  "ALL_CONDITIONS i = Some n \<Longrightarrow> ALL_CONDITIONS j = Some n \<Longrightarrow> i = j"
  by (cases i; cases j) auto

lemma nodeTypeString_parse:
  "nodeTypeString t = Inr nm \<Longrightarrow> parseNodeType nm = t \<and> t \<noteq> NodeType_error"
  by (cases t) (auto simp: nodeTypeString_def parseNodeType_def char_at_def)

lemma parse_nodeTypeString:
  "parseNodeType nm = t \<Longrightarrow> t \<noteq> NodeType_error \<Longrightarrow> nodeTypeString t = Inr nm"
  unfolding parseNodeType_def Let_def nodeTypeString_def by (auto split: if_splits)

text \<open>
  Printing and parsing agree: each node state, outcome, failure type and
  command handle is what its printed name parses to, and for node types printing and
  parsing are exact inverses of each other on the six types a plan can have.
\<close>

theorem names_round_trip:
  "parseNodeState (nodeStateName (node_state_code s)) = s \<and>
   parseNodeOutcome (outcomeName (node_outcome_code oc)) = oc \<and>
   parseFailureType (failureTypeName (failure_type_code f)) = f \<and>
   parseCommandHandleValue (commandHandleValueName (command_handle_code h)) = h \<and>
   (nodeTypeString t = Inr nm) = (parseNodeType nm = t \<and> t \<noteq> NodeType_error)"
  using parse_nodeStateName parse_outcomeName parse_failureTypeName parse_commandHandleValueName
    nodeTypeString_parse parse_nodeTypeString
  by blast

text \<open>
  Property C36. \<open>getConditionIndex\<close> returns the index of a condition exactly for the names of
  the table \<open>ALL_CONDITIONS\<close> other than the action-complete condition's: it guesses the
  abort-complete index for that name, so the comparison with the table fails and the name
  is reported as unknown.
\<close>

theorem getConditionIndex_exact:
  "getConditionIndex n = i \<longleftrightarrow>
     (if i = conditionIndexMax
      then \<not> (\<exists>j. ALL_CONDITIONS j = Some n \<and> j \<noteq> actionCompleteIdx)
      else ALL_CONDITIONS i = Some n \<and> i \<noteq> actionCompleteIdx)"
proof (cases "\<exists>j. ALL_CONDITIONS j = Some n \<and> j \<noteq> actionCompleteIdx")
  case True
  then obtain j where j: "ALL_CONDITIONS j = Some n" "j \<noteq> actionCompleteIdx" by blast
  then have "getConditionIndex n = j" and "j \<noteq> conditionIndexMax"
    by (auto simp: getConditionIndex_def guess_of_name)
  with j show ?thesis using ALL_CONDITIONS_inject by auto
next
  case False
  then have "ALL_CONDITIONS (guessConditionIndex n) \<noteq> Some n"
    using guess_not_actionComplete by blast
  with False show ?thesis by (auto simp: getConditionIndex_def)
qed

end
