(* ===== verification/Linked_Queue.thy ===== *)
theory Linked_Queue
  imports Prelude "HOL-Library.Multiset"
begin

text \<open>
  The intrusive queues of src/src/utils/LinkedQueue.hh: \<open>LinkedQueue\<close>, a singly linked
  list threaded through the \<open>next\<close> pointer of its items, and \<open>PriorityQueue\<close>, the same
  list kept in nondecreasing order. The model keeps the pointers: the heap is the map from
  an item to its \<open>next\<close> pointer, a queue is the record of its three member variables,
  and an operation acts on the pair. \<open>queue_rep\<close> relates the pair to the list of items;
  the executive's model uses that list.
\<close>

section \<open>Member variables and heap\<close>

record 'a linked_queue =
  m_head :: "'a option"
  m_tail :: "'a option"
  m_count :: nat

type_synonym 'a next_heap = "'a \<Rightarrow> 'a option"

type_synonym 'a qstate = "'a next_heap \<times> 'a linked_queue"

definition empty_queue :: "'a linked_queue" where
  "empty_queue = \<lparr>m_head = None, m_tail = None, m_count = 0\<rparr>"

text \<open>\<open>*p->nextPtr() = v\<close> for a pointer \<open>p\<close>; a null \<open>p\<close> is undefined behaviour.\<close>

definition set_next :: "'a option \<Rightarrow> 'a option \<Rightarrow> 'a next_heap \<Rightarrow> 'a next_heap result" where
  "set_next p v nxt = (case p of None \<Rightarrow> Inl NullPointer | Some a \<Rightarrow> Inr (nxt(a := v)))"

section \<open>LinkedQueue operations\<close>

definition lq_front :: "'a qstate \<Rightarrow> 'a option" where
  "lq_front s = m_head (snd s)"

definition lq_empty :: "'a qstate \<Rightarrow> bool" where
  "lq_empty s \<longleftrightarrow> m_head (snd s) = None"

definition lq_pop :: "'a qstate \<Rightarrow> 'a qstate result" where
  "lq_pop s = (let nxt = fst s; q = snd s in
     (case m_head q of
        None \<Rightarrow> Inr s
      | Some oldHead \<Rightarrow>
          bindE (if m_head q = m_tail q then Inr (q\<lparr>m_head := None, m_tail := None\<rparr>)
                 else bindE (check AssertFailed (nxt oldHead \<noteq> None))
                        (\<lambda>_. Inr (q\<lparr>m_head := nxt oldHead\<rparr>)))
            (\<lambda>q. Inr (nxt(oldHead := None), q\<lparr>m_count := m_count q - 1\<rparr>))))"

definition lq_push :: "'a \<Rightarrow> 'a qstate \<Rightarrow> 'a qstate result" where
  "lq_push item s = (let nxt = fst s; q = snd s in
     bindE (check AssertFailed (nxt item = None)) (\<lambda>_.
     let nxt = nxt(item := None) in
     bindE (if m_head q = None then Inr (nxt, q\<lparr>m_head := Some item\<rparr>)
            else bindE (set_next (m_tail q) (Some item) nxt) (\<lambda>nxt. Inr (nxt, q)))
       (\<lambda>(nxt, q). Inr (nxt, q\<lparr>m_tail := Some item, m_count := m_count q + 1\<rparr>))))"

text \<open>
  \<open>insert_after\<close> with the iterator as an optional item. The source stores \<open>nxt\<close>, which is
  null there, into \<open>m_tail\<close>.
\<close>

definition lq_insert_after :: "'a option \<Rightarrow> 'a \<Rightarrow> 'a qstate \<Rightarrow> 'a qstate result" where
  "lq_insert_after it item s =
     (case it of
        None \<Rightarrow> lq_push item s
      | Some i \<Rightarrow>
          (let n = fst s i;
               nxt = ((fst s)(i := Some item))(item := n);
               q = (if n = None then (snd s)\<lparr>m_tail := n\<rparr> else snd s)
           in Inr (nxt, q\<lparr>m_count := m_count q + 1\<rparr>)))"

text \<open>
  The search loop shared by \<open>remove\<close> and \<open>remove_if\<close>: \<open>Some (Some (prev, cur))\<close> when an
  item satisfying the predicate is found, \<open>Some None\<close> at the end of the list, \<open>None\<close> when
  the pointers form a cycle and the loop does not return.
\<close>

partial_function (option) find_prev ::
  "'a next_heap \<Rightarrow> ('a \<Rightarrow> bool) \<Rightarrow> 'a option \<Rightarrow> 'a option \<Rightarrow> ('a option \<times> 'a) option option"
where
  "find_prev nxt pred prev cur =
     (case cur of
        None \<Rightarrow> Some None
      | Some c \<Rightarrow> if pred c then Some (Some (prev, c)) else find_prev nxt pred (Some c) (nxt c))"

definition lq_remove_if :: "('a \<Rightarrow> bool) \<Rightarrow> 'a qstate \<Rightarrow> ('a option \<times> 'a qstate) option" where
  "lq_remove_if pred s = (let nxt = fst s; q = snd s in
     (case find_prev nxt pred None (m_head q) of
        None \<Rightarrow> None
      | Some None \<Rightarrow> Some (None, s)
      | Some (Some (prev, c)) \<Rightarrow>
          (let q1 = (case prev of None \<Rightarrow> q\<lparr>m_head := nxt c\<rparr> | Some p \<Rightarrow> q);
               nxt1 = (case prev of None \<Rightarrow> nxt | Some p \<Rightarrow> nxt(p := nxt c));
               q2 = (if Some c = m_tail q1 then q1\<lparr>m_tail := prev\<rparr> else q1)
           in Some (Some c, nxt1(c := None), q2\<lparr>m_count := m_count q2 - 1\<rparr>))))"

definition lq_remove :: "'a \<Rightarrow> 'a qstate \<Rightarrow> 'a qstate option" where
  "lq_remove item s = map_option snd (lq_remove_if (\<lambda>c. c = item) s)"

partial_function (option) clear_loop :: "'a next_heap \<Rightarrow> 'a option \<Rightarrow> 'a next_heap option" where
  "clear_loop nxt cur =
     (case cur of None \<Rightarrow> Some nxt | Some c \<Rightarrow> clear_loop (nxt(c := None)) (nxt c))"

definition lq_clear :: "'a qstate \<Rightarrow> 'a qstate option" where
  "lq_clear s = map_option (\<lambda>nxt. (nxt, empty_queue)) (clear_loop (fst s) (m_head (snd s)))"

section \<open>PriorityQueue insertion\<close>

text \<open>The loop that looks for the first entry greater than the item.\<close>

partial_function (option) find_greater ::
  "'a next_heap \<Rightarrow> ('a \<Rightarrow> 'a \<Rightarrow> bool) \<Rightarrow> 'a \<Rightarrow> 'a option \<Rightarrow> 'a option \<Rightarrow>
   ('a option \<times> 'a option) option"
where
  "find_greater nxt lt item prev cur =
     (case cur of
        None \<Rightarrow> Some (prev, None)
      | Some c \<Rightarrow> if lt item c then Some (prev, Some c)
                  else find_greater nxt lt item (Some c) (nxt c))"

definition pq_insert :: "('a \<Rightarrow> 'a \<Rightarrow> bool) \<Rightarrow> 'a \<Rightarrow> 'a qstate \<Rightarrow> 'a qstate result option" where
  "pq_insert lt item s = (let nxt = fst s; q = snd s in
     (case m_head q of
        None \<Rightarrow> Some (lq_push item s)
      | Some h \<Rightarrow>
          (case find_greater nxt lt item None (m_head q) of
             None \<Rightarrow> None
           | Some (prev, Some c) \<Rightarrow>
               (let nxt1 = nxt(item := Some c);
                    nxt2 = (case prev of None \<Rightarrow> nxt1 | Some p \<Rightarrow> nxt1(p := Some item));
                    q1 = (case prev of None \<Rightarrow> q\<lparr>m_head := Some item\<rparr> | Some p \<Rightarrow> q)
                in Some (Inr (nxt2, q1\<lparr>m_count := m_count q1 + 1\<rparr>)))
           | Some (prev, None) \<Rightarrow>
               Some (bindE (set_next (m_tail q) (Some item) (nxt(item := None)))
                 (\<lambda>nxt. Inr (nxt, q\<lparr>m_tail := Some item, m_count := m_count q + 1\<rparr>))))))"

section \<open>The list a queue represents\<close>

primrec chain :: "'a next_heap \<Rightarrow> 'a option \<Rightarrow> 'a list \<Rightarrow> 'a option \<Rightarrow> bool" where
  "chain nxt p [] r \<longleftrightarrow> p = r"
| "chain nxt p (x # xs) r \<longleftrightarrow> p = Some x \<and> chain nxt (nxt x) xs r"

definition last_opt :: "'a list \<Rightarrow> 'a option" where
  "last_opt xs = (if xs = [] then None else Some (last xs))"

definition queue_rep :: "'a qstate \<Rightarrow> 'a list \<Rightarrow> bool" where
  "queue_rep s xs \<longleftrightarrow>
     chain (fst s) (m_head (snd s)) xs None \<and> distinct xs \<and>
     m_tail (snd s) = last_opt xs \<and> m_count (snd s) = length xs"

text \<open>The item is in no queue: its pointer is null and it is not among the items.\<close>

definition unlinked :: "'a qstate \<Rightarrow> 'a \<Rightarrow> bool" where
  "unlinked s x \<longleftrightarrow> fst s x = None"

lemma find_prev_simps [simp]:
  "find_prev nxt pred prev None = Some None"
  "find_prev nxt pred prev (Some c) =
     (if pred c then Some (Some (prev, c)) else find_prev nxt pred (Some c) (nxt c))"
  by (simp_all add: find_prev.simps)

lemma find_greater_simps [simp]:
  "find_greater nxt lt item prev None = Some (prev, None)"
  "find_greater nxt lt item prev (Some c) =
     (if lt item c then Some (prev, Some c) else find_greater nxt lt item (Some c) (nxt c))"
  by (simp_all add: find_greater.simps)

lemma clear_loop_simps [simp]:
  "clear_loop nxt None = Some nxt"
  "clear_loop nxt (Some c) = clear_loop (nxt(c := None)) (nxt c)"
  by (simp_all add: clear_loop.simps)

lemma last_opt_simps [simp]:
  "last_opt [] = None"
  "last_opt [x] = Some x"
  "last_opt (xs @ [x]) = Some x"
  "last_opt (xs @ y # ys) = last_opt (y # ys)"
  by (simp_all add: last_opt_def)

lemma last_opt_None [simp]: "last_opt xs = None \<longleftrightarrow> xs = []"
  by (simp add: last_opt_def)

lemma chain_append [simp]:
  "chain nxt p (xs @ ys) r \<longleftrightarrow> (\<exists>q. chain nxt p xs q \<and> chain nxt q ys r)"
  by (induction xs arbitrary: p) auto

lemma chain_upd [simp]: "x \<notin> set xs \<Longrightarrow> chain (nxt(x := v)) p xs r = chain nxt p xs r"
  by (induction xs arbitrary: p) auto

lemma chain_None_start: "chain nxt None xs r \<longleftrightarrow> xs = [] \<and> r = None"
  by (cases xs) auto

lemma queue_rep_empty: "queue_rep (nxt, empty_queue) []"
  by (simp add: queue_rep_def empty_queue_def)

lemma queue_rep_head:
  "queue_rep s xs \<Longrightarrow> m_head (snd s) = (case xs of [] \<Rightarrow> None | x # _ \<Rightarrow> Some x)"
  by (cases xs) (auto simp: queue_rep_def)

lemma queue_rep_unique: "queue_rep s xs \<Longrightarrow> queue_rep s ys \<Longrightarrow> xs = ys"
proof -
  have "chain nxt p xs None \<Longrightarrow> chain nxt p ys None \<Longrightarrow> xs = ys" for nxt :: "'a next_heap" and p
    by (induction xs arbitrary: ys p; case_tac ys) auto
  then show "queue_rep s xs \<Longrightarrow> queue_rep s ys \<Longrightarrow> xs = ys"
    unfolding queue_rep_def by blast
qed

text \<open>The abstract operations on the list of items.\<close>

definition insert_prio :: "('a \<Rightarrow> 'a \<Rightarrow> bool) \<Rightarrow> 'a \<Rightarrow> 'a list \<Rightarrow> 'a list" where
  "insert_prio lt x xs =
     takeWhile (\<lambda>c. \<not> lt x c) xs @ x # dropWhile (\<lambda>c. \<not> lt x c) xs"

lemma set_insert_prio [simp]: "set (insert_prio lt x xs) = insert x (set xs)"
  unfolding insert_prio_def
  by (subst (3) takeWhile_dropWhile_id [of "\<lambda>c. \<not> lt x c" xs, symmetric]) (simp only: set_append, auto)

lemma distinct_insert_prio [simp]:
  "distinct (insert_prio lt x xs) \<longleftrightarrow> x \<notin> set xs \<and> distinct xs"
proof -
  have "distinct (as @ x # bs) \<longleftrightarrow> x \<notin> set (as @ bs) \<and> distinct (as @ bs)" for as bs
    by auto
  then show ?thesis
    by (simp only: insert_prio_def takeWhile_dropWhile_id)
qed

lemma length_insert_prio [simp]: "length (insert_prio lt x xs) = Suc (length xs)"
proof -
  have "length (takeWhile P xs) + length (dropWhile P xs) = length xs" for P
    by (metis length_append takeWhile_dropWhile_id)
  then show ?thesis by (simp add: insert_prio_def)
qed

section \<open>Each operation refines its operation on lists\<close>

lemma lq_front_rep: "queue_rep s xs \<Longrightarrow> lq_front s = (case xs of [] \<Rightarrow> None | x # _ \<Rightarrow> Some x)"
  by (simp add: lq_front_def queue_rep_head)

lemma lq_empty_rep: "queue_rep s xs \<Longrightarrow> lq_empty s \<longleftrightarrow> xs = []"
  by (cases xs) (auto simp: lq_empty_def queue_rep_def)

lemma lq_push_rep:
  assumes "queue_rep s xs" and "x \<notin> set xs" and "unlinked s x"
  shows "\<exists>s'. lq_push x s = Inr s' \<and> queue_rep s' (xs @ [x])"
proof (cases xs rule: rev_cases)
  case Nil
  with assms show ?thesis
    by (auto simp: queue_rep_def lq_push_def unlinked_def)
next
  case (snoc ys t)
  with assms show ?thesis
    by (cases "m_head (snd s)")
      (auto simp: queue_rep_def lq_push_def unlinked_def set_next_def chain_None_start
        Let_def last_opt_def)
qed

lemma lq_pop_rep:
  assumes "queue_rep s (x # xs)"
  shows "\<exists>s'. lq_pop s = Inr s' \<and> queue_rep s' xs \<and> unlinked s' x"
proof (cases xs)
  case Nil
  with assms show ?thesis
    by (auto simp: queue_rep_def lq_pop_def unlinked_def last_opt_def)
next
  case (Cons y ys)
  with assms have "last_opt (x # xs) = last_opt xs" and "last_opt xs \<noteq> Some x"
    by (auto simp: last_opt_def queue_rep_def)
  with Cons assms show ?thesis
    by (auto simp: queue_rep_def lq_pop_def unlinked_def)
qed

lemma lq_pop_empty: "queue_rep s [] \<Longrightarrow> lq_pop s = Inr s"
  by (simp add: queue_rep_def lq_pop_def)

lemma find_prev_segment:
  assumes "chain nxt cur (as @ c # bs) None" and "\<forall>a \<in> set as. \<not> pred a" and "pred c"
  shows "find_prev nxt pred prev cur = Some (Some (if as = [] then prev else last_opt as, c))"
  using assms
proof (induction as arbitrary: prev cur)
  case Nil
  then show ?case by simp
next
  case (Cons a as)
  then show ?case by (auto simp: last_opt_def)
qed

lemma find_prev_none:
  assumes "chain nxt cur as None" and "\<forall>a \<in> set as. \<not> pred a"
  shows "find_prev nxt pred prev cur = Some None"
  using assms
proof (induction as arbitrary: prev cur)
  case Nil
  then show ?case by simp
next
  case (Cons a as)
  then show ?case by auto
qed

lemma lq_remove_if_found:
  assumes rep: "queue_rep s (as @ c # bs)" and "\<forall>a \<in> set as. \<not> pred a" and "pred c"
  shows "\<exists>s'. lq_remove_if pred s = Some (Some c, s') \<and> queue_rep s' (as @ bs) \<and> unlinked s' c"
proof -
  have fp: "find_prev (fst s) pred None (m_head (snd s)) = Some (Some (last_opt as, c))"
    using find_prev_segment [of "fst s" "m_head (snd s)" as c bs pred None] assms
    by (auto simp: queue_rep_def split: if_splits)
  have tail: "bs \<noteq> [] \<Longrightarrow> last bs \<noteq> c"
    using rep by (auto simp: queue_rep_def dest: last_in_set)
  show ?thesis
  proof (cases as rule: rev_cases)
    case Nil
    with rep fp tail show ?thesis
      by (cases "bs = []") (auto simp: lq_remove_if_def Let_def queue_rep_def unlinked_def last_opt_def)
  next
    case (snoc as' p)
    with rep fp tail show ?thesis
      by (cases "bs = []") (auto simp: lq_remove_if_def Let_def queue_rep_def unlinked_def last_opt_def)
  qed
qed

lemma lq_remove_if_missing:
  "queue_rep s xs \<Longrightarrow> \<forall>a \<in> set xs. \<not> pred a \<Longrightarrow> lq_remove_if pred s = Some (None, s)"
  by (auto simp: lq_remove_if_def queue_rep_def find_prev_none)

lemma lq_remove_rep:
  assumes rep: "queue_rep s xs"
  shows "\<exists>s'. lq_remove x s = Some s' \<and> queue_rep s' (remove1 x xs) \<and> (x \<in> set xs \<longrightarrow> unlinked s' x)"
proof (cases "x \<in> set xs")
  case True
  then obtain as bs where xs: "xs = as @ x # bs" and "x \<notin> set as"
    by (meson split_list_first)
  then have "remove1 x xs = as @ bs" by (simp add: remove1_append)
  moreover have "\<exists>s'. lq_remove_if (\<lambda>c. c = x) s = Some (Some x, s') \<and> queue_rep s' (as @ bs) \<and> unlinked s' x"
    using rep xs \<open>x \<notin> set as\<close> by (intro lq_remove_if_found) auto
  ultimately show ?thesis by (auto simp: lq_remove_def)
next
  case False
  then have "lq_remove_if (\<lambda>c. c = x) s = Some (None, s)"
    using rep by (intro lq_remove_if_missing) auto
  with False rep show ?thesis by (simp add: lq_remove_def remove1_idem)
qed

lemma find_greater_segment:
  assumes "chain nxt cur xs None"
  shows "find_greater nxt lt x prev cur =
     Some (if takeWhile (\<lambda>c. \<not> lt x c) xs = [] then prev
           else last_opt (takeWhile (\<lambda>c. \<not> lt x c) xs),
           case dropWhile (\<lambda>c. \<not> lt x c) xs of [] \<Rightarrow> None | c # _ \<Rightarrow> Some c)"
  using assms
proof (induction xs arbitrary: prev cur)
  case Nil
  then show ?case by simp
next
  case (Cons a xs)
  then show ?case by (auto simp: last_opt_def)
qed

lemma pq_insert_split:
  assumes rep: "queue_rep s (as @ bs)" and x: "x \<notin> set (as @ bs)" "unlinked s x"
    and fg: "find_greater (fst s) lt x None (m_head (snd s)) =
      Some (last_opt as, case bs of [] \<Rightarrow> None | c # _ \<Rightarrow> Some c)"
  shows "\<exists>s'. pq_insert lt x s = Some (Inr s') \<and> queue_rep s' (as @ x # bs)"
proof (cases bs)
  case Nil
  show ?thesis
  proof (cases as rule: rev_cases)
    case (snoc as' p)
    with rep x fg Nil show ?thesis
      by (cases "m_head (snd s)")
        (auto simp: pq_insert_def queue_rep_def set_next_def chain_None_start last_opt_def Let_def)
  next
    case as_Nil: Nil
    with rep Nil have "pq_insert lt x s = Some (lq_push x s)"
      by (simp add: pq_insert_def queue_rep_def)
    moreover have "\<exists>s'. lq_push x s = Inr s' \<and> queue_rep s' ([] @ [x])"
      using rep x as_Nil Nil by (intro lq_push_rep) simp_all
    ultimately show ?thesis using as_Nil Nil by simp
  qed
next
  case (Cons c cs)
  have last: "last_opt (as @ x # bs) = last_opt bs"
    using Cons by (simp add: last_opt_def)
  show ?thesis
  proof (cases as rule: rev_cases)
    case Nil
    with rep x fg Cons last show ?thesis
      by (auto simp: pq_insert_def queue_rep_def Let_def last_opt_def)
  next
    case (snoc as' p)
    with rep x fg Cons last show ?thesis
      by (cases "m_head (snd s)")
        (auto simp: pq_insert_def queue_rep_def Let_def chain_None_start last_opt_def)
  qed
qed

lemma pq_insert_rep:
  assumes "queue_rep s xs" and "x \<notin> set xs" and "unlinked s x"
  shows "\<exists>s'. pq_insert lt x s = Some (Inr s') \<and> queue_rep s' (insert_prio lt x xs)"
  unfolding insert_prio_def
proof (rule pq_insert_split)
  show "queue_rep s (takeWhile (\<lambda>c. \<not> lt x c) xs @ dropWhile (\<lambda>c. \<not> lt x c) xs)"
    using assms by simp
  show "x \<notin> set (takeWhile (\<lambda>c. \<not> lt x c) xs @ dropWhile (\<lambda>c. \<not> lt x c) xs)"
    using assms by simp
  show "unlinked s x" by fact
  show "find_greater (fst s) lt x None (m_head (snd s)) =
    Some (last_opt (takeWhile (\<lambda>c. \<not> lt x c) xs),
      case dropWhile (\<lambda>c. \<not> lt x c) xs of [] \<Rightarrow> None | c # _ \<Rightarrow> Some c)"
    using assms by (subst find_greater_segment [of _ _ xs]) (auto simp: queue_rep_def)
qed

lemma clear_loop_rep:
  "chain nxt p xs None \<Longrightarrow> distinct xs \<Longrightarrow>
   clear_loop nxt p = Some (\<lambda>a. if a \<in> set xs then None else nxt a)"
proof (induction xs arbitrary: nxt p)
  case Nil
  then show ?case by simp
next
  case (Cons x xs)
  then have "clear_loop (nxt(x := None)) (nxt x) =
      Some (\<lambda>a. if a \<in> set xs then None else (nxt(x := None)) a)"
    by (intro Cons.IH) (auto simp del: fun_upd_apply)
  moreover have "(\<lambda>a. if a \<in> set xs then None else (nxt(x := None)) a) =
      (\<lambda>a. if a \<in> set (x # xs) then None else nxt a)"
    by (auto simp: fun_eq_iff)
  ultimately show ?case using Cons.prems by simp
qed

lemma lq_clear_rep:
  assumes "queue_rep s xs"
  shows "\<exists>s'. lq_clear s = Some s' \<and> queue_rep s' [] \<and> (\<forall>x \<in> set xs. unlinked s' x)"
  using assms
  by (auto simp: lq_clear_def queue_rep_def clear_loop_rep unlinked_def empty_queue_def)

section \<open>Sortedness and stability of the priority queue\<close>

definition lt_by :: "('a \<Rightarrow> 'k::linorder) \<Rightarrow> 'a \<Rightarrow> 'a \<Rightarrow> bool" where
  "lt_by key x y \<longleftrightarrow> key x < key y"

lemma insert_prio_Nil [simp]: "insert_prio lt x [] = [x]"
  by (simp add: insert_prio_def)

lemma insert_prio_Cons [simp]:
  "insert_prio lt x (y # ys) = (if lt x y then x # y # ys else y # insert_prio lt x ys)"
  by (simp add: insert_prio_def)

lemma sorted_insert_prio:
  "sorted (map key xs) \<Longrightarrow> sorted (map key (insert_prio (lt_by key) x xs))"
  by (induction xs) (auto simp: lt_by_def)

lemma filter_insert_prio_same:
  "sorted (map key xs) \<Longrightarrow>
   filter (\<lambda>y. key y = k) (insert_prio (lt_by key) x xs) =
     filter (\<lambda>y. key y = k) xs @ (if key x = k then [x] else [])"
proof (induction xs)
  case Nil
  then show ?case by simp
next
  case (Cons y ys)
  show ?case
  proof (cases "key x < key y")
    case True
    with Cons.prems have "\<forall>z \<in> set (y # ys). key z \<noteq> key x" by force
    then have "key x = k \<Longrightarrow> filter (\<lambda>z. key z = k) (y # ys) = []" by (auto simp: filter_empty_conv)
    with True show ?thesis by (auto simp: lt_by_def)
  next
    case False
    with Cons show ?thesis by (auto simp: lt_by_def)
  qed
qed

section \<open>Frame: items outside the queue keep their pointer\<close>

lemma lq_push_frame:
  "lq_push x s = Inr s' \<Longrightarrow> queue_rep s xs \<Longrightarrow> y \<notin> set xs \<Longrightarrow> y \<noteq> x \<Longrightarrow> fst s' y = fst s y"
  by (cases xs rule: rev_cases)
    (auto simp: lq_push_def Let_def set_next_def queue_rep_def last_opt_def
      split: if_splits option.splits)

lemma lq_pop_frame:
  "lq_pop s = Inr s' \<Longrightarrow> queue_rep s xs \<Longrightarrow> y \<notin> set xs \<Longrightarrow> fst s' y = fst s y"
  by (cases xs) (auto simp: lq_pop_def Let_def queue_rep_def split: if_splits)

lemma find_greater_prev_in:
  "find_greater nxt lt x prev cur = Some (Some p, r) \<Longrightarrow> chain nxt cur xs None \<Longrightarrow>
   prev = Some p \<or> p \<in> set xs"
  by (induction xs arbitrary: prev cur) (auto split: if_splits)

lemma pq_insert_frame:
  assumes ins: "pq_insert lt x s = Some (Inr s')" and rep: "queue_rep s xs"
    and y: "y \<notin> set xs" "y \<noteq> x"
  shows "fst s' y = fst s y"
proof (cases "m_head (snd s)")
  case None
  with ins have "lq_push x s = Inr s'" by (simp add: pq_insert_def)
  then show ?thesis using rep y by (rule lq_push_frame)
next
  case (Some h)
  have chain: "chain (fst s) (Some h) xs None" using rep Some by (simp add: queue_rep_def)
  then have tail: "m_tail (snd s) \<noteq> Some y"
    using rep y by (auto simp: queue_rep_def last_opt_def)
  obtain prev r where fg: "find_greater (fst s) lt x None (Some h) = Some (prev, r)"
    using find_greater_segment [OF chain] by blast
  then have prev: "prev \<noteq> Some y"
    using find_greater_prev_in [OF _ chain] y by blast
  show ?thesis
    using ins Some fg prev tail y
    by (cases r; cases prev; cases "m_tail (snd s)")
      (auto simp: pq_insert_def Let_def set_next_def)
qed

section \<open>The interface the executive uses\<close>

text \<open>
  The executive empties its queues with the loop
  \<open>while (T *x = q.front()) { q.pop(); ... }\<close>: \<open>drain\<close> collects the items it visits.
\<close>

fun drain :: "('q \<Rightarrow> 'a option) \<Rightarrow> ('q \<Rightarrow> 'q result) \<Rightarrow> nat \<Rightarrow> 'q \<Rightarrow> ('a list \<times> 'q) result" where
  "drain front pop 0 q = Inl OutOfFuel"
| "drain front pop (Suc n) q =
     (case front q of
        None \<Rightarrow> Inr ([], q)
      | Some x \<Rightarrow> bindE (pop q) (\<lambda>q. bindE (drain front pop n q) (\<lambda>(xs, q). Inr (x # xs, q))))"

locale node_queue =
  fixes rep :: "'q \<Rightarrow> 'a list \<Rightarrow> bool"
    and free :: "'q \<Rightarrow> 'a \<Rightarrow> bool"
    and front :: "'q \<Rightarrow> 'a option"
    and push :: "'a \<Rightarrow> 'q \<Rightarrow> 'q result"
    and pop :: "'q \<Rightarrow> 'q result"
  assumes front_law: "rep q xs \<Longrightarrow> front q = (case xs of [] \<Rightarrow> None | x # _ \<Rightarrow> Some x)"
    and push_law: "rep q xs \<Longrightarrow> x \<notin> set xs \<Longrightarrow> free q x \<Longrightarrow> \<exists>q'. push x q = Inr q' \<and> rep q' (xs @ [x])"
    and push_free: "push x q = Inr q' \<Longrightarrow> rep q xs \<Longrightarrow> y \<notin> set xs \<Longrightarrow> y \<noteq> x \<Longrightarrow> free q y \<Longrightarrow> free q' y"
    and pop_law: "rep q (x # xs) \<Longrightarrow> \<exists>q'. pop q = Inr q' \<and> rep q' xs \<and> free q' x"
begin

lemma drain_all: "rep q xs \<Longrightarrow> length xs < n \<Longrightarrow> \<exists>q'. drain front pop n q = Inr (xs, q') \<and> rep q' []"
proof (induction xs arbitrary: q n)
  case Nil
  then obtain m where "n = Suc m" by (cases n) auto
  with Nil show ?case by (simp add: front_law)
next
  case (Cons x xs)
  then obtain m where n: "n = Suc m" by (cases n) auto
  obtain q1 where q1: "pop q = Inr q1" "rep q1 xs" using pop_law Cons.prems(1) by blast
  obtain q2 where "drain front pop m q1 = Inr (xs, q2)" "rep q2 []"
    using Cons.IH [of q1 m] q1 Cons.prems(2) n by auto
  then show ?case using Cons.prems(1) n q1 by (simp add: front_law)
qed

lemma push_all:
  "rep q xs \<Longrightarrow> distinct (xs @ ys) \<Longrightarrow> \<forall>y \<in> set ys. free q y \<Longrightarrow>
   \<exists>q'. forE push ys q = Inr q' \<and> rep q' (xs @ ys)"
proof (induction ys arbitrary: q xs)
  case Nil
  then show ?case by simp
next
  case (Cons y ys)
  obtain q1 where q1: "push y q = Inr q1" "rep q1 (xs @ [y])"
    using push_law [OF Cons.prems(1), of y] Cons.prems(2,3) by auto
  have "\<forall>z \<in> set ys. free q1 z"
    using push_free [OF q1(1) Cons.prems(1)] Cons.prems by auto
  then obtain q2 where "forE push ys q1 = Inr q2" "rep q2 ((xs @ [y]) @ ys)"
    using Cons.IH [OF q1(2)] Cons.prems by auto
  then show ?case using q1 by simp
qed

lemma fifo:
  assumes "rep q []" and "distinct ys" and "\<forall>y \<in> set ys. free q y" and "length ys < n"
  shows "\<exists>q'. bindE (forE push ys q) (drain front pop n) = Inr (ys, q') \<and> rep q' []"
  using push_all [of q "[]" ys] assms drain_all [of _ ys n] by fastforce

end

locale priority_node_queue = node_queue rep free front push pop
  for rep :: "'q \<Rightarrow> 'a list \<Rightarrow> bool" and free front push pop +
  fixes key :: "'a \<Rightarrow> 'k::linorder"
    and insert :: "'a \<Rightarrow> 'q \<Rightarrow> 'q result"
  assumes insert_law: "rep q xs \<Longrightarrow> x \<notin> set xs \<Longrightarrow> free q x \<Longrightarrow>
      \<exists>q'. insert x q = Inr q' \<and> rep q' (insert_prio (lt_by key) x xs)"
    and insert_free: "insert x q = Inr q' \<Longrightarrow> rep q xs \<Longrightarrow> y \<notin> set xs \<Longrightarrow> y \<noteq> x \<Longrightarrow> free q y \<Longrightarrow> free q' y"
begin

lemma insert_all:
  "rep q xs \<Longrightarrow> distinct (xs @ ys) \<Longrightarrow> \<forall>y \<in> set ys. free q y \<Longrightarrow>
   \<exists>q'. forE insert ys q = Inr q' \<and> rep q' (fold (insert_prio (lt_by key)) ys xs)"
proof (induction ys arbitrary: q xs)
  case Nil
  then show ?case by simp
next
  case (Cons y ys)
  obtain q1 where q1: "insert y q = Inr q1" "rep q1 (insert_prio (lt_by key) y xs)"
    using insert_law [OF Cons.prems(1), of y] Cons.prems(2,3) by auto
  have "\<forall>z \<in> set ys. free q1 z"
    using insert_free [OF q1(1) Cons.prems(1)] Cons.prems by auto
  then obtain q2 where "forE insert ys q1 = Inr q2"
      "rep q2 (fold (insert_prio (lt_by key)) ys (insert_prio (lt_by key) y xs))"
    using Cons.IH [OF q1(2)] Cons.prems by auto
  then show ?case using q1 by simp
qed

lemma fold_insert_sort: "fold (insert_prio (lt_by key)) ys [] = sort_key key ys"
proof -
  have sorted: "sorted (map key xs) \<Longrightarrow> sorted (map key (fold (insert_prio (lt_by key)) ys xs))" for xs
    by (induction ys arbitrary: xs) (simp_all add: sorted_insert_prio)
  have filter: "sorted (map key xs) \<Longrightarrow>
      filter (\<lambda>y. key y = k) (fold (insert_prio (lt_by key)) ys xs) =
      filter (\<lambda>y. key y = k) xs @ filter (\<lambda>y. key y = k) ys" for xs k
    by (induction ys arbitrary: xs) (simp_all add: sorted_insert_prio filter_insert_prio_same)
  have mset_one: "mset (insert_prio lt x xs) = add_mset x (mset xs)" for lt and x :: 'a and xs
    by (induction xs) auto
  have mset: "mset (fold (insert_prio (lt_by key)) ys xs) = mset xs + mset ys" for xs
    by (induction ys arbitrary: xs) (simp_all add: mset_one)
  show ?thesis
  proof (rule properties_for_sort_key [symmetric])
    show "mset (fold (insert_prio (lt_by key)) ys []) = mset ys" using mset [of "[]"] by simp
    show "filter (\<lambda>x. key k = key x) (fold (insert_prio (lt_by key)) ys []) =
        filter (\<lambda>x. key k = key x) ys" for k
      using filter [of "[]" "key k"] by (simp add: eq_commute)
    show "sorted (map key (fold (insert_prio (lt_by key)) ys []))" using sorted [of "[]"] by simp
  qed
qed

lemma priority_order:
  assumes "rep q []" and "distinct ys" and "\<forall>y \<in> set ys. free q y" and "length ys < n"
  shows "\<exists>q'. bindE (forE insert ys q) (drain front pop n) = Inr (sort_key key ys, q') \<and> rep q' []"
  using insert_all [of q "[]" ys] assms drain_all [of _ "sort_key key ys" n]
  by (fastforce simp: fold_insert_sort)

end

definition pq_insert_step :: "('a \<Rightarrow> 'k::linorder) \<Rightarrow> 'a \<Rightarrow> 'a qstate \<Rightarrow> 'a qstate result" where
  "pq_insert_step key x s =
     (case pq_insert (lt_by key) x s of None \<Rightarrow> Inl OutOfFuel | Some r \<Rightarrow> r)"

interpretation pq: priority_node_queue queue_rep unlinked lq_front lq_push lq_pop
    key "pq_insert_step key"
  for key :: "'a \<Rightarrow> 'k::linorder"
proof (unfold_locales)
  fix q :: "'a qstate" and q' xs x y and key :: "'a \<Rightarrow> 'k::linorder"
  show "queue_rep q xs \<Longrightarrow> lq_front q = (case xs of [] \<Rightarrow> None | x # _ \<Rightarrow> Some x)"
    by (rule lq_front_rep)
  show "queue_rep q xs \<Longrightarrow> x \<notin> set xs \<Longrightarrow> unlinked q x \<Longrightarrow>
      \<exists>q'. lq_push x q = Inr q' \<and> queue_rep q' (xs @ [x])"
    by (rule lq_push_rep)
  show "lq_push x q = Inr q' \<Longrightarrow> queue_rep q xs \<Longrightarrow> y \<notin> set xs \<Longrightarrow> y \<noteq> x \<Longrightarrow>
      unlinked q y \<Longrightarrow> unlinked q' y"
    by (simp add: unlinked_def lq_push_frame)
  show "queue_rep q (x # xs) \<Longrightarrow> \<exists>q'. lq_pop q = Inr q' \<and> queue_rep q' xs \<and> unlinked q' x"
    by (rule lq_pop_rep)
  show "queue_rep q xs \<Longrightarrow> x \<notin> set xs \<Longrightarrow> unlinked q x \<Longrightarrow>
      \<exists>q'. pq_insert_step key x q = Inr q' \<and> queue_rep q' (insert_prio (lt_by key) x xs)"
    using pq_insert_rep [of q xs x "lt_by key"] by (auto simp: pq_insert_step_def)
  show "pq_insert_step key x q = Inr q' \<Longrightarrow> queue_rep q xs \<Longrightarrow> y \<notin> set xs \<Longrightarrow> y \<noteq> x \<Longrightarrow>
      unlinked q y \<Longrightarrow> unlinked q' y"
    using pq_insert_frame [of "lt_by key" x q q' xs y]
    by (auto simp: pq_insert_step_def unlinked_def split: option.splits)
qed

section \<open>Properties\<close>

text \<open>
  Property C18. The pending queue of the executive, a \<open>PriorityQueue\<close> ordered by node
  priority, gives its nodes back in order of priority, and in order of insertion among
  nodes of the same priority: inserting any distinct unlinked nodes into an empty queue
  and popping until it is empty visits exactly \<open>sort_key\<close> (Isabelle's stable sort) of the
  inserted nodes, without an assertion failing.
\<close>

theorem priority_queue_stable_sort:
  fixes priority :: "'a \<Rightarrow> int"
  assumes "distinct ns" and "\<forall>n \<in> set ns. nxt n = None"
  shows "\<exists>q'. bindE (forE (pq_insert_step priority) ns (nxt, empty_queue))
            (drain lq_front lq_pop (Suc (length ns))) =
          Inr (sort_key priority ns, q')"
  using pq.priority_order [of "(nxt, empty_queue)" ns "Suc (length ns)" priority] assms
  by (auto simp: queue_rep_empty unlinked_def)

theorem priority_queue_stable_sort_witness:
  "\<exists>q'. bindE (forE (pq_insert_step (\<lambda>n::nat. - int (n div 2))) [1, 4, 0, 5] (\<lambda>_. None, empty_queue))
            (drain lq_front lq_pop (Suc (length [1, 4, 0, 5 :: nat]))) =
          Inr ([4, 5, 1, 0], q')"
  using priority_queue_stable_sort [of "[1, 4, 0, 5::nat]" "\<lambda>_. None" "\<lambda>n. - int (n div 2)"]
  by simp

text \<open>
  \<open>LinkedQueue::remove\<close> takes exactly the given item out of a queue, wherever
  it is, keeps the order of the others, nulls the pointer of the removed item, keeps the
  head, tail and count of the queue consistent, and returns also when the item is not in
  the queue.
\<close>

theorem linked_queue_remove:
  assumes "queue_rep s xs"
  shows "\<exists>s'. lq_remove x s = Some s' \<and> queue_rep s' (remove1 x xs) \<and>
              (x \<in> set xs \<longrightarrow> unlinked s' x)"
  using assms by (rule lq_remove_rep)

theorem linked_queue_remove_witness:
  "\<exists>s'. lq_remove (2::nat) ((\<lambda>_. None)(1 := Some 2, 2 := Some 3), \<lparr>m_head = Some 1, m_tail = Some 3, m_count = 3\<rparr>) = Some s'
      \<and> queue_rep s' [1, 3] \<and> unlinked s' 2"
proof -
  have "queue_rep ((\<lambda>_. None)(1 := Some 2, 2 := Some 3), \<lparr>m_head = Some 1, m_tail = Some 3, m_count = 3\<rparr>)
      [1, 2, 3::nat]"
    by (simp add: queue_rep_def last_opt_def)
  from linked_queue_remove [OF this, of 2] show ?thesis by simp
qed

text \<open>
  \<open>LinkedQueue::insert_after\<close> at the last item of a queue loses the tail of
  the queue: it stores a null pointer into \<open>m_tail\<close>, and the next \<open>push\<close> onto the queue
  dereferences that pointer.
\<close>

theorem insert_after_tail_loses_tail:
  assumes "queue_rep s xs" and "xs \<noteq> []" and "x \<notin> set xs" and "unlinked s x"
    and "y \<notin> set xs" and "y \<noteq> x" and "unlinked s y"
  shows "\<exists>s'. lq_insert_after (last_opt xs) x s = Inr s' \<and> m_tail (snd s') = None \<and>
              lq_push y s' = Inl NullPointer"
proof (cases xs rule: rev_cases)
  case Nil
  with assms show ?thesis by simp
next
  case (snoc ys t)
  with assms show ?thesis
    by (cases "m_head (snd s)")
      (auto simp: lq_insert_after_def Let_def lq_push_def queue_rep_def unlinked_def
        set_next_def chain_None_start last_opt_def)
qed

theorem insert_after_tail_loses_tail_witness:
  "\<exists>s'. lq_insert_after (Some (1::nat)) 2 (\<lambda>_. None, \<lparr>m_head = Some 1, m_tail = Some 1, m_count = 1\<rparr>) = Inr s'
      \<and> lq_push 3 s' = Inl NullPointer"
proof -
  have "queue_rep (\<lambda>_. None, \<lparr>m_head = Some 1, m_tail = Some 1, m_count = 1\<rparr>) [1::nat]"
    by (simp add: queue_rep_def)
  from insert_after_tail_loses_tail [OF this, of 2 3] show ?thesis
    by (auto simp: unlinked_def)
qed

end
