(* ===== verification/Boolean_Operators.thy ===== *)
theory Boolean_Operators
  imports Prelude "HOL-Library.Multiset"
begin

text \<open>
  The Boolean operators of src/src/expr/BooleanOperators.cc over values that may be
  unknown. An argument is the result of \<open>getValue\<close>: \<open>Some b\<close> when it returned true with
  the value \<open>b\<close>, \<open>None\<close> when the value is unknown. Each operator has one member function
  for one argument, one for two and one for a whole \<open>Function\<close>; \<open>apply_...\<close> chooses among
  them as \<open>makeFunction\<close> and \<open>FixedSizeFunction::getValue\<close> (src/src/expr/Function.cc) do.
\<close>

section \<open>The operators\<close>

definition booleanNot :: "bool option \<Rightarrow> bool option" where
  "booleanNot arg = (case arg of None \<Rightarrow> None | Some temp \<Rightarrow> Some (\<not> temp))"

definition booleanOr1 :: "bool option \<Rightarrow> bool option" where
  "booleanOr1 arg = arg"

definition booleanOr2 :: "bool option \<Rightarrow> bool option \<Rightarrow> bool option" where
  "booleanOr2 argA argB =
     (case argA of
        Some temp \<Rightarrow>
          (if temp then Some True
           else (case argB of Some temp \<Rightarrow> Some temp | None \<Rightarrow> None))
      | None \<Rightarrow>
          (case argB of Some temp \<Rightarrow> (if temp then Some temp else None) | None \<Rightarrow> None))"

text \<open>The loop of the n-ary version, with its local variable \<open>anyKnown\<close>.\<close>

fun booleanOrN_loop :: "bool option list \<Rightarrow> bool \<Rightarrow> bool option" where
  "booleanOrN_loop [] anyKnown = (if anyKnown then Some False else None)"
| "booleanOrN_loop (arg # args) anyKnown =
     (case arg of
        Some temp \<Rightarrow> (if temp then Some True else booleanOrN_loop args True)
      | None \<Rightarrow> booleanOrN_loop args anyKnown)"

definition booleanOrN :: "bool option list \<Rightarrow> bool option" where
  "booleanOrN args = booleanOrN_loop args False"

definition booleanAnd1 :: "bool option \<Rightarrow> bool option" where
  "booleanAnd1 arg = arg"

definition booleanAnd2 :: "bool option \<Rightarrow> bool option \<Rightarrow> bool option" where
  "booleanAnd2 argA argB =
     (case argA of
        Some temp \<Rightarrow>
          (if \<not> temp then Some False
           else (case argB of Some temp \<Rightarrow> Some temp | None \<Rightarrow> None))
      | None \<Rightarrow>
          (case argB of Some temp \<Rightarrow> (if \<not> temp then Some False else None) | None \<Rightarrow> None))"

fun booleanAndN_loop :: "bool option list \<Rightarrow> bool \<Rightarrow> bool option" where
  "booleanAndN_loop [] allKnown = (if allKnown then Some True else None)"
| "booleanAndN_loop (arg # args) allKnown =
     (case arg of
        Some temp \<Rightarrow> (if \<not> temp then Some False else booleanAndN_loop args allKnown)
      | None \<Rightarrow> booleanAndN_loop args False)"

definition booleanAndN :: "bool option list \<Rightarrow> bool option" where
  "booleanAndN args = booleanAndN_loop args True"

definition booleanXor1 :: "bool option \<Rightarrow> bool option" where
  "booleanXor1 arg = arg"

definition booleanXor2 :: "bool option \<Rightarrow> bool option \<Rightarrow> bool option" where
  "booleanXor2 argA argB =
     (case argA of
        None \<Rightarrow> None
      | Some temp1 \<Rightarrow> (case argB of None \<Rightarrow> None | Some temp2 \<Rightarrow> Some (temp1 \<noteq> temp2)))"

text \<open>
  The n-ary exclusive or returns unknown as soon as \<open>getValue\<close> succeeds; when it fails, the
  local variable \<open>temp2\<close> it was to set is read without having been assigned.
\<close>

fun booleanXorN_loop :: "bool option list \<Rightarrow> bool \<Rightarrow> bool option result" where
  "booleanXorN_loop [] temp1 = Inr (Some temp1)"
| "booleanXorN_loop (arg # args) temp1 =
     (case arg of
        Some temp2 \<Rightarrow> Inr None
      | None \<Rightarrow> Inl UninitializedRead)"

definition booleanXorN :: "bool option list \<Rightarrow> bool option result" where
  "booleanXorN args = booleanXorN_loop args False"

text \<open>
  Application to the arguments of a function object. All four operators reject an empty
  argument list when the plan is parsed (\<open>checkArgCount\<close>), NOT any but one argument.
\<close>

fun apply_or :: "bool option list \<Rightarrow> bool option" where
  "apply_or [a] = booleanOr1 a"
| "apply_or [a, b] = booleanOr2 a b"
| "apply_or args = booleanOrN args"

fun apply_and :: "bool option list \<Rightarrow> bool option" where
  "apply_and [a] = booleanAnd1 a"
| "apply_and [a, b] = booleanAnd2 a b"
| "apply_and args = booleanAndN args"

fun apply_xor :: "bool option list \<Rightarrow> bool option result" where
  "apply_xor [a] = Inr (booleanXor1 a)"
| "apply_xor [a, b] = Inr (booleanXor2 a b)"
| "apply_xor args = booleanXorN args"

section \<open>Three-valued connectives\<close>

lemma option_bool_cases [case_names unknown true false]:
  fixes a :: "bool option"
  obtains "a = None" | "a = Some True" | "a = Some False"
  by (cases a) auto

text \<open>
  What a binary connective must satisfy for an n-ary use of it to be well defined: it is
  associative and commutative and has a neutral element.
\<close>

locale connective =
  fixes conn :: "bool option \<Rightarrow> bool option \<Rightarrow> bool option"
    and neutral :: "bool option"
  assumes conn_assoc: "conn (conn a b) c = conn a (conn b c)"
    and conn_commute: "conn a b = conn b a"
    and conn_neutral: "conn neutral a = a"
begin

lemma fold_conn_start: "fold conn as a = conn a (fold conn as neutral)"
proof (induction as arbitrary: a)
  case Nil
  show ?case by (metis conn_commute conn_neutral fold_simps(1))
next
  case (Cons b as)
  show ?case
    by (simp add: Cons [of "conn b a"] Cons [of "conn b neutral"])
      (metis conn_assoc conn_commute conn_neutral)
qed

lemma fold_conn_single: "fold conn [a] neutral = a"
  by (simp add: conn_commute [of a] conn_neutral)

lemma fold_conn_mset: "mset as = mset bs \<Longrightarrow> fold conn as neutral = fold conn bs neutral"
proof -
  have "conn x \<circ> conn y = conn y \<circ> conn x" for x y
    by (rule ext) (metis comp_apply conn_assoc conn_commute)
  then show "mset as = mset bs \<Longrightarrow> fold conn as neutral = fold conn bs neutral"
    using fold_multiset_equiv [of as conn bs] by metis
qed

end

definition kleene_or :: "bool option list \<Rightarrow> bool option" where
  "kleene_or args =
     (if Some True \<in> set args then Some True
      else if None \<in> set args then None else Some False)"

definition kleene_and :: "bool option list \<Rightarrow> bool option" where
  "kleene_and args =
     (if Some False \<in> set args then Some False
      else if None \<in> set args then None else Some True)"

interpretation or3: connective booleanOr2 "Some False"
proof (unfold_locales)
  fix a b c :: "bool option"
  show "booleanOr2 (booleanOr2 a b) c = booleanOr2 a (booleanOr2 b c)"
    by (cases a; cases b; cases c) (auto simp: booleanOr2_def)
  show "booleanOr2 a b = booleanOr2 b a"
    by (cases a; cases b) (auto simp: booleanOr2_def)
  show "booleanOr2 (Some False) a = a"
    by (cases a) (auto simp: booleanOr2_def)
qed

interpretation and3: connective booleanAnd2 "Some True"
proof (unfold_locales)
  fix a b c :: "bool option"
  show "booleanAnd2 (booleanAnd2 a b) c = booleanAnd2 a (booleanAnd2 b c)"
    by (cases a; cases b; cases c) (auto simp: booleanAnd2_def)
  show "booleanAnd2 a b = booleanAnd2 b a"
    by (cases a; cases b) (auto simp: booleanAnd2_def)
  show "booleanAnd2 (Some True) a = a"
    by (cases a) (auto simp: booleanAnd2_def)
qed

interpretation xor3: connective booleanXor2 "Some False"
proof (unfold_locales)
  fix a b c :: "bool option"
  show "booleanXor2 (booleanXor2 a b) c = booleanXor2 a (booleanXor2 b c)"
    by (cases a; cases b; cases c) (auto simp: booleanXor2_def)
  show "booleanXor2 a b = booleanXor2 b a"
    by (cases a; cases b) (auto simp: booleanXor2_def)
  show "booleanXor2 (Some False) a = a"
    by (cases a) (auto simp: booleanXor2_def)
qed

lemma kleene_or_Cons: "kleene_or (a # as) = booleanOr2 a (kleene_or as)"
  by (cases a) (auto simp: kleene_or_def booleanOr2_def)

lemma kleene_and_Cons: "kleene_and (a # as) = booleanAnd2 a (kleene_and as)"
  by (cases a) (auto simp: kleene_and_def booleanAnd2_def)

lemma fold_or: "fold booleanOr2 as (Some False) = kleene_or as"
proof (induction as)
  case Nil
  show ?case by (simp add: kleene_or_def)
next
  case (Cons a as)
  have "fold booleanOr2 (a # as) (Some False) = booleanOr2 a (fold booleanOr2 as (Some False))"
    using or3.fold_conn_start [of as a] by (simp add: or3.conn_commute [of a] or3.conn_neutral)
  then show ?case using Cons by (simp add: kleene_or_Cons)
qed

lemma fold_and: "fold booleanAnd2 as (Some True) = kleene_and as"
proof (induction as)
  case Nil
  show ?case by (simp add: kleene_and_def)
next
  case (Cons a as)
  have "fold booleanAnd2 (a # as) (Some True) = booleanAnd2 a (fold booleanAnd2 as (Some True))"
    using and3.fold_conn_start [of as a] by (simp add: and3.conn_commute [of a] and3.conn_neutral)
  then show ?case using Cons by (simp add: kleene_and_Cons)
qed

lemma booleanAndN_loop_eq:
  "booleanAndN_loop args allKnown =
     (if Some False \<in> set args then Some False
      else if allKnown \<and> None \<notin> set args then Some True else None)"
  by (induction args arbitrary: allKnown) (auto split: option.splits)

lemma booleanOrN_loop_eq:
  "booleanOrN_loop args anyKnown =
     (if Some True \<in> set args then Some True
      else if anyKnown \<or> Some False \<in> set args then Some False else None)"
  by (induction args arbitrary: anyKnown) (auto split: option.splits)

lemma booleanAndN_kleene: "booleanAndN args = kleene_and args"
  by (simp add: booleanAndN_def booleanAndN_loop_eq kleene_and_def)

lemma booleanOrN_eq:
  "args \<noteq> [] \<Longrightarrow> booleanOrN args =
     (if Some False \<in> set args then (if Some True \<in> set args then Some True else Some False)
      else kleene_or args)"
proof -
  assume "args \<noteq> []"
  then obtain a where "a \<in> set args" by (cases args) auto
  then show ?thesis
    by (cases a rule: option_bool_cases)
      (auto simp: booleanOrN_def booleanOrN_loop_eq kleene_or_def)
qed

section \<open>Properties\<close>

text \<open>
  Property C33. AND, whichever of its three member functions a plan's function object ends
  up calling, is Kleene's conjunction of all its arguments: false when one is false, else
  unknown when one is unknown, else true; it is the fold of the binary operator, and does
  not depend on the order of the arguments.
\<close>

theorem boolean_and_kleene:
  assumes "args \<noteq> []"
  shows "apply_and args = kleene_and args \<and>
         apply_and args = fold booleanAnd2 args (Some True) \<and>
         (mset args' = mset args \<longrightarrow> apply_and args' = apply_and args)"
proof -
  have one: "booleanAnd1 a = kleene_and [a]" for a
    by (cases a rule: option_bool_cases) (simp_all add: booleanAnd1_def kleene_and_def)
  have two: "booleanAnd2 a b = kleene_and [a, b]" for a b
    by (simp add: kleene_and_Cons [of a] one [symmetric] booleanAnd1_def)
  have eq: "apply_and as = kleene_and as" if "as \<noteq> []" for as
    using that by (cases as rule: apply_and.cases) (simp_all add: one two booleanAndN_kleene)
  have "args' \<noteq> []" if "mset args' = mset args" using that assms by auto
  then show ?thesis
    using eq assms and3.fold_conn_mset [of args' args] fold_and by metis
qed

theorem boolean_and_kleene_witness:
  "apply_and [Some True, None, Some False] = kleene_and [Some True, None, Some False]
   \<and> apply_and [Some True, None, Some False] = Some False"
  using boolean_and_kleene [of "[Some True, None, Some False]" "[]"]
  by (simp add: kleene_and_def)

text \<open>
  Property C34. OR is Kleene's disjunction for one and two arguments, and for more exactly
  unless no argument is true, one is false and one is unknown: then the n-ary member
  function answers "known and false" where the binary one answers "unknown".
\<close>

theorem boolean_or_kleene_except:
  assumes "args \<noteq> []"
  shows "apply_or args =
     (if 3 \<le> length args \<and> Some True \<notin> set args \<and> Some False \<in> set args \<and> None \<in> set args
      then Some False else kleene_or args)"
proof -
  have one: "booleanOr1 a = kleene_or [a]" for a
    by (cases a rule: option_bool_cases) (simp_all add: booleanOr1_def kleene_or_def)
  have two: "booleanOr2 a b = kleene_or [a, b]" for a b
    by (simp add: kleene_or_Cons [of a] one [symmetric] booleanOr1_def)
  have many: "booleanOrN args =
      (if Some True \<notin> set args \<and> Some False \<in> set args \<and> None \<in> set args
       then Some False else kleene_or args)" if "args \<noteq> []" for args
    using booleanOrN_eq [OF that] by (auto simp: kleene_or_def)
  show ?thesis
    using assms by (cases args rule: apply_or.cases) (simp_all add: one two many)
qed

theorem boolean_or_kleene_except_witness:
  "apply_or [Some False, None, None] = Some False \<and> kleene_or [Some False, None, None] = None \<and>
   apply_or [Some False, None] = None"
  using boolean_or_kleene_except [of "[Some False, None, None]"]
    boolean_or_kleene_except [of "[Some False, None]"]
  by (simp add: kleene_or_def)

text \<open>
  XOR of three or more arguments never computes an exclusive or: with its
  first argument known it is unknown, whatever the others are, and with its first argument
  unknown it reads an unassigned variable. For two arguments it is known exactly when both
  arguments are, and then is their inequality.
\<close>

theorem boolean_xor_arity:
  "(3 \<le> length args \<longrightarrow>
      apply_xor args = (if hd args = None then Inl UninitializedRead else Inr None)) \<and>
   apply_xor [a, b] = Inr (if a = None \<or> b = None then None else Some (a \<noteq> b))"
proof -
  have "3 \<le> length args \<longrightarrow>
      apply_xor args = (if hd args = None then Inl UninitializedRead else Inr None)"
    by (cases args rule: apply_xor.cases) (auto simp: booleanXorN_def split: option.splits)
  moreover have "apply_xor [a, b] = Inr (if a = None \<or> b = None then None else Some (a \<noteq> b))"
    by (auto simp: booleanXor2_def split: option.splits)
  ultimately show ?thesis by blast
qed

theorem boolean_xor_arity_witness:
  "apply_xor [Some True, Some False, Some False] = Inr None \<and>
   apply_xor [Some True, Some False] = Inr (Some True)"
  using boolean_xor_arity [of "[Some True, Some False, Some False]" "Some True" "Some False"]
  by simp

end
