(* ===== verification/Reservable.thy ===== *)
theory Reservable
  imports Prelude
begin

text \<open>
  Objects a node reserves before it executes: mutexes (src/src/exec/Mutex) and assignable
  variables share the mixin class of src/src/expr/Reservable.cc, a holder and a list of
  waiting nodes. \<open>notifyResourceAvailable\<close>, which \<open>release\<close> calls on each waiting node,
  belongs to the node: \<open>release\<close> returns the nodes it calls, in order.
\<close>

section \<open>State and operations\<close>

record 'n reservable =
  m_waiters :: "'n list"
  m_holder :: "'n option"

definition new_reservable :: "'n reservable" where
  "new_reservable = \<lparr>m_waiters = [], m_holder = None\<rparr>"

definition addWaitingNode :: "'n \<Rightarrow> 'n reservable \<Rightarrow> 'n reservable" where
  "addWaitingNode node r = r\<lparr>m_waiters := push_back_new node (m_waiters r)\<rparr>"

definition removeWaitingNode :: "'n \<Rightarrow> 'n reservable \<Rightarrow> 'n reservable" where
  "removeWaitingNode node r = r\<lparr>m_waiters := remove1 node (m_waiters r)\<rparr>"

definition acquire :: "'n \<Rightarrow> 'n reservable \<Rightarrow> bool \<times> 'n reservable" where
  "acquire node r =
     (case m_holder r of
        Some _ \<Rightarrow> (False, addWaitingNode node r)
      | None \<Rightarrow> (True, removeWaitingNode node (r\<lparr>m_holder := Some node\<rparr>)))"

definition release :: "'n \<Rightarrow> 'n reservable \<Rightarrow> 'n list \<times> 'n reservable" where
  "release node r =
     (case m_holder r of
        None \<Rightarrow> ([], r)
      | Some h \<Rightarrow>
          if h \<noteq> node then ([], r)
          else (m_waiters r, r\<lparr>m_holder := None\<rparr>))"

lemma reservable_frame [simp]:
  "m_holder (addWaitingNode n r) = m_holder r"
  "m_holder (removeWaitingNode n r) = m_holder r"
  "m_waiters (addWaitingNode n r) = push_back_new n (m_waiters r)"
  "m_waiters (removeWaitingNode n r) = remove1 n (m_waiters r)"
  by (simp_all add: addWaitingNode_def removeWaitingNode_def)

lemma acquire_simps:
  "fst (acquire n r) \<longleftrightarrow> m_holder r = None"
  "m_holder (snd (acquire n r)) = (if m_holder r = None then Some n else m_holder r)"
  "set (m_waiters (snd (acquire n r))) \<subseteq> insert n (set (m_waiters r))"
  by (auto simp: acquire_def split: option.splits dest: notin_set_remove1)

lemma release_simps:
  "m_holder (snd (release n r)) = (if m_holder r = Some n then None else m_holder r)"
  "m_waiters (snd (release n r)) = m_waiters r"
  "fst (release n r) = (if m_holder r = Some n then m_waiters r else [])"
  by (auto simp: release_def split: option.splits)

section \<open>The interface: a lock with an owner\<close>

locale owned_lock =
  fixes owner :: "'l \<Rightarrow> 'n option"
    and acq :: "'n \<Rightarrow> 'l \<Rightarrow> bool \<times> 'l"
    and rel :: "'n \<Rightarrow> 'l \<Rightarrow> 'l"
    and other :: "'l \<Rightarrow> 'l \<Rightarrow> bool" \<comment> \<open>the steps that leave the owner alone\<close>
  assumes acq_free: "owner l = None \<Longrightarrow> fst (acq n l) \<and> owner (snd (acq n l)) = Some n"
    and acq_busy: "owner l = Some m \<Longrightarrow> \<not> fst (acq n l) \<and> owner (snd (acq n l)) = Some m"
    and rel_owner: "owner l = Some n \<Longrightarrow> owner (rel n l) = None"
    and rel_other: "owner l \<noteq> Some n \<Longrightarrow> owner (rel n l) = owner l"
    and other_owner: "other l l' \<Longrightarrow> owner l' = owner l"
begin

inductive lock_step :: "'n \<Rightarrow> 'l \<Rightarrow> 'l \<Rightarrow> bool" for n :: 'n where
  acquire_step: "lock_step n l (snd (acq m l))"
| release_step: "m \<noteq> n \<Longrightarrow> lock_step n l (rel m l)"
| other_step: "other l l' \<Longrightarrow> lock_step n l l'"

lemma owner_kept: "(lock_step n)\<^sup>*\<^sup>* l l' \<Longrightarrow> owner l = Some n \<Longrightarrow> owner l' = Some n"
proof (induction rule: rtranclp_induct)
  case base
  then show ?case .
next
  case (step y z)
  from step.hyps(2) show ?case
  proof cases
    case (acquire_step m)
    with step show ?thesis by (simp add: acq_busy)
  next
    case (release_step m)
    with step show ?thesis by (simp add: rel_other)
  next
    case other_step
    with step show ?thesis by (simp add: other_owner)
  qed
qed

lemma exclusion:
  "owner l = None \<Longrightarrow> (lock_step n)\<^sup>*\<^sup>* (snd (acq n l)) l' \<Longrightarrow> \<not> fst (acq m l')"
  using owner_kept acq_free acq_busy by blast

end

inductive waiting_step :: "'n reservable \<Rightarrow> 'n reservable \<Rightarrow> bool" where
  add_waiting: "waiting_step r (addWaitingNode n r)"
| remove_waiting: "waiting_step r (removeWaitingNode n r)"

interpretation res: owned_lock m_holder acquire "\<lambda>n r. snd (release n r)" waiting_step
proof (unfold_locales)
  fix l l' :: "'n reservable" and n m
  show "m_holder l = None \<Longrightarrow> fst (acquire n l) \<and> m_holder (snd (acquire n l)) = Some n"
    by (simp add: acquire_simps)
  show "m_holder l = Some m \<Longrightarrow> \<not> fst (acquire n l) \<and> m_holder (snd (acquire n l)) = Some m"
    by (simp add: acquire_simps)
  show "m_holder l = Some n \<Longrightarrow> m_holder (snd (release n l)) = None"
    by (simp add: release_simps)
  show "m_holder l \<noteq> Some n \<Longrightarrow> m_holder (snd (release n l)) = m_holder l"
    by (simp add: release_simps)
  show "waiting_step l l' \<Longrightarrow> m_holder l' = m_holder l"
    by (auto elim: waiting_step.cases)
qed

section \<open>Runs of operations\<close>

datatype 'n res_op = Acquire 'n | Release 'n | AddWaiting 'n | RemoveWaiting 'n

fun res_step :: "'n res_op \<Rightarrow> 'n reservable \<Rightarrow> 'n reservable" where
  "res_step (Acquire n) r = snd (acquire n r)"
| "res_step (Release n) r = snd (release n r)"
| "res_step (AddWaiting n) r = addWaitingNode n r"
| "res_step (RemoveWaiting n) r = removeWaitingNode n r"

lemma res_run_lock_steps:
  "Release n \<notin> set ops \<Longrightarrow> (res.lock_step n)\<^sup>*\<^sup>* r (fold res_step ops r)"
proof (induction ops arbitrary: r)
  case Nil
  show ?case by simp
next
  case (Cons x ops)
  have "res.lock_step n r (res_step x r)"
    using Cons.prems
    by (cases x) (auto intro: res.lock_step.intros waiting_step.intros)
  moreover have "(res.lock_step n)\<^sup>*\<^sup>* (res_step x r) (fold res_step ops (res_step x r))"
    using Cons by simp
  ultimately show ?case by simp
qed

lemma distinct_waiters_step: "distinct (m_waiters r) \<Longrightarrow> distinct (m_waiters (res_step x r))"
  by (cases x) (auto simp: acquire_def release_def split: option.splits)

lemma distinct_waiters_run:
  "distinct (m_waiters r) \<Longrightarrow> distinct (m_waiters (fold res_step ops r))"
  by (induction ops arbitrary: r) (simp_all add: distinct_waiters_step)

text \<open>
  Property C32. A mutex or variable is held by one node at a time: once a node has acquired
  it, then after any operations of any nodes other than that node's own release, the node
  still holds it and every attempt to acquire it fails and queues the node that tried;
  and releasing it calls every waiting node exactly once.
\<close>

theorem reservable_exclusive:
  assumes free: "m_holder r = None" and "Release n \<notin> set ops" and "distinct (m_waiters r)"
  defines "r' \<equiv> fold res_step ops (snd (acquire n r))"
  shows "m_holder r' = Some n \<and>
         \<not> fst (acquire m r') \<and> m \<in> set (m_waiters (snd (acquire m r'))) \<and>
         m_holder (snd (release n r')) = None \<and>
         fst (release n r') = m_waiters r' \<and> distinct (fst (release n r'))"
proof -
  have steps: "(res.lock_step n)\<^sup>*\<^sup>* (snd (acquire n r)) r'"
    unfolding r'_def using assms(2) by (rule res_run_lock_steps)
  have held: "m_holder r' = Some n"
    using res.owner_kept [OF steps] free by (simp add: acquire_simps)
  have "distinct (m_waiters (snd (acquire n r)))"
    using distinct_waiters_step [of r "Acquire n"] assms(3) by simp
  then have "distinct (m_waiters r')"
    unfolding r'_def by (rule distinct_waiters_run)
  with held res.exclusion [OF free steps] show ?thesis
    by (simp add: release_simps acquire_def)
qed

theorem reservable_exclusive_witness:
  "m_holder (fold res_step [Acquire 2, Release 3, Acquire 3] (snd (acquire (1::nat) new_reservable))) = Some 1
   \<and> fst (release 1 (fold res_step [Acquire 2, Release 3, Acquire 3] (snd (acquire (1::nat) new_reservable)))) = [2, 3]"
  using reservable_exclusive [of "new_reservable" "1::nat" "[Acquire 2, Release 3, Acquire 3]" 4]
  by (simp add: new_reservable_def acquire_def release_def addWaitingNode_def push_back_new_def
      removeWaitingNode_def)

end
