(* ===== verification/Node_Dest.thy ===== *)
theory Node_Dest
  imports Node_Constants
begin

text \<open>
  The destination state of a node: the member functions \<open>getDestState...\<close> of
  src/src/exec/NodeImpl.cc, ListNode.cc, CommandNode.cc, AssignmentNode.cc and
  UpdateNode.cc. A node consults the states of its conditions and of its parent and
  decides whether it can leave its current state, for which state, and with which outcome
  and failure type. \<open>decide\<close> at the end is the state diagram these functions implement, as
  one ordered list of rules per state, and \<open>getDestState_decide\<close> is the equivalence.
\<close>

section \<open>The state of a node these functions read and write\<close>

record node_vars =
  m_state :: node_state
  m_outcome :: node_outcome
  m_failureType :: failure_type
  m_nextState :: node_state
  m_nextOutcome :: node_outcome
  m_nextFailureType :: failure_type

text \<open>
  A condition is a pointer to an expression, null when the plan has no such condition.
  What a node asks of it is whether it is active and its value, \<open>None\<close> for unknown.
\<close>

record cond_view =
  cv_active :: bool
  cv_value :: "bool option"

type_synonym conds = "cond_index \<Rightarrow> cond_view option"

type_synonym 'n dest = "(bool \<times> 'n) result"

text \<open>
  The three ways the code ends: \<open>return false\<close>, and \<open>return true\<close> after setting the next
  state, and possibly the next outcome and failure type.
\<close>

definition no_change :: "'a node_vars_scheme \<Rightarrow> 'a node_vars_scheme dest" where
  "no_change n = Inr (False, n)"

definition next_state :: "node_state \<Rightarrow> 'a node_vars_scheme \<Rightarrow> 'a node_vars_scheme dest" where
  "next_state st n = Inr (True, n\<lparr>m_nextState := st\<rparr>)"

definition next_outcome ::
  "node_state \<Rightarrow> node_outcome \<Rightarrow> 'a node_vars_scheme \<Rightarrow> 'a node_vars_scheme dest" where
  "next_outcome st oc n = Inr (True, n\<lparr>m_nextState := st, m_nextOutcome := oc\<rparr>)"

definition next_failure ::
  "node_state \<Rightarrow> node_outcome \<Rightarrow> failure_type \<Rightarrow> 'a node_vars_scheme \<Rightarrow> 'a node_vars_scheme dest"
where
  "next_failure st oc ft n =
     Inr (True, n\<lparr>m_nextState := st, m_nextOutcome := oc, m_nextFailureType := ft\<rparr>)"

text \<open>
  The recurring test
  \<open>if ((cond = getX())) { checkError(cond->isActive(), ...); if (cond->getValue(temp) && temp) ... }\<close>
  of NodeImpl.cc, and the same with \<open>!temp\<close>. The other files compile the check only with
  \<open>PARANOID_ABOUT_CONDITION_ACTIVATION\<close>, which the build does not define: there the tests
  are \<open>if_known_true\<close> and \<open>if_known_false\<close>.
\<close>

definition checked :: "bool option \<Rightarrow> cond_view option \<Rightarrow> 'r result \<Rightarrow> 'r result \<Rightarrow> 'r result" where
  "checked v cond yes no =
     (case cond of
        None \<Rightarrow> no
      | Some c \<Rightarrow> bindE (check CheckError (cv_active c)) (\<lambda>_. if cv_value c = v then yes else no))"

abbreviation check_true :: "cond_view option \<Rightarrow> 'r result \<Rightarrow> 'r result \<Rightarrow> 'r result" where
  "check_true \<equiv> checked (Some True)"

abbreviation check_false :: "cond_view option \<Rightarrow> 'r result \<Rightarrow> 'r result \<Rightarrow> 'r result" where
  "check_false \<equiv> checked (Some False)"

definition tested :: "bool option \<Rightarrow> cond_view option \<Rightarrow> 'r result \<Rightarrow> 'r result \<Rightarrow> 'r result" where
  "tested v cond yes no =
     (case cond of None \<Rightarrow> no | Some c \<Rightarrow> if cv_value c = v then yes else no)"

abbreviation if_known_true :: "cond_view option \<Rightarrow> 'r result \<Rightarrow> 'r result \<Rightarrow> 'r result" where
  "if_known_true \<equiv> tested (Some True)"

abbreviation if_known_false :: "cond_view option \<Rightarrow> 'r result \<Rightarrow> 'r result \<Rightarrow> 'r result" where
  "if_known_false \<equiv> tested (Some False)"

text \<open>
  \<open>if ((cond = getX()) && (!cond->getValue(temp) || !temp)) { checkError(cond->isActive(), ...); ... }\<close>
  (the check only on that branch), and without the check.
\<close>

definition check_not_true :: "cond_view option \<Rightarrow> 'r result \<Rightarrow> 'r result \<Rightarrow> 'r result" where
  "check_not_true cond yes no =
     (case cond of
        None \<Rightarrow> no
      | Some c \<Rightarrow> if cv_value c = Some True then no
                  else bindE (check CheckError (cv_active c)) (\<lambda>_. yes))"

definition if_not_true :: "cond_view option \<Rightarrow> 'r result \<Rightarrow> 'r result \<Rightarrow> 'r result" where
  "if_not_true cond yes no =
     (case cond of None \<Rightarrow> no | Some c \<Rightarrow> if cv_value c = Some True then no else yes)"

text \<open>A condition the code dereferences without testing the pointer.\<close>

definition deref :: "cond_view option \<Rightarrow> (cond_view \<Rightarrow> 'r result) \<Rightarrow> 'r result" where
  "deref cond f = (case cond of None \<Rightarrow> Inl NullPointer | Some c \<Rightarrow> f c)"

section \<open>NodeImpl: all nodes\<close>

text \<open>\<open>parent\<close> is the state of the parent node, \<open>None\<close> for a root node.\<close>

definition getDestStateFromInactive ::
  "node_state option \<Rightarrow> conds \<Rightarrow> 'a node_vars_scheme \<Rightarrow> 'a node_vars_scheme dest" where
  "getDestStateFromInactive parent c n =
     (case parent of
        Some FINISHED_STATE \<Rightarrow> next_outcome FINISHED_STATE SKIPPED_OUTCOME n
      | Some EXECUTING_STATE \<Rightarrow>
          check_true (c ancestorExitIdx) (next_outcome FINISHED_STATE SKIPPED_OUTCOME n)
         (check_false (c ancestorInvariantIdx) (next_outcome FINISHED_STATE SKIPPED_OUTCOME n)
         (check_true (c ancestorEndIdx) (next_outcome FINISHED_STATE SKIPPED_OUTCOME n)
         (next_state WAITING_STATE n)))
      | Some _ \<Rightarrow> no_change n
      | None \<Rightarrow> next_state WAITING_STATE n)"

definition getDestStateFromWaiting ::
  "conds \<Rightarrow> 'a node_vars_scheme \<Rightarrow> 'a node_vars_scheme dest" where
  "getDestStateFromWaiting c n =
     check_true (c ancestorExitIdx) (next_outcome FINISHED_STATE SKIPPED_OUTCOME n)
    (check_true (c exitIdx) (next_outcome FINISHED_STATE SKIPPED_OUTCOME n)
    (check_false (c ancestorInvariantIdx) (next_outcome FINISHED_STATE SKIPPED_OUTCOME n)
    (check_true (c ancestorEndIdx) (next_outcome FINISHED_STATE SKIPPED_OUTCOME n)
    (check_true (c skipIdx) (next_outcome FINISHED_STATE SKIPPED_OUTCOME n)
    (let pre =
       check_not_true (c preIdx)
         (next_failure ITERATION_ENDED_STATE FAILURE_OUTCOME PRE_CONDITION_FAILED n)
         (next_state EXECUTING_STATE n)
     in case c startIdx of
          None \<Rightarrow> pre
        | Some start \<Rightarrow>
            bindE (check CheckError (cv_active start))
              (\<lambda>_. if cv_value start = Some True then pre else no_change n))))))"

definition getDestStateFromFinished ::
  "node_state option \<Rightarrow> 'a node_vars_scheme \<Rightarrow> 'a node_vars_scheme dest" where
  "getDestStateFromFinished parent n =
     (if parent = Some WAITING_STATE then next_state INACTIVE_STATE n else no_change n)"

definition getDestStateFromIterationEnded ::
  "conds \<Rightarrow> 'a node_vars_scheme \<Rightarrow> 'a node_vars_scheme dest" where
  "getDestStateFromIterationEnded c n =
     check_true (c ancestorExitIdx) (next_failure FINISHED_STATE INTERRUPTED_OUTCOME PARENT_EXITED n)
    (check_false (c ancestorInvariantIdx) (next_failure FINISHED_STATE FAILURE_OUTCOME PARENT_FAILED n)
    (check_true (c ancestorEndIdx) (next_state FINISHED_STATE n)
    (case c repeatIdx of
       None \<Rightarrow> next_state FINISHED_STATE n
     | Some r \<Rightarrow>
         (case cv_value r of
            None \<Rightarrow> bindE (check CheckError (cv_active r)) (\<lambda>_. no_change n)
          | Some True \<Rightarrow> next_state WAITING_STATE n
          | Some False \<Rightarrow> next_state FINISHED_STATE n))))"

section \<open>EXECUTING, FINISHING and FAILING of each node type\<close>

text \<open>NodeImpl.cc: the method of empty nodes.\<close>

definition getDestStateFromExecuting_Empty ::
  "conds \<Rightarrow> 'a node_vars_scheme \<Rightarrow> 'a node_vars_scheme dest" where
  "getDestStateFromExecuting_Empty c n =
     check_true (c ancestorExitIdx) (next_failure FINISHED_STATE INTERRUPTED_OUTCOME PARENT_EXITED n)
    (check_true (c exitIdx) (next_failure ITERATION_ENDED_STATE INTERRUPTED_OUTCOME EXITED n)
    (check_false (c ancestorInvariantIdx) (next_failure FINISHED_STATE FAILURE_OUTCOME PARENT_FAILED n)
    (check_false (c invariantIdx)
       (next_failure ITERATION_ENDED_STATE FAILURE_OUTCOME INVARIANT_CONDITION_FAILED n)
    (check_not_true (c endIdx) (no_change n)
    (check_not_true (c postIdx)
       (next_failure ITERATION_ENDED_STATE FAILURE_OUTCOME POST_CONDITION_FAILED n)
       (next_outcome ITERATION_ENDED_STATE SUCCESS_OUTCOME n))))))"

text \<open>ListNode.cc.\<close>

definition getDestStateFromExecuting_List ::
  "conds \<Rightarrow> 'a node_vars_scheme \<Rightarrow> 'a node_vars_scheme dest" where
  "getDestStateFromExecuting_List c n =
     if_known_true (c ancestorExitIdx) (next_failure FAILING_STATE INTERRUPTED_OUTCOME PARENT_EXITED n)
    (if_known_true (c exitIdx) (next_failure FAILING_STATE INTERRUPTED_OUTCOME EXITED n)
    (if_known_false (c ancestorInvariantIdx) (next_failure FAILING_STATE FAILURE_OUTCOME PARENT_FAILED n)
    (if_known_false (c invariantIdx)
       (next_failure FAILING_STATE FAILURE_OUTCOME INVARIANT_CONDITION_FAILED n)
    (if_not_true (c endIdx) (no_change n)
    (next_state FINISHING_STATE n)))))"

definition getDestStateFromFinishing_List ::
  "conds \<Rightarrow> 'a node_vars_scheme \<Rightarrow> 'a node_vars_scheme dest" where
  "getDestStateFromFinishing_List c n =
     if_known_true (c ancestorExitIdx) (next_failure FAILING_STATE INTERRUPTED_OUTCOME PARENT_EXITED n)
    (if_known_true (c exitIdx) (next_failure FAILING_STATE INTERRUPTED_OUTCOME EXITED n)
    (if_known_false (c ancestorInvariantIdx) (next_failure FAILING_STATE FAILURE_OUTCOME PARENT_FAILED n)
    (if_known_false (c invariantIdx)
       (next_failure FAILING_STATE FAILURE_OUTCOME INVARIANT_CONDITION_FAILED n)
    (deref (c actionCompleteIdx) (\<lambda>cond.
       case cv_value cond of
         None \<Rightarrow> Inl UninitializedRead
       | Some temp \<Rightarrow>
           if temp then
             if_not_true (c postIdx)
               (next_failure ITERATION_ENDED_STATE FAILURE_OUTCOME POST_CONDITION_FAILED n)
               (next_outcome ITERATION_ENDED_STATE SUCCESS_OUTCOME n)
           else no_change n)))))"

text \<open>
  FAILING: the failure type, set on entry, says whether the node ends its iteration or is
  finished. The list, command, assignment and update nodes share this tail; they test the
  two failure types in different orders.
\<close>

definition leave_failing :: "'a node_vars_scheme \<Rightarrow> 'a node_vars_scheme dest" where
  "leave_failing n =
     (if m_failureType n = PARENT_EXITED then next_state FINISHED_STATE n
      else if m_failureType n = PARENT_FAILED then next_state FINISHED_STATE n
      else next_state ITERATION_ENDED_STATE n)"

definition getDestStateFromFailing_List ::
  "conds \<Rightarrow> 'a node_vars_scheme \<Rightarrow> 'a node_vars_scheme dest" where
  "getDestStateFromFailing_List c n =
     deref (c actionCompleteIdx) (\<lambda>cond.
       case cv_value cond of
         None \<Rightarrow> Inl UninitializedRead
       | Some tempb \<Rightarrow> if tempb then leave_failing n else no_change n)"

text \<open>CommandNode.cc.\<close>

definition getDestStateFromExecuting_Command ::
  "conds \<Rightarrow> 'a node_vars_scheme \<Rightarrow> 'a node_vars_scheme dest" where
  "getDestStateFromExecuting_Command c n =
     if_known_true (c ancestorExitIdx) (next_failure FAILING_STATE INTERRUPTED_OUTCOME PARENT_EXITED n)
    (if_known_true (c exitIdx) (next_failure FAILING_STATE INTERRUPTED_OUTCOME EXITED n)
    (if_known_false (c ancestorInvariantIdx) (next_failure FAILING_STATE FAILURE_OUTCOME PARENT_FAILED n)
    (if_known_false (c invariantIdx)
       (next_failure FAILING_STATE FAILURE_OUTCOME INVARIANT_CONDITION_FAILED n)
    (if_not_true (c endIdx) (no_change n)
    (next_state FINISHING_STATE n)))))"

definition getDestStateFromFinishing_Command ::
  "conds \<Rightarrow> 'a node_vars_scheme \<Rightarrow> 'a node_vars_scheme dest" where
  "getDestStateFromFinishing_Command c n =
     if_known_true (c ancestorExitIdx) (next_failure FAILING_STATE INTERRUPTED_OUTCOME PARENT_EXITED n)
    (if_known_true (c exitIdx) (next_failure FAILING_STATE INTERRUPTED_OUTCOME EXITED n)
    (if_known_false (c ancestorInvariantIdx) (next_failure FAILING_STATE FAILURE_OUTCOME PARENT_FAILED n)
    (if_known_false (c invariantIdx)
       (next_failure FAILING_STATE FAILURE_OUTCOME INVARIANT_CONDITION_FAILED n)
    (deref (c actionCompleteIdx) (\<lambda>cond.
       if cv_value cond = Some True then
         if_not_true (c postIdx)
           (next_failure ITERATION_ENDED_STATE FAILURE_OUTCOME POST_CONDITION_FAILED n)
           (next_outcome ITERATION_ENDED_STATE SUCCESS_OUTCOME n)
       else no_change n)))))"

definition getDestStateFromFailing_Command ::
  "conds \<Rightarrow> 'a node_vars_scheme \<Rightarrow> 'a node_vars_scheme dest" where
  "getDestStateFromFailing_Command c n =
     deref (c abortCompleteIdx) (\<lambda>cond.
       if cv_value cond = Some True then leave_failing n else no_change n)"

text \<open>AssignmentNode.cc.\<close>

definition getDestStateFromExecuting_Assignment ::
  "conds \<Rightarrow> 'a node_vars_scheme \<Rightarrow> 'a node_vars_scheme dest" where
  "getDestStateFromExecuting_Assignment c n =
     deref (c actionCompleteIdx) (\<lambda>cond.
     if cv_value cond \<noteq> Some True then no_change n
     else
     if_known_true (c ancestorExitIdx) (next_failure FAILING_STATE INTERRUPTED_OUTCOME PARENT_EXITED n)
    (if_known_true (c exitIdx) (next_failure FAILING_STATE INTERRUPTED_OUTCOME EXITED n)
    (if_known_false (c ancestorInvariantIdx) (next_failure FAILING_STATE FAILURE_OUTCOME PARENT_FAILED n)
    (if_known_false (c invariantIdx)
       (next_failure FAILING_STATE FAILURE_OUTCOME INVARIANT_CONDITION_FAILED n)
    (if_not_true (c endIdx) (no_change n)
    (if_not_true (c postIdx)
       (next_failure ITERATION_ENDED_STATE FAILURE_OUTCOME POST_CONDITION_FAILED n)
       (next_outcome ITERATION_ENDED_STATE SUCCESS_OUTCOME n)))))))"

definition getDestStateFromFailing_Assignment ::
  "conds \<Rightarrow> 'a node_vars_scheme \<Rightarrow> 'a node_vars_scheme dest" where
  "getDestStateFromFailing_Assignment c n =
     deref (c abortCompleteIdx) (\<lambda>cond.
       if cv_value cond \<noteq> Some True then no_change n else leave_failing n)"

text \<open>UpdateNode.cc.\<close>

definition getDestStateFromExecuting_Update ::
  "conds \<Rightarrow> 'a node_vars_scheme \<Rightarrow> 'a node_vars_scheme dest" where
  "getDestStateFromExecuting_Update c n =
     if_known_true (c ancestorExitIdx) (next_failure FAILING_STATE INTERRUPTED_OUTCOME PARENT_EXITED n)
    (if_known_true (c exitIdx) (next_failure FAILING_STATE INTERRUPTED_OUTCOME EXITED n)
    (if_known_false (c ancestorInvariantIdx) (next_failure FAILING_STATE FAILURE_OUTCOME PARENT_FAILED n)
    (if_known_false (c invariantIdx)
       (next_failure FAILING_STATE FAILURE_OUTCOME INVARIANT_CONDITION_FAILED n)
    (if_not_true (c endIdx) (no_change n)
    (if_not_true (c postIdx)
       (next_failure ITERATION_ENDED_STATE FAILURE_OUTCOME POST_CONDITION_FAILED n)
       (next_outcome ITERATION_ENDED_STATE SUCCESS_OUTCOME n))))))"

definition getDestStateFromFailing_Update ::
  "conds \<Rightarrow> 'a node_vars_scheme \<Rightarrow> 'a node_vars_scheme dest" where
  "getDestStateFromFailing_Update c n =
     deref (c actionCompleteIdx) (\<lambda>cond.
       if cv_value cond = Some True then leave_failing n else no_change n)"

section \<open>Dispatch on the node type and the current state\<close>

text \<open>
  The virtual member functions: each class overrides some of the methods of \<open>NodeImpl\<close>
  and inherits the others; library call nodes are list nodes. The inherited methods for
  states a type never enters raise an error.
\<close>

definition getDestStateFromExecuting ::
  "node_type \<Rightarrow> conds \<Rightarrow> 'a node_vars_scheme \<Rightarrow> 'a node_vars_scheme dest" where
  "getDestStateFromExecuting ty c n =
     (case ty of
        NodeType_NodeList \<Rightarrow> getDestStateFromExecuting_List c n
      | NodeType_LibraryNodeCall \<Rightarrow> getDestStateFromExecuting_List c n
      | NodeType_Command \<Rightarrow> getDestStateFromExecuting_Command c n
      | NodeType_Assignment \<Rightarrow> getDestStateFromExecuting_Assignment c n
      | NodeType_Update \<Rightarrow> getDestStateFromExecuting_Update c n
      | _ \<Rightarrow> getDestStateFromExecuting_Empty c n)"

definition getDestStateFromFinishing ::
  "node_type \<Rightarrow> conds \<Rightarrow> 'a node_vars_scheme \<Rightarrow> 'a node_vars_scheme dest" where
  "getDestStateFromFinishing ty c n =
     (case ty of
        NodeType_NodeList \<Rightarrow> getDestStateFromFinishing_List c n
      | NodeType_LibraryNodeCall \<Rightarrow> getDestStateFromFinishing_List c n
      | NodeType_Command \<Rightarrow> getDestStateFromFinishing_Command c n
      | _ \<Rightarrow> Inl ErrorMsg)"

definition getDestStateFromFailing ::
  "node_type \<Rightarrow> conds \<Rightarrow> 'a node_vars_scheme \<Rightarrow> 'a node_vars_scheme dest" where
  "getDestStateFromFailing ty c n =
     (case ty of
        NodeType_NodeList \<Rightarrow> getDestStateFromFailing_List c n
      | NodeType_LibraryNodeCall \<Rightarrow> getDestStateFromFailing_List c n
      | NodeType_Command \<Rightarrow> getDestStateFromFailing_Command c n
      | NodeType_Assignment \<Rightarrow> getDestStateFromFailing_Assignment c n
      | NodeType_Update \<Rightarrow> getDestStateFromFailing_Update c n
      | _ \<Rightarrow> Inl ErrorMsg)"

text \<open>\<open>m_nextState\<close> is cleared first; the next outcome and failure type are not.\<close>

definition getDestState ::
  "node_type \<Rightarrow> node_state option \<Rightarrow> conds \<Rightarrow> 'a node_vars_scheme \<Rightarrow> 'a node_vars_scheme dest"
where
  "getDestState ty parent c n =
     (let n = n\<lparr>m_nextState := NO_NODE_STATE\<rparr> in
      case m_state n of
        INACTIVE_STATE \<Rightarrow> getDestStateFromInactive parent c n
      | WAITING_STATE \<Rightarrow> getDestStateFromWaiting c n
      | EXECUTING_STATE \<Rightarrow> getDestStateFromExecuting ty c n
      | FINISHING_STATE \<Rightarrow> getDestStateFromFinishing ty c n
      | FINISHED_STATE \<Rightarrow> getDestStateFromFinished parent n
      | FAILING_STATE \<Rightarrow> getDestStateFromFailing ty c n
      | ITERATION_ENDED_STATE \<Rightarrow> getDestStateFromIterationEnded c n
      | NO_NODE_STATE \<Rightarrow> Inl ErrorMsg)"

section \<open>The state diagram\<close>

text \<open>
  The reference: from each state, an ordered list of rules, each a condition with the value
  that fires it; the first rule that fires decides. \<open>is c i v\<close> is "the condition exists and
  has the known value \<open>v\<close>", \<open>must c i\<close> "the condition, if there is one, is true".
\<close>

datatype decision = Stay | Go node_state node_outcome failure_type

definition "is" :: "conds \<Rightarrow> cond_index \<Rightarrow> bool \<Rightarrow> bool" where
  "is c i v \<longleftrightarrow> (case c i of None \<Rightarrow> False | Some x \<Rightarrow> cv_value x = Some v)"

definition must :: "conds \<Rightarrow> cond_index \<Rightarrow> bool" where
  "must c i \<longleftrightarrow> (case c i of None \<Rightarrow> True | Some x \<Rightarrow> cv_value x = Some True)"

fun first_rule :: "(bool \<times> decision) list \<Rightarrow> decision" where
  "first_rule [] = Stay"
| "first_rule ((b, d) # rs) = (if b then d else first_rule rs)"

definition is_list :: "node_type \<Rightarrow> bool" where
  "is_list ty \<longleftrightarrow> ty = NodeType_NodeList \<or> ty = NodeType_LibraryNodeCall"

text \<open>Where an interrupted node goes: empty nodes have nothing to abort.\<close>

definition on_parent :: "node_type \<Rightarrow> node_state" where
  "on_parent ty = (if ty = NodeType_Empty then FINISHED_STATE else FAILING_STATE)"

definition on_self :: "node_type \<Rightarrow> node_state" where
  "on_self ty = (if ty = NodeType_Empty then ITERATION_ENDED_STATE else FAILING_STATE)"

definition interrupt_rules :: "node_type \<Rightarrow> conds \<Rightarrow> (bool \<times> decision) list" where
  "interrupt_rules ty c =
     [(is c ancestorExitIdx True, Go (on_parent ty) INTERRUPTED_OUTCOME PARENT_EXITED),
      (is c exitIdx True, Go (on_self ty) INTERRUPTED_OUTCOME EXITED),
      (is c ancestorInvariantIdx False, Go (on_parent ty) FAILURE_OUTCOME PARENT_FAILED),
      (is c invariantIdx False, Go (on_self ty) FAILURE_OUTCOME INVARIANT_CONDITION_FAILED)]"

definition iteration_end_rules :: "conds \<Rightarrow> (bool \<times> decision) list" where
  "iteration_end_rules c =
     [(\<not> must c postIdx, Go ITERATION_ENDED_STATE FAILURE_OUTCOME POST_CONDITION_FAILED),
      (True, Go ITERATION_ENDED_STATE SUCCESS_OUTCOME NO_FAILURE)]"

definition skip_decision :: decision where
  "skip_decision = Go FINISHED_STATE SKIPPED_OUTCOME NO_FAILURE"

fun rules :: "node_type \<Rightarrow> node_state option \<Rightarrow> conds \<Rightarrow> failure_type \<Rightarrow> node_state \<Rightarrow>
    (bool \<times> decision) list" where
  "rules ty parent c ft INACTIVE_STATE =
     [(parent = None, Go WAITING_STATE NO_OUTCOME NO_FAILURE),
      (parent = Some FINISHED_STATE, skip_decision),
      (parent \<noteq> Some EXECUTING_STATE, Stay),
      (is c ancestorExitIdx True, skip_decision),
      (is c ancestorInvariantIdx False, skip_decision),
      (is c ancestorEndIdx True, skip_decision),
      (True, Go WAITING_STATE NO_OUTCOME NO_FAILURE)]"
| "rules ty parent c ft WAITING_STATE =
     [(is c ancestorExitIdx True, skip_decision),
      (is c exitIdx True, skip_decision),
      (is c ancestorInvariantIdx False, skip_decision),
      (is c ancestorEndIdx True, skip_decision),
      (is c skipIdx True, skip_decision),
      (\<not> must c startIdx, Stay),
      (\<not> must c preIdx, Go ITERATION_ENDED_STATE FAILURE_OUTCOME PRE_CONDITION_FAILED),
      (True, Go EXECUTING_STATE NO_OUTCOME NO_FAILURE)]"
| "rules ty parent c ft EXECUTING_STATE =
     (if ty = NodeType_Assignment then [(\<not> must c actionCompleteIdx, Stay)] else []) @
     interrupt_rules ty c @
     [(\<not> must c endIdx, Stay)] @
     (if is_list ty \<or> ty = NodeType_Command then [(True, Go FINISHING_STATE NO_OUTCOME NO_FAILURE)]
      else iteration_end_rules c)"
| "rules ty parent c ft FINISHING_STATE =
     interrupt_rules ty c @ [(\<not> must c actionCompleteIdx, Stay)] @ iteration_end_rules c"
| "rules ty parent c ft FAILING_STATE =
     [(\<not> must c (if is_list ty \<or> ty = NodeType_Update then actionCompleteIdx else abortCompleteIdx), Stay),
      (ft = PARENT_EXITED \<or> ft = PARENT_FAILED, Go FINISHED_STATE NO_OUTCOME NO_FAILURE),
      (True, Go ITERATION_ENDED_STATE NO_OUTCOME NO_FAILURE)]"
| "rules ty parent c ft ITERATION_ENDED_STATE =
     [(is c ancestorExitIdx True, Go FINISHED_STATE INTERRUPTED_OUTCOME PARENT_EXITED),
      (is c ancestorInvariantIdx False, Go FINISHED_STATE FAILURE_OUTCOME PARENT_FAILED),
      (is c ancestorEndIdx True, Go FINISHED_STATE NO_OUTCOME NO_FAILURE),
      (is c repeatIdx True, Go WAITING_STATE NO_OUTCOME NO_FAILURE),
      (c repeatIdx \<noteq> None \<and> \<not> is c repeatIdx False, Stay),
      (True, Go FINISHED_STATE NO_OUTCOME NO_FAILURE)]"
| "rules ty parent c ft FINISHED_STATE =
     [(parent = Some WAITING_STATE, Go INACTIVE_STATE NO_OUTCOME NO_FAILURE)]"
| "rules ty parent c ft NO_NODE_STATE = []"

definition decide :: "node_type \<Rightarrow> node_state option \<Rightarrow> conds \<Rightarrow> 'a node_vars_scheme \<Rightarrow> decision" where
  "decide ty parent c n = first_rule (rules ty parent c (m_failureType n) (m_state n))"

text \<open>What a decision does to the pending part of the node's state.\<close>

fun record_decision :: "decision \<Rightarrow> 'a node_vars_scheme \<Rightarrow> bool \<times> 'a node_vars_scheme" where
  "record_decision Stay n = (False, n\<lparr>m_nextState := NO_NODE_STATE\<rparr>)"
| "record_decision (Go st oc ft) n =
     (True, n\<lparr>m_nextState := st,
              m_nextOutcome := (if oc = NO_OUTCOME then m_nextOutcome n else oc),
              m_nextFailureType := (if ft = NO_FAILURE then m_nextFailureType n else ft)\<rparr>)"

text \<open>
  The conditions the code's comments list as active in each state ("Conditions active: ...",
  before the methods of each state). In INACTIVE the ancestor conditions are active when
  the parent is executing, the only case in which they are consulted.
\<close>

fun active_conditions :: "node_type \<Rightarrow> node_state \<Rightarrow> cond_index list" where
  "active_conditions ty NO_NODE_STATE = []"
| "active_conditions ty INACTIVE_STATE = [ancestorExitIdx, ancestorEndIdx, ancestorInvariantIdx]"
| "active_conditions ty WAITING_STATE =
     [ancestorEndIdx, ancestorExitIdx, ancestorInvariantIdx, exitIdx, preIdx, skipIdx, startIdx]"
| "active_conditions ty EXECUTING_STATE =
     [ancestorExitIdx, ancestorInvariantIdx, endIdx, exitIdx, invariantIdx] @
     (if is_list ty \<or> ty = NodeType_Command then [] else [postIdx]) @
     (if ty = NodeType_Assignment then [actionCompleteIdx] else [])"
| "active_conditions ty FINISHING_STATE =
     [actionCompleteIdx, ancestorExitIdx, ancestorInvariantIdx, exitIdx, invariantIdx, postIdx]"
| "active_conditions ty FAILING_STATE =
     [if is_list ty \<or> ty = NodeType_Update then actionCompleteIdx else abortCompleteIdx]"
| "active_conditions ty ITERATION_ENDED_STATE =
     [ancestorEndIdx, ancestorExitIdx, ancestorInvariantIdx, repeatIdx]"
| "active_conditions ty FINISHED_STATE = []"

text \<open>
  The nodes and conditions the functions are meant for: one of the six node types of a
  plan, in a state of that type, with the conditions of that state active, and with the
  internal conditions its type has: the action-complete condition of list, command,
  assignment and update nodes (always known for lists, whose condition looks at the states
  of the children) and the abort-complete condition of command and assignment nodes.
\<close>

definition plan_type :: "node_type \<Rightarrow> bool" where
  "plan_type ty \<longleftrightarrow> ty \<noteq> NodeType_uninitialized \<and> ty \<noteq> NodeType_error"

fun state_of_type :: "node_type \<Rightarrow> node_state \<Rightarrow> bool" where
  "state_of_type ty NO_NODE_STATE = False"
| "state_of_type ty FAILING_STATE = (ty \<noteq> NodeType_Empty)"
| "state_of_type ty FINISHING_STATE = (is_list ty \<or> ty = NodeType_Command)"
| "state_of_type ty _ = True"

definition active_at :: "conds \<Rightarrow> cond_index \<Rightarrow> bool" where
  "active_at c i \<longleftrightarrow> (case c i of None \<Rightarrow> True | Some x \<Rightarrow> cv_active x)"

definition conds_active :: "node_type \<Rightarrow> node_state \<Rightarrow> conds \<Rightarrow> bool" where
  "conds_active ty st c \<longleftrightarrow>
     (\<forall>i \<in> set (active_conditions ty st). active_at c i)"

definition internal_conds :: "node_type \<Rightarrow> conds \<Rightarrow> bool" where
  "internal_conds ty c \<longleftrightarrow>
     (ty \<noteq> NodeType_Empty \<longrightarrow> c actionCompleteIdx \<noteq> None) \<and>
     (is_list ty \<longrightarrow> cv_value (the (c actionCompleteIdx)) \<noteq> None) \<and>
     (ty = NodeType_Command \<or> ty = NodeType_Assignment \<longrightarrow> c abortCompleteIdx \<noteq> None)"

section \<open>The functions implement the diagram\<close>

named_theorems dest_defs "definitions of the destination-state functions"

lemmas [dest_defs] =
  getDestStateFromInactive_def getDestStateFromWaiting_def getDestStateFromFinished_def
  getDestStateFromIterationEnded_def getDestStateFromExecuting_Empty_def
  getDestStateFromExecuting_List_def getDestStateFromFinishing_List_def
  getDestStateFromFailing_List_def getDestStateFromExecuting_Command_def
  getDestStateFromFinishing_Command_def getDestStateFromFailing_Command_def
  getDestStateFromExecuting_Assignment_def getDestStateFromFailing_Assignment_def
  getDestStateFromExecuting_Update_def getDestStateFromFailing_Update_def
  getDestStateFromExecuting_def getDestStateFromFinishing_def getDestStateFromFailing_def

lemma tested_is: "tested (Some v) (c i) yes no = (if is c i v then yes else no)"
  by (simp add: tested_def is_def split: option.splits)

lemma if_not_true_must: "if_not_true (c i) yes no = (if must c i then no else yes)"
  by (simp add: if_not_true_def must_def split: option.splits)

lemma checked_is:
  "active_at c i \<Longrightarrow>
   checked (Some v) (c i) yes no = (if is c i v then yes else no)"
  by (simp add: checked_def is_def active_at_def split: option.splits)

lemma check_not_true_must:
  "active_at c i \<Longrightarrow>
   check_not_true (c i) yes no = (if must c i then no else yes)"
  by (simp add: check_not_true_def must_def active_at_def split: option.splits)

lemma start_must:
  "active_at c i \<Longrightarrow>
   (case c i of None \<Rightarrow> yes
    | Some s \<Rightarrow> bindE (check CheckError (cv_active s))
        (\<lambda>_. if cv_value s = Some True then yes else no)) = (if must c i then yes else no)"
  by (simp add: must_def active_at_def split: option.splits)

lemma deref_must:
  "c i \<noteq> None \<Longrightarrow>
   deref (c i) (\<lambda>x. if cv_value x = Some True then yes else no) = (if must c i then yes else no)"
  "c i \<noteq> None \<Longrightarrow>
   deref (c i) (\<lambda>x. if cv_value x \<noteq> Some True then no else yes) = (if must c i then yes else no)"
  by (auto simp: deref_def must_def)

lemma deref_known:
  "c i \<noteq> None \<Longrightarrow> cv_value (the (c i)) \<noteq> None \<Longrightarrow>
   deref (c i) (\<lambda>x. case cv_value x of None \<Rightarrow> Inl e | Some t \<Rightarrow> if t then yes else no) =
     (if must c i then yes else no)"
  by (auto simp: deref_def must_def)

lemmas test_rules = tested_is if_not_true_must deref_must deref_known

lemmas outcome_defs =
  no_change_def next_state_def next_outcome_def next_failure_def leave_failing_def

lemmas rule_defs =
  decide_def interrupt_rules_def iteration_end_rules_def skip_decision_def on_parent_def
  on_self_def is_list_def

lemma repeat_rules:
  "active_at c i \<Longrightarrow>
   (case c i of None \<Rightarrow> no
    | Some r \<Rightarrow> (case cv_value r of
         None \<Rightarrow> bindE (check CheckError (cv_active r)) (\<lambda>_. stay)
       | Some True \<Rightarrow> yes | Some False \<Rightarrow> no)) =
   (if is c i True then yes else if c i \<noteq> None \<and> \<not> is c i False then stay else no)"
  by (auto simp: is_def active_at_def split: option.splits bool.splits)

lemmas active_rules = checked_is check_not_true_must start_must repeat_rules

lemma dest_Inactive:
  assumes "m_state n = INACTIVE_STATE" and "conds_active ty INACTIVE_STATE c"
  shows "getDestState ty parent c n = Inr (record_decision (decide ty parent c n) n)"
  using assms
  by (cases parent; cases "the parent")
    (simp_all add: getDestState_def Let_def getDestStateFromInactive_def conds_active_def
      active_rules rule_defs outcome_defs)

lemma dest_Waiting:
  assumes "m_state n = WAITING_STATE" and "conds_active ty WAITING_STATE c"
  shows "getDestState ty parent c n = Inr (record_decision (decide ty parent c n) n)"
  using assms
  by (simp add: getDestState_def Let_def getDestStateFromWaiting_def conds_active_def active_rules
      rule_defs outcome_defs)

lemma dest_IterationEnded:
  assumes "m_state n = ITERATION_ENDED_STATE" and "conds_active ty ITERATION_ENDED_STATE c"
  shows "getDestState ty parent c n = Inr (record_decision (decide ty parent c n) n)"
  using assms
  by (simp add: getDestState_def Let_def getDestStateFromIterationEnded_def conds_active_def
      active_rules rule_defs outcome_defs)

lemma dest_Finished:
  assumes "m_state n = FINISHED_STATE"
  shows "getDestState ty parent c n = Inr (record_decision (decide ty parent c n) n)"
  by (simp add: getDestState_def Let_def assms getDestStateFromFinished_def rule_defs outcome_defs)

lemma dest_Executing:
  assumes st: "m_state n = EXECUTING_STATE" and "conds_active ty EXECUTING_STATE c"
    and ty: "plan_type ty" and ic: "internal_conds ty c"
  shows "getDestState ty parent c n = Inr (record_decision (decide ty parent c n) n)"
proof (cases "ty = NodeType_Empty")
  case True
  then show ?thesis
    using assms
    by (simp add: getDestState_def Let_def dest_defs conds_active_def active_rules rule_defs
        outcome_defs)
next
  case False
  then show ?thesis
    using ty ic
    by (cases ty)
      (simp_all add: getDestState_def Let_def st dest_defs test_rules internal_conds_def plan_type_def
        rule_defs outcome_defs)
qed

lemma dest_Finishing:
  assumes st: "m_state n = FINISHING_STATE" and "is_list ty \<or> ty = NodeType_Command"
    and ic: "internal_conds ty c"
  shows "getDestState ty parent c n = Inr (record_decision (decide ty parent c n) n)"
  using assms
  by (cases ty)
    (simp_all add: getDestState_def Let_def st dest_defs test_rules internal_conds_def rule_defs
      outcome_defs)

lemma dest_Failing:
  assumes st: "m_state n = FAILING_STATE" and "ty \<noteq> NodeType_Empty" and ty: "plan_type ty"
    and ic: "internal_conds ty c"
  shows "getDestState ty parent c n = Inr (record_decision (decide ty parent c n) n)"
  using assms
  by (cases ty)
    (simp_all add: getDestState_def Let_def st dest_defs test_rules internal_conds_def rule_defs
      outcome_defs plan_type_def)

section \<open>Legal successors\<close>

text \<open>
  The successor states the code's comments allow ("Legal successor states: ...").
\<close>

fun successors :: "node_type \<Rightarrow> node_state \<Rightarrow> node_state list" where
  "successors ty NO_NODE_STATE = []"
| "successors ty INACTIVE_STATE = [WAITING_STATE, FINISHED_STATE]"
| "successors ty WAITING_STATE = [EXECUTING_STATE, FINISHED_STATE, ITERATION_ENDED_STATE]"
| "successors ty EXECUTING_STATE =
     (if is_list ty \<or> ty = NodeType_Command then [FAILING_STATE, FINISHING_STATE]
      else if ty = NodeType_Assignment \<or> ty = NodeType_Update
      then [FAILING_STATE, ITERATION_ENDED_STATE]
      else [FINISHED_STATE, ITERATION_ENDED_STATE])"
| "successors ty FINISHING_STATE = [FAILING_STATE, ITERATION_ENDED_STATE]"
| "successors ty FAILING_STATE = [FINISHED_STATE, ITERATION_ENDED_STATE]"
| "successors ty ITERATION_ENDED_STATE = [FINISHED_STATE, WAITING_STATE]"
| "successors ty FINISHED_STATE = [INACTIVE_STATE]"

text \<open>
  \<open>dest_all R r\<close>: whatever a destination function returns (when it returns) satisfies
  \<open>R\<close>. The rules below take a goal about a function apart along its tests.
\<close>

definition dest_all :: "(bool \<Rightarrow> 'n \<Rightarrow> bool) \<Rightarrow> 'n dest \<Rightarrow> bool" where
  "dest_all R r \<longleftrightarrow> (\<forall>b n'. r = Inr (b, n') \<longrightarrow> R b n')"

lemma dest_allD: "dest_all R r \<Longrightarrow> r = Inr (b, n') \<Longrightarrow> R b n'"
  by (simp add: dest_all_def)

named_theorems dest_all_intros "rules that take a destination function apart"

lemma dest_all_tested [dest_all_intros]:
  "dest_all R yes \<Longrightarrow> dest_all R no \<Longrightarrow> dest_all R (tested v cond yes no)"
  by (auto simp: tested_def dest_all_def split: option.splits)

lemma dest_all_checked [dest_all_intros]:
  "dest_all R yes \<Longrightarrow> dest_all R no \<Longrightarrow> dest_all R (checked v cond yes no)"
  by (auto simp: checked_def dest_all_def split: option.splits if_splits)

lemma dest_all_not_true [dest_all_intros]:
  "dest_all R yes \<Longrightarrow> dest_all R no \<Longrightarrow> dest_all R (if_not_true cond yes no)"
  by (auto simp: if_not_true_def dest_all_def split: option.splits)

lemma dest_all_check_not_true [dest_all_intros]:
  "dest_all R yes \<Longrightarrow> dest_all R no \<Longrightarrow> dest_all R (check_not_true cond yes no)"
  by (auto simp: check_not_true_def dest_all_def split: option.splits if_splits)

lemma dest_all_deref [dest_all_intros]:
  "(\<And>x. dest_all R (f x)) \<Longrightarrow> dest_all R (deref cond f)"
  by (auto simp: deref_def dest_all_def split: option.splits)

lemma dest_all_bind [dest_all_intros]:
  "(\<And>x. dest_all R (f x)) \<Longrightarrow> dest_all R (bindE m f)"
  by (auto simp: dest_all_def)

lemma dest_all_if [dest_all_intros]:
  "dest_all R yes \<Longrightarrow> dest_all R no \<Longrightarrow> dest_all R (if b then yes else no)"
  by simp

lemma dest_all_option [dest_all_intros]:
  "dest_all R f \<Longrightarrow> (\<And>x. dest_all R (g x)) \<Longrightarrow>
   dest_all R (case y of None \<Rightarrow> f | Some x \<Rightarrow> g x)"
  by (cases y) simp_all

lemma dest_all_bool [dest_all_intros]:
  "dest_all R f \<Longrightarrow> dest_all R g \<Longrightarrow> dest_all R (case y of True \<Rightarrow> f | False \<Rightarrow> g)"
  by (cases y) simp_all

lemma dest_all_raise [dest_all_intros]: "dest_all R (Inl e)"
  by (simp add: dest_all_def)

text \<open>What every destination function guarantees about the node it is given.\<close>

definition dest_post ::
  "node_state list \<Rightarrow> 'a node_vars_scheme \<Rightarrow> bool \<Rightarrow> 'a node_vars_scheme \<Rightarrow> bool" where
  "dest_post succs n b n' \<longleftrightarrow>
     n' = n\<lparr>m_nextState := m_nextState n', m_nextOutcome := m_nextOutcome n',
            m_nextFailureType := m_nextFailureType n'\<rparr> \<and>
     (if b then m_nextState n' \<in> set succs else n' = n)"

lemma dest_post_leaves:
  "st \<in> set succs \<Longrightarrow> dest_all (dest_post succs n) (next_state st n)"
  "st \<in> set succs \<Longrightarrow> dest_all (dest_post succs n) (next_outcome st oc n)"
  "st \<in> set succs \<Longrightarrow> dest_all (dest_post succs n) (next_failure st oc ft n)"
  "dest_all (dest_post succs n) (no_change n)"
  by (auto simp: dest_all_def dest_post_def outcome_defs)

lemma dest_post_leave_failing [dest_all_intros]:
  "dest_all (dest_post (successors ty FAILING_STATE) n) (leave_failing n)"
  unfolding leave_failing_def by (intro dest_all_intros dest_post_leaves) simp_all

lemma dest_post_Inactive:
  "dest_all (dest_post (successors ty INACTIVE_STATE) n) (getDestStateFromInactive parent c n)"
  unfolding getDestStateFromInactive_def
  by (cases parent; cases "the parent") (simp_all, (intro dest_all_intros dest_post_leaves; simp)+)

lemma dest_post_Waiting:
  "dest_all (dest_post (successors ty WAITING_STATE) n) (getDestStateFromWaiting c n)"
  unfolding getDestStateFromWaiting_def Let_def
  by (intro dest_all_intros dest_post_leaves) simp_all

lemma dest_post_Finished:
  "dest_all (dest_post (successors ty FINISHED_STATE) n) (getDestStateFromFinished parent n)"
  unfolding getDestStateFromFinished_def
  by (intro dest_all_intros dest_post_leaves) simp_all

lemma dest_post_IterationEnded:
  "dest_all (dest_post (successors ty ITERATION_ENDED_STATE) n) (getDestStateFromIterationEnded c n)"
  unfolding getDestStateFromIterationEnded_def
  by (intro dest_all_intros dest_post_leaves) simp_all

lemma dest_post_Executing:
  "dest_all (dest_post (successors ty EXECUTING_STATE) n) (getDestStateFromExecuting ty c n)"
  unfolding getDestStateFromExecuting_def getDestStateFromExecuting_Empty_def
    getDestStateFromExecuting_List_def getDestStateFromExecuting_Command_def
    getDestStateFromExecuting_Assignment_def getDestStateFromExecuting_Update_def
  by (cases ty; simp only: node_type.case)
    (intro dest_all_intros dest_post_leaves; simp add: is_list_def)+

lemma dest_post_Finishing:
  "dest_all (dest_post (successors ty FINISHING_STATE) n) (getDestStateFromFinishing ty c n)"
  unfolding getDestStateFromFinishing_def getDestStateFromFinishing_List_def
    getDestStateFromFinishing_Command_def
  by (cases ty; simp only: node_type.case) (intro dest_all_intros dest_post_leaves; simp)+

lemma dest_post_Failing:
  "dest_all (dest_post (successors ty FAILING_STATE) n) (getDestStateFromFailing ty c n)"
  unfolding getDestStateFromFailing_def getDestStateFromFailing_List_def
    getDestStateFromFailing_Command_def getDestStateFromFailing_Assignment_def
    getDestStateFromFailing_Update_def
  by (cases ty; simp only: node_type.case) (intro dest_all_intros dest_post_leaves)+

lemmas dest_post_all =
  dest_post_Inactive dest_post_Waiting dest_post_Finished dest_post_IterationEnded
  dest_post_Executing dest_post_Finishing dest_post_Failing

lemma dest_post_state:
  "dest_all (dest_post (successors ty (m_state n)) (n\<lparr>m_nextState := NO_NODE_STATE\<rparr>))
     (getDestState ty parent c n)"
  unfolding getDestState_def Let_def
  using dest_post_all [of ty "n\<lparr>m_nextState := NO_NODE_STATE\<rparr>"]
  by (cases "m_state n") (simp_all add: dest_all_raise)

section \<open>Properties\<close>

text \<open>
  Property C5. The destination-state functions of all node types implement the state
  diagram: for a node of a plan in a state of its type, with the conditions of that state
  active and the internal conditions of its type present, \<open>getDestState\<close> raises no error and
  records the decision of the first rule of the diagram that fires, in the order ancestor
  exit, exit, ancestor invariant, invariant, (ancestor) end, and so on.
\<close>

theorem getDestState_decide:
  assumes "plan_type ty" and "state_of_type ty (m_state n)"
    and "conds_active ty (m_state n) c" and "internal_conds ty c"
  shows "getDestState ty parent c n = Inr (record_decision (decide ty parent c n) n)"
  using assms
  by (cases "m_state n")
    (auto intro: dest_Inactive dest_Waiting dest_IterationEnded dest_Finished dest_Executing
      dest_Finishing dest_Failing)

definition example_node :: "node_state \<Rightarrow> node_vars" where
  "example_node st = \<lparr>m_state = st, m_outcome = NO_OUTCOME, m_failureType = NO_FAILURE,
     m_nextState = NO_NODE_STATE, m_nextOutcome = NO_OUTCOME, m_nextFailureType = NO_FAILURE\<rparr>"

definition example_conds :: "(cond_index \<times> bool option) list \<Rightarrow> conds" where
  "example_conds l i =
     map_option (\<lambda>v. \<lparr>cv_active = True, cv_value = v\<rparr>) (map_of l i)"

text \<open>A command whose exit condition is true and whose invariant is false: exit wins.\<close>

theorem getDestState_decide_witness:
  "getDestState NodeType_Command None
     (example_conds [(exitIdx, Some True), (invariantIdx, Some False), (endIdx, None),
        (actionCompleteIdx, Some False), (abortCompleteIdx, Some False)])
     (example_node EXECUTING_STATE) =
   Inr (True, (example_node EXECUTING_STATE)\<lparr>m_nextState := FAILING_STATE,
     m_nextOutcome := INTERRUPTED_OUTCOME, m_nextFailureType := EXITED\<rparr>)"
  by (subst getDestState_decide)
    (simp_all add: plan_type_def example_node_def example_conds_def conds_active_def
      active_at_def internal_conds_def is_list_def rule_defs is_def)

text \<open>
  Property C17. Whatever the values of the conditions, known or unknown, active or not,
  \<open>getDestState\<close> only ever proposes a legal successor of the node's current state, writes
  nothing but the three pending members, and when it answers "no change" leaves no pending
  state.
\<close>

theorem getDestState_legal:
  assumes "getDestState ty parent c n = Inr (b, n')"
  shows "n' = n\<lparr>m_nextState := m_nextState n', m_nextOutcome := m_nextOutcome n',
              m_nextFailureType := m_nextFailureType n'\<rparr> \<and>
         (b \<longrightarrow> m_nextState n' \<in> set (successors ty (m_state n))) \<and>
         (\<not> b \<longrightarrow> n' = n\<lparr>m_nextState := NO_NODE_STATE\<rparr>)"
proof -
  have "dest_post (successors ty (m_state n)) (n\<lparr>m_nextState := NO_NODE_STATE\<rparr>) b n'"
    using dest_post_state [of ty n parent c] assms by (simp add: dest_all_def)
  then show ?thesis by (auto simp: dest_post_def split: if_splits)
qed

theorem getDestState_legal_witness:
  "getDestState NodeType_Empty None (example_conds [(endIdx, Some True), (postIdx, None)])
     (example_node EXECUTING_STATE) =
   Inr (True, (example_node EXECUTING_STATE)\<lparr>m_nextState := ITERATION_ENDED_STATE,
     m_nextOutcome := FAILURE_OUTCOME, m_nextFailureType := POST_CONDITION_FAILED\<rparr>) \<and>
   ITERATION_ENDED_STATE \<in> set (successors NodeType_Empty EXECUTING_STATE)"
proof -
  have r: "getDestState NodeType_Empty None (example_conds [(endIdx, Some True), (postIdx, None)])
     (example_node EXECUTING_STATE) =
   Inr (True, (example_node EXECUTING_STATE)\<lparr>m_nextState := ITERATION_ENDED_STATE,
     m_nextOutcome := FAILURE_OUTCOME, m_nextFailureType := POST_CONDITION_FAILED\<rparr>)"
    by (simp add: getDestState_def Let_def getDestStateFromExecuting_def example_node_def
        getDestStateFromExecuting_Empty_def checked_def check_not_true_def example_conds_def
        outcome_defs)
  from getDestState_legal [OF r] r show ?thesis by (simp add: example_node_def)
qed

end
