(* ===== verification/Node_Transition.thy ===== *)
theory Node_Transition
  imports Node_Dest
begin

text \<open>
  State transitions of a node: the member functions \<open>transitionFrom...\<close> and
  \<open>transitionTo...\<close> of src/src/exec/NodeImpl.cc, ListNode.cc, CommandNode.cc,
  AssignmentNode.cc and UpdateNode.cc, as scripts: lists of the calls they make, in order,
  given the state being left (\<open>m_state\<close>) and the state being entered (\<open>m_nextState\<close>). The
  executive's theory runs the scripts; here the activations and deactivations of condition
  expressions are balanced against the conditions the code says are active in each state,
  and the outcome and failure type a node records are related to its state.
\<close>

section \<open>Calls\<close>

datatype call =
    Activate cond_index          \<comment> \<open>\<open>if (m_conditions[i]) m_conditions[i]->activate()\<close>\<close>
  | Deactivate cond_index        \<comment> \<open>\<open>if (m_conditions[i]) m_conditions[i]->deactivate()\<close>\<close>
  | ActivateAsserted cond_index  \<comment> \<open>\<open>assertTrueMsg(m_conditions[i], ...)\<close>, then \<open>activate()\<close>\<close>
  | DeactivateDeref cond_index   \<comment> \<open>\<open>m_conditions[i]->deactivate()\<close> without a null test\<close>
  | ActivateLocalVariables
  | DeactivateLocalVariables
  | SpecializedDeactivateExecutable
  | ReleaseMutexes               \<comment> \<open>\<open>release(this)\<close> on every mutex the node uses\<close>
  | ReleaseAssignmentVariable    \<comment> \<open>\<open>release(this)\<close> on the base variable of the assignment\<close>
  | EnqueueAbortCommand
  | EnqueueAssignmentForRetraction
  | ResetNode                    \<comment> \<open>\<open>reset()\<close>: outcome and failure type\<close>
  | RaiseErrorMsg                \<comment> \<open>\<open>errorMsg(...)\<close>\<close>

text \<open>The parent owns the ancestor conditions: these four functions have empty bodies.\<close>

definition activateAncestorEndCondition :: "call list" where
  "activateAncestorEndCondition = []"

definition activateAncestorExitInvariantConditions :: "call list" where
  "activateAncestorExitInvariantConditions = []"

definition deactivateAncestorEndCondition :: "call list" where
  "deactivateAncestorEndCondition = []"

definition deactivateAncestorExitInvariantConditions :: "call list" where
  "deactivateAncestorExitInvariantConditions = []"

definition activatePreSkipStartConditions :: "call list" where
  "activatePreSkipStartConditions = [Activate skipIdx, Activate startIdx, Activate preIdx]"

definition deactivatePreSkipStartConditions :: "call list" where
  "deactivatePreSkipStartConditions = [Deactivate skipIdx, Deactivate startIdx, Deactivate preIdx]"

definition activateActionCompleteCondition :: "call list" where
  "activateActionCompleteCondition = [ActivateAsserted actionCompleteIdx]"

definition activateAbortCompleteCondition :: "call list" where
  "activateAbortCompleteCondition = [ActivateAsserted abortCompleteIdx]"

definition deactivateActionCompleteCondition :: "call list" where
  "deactivateActionCompleteCondition = [DeactivateDeref actionCompleteIdx]"

definition deactivateAbortCompleteCondition :: "call list" where
  "deactivateAbortCompleteCondition = [DeactivateDeref abortCompleteIdx]"

definition deactivateExecutable :: "call list" where
  "deactivateExecutable = [SpecializedDeactivateExecutable, DeactivateLocalVariables]"

section \<open>NodeImpl: all nodes\<close>

definition transitionFromInactive :: "node_state \<Rightarrow> call list" where
  "transitionFromInactive next =
     (if next = WAITING_STATE
      then activateAncestorExitInvariantConditions @ activateAncestorEndCondition
      else [])"

definition transitionToInactive :: "call list" where
  "transitionToInactive = []"

definition transitionToWaiting :: "call list" where
  "transitionToWaiting = Activate exitIdx # activatePreSkipStartConditions"

definition transitionFromWaiting :: "node_state \<Rightarrow> call list" where
  "transitionFromWaiting next =
     deactivatePreSkipStartConditions @
     (case next of
        EXECUTING_STATE \<Rightarrow> deactivateAncestorEndCondition
      | FINISHED_STATE \<Rightarrow>
          deactivateAncestorExitInvariantConditions @ deactivateAncestorEndCondition @
          [Deactivate exitIdx]
      | ITERATION_ENDED_STATE \<Rightarrow> [Deactivate exitIdx]
      | _ \<Rightarrow> [RaiseErrorMsg])"

definition transitionToIterationEnded_Node :: "node_state \<Rightarrow> call list" where
  "transitionToIterationEnded_Node state =
     (if state \<noteq> WAITING_STATE then [ReleaseMutexes] else []) @ [Activate repeatIdx]"

definition transitionFromIterationEnded :: "node_state \<Rightarrow> call list" where
  "transitionFromIterationEnded next =
     Deactivate repeatIdx #
     (case next of
        FINISHED_STATE \<Rightarrow> deactivateAncestorExitInvariantConditions @ deactivateAncestorEndCondition
      | WAITING_STATE \<Rightarrow> [ResetNode]
      | _ \<Rightarrow> [RaiseErrorMsg])"

definition transitionToFinished_Node :: "node_state \<Rightarrow> call list" where
  "transitionToFinished_Node state = (if state = WAITING_STATE then [ReleaseMutexes] else [])"

definition transitionFromFinished :: "call list" where
  "transitionFromFinished = [ResetNode]"

section \<open>EXECUTING, FINISHING and FAILING of each node type\<close>

text \<open>NodeImpl.cc: empty nodes; the first is inherited by update nodes too.\<close>

definition transitionToExecuting_Node :: "call list" where
  "transitionToExecuting_Node =
     [ActivateLocalVariables, Activate invariantIdx, Activate endIdx, Activate postIdx]"

definition transitionFromExecuting_Empty :: "node_state \<Rightarrow> call list" where
  "transitionFromExecuting_Empty next =
     [Deactivate exitIdx, Deactivate invariantIdx, Deactivate endIdx, Deactivate postIdx] @
     (case next of
        FINISHED_STATE \<Rightarrow> deactivateAncestorExitInvariantConditions
      | ITERATION_ENDED_STATE \<Rightarrow> activateAncestorEndCondition
      | _ \<Rightarrow> [RaiseErrorMsg]) @
     deactivateExecutable"

text \<open>ListNode.cc. The last three activations are of conditions for the children.\<close>

definition transitionToExecuting_List :: "call list" where
  "transitionToExecuting_List =
     [ActivateLocalVariables, Activate invariantIdx, Activate endIdx,
      Activate ancestorExitIdx, Activate ancestorInvariantIdx, Activate ancestorEndIdx]"

definition transitionFromExecuting_List :: "node_state \<Rightarrow> call list" where
  "transitionFromExecuting_List next =
     Deactivate endIdx #
     (case next of
        FAILING_STATE \<Rightarrow>
          deactivateAncestorExitInvariantConditions @ [Deactivate exitIdx, Deactivate invariantIdx] @
          activateActionCompleteCondition
      | FINISHING_STATE \<Rightarrow> activateActionCompleteCondition
      | _ \<Rightarrow> [RaiseErrorMsg])"

definition transitionToFinishing_List :: "call list" where
  "transitionToFinishing_List = [Activate postIdx]"

definition transitionFromFinishing_List :: "node_state \<Rightarrow> call list" where
  "transitionFromFinishing_List next =
     [Deactivate exitIdx, Deactivate invariantIdx, Deactivate postIdx] @
     (case next of
        ITERATION_ENDED_STATE \<Rightarrow>
          [Deactivate ancestorExitIdx, Deactivate ancestorInvariantIdx, Deactivate ancestorEndIdx] @
          deactivateActionCompleteCondition @ deactivateExecutable @ activateAncestorEndCondition
      | FAILING_STATE \<Rightarrow> deactivateAncestorExitInvariantConditions
      | _ \<Rightarrow> [RaiseErrorMsg])"

definition transitionToFailing_List :: "call list" where
  "transitionToFailing_List = []"

definition transitionFromFailing_List :: "node_state \<Rightarrow> call list" where
  "transitionFromFailing_List next =
     [Deactivate ancestorExitIdx, Deactivate ancestorInvariantIdx, Deactivate ancestorEndIdx] @
     deactivateActionCompleteCondition @ deactivateExecutable @
     (case next of
        ITERATION_ENDED_STATE \<Rightarrow> activateAncestorExitInvariantConditions @ activateAncestorEndCondition
      | FINISHED_STATE \<Rightarrow> []
      | _ \<Rightarrow> [RaiseErrorMsg])"

text \<open>CommandNode.cc. \<open>transitionToExecuting\<close> activates the exit condition a second time.\<close>

definition transitionToExecuting_Command :: "call list" where
  "transitionToExecuting_Command =
     [ActivateLocalVariables, Activate invariantIdx, Activate exitIdx, Activate endIdx]"

definition transitionFromExecuting_Command :: "node_state \<Rightarrow> call list" where
  "transitionFromExecuting_Command next =
     (case next of
        FAILING_STATE \<Rightarrow>
          deactivateAncestorExitInvariantConditions @ [Deactivate exitIdx, Deactivate invariantIdx] @
          [Deactivate endIdx]
      | FINISHING_STATE \<Rightarrow> [Deactivate endIdx]
      | _ \<Rightarrow> [RaiseErrorMsg])"

definition transitionToFinishing_Command :: "call list" where
  "transitionToFinishing_Command = Activate postIdx # activateActionCompleteCondition"

definition transitionFromFinishing_Command :: "node_state \<Rightarrow> call list" where
  "transitionFromFinishing_Command next =
     (case next of
        FAILING_STATE \<Rightarrow> deactivateAncestorExitInvariantConditions
      | ITERATION_ENDED_STATE \<Rightarrow> activateAncestorEndCondition @ deactivateExecutable
      | _ \<Rightarrow> [RaiseErrorMsg]) @
     [Deactivate exitIdx, Deactivate invariantIdx, Deactivate postIdx] @
     deactivateActionCompleteCondition"

definition transitionToFailing_Command :: "call list" where
  "transitionToFailing_Command = activateAbortCompleteCondition @ [EnqueueAbortCommand]"

definition transitionFromFailing_Command :: "node_state \<Rightarrow> call list" where
  "transitionFromFailing_Command next =
     deactivateAbortCompleteCondition @ deactivateExecutable @
     (case next of
        ITERATION_ENDED_STATE \<Rightarrow> activateAncestorExitInvariantConditions @ activateAncestorEndCondition
      | FINISHED_STATE \<Rightarrow> []
      | _ \<Rightarrow> [RaiseErrorMsg])"

text \<open>AssignmentNode.cc.\<close>

definition transitionToExecuting_Assignment :: "call list" where
  "transitionToExecuting_Assignment =
     transitionToExecuting_Node @ activateActionCompleteCondition"

definition transitionFromExecuting_Assignment :: "node_state \<Rightarrow> call list" where
  "transitionFromExecuting_Assignment next =
     [Deactivate exitIdx, Deactivate invariantIdx, Deactivate endIdx, Deactivate postIdx] @
     deactivateActionCompleteCondition @
     (case next of
        FAILING_STATE \<Rightarrow> deactivateAncestorExitInvariantConditions
      | ITERATION_ENDED_STATE \<Rightarrow> activateAncestorEndCondition @ deactivateExecutable
      | _ \<Rightarrow> [RaiseErrorMsg])"

definition transitionToFailing_Assignment :: "call list" where
  "transitionToFailing_Assignment =
     activateAbortCompleteCondition @ [EnqueueAssignmentForRetraction]"

definition transitionFromFailing_Assignment :: "node_state \<Rightarrow> call list" where
  "transitionFromFailing_Assignment next =
     deactivateAbortCompleteCondition @ deactivateExecutable @
     (case next of
        ITERATION_ENDED_STATE \<Rightarrow> activateAncestorExitInvariantConditions @ activateAncestorEndCondition
      | FINISHED_STATE \<Rightarrow> []
      | _ \<Rightarrow> [RaiseErrorMsg])"

definition transitionToIterationEnded_Assignment :: "node_state \<Rightarrow> call list" where
  "transitionToIterationEnded_Assignment state =
     (if state \<noteq> WAITING_STATE then [ReleaseAssignmentVariable] else []) @
     transitionToIterationEnded_Node state"

definition transitionToFinished_Assignment :: "node_state \<Rightarrow> call list" where
  "transitionToFinished_Assignment state =
     (if state = FAILING_STATE then [ReleaseAssignmentVariable] else []) @
     transitionToFinished_Node state"

text \<open>UpdateNode.cc. FAILING waits on the action-complete condition.\<close>

definition transitionFromExecuting_Update :: "node_state \<Rightarrow> call list" where
  "transitionFromExecuting_Update next =
     [Deactivate exitIdx, Deactivate invariantIdx, Deactivate endIdx, Deactivate postIdx] @
     (case next of
        FAILING_STATE \<Rightarrow> deactivateAncestorExitInvariantConditions @ activateActionCompleteCondition
      | ITERATION_ENDED_STATE \<Rightarrow> deactivateExecutable @ activateAncestorEndCondition
      | _ \<Rightarrow> [RaiseErrorMsg])"

definition transitionToFailing_Update :: "call list" where
  "transitionToFailing_Update = []"

definition transitionFromFailing_Update :: "node_state \<Rightarrow> call list" where
  "transitionFromFailing_Update next =
     deactivateActionCompleteCondition @ deactivateExecutable @
     (case next of
        ITERATION_ENDED_STATE \<Rightarrow> activateAncestorExitInvariantConditions @ activateAncestorEndCondition
      | FINISHED_STATE \<Rightarrow> []
      | _ \<Rightarrow> [RaiseErrorMsg])"

section \<open>Dispatch\<close>

text \<open>
  The virtual functions, and the two switches of \<open>NodeImpl::transition\<close>: out of the current
  state, then into the next one while \<open>m_state\<close> still holds the state being left. The
  inherited methods for states a type never enters raise an error.
\<close>

definition transitionFromExecuting :: "node_type \<Rightarrow> node_state \<Rightarrow> call list" where
  "transitionFromExecuting ty next =
     (case ty of
        NodeType_NodeList \<Rightarrow> transitionFromExecuting_List next
      | NodeType_LibraryNodeCall \<Rightarrow> transitionFromExecuting_List next
      | NodeType_Command \<Rightarrow> transitionFromExecuting_Command next
      | NodeType_Assignment \<Rightarrow> transitionFromExecuting_Assignment next
      | NodeType_Update \<Rightarrow> transitionFromExecuting_Update next
      | _ \<Rightarrow> transitionFromExecuting_Empty next)"

definition transitionFromFinishing :: "node_type \<Rightarrow> node_state \<Rightarrow> call list" where
  "transitionFromFinishing ty next =
     (case ty of
        NodeType_NodeList \<Rightarrow> transitionFromFinishing_List next
      | NodeType_LibraryNodeCall \<Rightarrow> transitionFromFinishing_List next
      | NodeType_Command \<Rightarrow> transitionFromFinishing_Command next
      | _ \<Rightarrow> [RaiseErrorMsg])"

definition transitionFromFailing :: "node_type \<Rightarrow> node_state \<Rightarrow> call list" where
  "transitionFromFailing ty next =
     (case ty of
        NodeType_NodeList \<Rightarrow> transitionFromFailing_List next
      | NodeType_LibraryNodeCall \<Rightarrow> transitionFromFailing_List next
      | NodeType_Command \<Rightarrow> transitionFromFailing_Command next
      | NodeType_Assignment \<Rightarrow> transitionFromFailing_Assignment next
      | NodeType_Update \<Rightarrow> transitionFromFailing_Update next
      | _ \<Rightarrow> [RaiseErrorMsg])"

definition transitionToExecuting :: "node_type \<Rightarrow> call list" where
  "transitionToExecuting ty =
     (case ty of
        NodeType_NodeList \<Rightarrow> transitionToExecuting_List
      | NodeType_LibraryNodeCall \<Rightarrow> transitionToExecuting_List
      | NodeType_Command \<Rightarrow> transitionToExecuting_Command
      | NodeType_Assignment \<Rightarrow> transitionToExecuting_Assignment
      | _ \<Rightarrow> transitionToExecuting_Node)"

definition transitionToFinishing :: "node_type \<Rightarrow> call list" where
  "transitionToFinishing ty =
     (case ty of
        NodeType_NodeList \<Rightarrow> transitionToFinishing_List
      | NodeType_LibraryNodeCall \<Rightarrow> transitionToFinishing_List
      | NodeType_Command \<Rightarrow> transitionToFinishing_Command
      | _ \<Rightarrow> [RaiseErrorMsg])"

definition transitionToFailing :: "node_type \<Rightarrow> call list" where
  "transitionToFailing ty =
     (case ty of
        NodeType_NodeList \<Rightarrow> transitionToFailing_List
      | NodeType_LibraryNodeCall \<Rightarrow> transitionToFailing_List
      | NodeType_Command \<Rightarrow> transitionToFailing_Command
      | NodeType_Assignment \<Rightarrow> transitionToFailing_Assignment
      | NodeType_Update \<Rightarrow> transitionToFailing_Update
      | _ \<Rightarrow> [RaiseErrorMsg])"

definition transitionToIterationEnded :: "node_type \<Rightarrow> node_state \<Rightarrow> call list" where
  "transitionToIterationEnded ty state =
     (if ty = NodeType_Assignment then transitionToIterationEnded_Assignment state
      else transitionToIterationEnded_Node state)"

definition transitionToFinished :: "node_type \<Rightarrow> node_state \<Rightarrow> call list" where
  "transitionToFinished ty state =
     (if ty = NodeType_Assignment then transitionToFinished_Assignment state
      else transitionToFinished_Node state)"

definition transitionFrom :: "node_type \<Rightarrow> node_state \<Rightarrow> node_state \<Rightarrow> call list" where
  "transitionFrom ty state next =
     (case state of
        INACTIVE_STATE \<Rightarrow> transitionFromInactive next
      | WAITING_STATE \<Rightarrow> transitionFromWaiting next
      | EXECUTING_STATE \<Rightarrow> transitionFromExecuting ty next
      | FINISHING_STATE \<Rightarrow> transitionFromFinishing ty next
      | FINISHED_STATE \<Rightarrow> transitionFromFinished
      | FAILING_STATE \<Rightarrow> transitionFromFailing ty next
      | ITERATION_ENDED_STATE \<Rightarrow> transitionFromIterationEnded next
      | NO_NODE_STATE \<Rightarrow> [RaiseErrorMsg])"

definition transitionTo :: "node_type \<Rightarrow> node_state \<Rightarrow> node_state \<Rightarrow> call list" where
  "transitionTo ty state next =
     (case next of
        INACTIVE_STATE \<Rightarrow> transitionToInactive
      | WAITING_STATE \<Rightarrow> transitionToWaiting
      | EXECUTING_STATE \<Rightarrow> transitionToExecuting ty
      | FINISHING_STATE \<Rightarrow> transitionToFinishing ty
      | FINISHED_STATE \<Rightarrow> transitionToFinished ty state
      | FAILING_STATE \<Rightarrow> transitionToFailing ty
      | ITERATION_ENDED_STATE \<Rightarrow> transitionToIterationEnded ty state
      | NO_NODE_STATE \<Rightarrow> [RaiseErrorMsg])"

definition transition_calls :: "node_type \<Rightarrow> node_state \<Rightarrow> node_state \<Rightarrow> call list" where
  "transition_calls ty state next = transitionFrom ty state next @ transitionTo ty state next"

named_theorems script_defs "definitions of the transition scripts"

lemmas [script_defs] =
  activateAncestorEndCondition_def activateAncestorExitInvariantConditions_def
  deactivateAncestorEndCondition_def deactivateAncestorExitInvariantConditions_def
  activatePreSkipStartConditions_def deactivatePreSkipStartConditions_def
  activateActionCompleteCondition_def activateAbortCompleteCondition_def
  deactivateActionCompleteCondition_def deactivateAbortCompleteCondition_def
  deactivateExecutable_def transitionFromInactive_def transitionToInactive_def
  transitionToWaiting_def transitionFromWaiting_def transitionToIterationEnded_Node_def
  transitionFromIterationEnded_def transitionToFinished_Node_def transitionFromFinished_def
  transitionToExecuting_Node_def transitionFromExecuting_Empty_def
  transitionToExecuting_List_def transitionFromExecuting_List_def transitionToFinishing_List_def
  transitionFromFinishing_List_def transitionToFailing_List_def transitionFromFailing_List_def
  transitionToExecuting_Command_def transitionFromExecuting_Command_def
  transitionToFinishing_Command_def transitionFromFinishing_Command_def
  transitionToFailing_Command_def transitionFromFailing_Command_def
  transitionToExecuting_Assignment_def transitionFromExecuting_Assignment_def
  transitionToFailing_Assignment_def transitionFromFailing_Assignment_def
  transitionToIterationEnded_Assignment_def transitionToFinished_Assignment_def
  transitionFromExecuting_Update_def transitionToFailing_Update_def
  transitionFromFailing_Update_def transitionFromExecuting_def transitionFromFinishing_def
  transitionFromFailing_def transitionToExecuting_def transitionToFinishing_def
  transitionToFailing_def transitionToIterationEnded_def transitionToFinished_def
  transitionFrom_def transitionTo_def transition_calls_def

section \<open>The ledger of condition activations\<close>

text \<open>
  What a script does to the number of times the node has activated each of its conditions
  (missing conditions are counted like the others). Deactivating a condition that is not
  active fails the assertion in \<open>Notifier::deactivate\<close>.
\<close>

type_synonym ledger = "cond_index \<Rightarrow> nat"

fun ledger_call :: "call \<Rightarrow> ledger \<Rightarrow> ledger result" where
  "ledger_call (Activate i) l = Inr (l(i := Suc (l i)))"
| "ledger_call (ActivateAsserted i) l = Inr (l(i := Suc (l i)))"
| "ledger_call (Deactivate i) l = bindE (check AssertFailed (l i \<noteq> 0)) (\<lambda>_. Inr (l(i := l i - 1)))"
| "ledger_call (DeactivateDeref i) l = bindE (check AssertFailed (l i \<noteq> 0)) (\<lambda>_. Inr (l(i := l i - 1)))"
| "ledger_call RaiseErrorMsg l = Inl ErrorMsg"
| "ledger_call _ l = Inr l"

definition ledger_calls :: "call list \<Rightarrow> ledger \<Rightarrow> ledger result" where
  "ledger_calls cs = forE ledger_call cs"

text \<open>
  The conditions a node keeps active itself in a state: those of \<open>active_conditions\<close> that its
  parent does not own, and for a list node with running children the three it keeps active
  on their behalf.
\<close>

definition child_conditions :: "node_type \<Rightarrow> node_state \<Rightarrow> cond_index list" where
  "child_conditions ty st =
     (if is_list ty \<and> st \<in> {EXECUTING_STATE, FINISHING_STATE, FAILING_STATE}
      then [ancestorExitIdx, ancestorInvariantIdx, ancestorEndIdx] else [])"

definition held_conditions :: "node_type \<Rightarrow> node_state \<Rightarrow> cond_index list" where
  "held_conditions ty st =
     filter (\<lambda>i. i \<notin> {ancestorExitIdx, ancestorInvariantIdx, ancestorEndIdx})
       (active_conditions ty st) @ child_conditions ty st"

text \<open>
  The ledger in state \<open>st\<close> after \<open>k\<close> executions. Command nodes activate their exit condition
  in \<open>transitionToWaiting\<close> and again in \<open>transitionToExecuting\<close>, and deactivate it once.
\<close>

definition ledger_at :: "node_type \<Rightarrow> node_state \<Rightarrow> nat \<Rightarrow> ledger" where
  "ledger_at ty st k i =
     count_list (held_conditions ty st) i +
     (if ty = NodeType_Command \<and> i = exitIdx then k else 0)"

lemma ledger_step:
  assumes "plan_type ty" and "state_of_type ty st" and "st' \<in> set (successors ty st)"
  shows "ledger_calls (transition_calls ty st st') (ledger_at ty st k) =
         Inr (ledger_at ty st' (if st' = EXECUTING_STATE then Suc k else k))"
  using assms
  by (cases st; cases ty)
    (auto simp: script_defs ledger_calls_def ledger_at_def held_conditions_def
      child_conditions_def is_list_def plan_type_def fun_eq_iff)

text \<open>A life of a node: the states it enters, one after the other.\<close>

fun legal_life :: "node_type \<Rightarrow> node_state \<Rightarrow> node_state list \<Rightarrow> bool" where
  "legal_life ty st [] = True"
| "legal_life ty st (st' # p) = (st' \<in> set (successors ty st) \<and> legal_life ty st' p)"

fun life_calls :: "node_type \<Rightarrow> node_state \<Rightarrow> node_state list \<Rightarrow> call list" where
  "life_calls ty st [] = []"
| "life_calls ty st (st' # p) = transition_calls ty st st' @ life_calls ty st' p"

lemma successors_of_type:
  "plan_type ty \<Longrightarrow> state_of_type ty st \<Longrightarrow> st' \<in> set (successors ty st) \<Longrightarrow> state_of_type ty st'"
  by (cases st; cases ty) (auto simp: plan_type_def is_list_def)

lemma ledger_life:
  assumes "plan_type ty" and "state_of_type ty st" and "legal_life ty st p"
  shows "ledger_calls (life_calls ty st p) (ledger_at ty st k) =
         Inr (ledger_at ty (last (st # p)) (k + count_list p EXECUTING_STATE))"
  using assms(2,3)
proof (induction p arbitrary: st k)
  case Nil
  then show ?case by (simp add: ledger_calls_def)
next
  case (Cons st' p)
  then have st': "state_of_type ty st'" "st' \<in> set (successors ty st)" "legal_life ty st' p"
    using successors_of_type assms(1) by auto
  have "ledger_calls (life_calls ty st (st' # p)) (ledger_at ty st k) =
        ledger_calls (life_calls ty st' p)
          (ledger_at ty st' (if st' = EXECUTING_STATE then Suc k else k))"
    using ledger_step [OF assms(1) Cons.prems(1) st'(2), of k]
    by (simp add: ledger_calls_def forE_append)
  then show ?case
    using Cons.IH [OF st'(1,3), of "if st' = EXECUTING_STATE then Suc k else k"] by simp
qed

lemma ledger_at_inactive: "ledger_at ty INACTIVE_STATE 0 = (\<lambda>i. 0)"
  by (simp add: ledger_at_def held_conditions_def child_conditions_def fun_eq_iff)

section \<open>Outcome and failure type over the life of a node\<close>

text \<open>
  \<open>NodeImpl::transition\<close> as far as the members of \<open>node_vars\<close> go: \<open>reset\<close> when a script calls
  it, the assignment of the next state, outcome and failure type, and the clearing of the
  pending members. (The whole of \<open>transition\<close> is in the executive's theory.)
\<close>

definition reset :: "'a node_vars_scheme \<Rightarrow> 'a node_vars_scheme" where
  "reset n = n\<lparr>m_outcome := NO_OUTCOME, m_failureType := NO_FAILURE\<rparr>"

definition record_next :: "'a node_vars_scheme \<Rightarrow> 'a node_vars_scheme" where
  "record_next n =
     (let n = n\<lparr>m_state := m_nextState n\<rparr> in
      if m_nextOutcome n \<noteq> NO_OUTCOME
      then (let n = n\<lparr>m_outcome := m_nextOutcome n\<rparr> in
            if m_nextFailureType n \<noteq> NO_FAILURE
            then n\<lparr>m_failureType := m_nextFailureType n\<rparr> else n)
      else n)"

definition clear_next :: "'a node_vars_scheme \<Rightarrow> 'a node_vars_scheme" where
  "clear_next n =
     n\<lparr>m_nextState := NO_NODE_STATE, m_nextOutcome := NO_OUTCOME, m_nextFailureType := NO_FAILURE\<rparr>"

definition transition_vars :: "node_type \<Rightarrow> 'a node_vars_scheme \<Rightarrow> 'a node_vars_scheme" where
  "transition_vars ty n =
     (if m_nextState n = m_state n then n
      else clear_next (record_next
             (if ResetNode \<in> set (transition_calls ty (m_state n) (m_nextState n))
              then reset n else n)))"

text \<open>
  What a node can report in each state. \<open>outcome_ok\<close> relates the three; \<open>pending_ok\<close> what
  \<open>getDestState\<close> may have left in the pending members.
\<close>

definition iteration_outcomes :: "(node_outcome \<times> failure_type) set" where
  "iteration_outcomes =
     {(SUCCESS_OUTCOME, NO_FAILURE), (INTERRUPTED_OUTCOME, EXITED),
      (FAILURE_OUTCOME, PRE_CONDITION_FAILED), (FAILURE_OUTCOME, POST_CONDITION_FAILED),
      (FAILURE_OUTCOME, INVARIANT_CONDITION_FAILED)}"

fun outcome_ok :: "node_state \<Rightarrow> node_outcome \<Rightarrow> failure_type \<Rightarrow> bool" where
  "outcome_ok ITERATION_ENDED_STATE oc ft = ((oc, ft) \<in> iteration_outcomes)"
| "outcome_ok FINISHED_STATE oc ft =
     ((oc, ft) \<in> {(SKIPPED_OUTCOME, NO_FAILURE), (INTERRUPTED_OUTCOME, PARENT_EXITED),
                 (FAILURE_OUTCOME, PARENT_FAILED)} \<union> iteration_outcomes)"
| "outcome_ok FAILING_STATE oc ft =
     ((oc, ft) \<in> {(INTERRUPTED_OUTCOME, PARENT_EXITED), (INTERRUPTED_OUTCOME, EXITED),
                 (FAILURE_OUTCOME, PARENT_FAILED), (FAILURE_OUTCOME, INVARIANT_CONDITION_FAILED)})"
| "outcome_ok NO_NODE_STATE oc ft = False"
| "outcome_ok _ oc ft = (oc = NO_OUTCOME \<and> ft = NO_FAILURE)"

definition vars_ok :: "'a node_vars_scheme \<Rightarrow> bool" where
  "vars_ok n \<longleftrightarrow> outcome_ok (m_state n) (m_outcome n) (m_failureType n) \<and>
     m_nextOutcome n = NO_OUTCOME \<and> m_nextFailureType n = NO_FAILURE"

definition outcome_post :: "node_type \<Rightarrow> 'a node_vars_scheme \<Rightarrow> bool \<Rightarrow> 'a node_vars_scheme \<Rightarrow> bool" where
  "outcome_post ty n b n' \<longleftrightarrow>
     (if b then vars_ok (transition_vars ty n')
      else m_nextOutcome n' = m_nextOutcome n \<and> m_nextFailureType n' = m_nextFailureType n)"

lemma reset_calls:
  assumes "plan_type ty" "state_of_type ty st" "st' \<in> set (successors ty st)"
  shows "ResetNode \<in> set (transition_calls ty st st') \<longleftrightarrow>
         st = FINISHED_STATE \<or> st = ITERATION_ENDED_STATE \<and> st' = WAITING_STATE"
  using assms by (cases st; cases ty) (auto simp: script_defs plan_type_def is_list_def)

lemma release_calls:
  assumes "plan_type ty" "state_of_type ty st" "st' \<in> set (successors ty st)"
  shows "ReleaseMutexes \<in> set (transition_calls ty st st') \<longleftrightarrow>
           (st' = ITERATION_ENDED_STATE \<and> st \<noteq> WAITING_STATE) \<or>
           (st' = FINISHED_STATE \<and> st = WAITING_STATE)"
    and "ReleaseAssignmentVariable \<in> set (transition_calls ty st st') \<longleftrightarrow>
           ty = NodeType_Assignment \<and>
           ((st' = ITERATION_ENDED_STATE \<and> st \<noteq> WAITING_STATE) \<or>
            (st' = FINISHED_STATE \<and> st = FAILING_STATE))"
  using assms by (cases st; cases ty; auto simp: script_defs plan_type_def is_list_def)+

text \<open>
  The leaves of the destination functions: setting part of the pending members is setting
  all of them when they are clear, and then one condition on the next state decides.
\<close>

lemma next_as_failure:
  assumes "m_nextOutcome n = NO_OUTCOME" and "m_nextFailureType n = NO_FAILURE"
  shows "next_state st n = next_failure st NO_OUTCOME NO_FAILURE n"
    and "next_outcome st oc n = next_failure st oc NO_FAILURE n"
  using assms by (simp_all add: outcome_defs node_vars.splits)

definition resets :: "node_state \<Rightarrow> node_state \<Rightarrow> bool" where
  "resets st st' \<longleftrightarrow> st = FINISHED_STATE \<or> st = ITERATION_ENDED_STATE \<and> st' = WAITING_STATE"

definition leaf_ok :: "'a node_vars_scheme \<Rightarrow> node_state \<Rightarrow> node_outcome \<Rightarrow> failure_type \<Rightarrow> bool" where
  "leaf_ok n st oc ft \<longleftrightarrow>
     outcome_ok st
       (if oc \<noteq> NO_OUTCOME then oc
        else if resets (m_state n) st then NO_OUTCOME else m_outcome n)
       (if oc \<noteq> NO_OUTCOME \<and> ft \<noteq> NO_FAILURE then ft
        else if resets (m_state n) st then NO_FAILURE else m_failureType n)"

lemma not_own_successor: "st \<in> set (successors ty st') \<Longrightarrow> st \<noteq> st'"
  by (cases st') (auto split: if_splits)

definition plan_node :: "node_type \<Rightarrow> 'a node_vars_scheme \<Rightarrow> bool" where
  "plan_node ty n \<longleftrightarrow> plan_type ty \<and> state_of_type ty (m_state n) \<and> vars_ok n"

lemma leaf_failure:
  assumes "plan_node ty n" and "st' \<in> set (successors ty (m_state n))" and "leaf_ok n st' oc ft"
  shows "dest_all (outcome_post ty n) (next_failure st' oc ft n)"
proof -
  have calls: "(ResetNode \<in> set (transition_calls ty (m_state n) st')) = resets (m_state n) st'"
    using assms reset_calls by (simp add: plan_node_def resets_def)
  have "vars_ok (transition_vars ty
          (n\<lparr>m_nextState := st', m_nextOutcome := oc, m_nextFailureType := ft\<rparr>))"
    using assms(1,3) not_own_successor [OF assms(2)]
    by (simp add: transition_vars_def Let_def record_next_def clear_next_def reset_def calls
        vars_ok_def leaf_ok_def plan_node_def split: if_splits)
  then show ?thesis
    by (simp add: dest_all_def outcome_post_def next_failure_def)
qed

lemma leaf_others:
  assumes "plan_node ty n" and "st' \<in> set (successors ty (m_state n))"
  shows "leaf_ok n st' oc NO_FAILURE \<Longrightarrow> dest_all (outcome_post ty n) (next_outcome st' oc n)"
    and "leaf_ok n st' NO_OUTCOME NO_FAILURE \<Longrightarrow> dest_all (outcome_post ty n) (next_state st' n)"
  using leaf_failure [OF assms] assms(1) by (simp_all add: next_as_failure vars_ok_def plan_node_def)

lemma leaf_no_change: "dest_all (outcome_post ty n) (no_change n)"
  by (simp add: dest_all_def outcome_post_def no_change_def)

lemmas leaves = leaf_failure leaf_others leaf_no_change

lemma plan_nodeD:
  assumes "plan_node ty n"
  shows "m_state n = INACTIVE_STATE \<or> m_state n = WAITING_STATE \<or> m_state n = EXECUTING_STATE \<or>
         m_state n = FINISHING_STATE \<Longrightarrow> m_outcome n = NO_OUTCOME \<and> m_failureType n = NO_FAILURE"
    and "m_state n = ITERATION_ENDED_STATE \<Longrightarrow> (m_outcome n, m_failureType n) \<in> iteration_outcomes"
    and "m_state n = FAILING_STATE \<Longrightarrow>
         outcome_ok FAILING_STATE (m_outcome n) (m_failureType n)"
  using assms by (auto simp: plan_node_def vars_ok_def)

lemmas leaf_simps = leaf_ok_def resets_def iteration_outcomes_def

lemma outcome_Inactive:
  assumes "plan_node ty n" and "m_state n = INACTIVE_STATE"
  shows "dest_all (outcome_post ty n) (getDestStateFromInactive parent c n)"
  unfolding getDestStateFromInactive_def
  using assms plan_nodeD(1) [OF assms(1)]
  by (cases parent; cases "the parent")
    (simp_all, (intro dest_all_intros leaves; simp add: leaf_simps)+)

lemma outcome_Waiting:
  assumes "plan_node ty n" and "m_state n = WAITING_STATE"
  shows "dest_all (outcome_post ty n) (getDestStateFromWaiting c n)"
  unfolding getDestStateFromWaiting_def Let_def
  using assms plan_nodeD(1) [OF assms(1)]
  by (intro dest_all_intros leaves; simp add: leaf_simps)

lemma outcome_Finished:
  assumes "plan_node ty n" and "m_state n = FINISHED_STATE"
  shows "dest_all (outcome_post ty n) (getDestStateFromFinished parent n)"
  unfolding getDestStateFromFinished_def
  using assms by (intro dest_all_intros leaves; simp add: leaf_simps)

lemma outcome_IterationEnded:
  assumes "plan_node ty n" and "m_state n = ITERATION_ENDED_STATE"
  shows "dest_all (outcome_post ty n) (getDestStateFromIterationEnded c n)"
  unfolding getDestStateFromIterationEnded_def
  using assms plan_nodeD(2) [OF assms(1)]
  by (intro dest_all_intros leaves; auto simp: leaf_simps)

lemma outcome_Executing:
  assumes "plan_node ty n" and "m_state n = EXECUTING_STATE"
  shows "dest_all (outcome_post ty n) (getDestStateFromExecuting ty c n)"
  unfolding getDestStateFromExecuting_def getDestStateFromExecuting_Empty_def
    getDestStateFromExecuting_List_def getDestStateFromExecuting_Command_def
    getDestStateFromExecuting_Assignment_def getDestStateFromExecuting_Update_def
  using assms plan_nodeD(1) [OF assms(1)]
  by (cases ty; simp only: node_type.case)
    (intro dest_all_intros leaves; simp add: leaf_simps is_list_def)+

lemma outcome_Finishing:
  assumes "plan_node ty n" and "m_state n = FINISHING_STATE"
  shows "dest_all (outcome_post ty n) (getDestStateFromFinishing ty c n)"
  unfolding getDestStateFromFinishing_def getDestStateFromFinishing_List_def
    getDestStateFromFinishing_Command_def
  using assms plan_nodeD(1) [OF assms(1)]
  by (cases ty; simp only: node_type.case)
    (intro dest_all_intros leaves; simp add: leaf_simps)+

lemma outcome_leave_failing:
  assumes "plan_node ty n" and "m_state n = FAILING_STATE"
  shows "dest_all (outcome_post ty n) (leave_failing n)"
  unfolding leave_failing_def
  using assms plan_nodeD(3) [OF assms(1)]
  by (auto intro!: leaves simp: leaf_simps)

lemma outcome_Failing:
  assumes "plan_node ty n" and "m_state n = FAILING_STATE"
  shows "dest_all (outcome_post ty n) (getDestStateFromFailing ty c n)"
  unfolding getDestStateFromFailing_def getDestStateFromFailing_List_def
    getDestStateFromFailing_Command_def getDestStateFromFailing_Assignment_def
    getDestStateFromFailing_Update_def
  using outcome_leave_failing [OF assms]
  by (cases ty; simp only: node_type.case)
    (intro dest_all_intros leaf_no_change; assumption)+

lemma outcome_getDestState:
  assumes "plan_node ty n"
  shows "dest_all (outcome_post ty n) (getDestState ty parent c n)"
proof -
  let ?n = "n\<lparr>m_nextState := NO_NODE_STATE\<rparr>"
  have n: "plan_node ty ?n" and post: "outcome_post ty ?n = outcome_post ty n"
    using assms by (auto simp: plan_node_def vars_ok_def outcome_post_def fun_eq_iff)
  show ?thesis
    using outcome_Inactive [OF n] outcome_Waiting [OF n] outcome_Finished [OF n]
      outcome_IterationEnded [OF n] outcome_Executing [OF n] outcome_Finishing [OF n]
      outcome_Failing [OF n]
    by (cases "m_state n") (simp_all add: getDestState_def Let_def post dest_all_raise)
qed

text \<open>
  The life of a node as the executive drives it: conditions may be consulted any number of
  times, with any values; a node that can change state does so.
\<close>

inductive node_step :: "node_type \<Rightarrow> 'a node_vars_scheme \<Rightarrow> 'a node_vars_scheme \<Rightarrow> bool"
  for ty :: node_type where
  no_transition: "getDestState ty parent c n = Inr (False, n') \<Longrightarrow> node_step ty n n'"
| transition_step: "getDestState ty parent c n = Inr (True, n') \<Longrightarrow>
    node_step ty n (transition_vars ty n')"

inductive_cases node_stepE: "node_step ty n n'"

lemma transition_vars_state:
  "m_nextState n \<noteq> m_state n \<Longrightarrow> m_state (transition_vars ty n) = m_nextState n"
  by (simp add: transition_vars_def Let_def record_next_def clear_next_def reset_def)

lemma node_step_plan_node:
  assumes "node_step ty n n'" and "plan_node ty n"
  shows "plan_node ty n'"
  using assms(1)
proof cases
  case (no_transition parent c)
  have n': "n' = n\<lparr>m_nextState := NO_NODE_STATE\<rparr>"
    using dest_allD [OF dest_post_state no_transition] by (simp add: dest_post_def)
  show ?thesis using assms(2) by (simp add: n' plan_node_def vars_ok_def)
next
  case (transition_step parent c m)
  have m: "m_nextState m \<in> set (successors ty (m_state n))" "m_state m = m_state n"
    using dest_allD [OF dest_post_state transition_step(2)]
    by (auto simp: dest_post_def dest: arg_cong [where f = m_state])
  have "vars_ok n'"
    using dest_allD [OF outcome_getDestState [OF assms(2)] transition_step(2)] transition_step(1)
    by (simp add: outcome_post_def)
  moreover have "m_state n' = m_nextState m"
    using transition_step(1) m not_own_successor by (simp add: transition_vars_state)
  ultimately show ?thesis
    using assms(2) m successors_of_type by (auto simp: plan_node_def)
qed

section \<open>Properties\<close>

text \<open>
  Property C6. The activation ledger of a node of a plan, over every legal life from
  INACTIVE: no script deactivates a condition the node has not activated or raises an error,
  and in each state the node holds exactly the conditions listed for that state (once each),
  plus the conditions for the children of a running list node. There is one exception: the
  exit condition of a command node is not balanced. Entering EXECUTING activates it a second
  time (CommandNode.cc:200), so it is held once more for each time the node has executed.
\<close>

theorem activation_ledger:
  assumes "plan_type ty" and "legal_life ty INACTIVE_STATE p"
  shows "ledger_calls (life_calls ty INACTIVE_STATE p) (\<lambda>i. 0) =
         Inr (\<lambda>i. count_list (held_conditions ty (last (INACTIVE_STATE # p))) i +
                  (if ty = NodeType_Command \<and> i = exitIdx
                   then count_list p EXECUTING_STATE else 0))"
proof -
  have "state_of_type ty INACTIVE_STATE" by simp
  from ledger_life [OF assms(1) this assms(2), of 0]
  show ?thesis unfolding ledger_at_inactive by (simp only: ledger_at_def [abs_def] add_0)
qed

text \<open>A list node that is interrupted and ends.\<close>

theorem activation_ledger_witness:
  "legal_life NodeType_NodeList INACTIVE_STATE
     [WAITING_STATE, EXECUTING_STATE, FAILING_STATE, FINISHED_STATE] \<and>
   ledger_calls (life_calls NodeType_NodeList INACTIVE_STATE
     [WAITING_STATE, EXECUTING_STATE, FAILING_STATE, FINISHED_STATE]) (\<lambda>i. 0) = Inr (\<lambda>i. 0)"
  using activation_ledger [of NodeType_NodeList "[WAITING_STATE, EXECUTING_STATE, FAILING_STATE, FINISHED_STATE]"]
  by (simp add: plan_type_def held_conditions_def child_conditions_def is_list_def)

text \<open>
  A command node leaks activations of its exit condition: whenever it is back
  in INACTIVE or FINISHED after a legal life, its exit condition is still active once for
  each time the node executed, while every other condition, and every condition of the
  other node types, is inactive.
\<close>

theorem command_exit_leak:
  assumes "plan_type ty" and "legal_life ty INACTIVE_STATE p"
    and "last (INACTIVE_STATE # p) \<in> {INACTIVE_STATE, FINISHED_STATE}"
    and "ledger_calls (life_calls ty INACTIVE_STATE p) (\<lambda>i. 0) = Inr l"
  shows "l i = (if ty = NodeType_Command \<and> i = exitIdx then count_list p EXECUTING_STATE else 0)"
proof -
  have "l = ledger_at ty (last (INACTIVE_STATE # p)) (count_list p EXECUTING_STATE)"
    using ledger_life [OF assms(1) _ assms(2), of 0] assms(4) by (simp add: ledger_at_inactive)
  then show ?thesis
    using assms(3) by (auto simp: ledger_at_def held_conditions_def child_conditions_def)
qed

theorem command_exit_leak_witness:
  "ledger_calls (life_calls NodeType_Command INACTIVE_STATE
     [WAITING_STATE, EXECUTING_STATE, FINISHING_STATE, ITERATION_ENDED_STATE, WAITING_STATE,
      EXECUTING_STATE, FAILING_STATE, FINISHED_STATE]) (\<lambda>i. 0) =
     Inr (\<lambda>i. if i = exitIdx then 2 else 0)"
proof -
  let ?p = "[WAITING_STATE, EXECUTING_STATE, FINISHING_STATE, ITERATION_ENDED_STATE, WAITING_STATE,
      EXECUTING_STATE, FAILING_STATE, FINISHED_STATE]"
  have ty: "plan_type NodeType_Command" and p: "legal_life NodeType_Command INACTIVE_STATE ?p"
    by (simp_all add: plan_type_def is_list_def)
  obtain l where l: "ledger_calls (life_calls NodeType_Command INACTIVE_STATE ?p) (\<lambda>i. 0) = Inr l"
    using ledger_life [OF ty _ p, of 0] by (simp add: ledger_at_inactive)
  have "l i = (if i = exitIdx then 2 else 0)" for i
    using command_exit_leak [OF ty p _ l, of i] by simp
  with l show ?thesis by presburger
qed

text \<open>
  Where a node gives up what it reserved, among the legal transitions of the
  nodes of a plan: an assignment node releases its variable when it leaves EXECUTING or
  FAILING for ITERATION_ENDED or FINISHED, but mutexes are released only on entering
  ITERATION_ENDED from another state than WAITING, and on the transition from WAITING to
  FINISHED, where none are held. A node that goes from EXECUTING or FAILING straight to
  FINISHED keeps its mutexes.
\<close>

theorem release_points:
  assumes "plan_type ty" and "state_of_type ty st" and "st' \<in> set (successors ty st)"
  shows "(ReleaseAssignmentVariable \<in> set (transition_calls ty st st') \<longleftrightarrow>
            ty = NodeType_Assignment \<and> st \<in> {EXECUTING_STATE, FAILING_STATE} \<and>
            st' \<in> {ITERATION_ENDED_STATE, FINISHED_STATE}) \<and>
         (ReleaseMutexes \<in> set (transition_calls ty st st') \<longleftrightarrow>
            st \<in> {EXECUTING_STATE, FINISHING_STATE, FAILING_STATE} \<and> st' = ITERATION_ENDED_STATE \<or>
            st = WAITING_STATE \<and> st' = FINISHED_STATE)"
  using release_calls [OF assms] assms by (cases st; cases ty) (auto simp: is_list_def)

theorem release_points_witness:
  "FINISHED_STATE \<in> set (successors NodeType_Command FAILING_STATE) \<and>
   ReleaseMutexes \<notin> set (transition_calls NodeType_Command FAILING_STATE FINISHED_STATE)"
  using release_points [of NodeType_Command FAILING_STATE FINISHED_STATE]
  by (simp add: plan_type_def)

text \<open>
  Property C16. Whatever the conditions do, the outcome and failure type of a node fit its
  state at every point of its life: no outcome before it ends; an interruption or failure
  while FAILING; after an iteration, success, or a failure or interruption of its own; when
  finished possibly also skipped, or ended by the parent. Nothing is left pending.
\<close>

theorem outcome_fits_state:
  assumes "plan_type ty"
    and "m_state n = INACTIVE_STATE" "m_outcome n = NO_OUTCOME" "m_failureType n = NO_FAILURE"
    and "m_nextOutcome n = NO_OUTCOME" "m_nextFailureType n = NO_FAILURE"
    and "(node_step ty)\<^sup>*\<^sup>* n n'"
  shows "outcome_ok (m_state n') (m_outcome n') (m_failureType n') \<and>
         m_nextOutcome n' = NO_OUTCOME \<and> m_nextFailureType n' = NO_FAILURE"
proof -
  have "plan_node ty n" using assms by (simp add: plan_node_def vars_ok_def)
  with assms(7) have "plan_node ty n'"
    by (induction rule: rtranclp_induct) (auto intro: node_step_plan_node)
  then show ?thesis by (simp add: plan_node_def vars_ok_def)
qed

text \<open>A command that waits, executes, and is told to exit.\<close>

lemma example_life:
  "(node_step NodeType_Command)\<^sup>*\<^sup>* (example_node INACTIVE_STATE)
     ((example_node FAILING_STATE)\<lparr>m_outcome := INTERRUPTED_OUTCOME, m_failureType := EXITED\<rparr>)"
proof -
  have 1: "node_step NodeType_Command (example_node INACTIVE_STATE) (example_node WAITING_STATE)"
    using transition_step [of NodeType_Command None "\<lambda>i. None" "example_node INACTIVE_STATE"]
    by (simp add: getDestState_def Let_def example_node_def getDestStateFromInactive_def
        outcome_defs transition_vars_def record_next_def clear_next_def script_defs)
  have 2: "node_step NodeType_Command (example_node WAITING_STATE) (example_node EXECUTING_STATE)"
    using transition_step [of NodeType_Command None "\<lambda>i. None" "example_node WAITING_STATE"]
    by (simp add: getDestState_def Let_def example_node_def getDestStateFromWaiting_def
        checked_def check_not_true_def outcome_defs transition_vars_def record_next_def
        clear_next_def script_defs)
  have 3: "node_step NodeType_Command (example_node EXECUTING_STATE)
     ((example_node FAILING_STATE)\<lparr>m_outcome := INTERRUPTED_OUTCOME, m_failureType := EXITED\<rparr>)"
    using transition_step [of NodeType_Command None "example_conds [(exitIdx, Some True)]"
        "example_node EXECUTING_STATE"]
    by (simp add: getDestState_def Let_def example_node_def getDestStateFromExecuting_def
        getDestStateFromExecuting_Command_def tested_def example_conds_def outcome_defs
        transition_vars_def record_next_def clear_next_def script_defs)
  from 1 2 3 show ?thesis by (meson rtranclp.rtrancl_refl rtranclp.rtrancl_into_rtrancl)
qed

theorem outcome_fits_state_witness:
  "outcome_ok FAILING_STATE INTERRUPTED_OUTCOME EXITED"
  using outcome_fits_state [OF _ _ _ _ _ _ example_life]
  by (simp add: example_node_def plan_type_def)

end
