(* ===== verification/Value_Types.thy ===== *)
theory Value_Types
  imports Prelude "HOL-Library.Word"
begin

text \<open>
  The types of values (src/src/value/ValueType.hh, ValueType.cc): the enumeration with its
  codes, the classification of types, which types can be assigned to which, and the names.
  \<open>ValueType\<close> is an enumeration over \<open>uint8_t\<close>: \<open>value_type_code\<close> gives the byte of each
  enumerator, and the predicates compare codes as the source does.
\<close>

section \<open>The enumeration\<close>

datatype value_type =
    UNKNOWN_TYPE
  | BOOLEAN_TYPE | INTEGER_TYPE | REAL_TYPE | STRING_TYPE | DATE_TYPE | DURATION_TYPE
  | SCALAR_TYPE_MAX
  | ARRAY_TYPE
  | BOOLEAN_ARRAY_TYPE | INTEGER_ARRAY_TYPE | REAL_ARRAY_TYPE | STRING_ARRAY_TYPE
  | ARRAY_TYPE_MAX
  | STATE_TYPE
  | INTERNAL_TYPE_OFFSET
  | NODE_STATE_TYPE | OUTCOME_TYPE | FAILURE_TYPE | COMMAND_HANDLE_TYPE
  | TYPE_MAX

fun value_type_code :: "value_type \<Rightarrow> 8 word" where
  "value_type_code UNKNOWN_TYPE = 0"
| "value_type_code BOOLEAN_TYPE = 1"
| "value_type_code INTEGER_TYPE = 2"
| "value_type_code REAL_TYPE = 3"
| "value_type_code STRING_TYPE = 4"
| "value_type_code DATE_TYPE = 5"
| "value_type_code DURATION_TYPE = 6"
| "value_type_code SCALAR_TYPE_MAX = 7"
| "value_type_code ARRAY_TYPE = 16"
| "value_type_code BOOLEAN_ARRAY_TYPE = 17"
| "value_type_code INTEGER_ARRAY_TYPE = 18"
| "value_type_code REAL_ARRAY_TYPE = 19"
| "value_type_code STRING_ARRAY_TYPE = 20"
| "value_type_code ARRAY_TYPE_MAX = 21"
| "value_type_code STATE_TYPE = 32"
| "value_type_code INTERNAL_TYPE_OFFSET = 48"
| "value_type_code NODE_STATE_TYPE = 49"
| "value_type_code OUTCOME_TYPE = 50"
| "value_type_code FAILURE_TYPE = 51"
| "value_type_code COMMAND_HANDLE_TYPE = 52"
| "value_type_code TYPE_MAX = 53"

definition all_value_types :: "value_type list" where
  "all_value_types =
     [UNKNOWN_TYPE, BOOLEAN_TYPE, INTEGER_TYPE, REAL_TYPE, STRING_TYPE, DATE_TYPE, DURATION_TYPE,
      SCALAR_TYPE_MAX, ARRAY_TYPE, BOOLEAN_ARRAY_TYPE, INTEGER_ARRAY_TYPE, REAL_ARRAY_TYPE,
      STRING_ARRAY_TYPE, ARRAY_TYPE_MAX, STATE_TYPE, INTERNAL_TYPE_OFFSET, NODE_STATE_TYPE,
      OUTCOME_TYPE, FAILURE_TYPE, COMMAND_HANDLE_TYPE, TYPE_MAX]"

text \<open>The cast of a byte to \<open>ValueType\<close>; \<open>None\<close> for a byte that no enumerator has.\<close>

definition value_type_of :: "8 word \<Rightarrow> value_type option" where
  "value_type_of b = find (\<lambda>t. value_type_code t = b) all_value_types"

section \<open>Classification\<close>

abbreviation tless :: "value_type \<Rightarrow> value_type \<Rightarrow> bool" where
  "tless a b \<equiv> value_type_code a < value_type_code b"

definition isUserType :: "value_type \<Rightarrow> bool" where
  "isUserType typ \<longleftrightarrow> tless UNKNOWN_TYPE typ \<and> tless typ ARRAY_TYPE_MAX"

definition isInternalType :: "value_type \<Rightarrow> bool" where
  "isInternalType typ \<longleftrightarrow> tless INTERNAL_TYPE_OFFSET typ \<and> tless typ TYPE_MAX"

definition isNumericType :: "value_type \<Rightarrow> bool" where
  "isNumericType typ \<longleftrightarrow>
     (case typ of
        INTEGER_TYPE \<Rightarrow> True
      | REAL_TYPE \<Rightarrow> True
      | DATE_TYPE \<Rightarrow> True
      | DURATION_TYPE \<Rightarrow> True
      | _ \<Rightarrow> False)"

definition isScalarType :: "value_type \<Rightarrow> bool" where
  "isScalarType typ \<longleftrightarrow> tless UNKNOWN_TYPE typ \<and> tless typ SCALAR_TYPE_MAX"

definition isArrayType :: "value_type \<Rightarrow> bool" where
  "isArrayType typ \<longleftrightarrow> tless ARRAY_TYPE typ \<and> tless typ ARRAY_TYPE_MAX"

definition arrayElementType :: "value_type \<Rightarrow> value_type option" where
  "arrayElementType typ =
     (if \<not> tless ARRAY_TYPE typ \<or> \<not> tless typ ARRAY_TYPE_MAX then Some UNKNOWN_TYPE
      else value_type_of (value_type_code typ - value_type_code ARRAY_TYPE))"

definition arrayType :: "value_type \<Rightarrow> value_type option" where
  "arrayType elTy =
     (if \<not> tless UNKNOWN_TYPE elTy \<or> tless STRING_TYPE elTy then Some UNKNOWN_TYPE
      else value_type_of (value_type_code elTy + value_type_code ARRAY_TYPE))"

definition areTypesCompatible :: "value_type \<Rightarrow> value_type \<Rightarrow> bool" where
  "areTypesCompatible dest src \<longleftrightarrow>
     (if dest = UNKNOWN_TYPE then True
      else if src = UNKNOWN_TYPE then True
      else if dest = src then True
      else case dest of
          DATE_TYPE \<Rightarrow> src = REAL_TYPE \<or> src = INTEGER_TYPE
        | DURATION_TYPE \<Rightarrow> src = REAL_TYPE \<or> src = INTEGER_TYPE
        | REAL_TYPE \<Rightarrow> src = INTEGER_TYPE \<or> src = DATE_TYPE \<or> src = DURATION_TYPE
        | ARRAY_TYPE \<Rightarrow> isArrayType src
        | _ \<Rightarrow> False)"

section \<open>Names\<close>

fun valueTypeName :: "value_type \<Rightarrow> string" where
  "valueTypeName BOOLEAN_TYPE = ''Boolean''"
| "valueTypeName INTEGER_TYPE = ''Integer''"
| "valueTypeName REAL_TYPE = ''Real''"
| "valueTypeName STRING_TYPE = ''String''"
| "valueTypeName DATE_TYPE = ''Date''"
| "valueTypeName DURATION_TYPE = ''Duration''"
| "valueTypeName BOOLEAN_ARRAY_TYPE = ''BooleanArray''"
| "valueTypeName INTEGER_ARRAY_TYPE = ''IntegerArray''"
| "valueTypeName REAL_ARRAY_TYPE = ''RealArray''"
| "valueTypeName STRING_ARRAY_TYPE = ''StringArray''"
| "valueTypeName STATE_TYPE = ''State''"
| "valueTypeName NODE_STATE_TYPE = ''NodeState''"
| "valueTypeName OUTCOME_TYPE = ''NodeOutcome''"
| "valueTypeName FAILURE_TYPE = ''NodeFailure''"
| "valueTypeName COMMAND_HANDLE_TYPE = ''NodeCommandHandle''"
| "valueTypeName _ = ''UNKNOWN''"

text \<open>The first character selects a branch, then the length, then one comparison.\<close>

definition parseValueType :: "string \<Rightarrow> value_type" where
  "parseValueType typeStr =
     (case typeStr of
        [] \<Rightarrow> UNKNOWN_TYPE
      | c # _ \<Rightarrow>
        if c = CHR ''A'' then (if typeStr = ''Array'' then ARRAY_TYPE else UNKNOWN_TYPE)
        else if c = CHR ''B'' then
          (if length typeStr = 7 then (if typeStr = ''Boolean'' then BOOLEAN_TYPE else UNKNOWN_TYPE)
           else if length typeStr = 12 then
             (if typeStr = ''BooleanArray'' then BOOLEAN_ARRAY_TYPE else UNKNOWN_TYPE)
           else UNKNOWN_TYPE)
        else if c = CHR ''D'' then
          (if typeStr = ''Date'' then DATE_TYPE
           else if typeStr = ''Duration'' then DURATION_TYPE else UNKNOWN_TYPE)
        else if c = CHR ''I'' then
          (if length typeStr = 7 then (if typeStr = ''Integer'' then INTEGER_TYPE else UNKNOWN_TYPE)
           else if length typeStr = 12 then
             (if typeStr = ''IntegerArray'' then INTEGER_ARRAY_TYPE else UNKNOWN_TYPE)
           else UNKNOWN_TYPE)
        else if c = CHR ''N'' then
          (if length typeStr = 9 then (if typeStr = ''NodeState'' then NODE_STATE_TYPE else UNKNOWN_TYPE)
           else if length typeStr = 11 then
             (if typeStr ! 4 = CHR ''F'' \<and> typeStr = ''NodeFailure'' then FAILURE_TYPE
              else if typeStr = ''NodeOutcome'' then OUTCOME_TYPE else UNKNOWN_TYPE)
           else if length typeStr = 17 then
             (if typeStr = ''NodeCommandHandle'' then COMMAND_HANDLE_TYPE else UNKNOWN_TYPE)
           else UNKNOWN_TYPE)
        else if c = CHR ''R'' then
          (if length typeStr = 4 then (if typeStr = ''Real'' then REAL_TYPE else UNKNOWN_TYPE)
           else if length typeStr = 9 then
             (if typeStr = ''RealArray'' then REAL_ARRAY_TYPE else UNKNOWN_TYPE)
           else UNKNOWN_TYPE)
        else if c = CHR ''S'' then
          (if length typeStr = 5 then (if typeStr = ''State'' then STATE_TYPE else UNKNOWN_TYPE)
           else if length typeStr = 6 then (if typeStr = ''String'' then STRING_TYPE else UNKNOWN_TYPE)
           else if length typeStr = 11 then
             (if typeStr = ''StringArray'' then STRING_ARRAY_TYPE else UNKNOWN_TYPE)
           else UNKNOWN_TYPE)
        else UNKNOWN_TYPE)"

section \<open>Facts\<close>

lemma value_type_of_code [simp]: "value_type_of (value_type_code t) = Some t"
  by (cases t) (simp_all add: value_type_of_def all_value_types_def)

lemma value_type_code_inject [simp]: "value_type_code a = value_type_code b \<longleftrightarrow> a = b"
  by (metis value_type_of_code option.inject)

lemma value_type_of_Some: "value_type_of b = Some t \<Longrightarrow> value_type_code t = b"
  by (simp add: value_type_of_def find_Some_iff) blast

text \<open>
  A name parses back to its type, except that \<open>ARRAY_TYPE\<close> has a name that parses
  (\<open>Array\<close>) but that \<open>valueTypeName\<close> does not print.
\<close>

definition named_type :: "value_type \<Rightarrow> bool" where
  "named_type t \<longleftrightarrow> valueTypeName t \<noteq> ''UNKNOWN''"

lemma parse_valueTypeName: "named_type t \<Longrightarrow> parseValueType (valueTypeName t) = t"
  by (cases t) (simp_all add: parseValueType_def named_type_def)

lemma valueTypeName_parse:
  "parseValueType s \<noteq> UNKNOWN_TYPE \<Longrightarrow>
   valueTypeName (parseValueType s) = s \<or> s = ''Array'' \<and> parseValueType s = ARRAY_TYPE"
  unfolding parseValueType_def by (auto split: list.splits if_splits)

lemma arrayElementType_eqs:
  "arrayElementType BOOLEAN_ARRAY_TYPE = Some BOOLEAN_TYPE"
  "arrayElementType INTEGER_ARRAY_TYPE = Some INTEGER_TYPE"
  "arrayElementType REAL_ARRAY_TYPE = Some REAL_TYPE"
  "arrayElementType STRING_ARRAY_TYPE = Some STRING_TYPE"
  by code_simp+

lemma arrayElementType_arrayType:
  "isArrayType t \<Longrightarrow> \<exists>e. arrayElementType t = Some e \<and> arrayType e = Some t"
  by (cases t) (simp_all add: isArrayType_def arrayElementType_eqs, code_simp+)

lemma areTypesCompatible_refl [simp]: "areTypesCompatible t t"
  by (simp add: areTypesCompatible_def)

end
