(* ===== verification/Expr_Net.thy ===== *)
theory Expr_Net
  imports Value_Types Node_Dest Boolean_Operators "HOL-Library.Word"
begin

text \<open>
  The expressions of a plan (src/src/expr) and the network that propagates changes from
  variables and nodes to the nodes whose conditions depend on them: activation counts and
  listeners (Notifier.cc, Propagator.cc), functions (Function.cc), variables
  (UserVariable.cc, SimpleBooleanVariable.cc, src/src/intfc/CommandHandleVariable.cc),
  references to the internal state of nodes (src/src/exec/NodeVariables.cc,
  NodeFunction.cc, and the operators of ListNode.cc and CommandNode.cc).

  An expression is a tree; the C++ object behind each of its mutable nodes has an
  identity \<open>eid\<close>, and a shared object is the same tree with the same identities wherever it
  occurs. The mutable state of all objects is the record \<open>net\<close>. Functions have Boolean
  operators and comparisons; real-valued, array and string-valued functions, lookups and
  aliases are not modelled.
\<close>

section \<open>Values and expressions\<close>

type_synonym eid = nat
type_synonym nid = nat

type_synonym val_type = value_type

datatype val =
    VBoolean bool | VInteger "32 word" | VString string
  | VState node_state | VOutcome node_outcome | VFailure failure_type | VHandle command_handle

fun type_of_val :: "val \<Rightarrow> val_type" where
  "type_of_val (VBoolean _) = BOOLEAN_TYPE"
| "type_of_val (VInteger _) = INTEGER_TYPE"
| "type_of_val (VString _) = STRING_TYPE"
| "type_of_val (VState _) = NODE_STATE_TYPE"
| "type_of_val (VOutcome _) = OUTCOME_TYPE"
| "type_of_val (VFailure _) = FAILURE_TYPE"
| "type_of_val (VHandle _) = COMMAND_HANDLE_TYPE"

datatype oper = OpNot | OpOr | OpAnd | OpXor | OpIsKnown | OpEqual | OpNotEqual | OpLessThan

datatype node_oper = AllFinished | AllWaitingOrFinished

text \<open>
  \<open>CommandHandleVariable\<close>, \<open>CommandFunction\<close> with \<open>CommandHandleKnown\<close>, and \<open>NodeFunction\<close>
  with \<open>CommandHandleInterruptible\<close> refer to a command by the identity of its handle variable.
\<close>

datatype expr =
    EConst val_type "val option"                 \<comment> \<open>Constant\<close>
  | EUserVar eid val_type "expr option"          \<comment> \<open>UserVariable, with its initializer\<close>
  | ESimpleBool eid                              \<comment> \<open>SimpleBooleanVariable\<close>
  | EHandleVar eid                               \<comment> \<open>CommandHandleVariable\<close>
  | EStateVar nid | EOutcomeVar nid | EFailureVar nid
  | EFun eid oper "expr list"                    \<comment> \<open>Function\<close>
  | ENodeFun eid node_oper nid                   \<comment> \<open>NodeFunction of a list node\<close>
  | EHandleKnown eid eid                         \<comment> \<open>CommandFunction\<close>
  | EInterruptible eid eid                       \<comment> \<open>NodeFunction of a command node\<close>

section \<open>State\<close>

datatype listener = LNode nid | LExpr eid

record net =
  m_activeCount :: "eid \<Rightarrow> nat"
  m_outgoingListeners :: "eid \<Rightarrow> listener list"
  node_listeners :: "nid \<Rightarrow> listener list"
  m_value :: "eid \<Rightarrow> val"
  m_known :: "eid \<Rightarrow> bool"
  m_savedValue :: "eid \<Rightarrow> val"
  m_savedKnown :: "eid \<Rightarrow> bool"
  m_commandHandle :: "eid \<Rightarrow> command_handle"
  notified :: "nid list"   \<comment> \<open>nodes on which \<open>notifyChanged\<close> was called, latest last\<close>

text \<open>What expressions read of the nodes: their variables and children.\<close>

record node_env =
  ne_vars :: "nid \<Rightarrow> node_vars"
  ne_children :: "nid \<Rightarrow> nid list"

definition isActive :: "net \<Rightarrow> eid \<Rightarrow> bool" where
  "isActive n e \<longleftrightarrow> m_activeCount n e > 0"

text \<open>\<open>Expression::isActive\<close>: constants and node variables inherit the default, true.\<close>

fun expr_active :: "net \<Rightarrow> expr \<Rightarrow> bool" where
  "expr_active n (EUserVar e _ _) = isActive n e"
| "expr_active n (ESimpleBool e) = isActive n e"
| "expr_active n (EHandleVar e) = isActive n e"
| "expr_active n (EFun e _ _) = isActive n e"
| "expr_active n (ENodeFun e _ _) = isActive n e"
| "expr_active n (EHandleKnown e _) = isActive n e"
| "expr_active n (EInterruptible e _) = isActive n e"
| "expr_active n _ = True"

section \<open>Values\<close>

fun valueType :: "expr \<Rightarrow> val_type" where
  "valueType (EConst ty _) = ty"
| "valueType (EUserVar _ ty _) = ty"
| "valueType (EHandleVar _) = COMMAND_HANDLE_TYPE"
| "valueType (EStateVar _) = NODE_STATE_TYPE"
| "valueType (EOutcomeVar _) = OUTCOME_TYPE"
| "valueType (EFailureVar _) = FAILURE_TYPE"
| "valueType _ = BOOLEAN_TYPE"

text \<open>
  What an operator sees of an argument: its static type, its value as a given type (a plan
  error if it is of another type), and whether it is known.
\<close>

record arg =
  a_type :: val_type
  a_read :: "val_type \<Rightarrow> val option result"
  a_known :: "bool result"

definition read_bool :: "arg \<Rightarrow> bool option result" where
  "read_bool a =
     bindE (a_read a BOOLEAN_TYPE) (\<lambda>v. case v of
        Some (VBoolean b) \<Rightarrow> Inr (Some b) | _ \<Rightarrow> Inr None)"

text \<open>Arguments are evaluated in order, up to one whose value makes the operator return.\<close>

fun read_until :: "(bool option \<Rightarrow> bool) \<Rightarrow> arg list \<Rightarrow> bool option list result" where
  "read_until stop [] = Inr []"
| "read_until stop (a # as) =
     bindE (read_bool a) (\<lambda>v. if stop v then Inr [v]
       else bindE (read_until stop as) (\<lambda>vs. Inr (v # vs)))"

text \<open>\<open>isEqual\<close> of Comparisons.cc: an integer compared with another type is read as a real.\<close>

definition isEqual :: "arg \<Rightarrow> arg \<Rightarrow> bool option result" where
  "isEqual a b =
     bindE (a_read a (a_type a)) (\<lambda>va. case va of
        None \<Rightarrow> Inr None
      | Some x \<Rightarrow> bindE (a_read b (a_type a)) (\<lambda>vb. case vb of
            None \<Rightarrow> Inr None
          | Some y \<Rightarrow> Inr (Some (x = y))))"

definition lessThan :: "arg \<Rightarrow> arg \<Rightarrow> bool option result" where
  "lessThan a b =
     bindE (a_read a INTEGER_TYPE) (\<lambda>va. case va of
        Some (VInteger x) \<Rightarrow> bindE (a_read b INTEGER_TYPE) (\<lambda>vb. case vb of
            Some (VInteger y) \<Rightarrow> Inr (Some (sint x < sint y))
          | _ \<Rightarrow> Inr None)
      | _ \<Rightarrow> Inr None)"

fun apply_oper :: "oper \<Rightarrow> arg list \<Rightarrow> bool option result" where
  "apply_oper OpNot [a] = bindE (read_bool a) (\<lambda>v. Inr (booleanNot v))"
| "apply_oper OpOr as =
     bindE (read_until (\<lambda>v. v = Some True) as) (\<lambda>vs. Inr (apply_or vs))"
| "apply_oper OpAnd as =
     bindE (read_until (\<lambda>v. v = Some False) as) (\<lambda>vs. Inr (apply_and vs))"
| "apply_oper OpXor as =
     (if length as \<le> 2
      then bindE (read_until (\<lambda>v. v = None) as) apply_xor
      else bindE (read_until (\<lambda>v. v \<noteq> None) as) booleanXorN)"
| "apply_oper OpIsKnown [a] = bindE (a_known a) (\<lambda>b. Inr (Some b))"
| "apply_oper OpEqual [a, b] = isEqual a b"
| "apply_oper OpNotEqual [a, b] =
     bindE (isEqual a b) (\<lambda>v. Inr (booleanNot v))"
| "apply_oper OpLessThan [a, b] = lessThan a b"
| "apply_oper _ _ = Inl PlanError"  \<comment> \<open>the default methods of \<open>Operator\<close> for a wrong argument count\<close>

fun apply_node_oper :: "node_env \<Rightarrow> node_oper \<Rightarrow> nid \<Rightarrow> bool" where
  "apply_node_oper env AllFinished k =
     list_all (\<lambda>c. m_state (ne_vars env c) = FINISHED_STATE) (ne_children env k)"
| "apply_node_oper env AllWaitingOrFinished k =
     list_all (\<lambda>c. m_state (ne_vars env c) = WAITING_STATE \<or> m_state (ne_vars env c) = FINISHED_STATE)
       (ne_children env k)"

definition commandHandleInterruptible :: "command_handle \<Rightarrow> bool" where
  "commandHandleInterruptible h =
     (h = COMMAND_DENIED \<or> h = COMMAND_FAILED \<or> h = COMMAND_INTERFACE_ERROR)"

text \<open>
  \<open>isKnown\<close>. A function is known when its \<open>getValue\<close> is; that result is passed in.
\<close>

fun isKnown_with :: "node_env \<Rightarrow> net \<Rightarrow> expr \<Rightarrow> val option result \<Rightarrow> bool result" where
  "isKnown_with env n (EConst _ v) r = Inr (v \<noteq> None)"
| "isKnown_with env n (EUserVar e _ _) r = Inr (isActive n e \<and> m_known n e)"
| "isKnown_with env n (ESimpleBool e) r = Inr True"
| "isKnown_with env n (EHandleVar e) r = Inr (m_commandHandle n e \<noteq> NO_COMMAND_HANDLE)"
| "isKnown_with env n (EStateVar k) r = Inr True"
| "isKnown_with env n (EOutcomeVar k) r = Inr (m_outcome (ne_vars env k) \<noteq> NO_OUTCOME)"
| "isKnown_with env n (EFailureVar k) r = Inr (m_failureType (ne_vars env k) \<noteq> NO_FAILURE)"
| "isKnown_with env n (EFun e f as) r = bindE r (\<lambda>v. Inr (v \<noteq> None))"
| "isKnown_with env n (ENodeFun e f k) r = Inr True"
| "isKnown_with env n (EHandleKnown e h) r = Inr True"
| "isKnown_with env n (EInterruptible e h) r = Inr True"

definition typed :: "val_type \<Rightarrow> val_type \<Rightarrow> val option \<Rightarrow> val option result" where
  "typed ty want v = bindE (check PlanError (ty = want)) (\<lambda>_. Inr v)"

fun getValue :: "node_env \<Rightarrow> net \<Rightarrow> expr \<Rightarrow> val_type \<Rightarrow> val option result" where
  "getValue env n (EConst ty v) want = typed ty want v"
| "getValue env n (EUserVar e ty _) want =
     typed ty want (if \<not> isActive n e then None else if m_known n e then Some (m_value n e) else None)"
| "getValue env n (ESimpleBool e) want = typed BOOLEAN_TYPE want (Some (m_value n e))"
| "getValue env n (EHandleVar e) want =
     typed COMMAND_HANDLE_TYPE want
       (if \<not> isActive n e then None
        else if m_commandHandle n e = NO_COMMAND_HANDLE then None
        else Some (VHandle (m_commandHandle n e)))"
| "getValue env n (EStateVar k) want =
     typed NODE_STATE_TYPE want (Some (VState (m_state (ne_vars env k))))"
| "getValue env n (EOutcomeVar k) want =
     typed OUTCOME_TYPE want
       (let outcome = m_outcome (ne_vars env k) in
        if outcome = NO_OUTCOME then None else Some (VOutcome outcome))"
| "getValue env n (EFailureVar k) want =
     typed FAILURE_TYPE want
       (let ftype = m_failureType (ne_vars env k) in
        if ftype = NO_FAILURE then None else Some (VFailure ftype))"
| "getValue env n (EFun e f as) want =
     bindE (check PlanError (want = BOOLEAN_TYPE)) (\<lambda>_.
     bindE (apply_oper f (map (\<lambda>a. \<lparr>a_type = valueType a, a_read = getValue env n a,
                a_known = isKnown_with env n a (getValue env n a BOOLEAN_TYPE)\<rparr>) as))
       (\<lambda>v. Inr (map_option VBoolean v)))"
| "getValue env n (ENodeFun e f k) want =
     typed BOOLEAN_TYPE want (Some (VBoolean (apply_node_oper env f k)))"
| "getValue env n (EHandleKnown e h) want =
     typed BOOLEAN_TYPE want (Some (VBoolean (NO_COMMAND_HANDLE \<noteq> m_commandHandle n h)))"
| "getValue env n (EInterruptible e h) want =
     typed BOOLEAN_TYPE want (Some (VBoolean (commandHandleInterruptible (m_commandHandle n h))))"

text \<open>\<open>getValue(bool &)\<close>, what a node asks of a condition.\<close>

definition getBoolean :: "node_env \<Rightarrow> net \<Rightarrow> expr \<Rightarrow> bool option result" where
  "getBoolean env n e =
     bindE (getValue env n e BOOLEAN_TYPE) (\<lambda>v. case v of
        Some (VBoolean b) \<Rightarrow> Inr (Some b) | _ \<Rightarrow> Inr None)"

section \<open>Propagation\<close>

text \<open>
  \<open>publishChange\<close> calls \<open>notifyChanged\<close> on the listeners in order. A node is recorded; a
  function, if active, publishes in its turn. Functions and node functions are not
  propagation sources, so they only listen to variables and nodes, never to one another:
  one level of propagation is enough (\<open>publish_total\<close> below).
\<close>

fun publish :: "nat \<Rightarrow> net \<Rightarrow> listener list \<Rightarrow> nid list result" where
  "publish d n [] = Inr []"
| "publish d n (LNode k # ls) = bindE (publish d n ls) (\<lambda>ks. Inr (k # ks))"
| "publish 0 n (LExpr f # ls) = Inl OutOfFuel"
| "publish (Suc d) n (LExpr f # ls) =
     bindE (if isActive n f then publish d n (m_outgoingListeners n f) else Inr []) (\<lambda>ks.
     bindE (publish (Suc d) n ls) (\<lambda>ks'. Inr (ks @ ks')))"

definition notify_listeners :: "listener list \<Rightarrow> net \<Rightarrow> net result" where
  "notify_listeners ls n =
     bindE (publish 1 n ls) (\<lambda>ks. Inr (n\<lparr>notified := notified n @ ks\<rparr>))"

definition publishChange :: "eid \<Rightarrow> net \<Rightarrow> net result" where
  "publishChange e n =
     (if isActive n e then notify_listeners (m_outgoingListeners n e) n else Inr n)"

text \<open>\<open>Notifier::publishChange\<close> of a node, whose \<open>isActive\<close> is always true.\<close>

definition node_publishChange :: "nid \<Rightarrow> net \<Rightarrow> net result" where
  "node_publishChange k n = notify_listeners (node_listeners n k) n"

section \<open>Listeners\<close>

definition notifier_addListener :: "eid \<Rightarrow> listener \<Rightarrow> net \<Rightarrow> net" where
  "notifier_addListener e ptr n =
     n\<lparr>m_outgoingListeners :=
         (m_outgoingListeners n)(e := push_back_new ptr (m_outgoingListeners n e))\<rparr>"

definition notifier_removeListener :: "eid \<Rightarrow> listener \<Rightarrow> net \<Rightarrow> net" where
  "notifier_removeListener e ptr n =
     n\<lparr>m_outgoingListeners :=
         (m_outgoingListeners n)(e := remove1 ptr (m_outgoingListeners n e))\<rparr>"

definition node_addListener :: "nid \<Rightarrow> listener \<Rightarrow> net \<Rightarrow> net" where
  "node_addListener k ptr n =
     n\<lparr>node_listeners := (node_listeners n)(k := push_back_new ptr (node_listeners n k))\<rparr>"

definition node_removeListener :: "nid \<Rightarrow> listener \<Rightarrow> net \<Rightarrow> net" where
  "node_removeListener k ptr n =
     n\<lparr>node_listeners := (node_listeners n)(k := remove1 ptr (node_listeners n k))\<rparr>"

text \<open>
  The propagation sources of an expression, in the order the helper lambda of
  \<open>Propagator::addListener\<close> reaches them through \<open>doSubexprs\<close>: variables and nodes.
\<close>

datatype source = SExpr eid | SNode nid

fun sources :: "(nid \<Rightarrow> nid list) \<Rightarrow> expr \<Rightarrow> source list" where
  "sources ch (EConst _ _) = []"
| "sources ch (EUserVar e _ _) = [SExpr e]"
| "sources ch (ESimpleBool e) = [SExpr e]"
| "sources ch (EHandleVar e) = [SExpr e]"
| "sources ch (EStateVar k) = [SNode k]"
| "sources ch (EOutcomeVar k) = [SNode k]"
| "sources ch (EFailureVar k) = [SNode k]"
| "sources ch (EFun _ _ as) = concat (map (sources ch) as)"
| "sources ch (ENodeFun _ _ k) = map SNode (ch k)"
| "sources ch (EHandleKnown _ h) = [SExpr h]"
| "sources ch (EInterruptible _ h) = [SExpr h]"

fun source_addListener :: "listener \<Rightarrow> source \<Rightarrow> net \<Rightarrow> net" where
  "source_addListener ptr (SExpr e) n = notifier_addListener e ptr n"
| "source_addListener ptr (SNode k) n = node_addListener k ptr n"

fun source_removeListener :: "listener \<Rightarrow> source \<Rightarrow> net \<Rightarrow> net" where
  "source_removeListener ptr (SExpr e) n = notifier_removeListener e ptr n"
| "source_removeListener ptr (SNode k) n = node_removeListener k ptr n"

text \<open>\<open>Propagator::addListener\<close> and \<open>removeListener\<close>, for functions of all kinds.\<close>

definition propagator_addListener ::
  "(nid \<Rightarrow> nid list) \<Rightarrow> expr \<Rightarrow> eid \<Rightarrow> listener \<Rightarrow> net \<Rightarrow> net" where
  "propagator_addListener ch x e ptr n =
     notifier_addListener e ptr
       (if m_outgoingListeners n e = []
        then fold (source_addListener (LExpr e)) (sources ch x) n else n)"

definition propagator_removeListener ::
  "(nid \<Rightarrow> nid list) \<Rightarrow> expr \<Rightarrow> eid \<Rightarrow> listener \<Rightarrow> net \<Rightarrow> net" where
  "propagator_removeListener ch x e ptr n =
     (let n = notifier_removeListener e ptr n in
      if m_outgoingListeners n e = []
      then fold (source_removeListener (LExpr e)) (sources ch x) n else n)"

text \<open>\<open>addListener\<close> on an expression: constants ignore it, node variables pass it to the node.\<close>

fun addListener :: "(nid \<Rightarrow> nid list) \<Rightarrow> expr \<Rightarrow> listener \<Rightarrow> net \<Rightarrow> net" where
  "addListener ch (EConst _ _) ptr n = n"
| "addListener ch (EUserVar e _ _) ptr n = notifier_addListener e ptr n"
| "addListener ch (ESimpleBool e) ptr n = notifier_addListener e ptr n"
| "addListener ch (EHandleVar e) ptr n = notifier_addListener e ptr n"
| "addListener ch (EStateVar k) ptr n = node_addListener k ptr n"
| "addListener ch (EOutcomeVar k) ptr n = node_addListener k ptr n"
| "addListener ch (EFailureVar k) ptr n = node_addListener k ptr n"
| "addListener ch (EFun e f as) ptr n = propagator_addListener ch (EFun e f as) e ptr n"
| "addListener ch (ENodeFun e f k) ptr n = propagator_addListener ch (ENodeFun e f k) e ptr n"
| "addListener ch (EHandleKnown e h) ptr n = propagator_addListener ch (EHandleKnown e h) e ptr n"
| "addListener ch (EInterruptible e h) ptr n = propagator_addListener ch (EInterruptible e h) e ptr n"

fun removeListener :: "(nid \<Rightarrow> nid list) \<Rightarrow> expr \<Rightarrow> listener \<Rightarrow> net \<Rightarrow> net" where
  "removeListener ch (EConst _ _) ptr n = n"
| "removeListener ch (EUserVar e _ _) ptr n = notifier_removeListener e ptr n"
| "removeListener ch (ESimpleBool e) ptr n = notifier_removeListener e ptr n"
| "removeListener ch (EHandleVar e) ptr n = notifier_removeListener e ptr n"
| "removeListener ch (EStateVar k) ptr n = node_removeListener k ptr n"
| "removeListener ch (EOutcomeVar k) ptr n = node_removeListener k ptr n"
| "removeListener ch (EFailureVar k) ptr n = node_removeListener k ptr n"
| "removeListener ch (EFun e f as) ptr n = propagator_removeListener ch (EFun e f as) e ptr n"
| "removeListener ch (ENodeFun e f k) ptr n = propagator_removeListener ch (ENodeFun e f k) e ptr n"
| "removeListener ch (EHandleKnown e h) ptr n =
     propagator_removeListener ch (EHandleKnown e h) e ptr n"
| "removeListener ch (EInterruptible e h) ptr n =
     propagator_removeListener ch (EInterruptible e h) e ptr n"

section \<open>Activation\<close>

text \<open>
  The activation counter is a \<open>size_t\<close> of 64 bits. \<open>activate\<close> increments it, calls
  \<open>handleActivate\<close> if it was 0, and otherwise asserts that it has not wrapped around to 0.
  \<open>count_up\<close> and \<open>count_down\<close> do this around the handler passed to them.
\<close>

definition SIZE_MAX :: nat where "SIZE_MAX = 2 ^ 64 - 1"

definition count_up :: "eid \<Rightarrow> (net \<Rightarrow> net result) \<Rightarrow> net \<Rightarrow> net result" where
  "count_up e handleActivate n =
     (let changed = m_activeCount n e = 0;
          count = (if m_activeCount n e = SIZE_MAX then 0 else Suc (m_activeCount n e));
          n' = n\<lparr>m_activeCount := (m_activeCount n)(e := count)\<rparr> in
      if changed then handleActivate n'
      else bindE (check AssertFailed (count \<noteq> 0)) (\<lambda>_. Inr n'))"

definition count_down :: "eid \<Rightarrow> (net \<Rightarrow> net result) \<Rightarrow> net \<Rightarrow> net result" where
  "count_down e handleDeactivate n =
     bindE (check AssertFailed (m_activeCount n e \<noteq> 0)) (\<lambda>_.
     let count = m_activeCount n e - 1;
         n' = n\<lparr>m_activeCount := (m_activeCount n)(e := count)\<rparr> in
     if count = 0 then handleDeactivate n' else Inr n')"

text \<open>
  \<open>UserVariable::handleActivate\<close>: forget the saved value and take the initial value, if
  there is an initializer and it is known.
\<close>

definition initialize :: "node_env \<Rightarrow> eid \<Rightarrow> val_type \<Rightarrow> expr \<Rightarrow> net \<Rightarrow> net result" where
  "initialize env e ty init n =
     bindE (getValue env n init ty) (\<lambda>v. case v of
        Some x \<Rightarrow> publishChange e (n\<lparr>m_known := (m_known n)(e := True), m_value := (m_value n)(e := x)\<rparr>)
      | None \<Rightarrow> Inr (n\<lparr>m_known := (m_known n)(e := False)\<rparr>))"

fun activate :: "node_env \<Rightarrow> expr \<Rightarrow> net \<Rightarrow> net result"
and activate_all :: "node_env \<Rightarrow> expr list \<Rightarrow> net \<Rightarrow> net result" where
  "activate env (EUserVar e ty init) n =
     count_up e (\<lambda>n.
       let n = n\<lparr>m_savedKnown := (m_savedKnown n)(e := False)\<rparr> in
       case init of
         None \<Rightarrow> Inr (n\<lparr>m_known := (m_known n)(e := False)\<rparr>)
       | Some i \<Rightarrow> bindE (activate env i n) (initialize env e ty i)) n"
| "activate env (ESimpleBool e) n =
     count_up e (\<lambda>n. Inr (n\<lparr>m_value := (m_value n)(e := VBoolean False)\<rparr>)) n"
| "activate env (EHandleVar e) n = count_up e Inr n"
| "activate env (EFun e f as) n = count_up e (activate_all env as) n"
| "activate env (ENodeFun e f k) n = count_up e Inr n"
| "activate env (EHandleKnown e h) n = count_up e Inr n"
| "activate env (EInterruptible e h) n = count_up e Inr n"
| "activate env (EConst _ _) n = Inr n"
| "activate env (EStateVar _) n = Inr n"
| "activate env (EOutcomeVar _) n = Inr n"
| "activate env (EFailureVar _) n = Inr n"
| "activate_all env [] n = Inr n"
| "activate_all env (a # as) n = bindE (activate env a n) (activate_all env as)"

fun deactivate :: "expr \<Rightarrow> net \<Rightarrow> net result"
and deactivate_all :: "expr list \<Rightarrow> net \<Rightarrow> net result" where
  "deactivate (EUserVar e ty init) n =
     count_down e (\<lambda>n. case init of None \<Rightarrow> Inr n | Some i \<Rightarrow> deactivate i n) n"
| "deactivate (ESimpleBool e) n = count_down e Inr n"
| "deactivate (EHandleVar e) n = count_down e Inr n"
| "deactivate (EFun e f as) n = count_down e (deactivate_all as) n"
| "deactivate (ENodeFun e f k) n = count_down e Inr n"
| "deactivate (EHandleKnown e h) n = count_down e Inr n"
| "deactivate (EInterruptible e h) n = count_down e Inr n"
| "deactivate (EConst _ _) n = Inr n"
| "deactivate (EStateVar _) n = Inr n"
| "deactivate (EOutcomeVar _) n = Inr n"
| "deactivate (EFailureVar _) n = Inr n"
| "deactivate_all [] n = Inr n"
| "deactivate_all (a # as) n = bindE (deactivate a n) (deactivate_all as)"

section \<open>Assignment\<close>

definition setUnknown :: "eid \<Rightarrow> net \<Rightarrow> net result" where
  "setUnknown e n =
     (let changed = m_known n e; n = n\<lparr>m_known := (m_known n)(e := False)\<rparr> in
      if changed then publishChange e n else Inr n)"

definition setValueImpl :: "eid \<Rightarrow> val \<Rightarrow> net \<Rightarrow> net result" where
  "setValueImpl e x n =
     (let changed = (\<not> m_known n e \<or> x \<noteq> m_value n e);
          n = n\<lparr>m_value := (m_value n)(e := x), m_known := (m_known n)(e := True)\<rparr> in
      if changed then publishChange e n else Inr n)"

text \<open>\<open>UserVariable<T>::setValue(Value const &)\<close>; \<open>None\<close> is an unknown \<open>Value\<close>.\<close>

definition setValue :: "eid \<Rightarrow> val_type \<Rightarrow> val option \<Rightarrow> net \<Rightarrow> net result" where
  "setValue e ty v n =
     (case v of
        None \<Rightarrow> setUnknown e n
      | Some x \<Rightarrow> bindE (check PlanError (type_of_val x = ty)) (\<lambda>_. setValueImpl e x n))"

definition saveCurrentValue :: "eid \<Rightarrow> net \<Rightarrow> net" where
  "saveCurrentValue e n =
     n\<lparr>m_savedValue := (m_savedValue n)(e := m_value n e),
       m_savedKnown := (m_savedKnown n)(e := m_known n e)\<rparr>"

definition restoreSavedValue :: "eid \<Rightarrow> net \<Rightarrow> net result" where
  "restoreSavedValue e n =
     (let changed = (m_known n e \<noteq> m_savedKnown n e \<or> m_value n e \<noteq> m_savedValue n e);
          n = n\<lparr>m_value := (m_value n)(e := m_savedValue n e),
                m_known := (m_known n)(e := m_savedKnown n e)\<rparr> in
      if changed then publishChange e n else Inr n)"

text \<open>\<open>getSavedValue\<close> returns a known \<open>Value\<close> whatever \<open>m_savedKnown\<close> is.\<close>

definition getSavedValue :: "eid \<Rightarrow> net \<Rightarrow> val option" where
  "getSavedValue e n = Some (m_savedValue n e)"

definition simple_setValue :: "eid \<Rightarrow> bool \<Rightarrow> net \<Rightarrow> net result" where
  "simple_setValue e b n =
     (if isActive n e \<and> m_value n e \<noteq> VBoolean b
      then publishChange e (n\<lparr>m_value := (m_value n)(e := VBoolean b)\<rparr>) else Inr n)"

text \<open>The last two statements of \<open>CommandImpl::setCommandHandle\<close>.\<close>

definition handle_setValue :: "eid \<Rightarrow> command_handle \<Rightarrow> net \<Rightarrow> net result" where
  "handle_setValue e h n =
     publishChange e (n\<lparr>m_commandHandle := (m_commandHandle n)(e := h)\<rparr>)"

section \<open>Activation counts are reference counts\<close>

fun eid_of :: "expr \<Rightarrow> eid option" where
  "eid_of (EUserVar e _ _) = Some e"
| "eid_of (ESimpleBool e) = Some e"
| "eid_of (EHandleVar e) = Some e"
| "eid_of (EFun e _ _) = Some e"
| "eid_of (ENodeFun e _ _) = Some e"
| "eid_of (EHandleKnown e _) = Some e"
| "eid_of (EInterruptible e _) = Some e"
| "eid_of _ = None"

text \<open>The expressions an active expression keeps active.\<close>

fun subs :: "expr \<Rightarrow> expr list" where
  "subs (EUserVar _ _ init) = (case init of None \<Rightarrow> [] | Some i \<Rightarrow> [i])"
| "subs (EFun _ _ as) = as"
| "subs _ = []"

definition occ :: "eid \<Rightarrow> expr list \<Rightarrow> int" where
  "occ x es = int (count_list (map eid_of es) (Some x))"

text \<open>
  The objects of a plan: \<open>tab\<close> gives the expression with a given identity, for the
  identities in \<open>F\<close>; subexpressions are objects of the plan too.
\<close>

definition known_expr :: "(eid \<Rightarrow> expr) \<Rightarrow> eid set \<Rightarrow> expr \<Rightarrow> bool" where
  "known_expr tab F e \<longleftrightarrow> (\<forall>i. eid_of e = Some i \<longrightarrow> i \<in> F \<and> tab i = e)"

definition expr_table :: "(eid \<Rightarrow> expr) \<Rightarrow> eid set \<Rightarrow> bool" where
  "expr_table tab F \<longleftrightarrow> finite F \<and>
     (\<forall>f\<in>F. eid_of (tab f) = Some f \<and> (\<forall>a\<in>set (subs (tab f)). known_expr tab F a))"

text \<open>
  \<open>refcounts\<close>: the count of each object is the number \<open>ext\<close> of activations from outside the
  expressions plus its occurrences in active expressions.
\<close>

definition refcounts :: "(eid \<Rightarrow> expr) \<Rightarrow> eid set \<Rightarrow> (eid \<Rightarrow> int) \<Rightarrow> net \<Rightarrow> bool" where
  "refcounts tab F ext n \<longleftrightarrow>
     (\<forall>x. int (m_activeCount n x) =
          ext x + (\<Sum>f\<in>F. if isActive n f then occ x (subs (tab f)) else 0))"

lemma occ_simps [simp]:
  "occ x [] = 0"
  "occ x (e # es) = (if eid_of e = Some x then 1 else 0) + occ x es"
  by (simp_all add: occ_def)

lemma occ_nonneg: "0 \<le> occ x es" by (simp add: occ_def)

lemma count_publish:
  "publishChange e n = Inr n' \<Longrightarrow> m_activeCount n' = m_activeCount n"
  by (auto simp: publishChange_def notify_listeners_def split: if_splits)

lemma count_initialize:
  "initialize env e ty i n = Inr n' \<Longrightarrow> m_activeCount n' = m_activeCount n"
  by (auto simp: initialize_def split: option.splits dest!: count_publish)

lemma refcounts_cong:
  "m_activeCount n' = m_activeCount n \<Longrightarrow> refcounts tab F ext n' = refcounts tab F ext n"
  by (simp add: refcounts_def isActive_def)

lemma sum_switch:
  fixes g :: "nat \<Rightarrow> int"
  assumes "finite F" and "e \<in> F"
  shows "(\<Sum>f\<in>F. if 0 < (c(e := k)) f then g f else 0) =
         (\<Sum>f\<in>F. if 0 < c f then g f else 0) +
         (if 0 < k then g e else 0) - (if 0 < c e then g e else (0::int))"
proof -
  have "(\<Sum>f\<in>F - {e}. if 0 < (c(e := k)) f then g f else 0) =
        (\<Sum>f\<in>F - {e}. if 0 < c f then g f else 0)"
    by (rule sum.cong) auto
  then show ?thesis using assms by (simp add: sum.remove [of F e])
qed

lemma refcounts_update:
  assumes tab: "expr_table tab F" and e: "e \<in> F" and rc: "refcounts tab F ext n"
    and n': "m_activeCount n' = (m_activeCount n)(e := k)"
  shows "refcounts tab F
     (\<lambda>x. ext x + (if x = e then int k - int (m_activeCount n e) else 0)
          + (if 0 < m_activeCount n e then occ x (subs (tab e)) else 0)
          - (if 0 < k then occ x (subs (tab e)) else 0)) n'"
  unfolding refcounts_def isActive_def n'
proof (intro allI)
  fix x
  have "int (m_activeCount n x) =
     ext x + (\<Sum>f\<in>F. if 0 < m_activeCount n f then occ x (subs (tab f)) else 0)"
    using rc by (simp add: refcounts_def isActive_def)
  moreover have "finite F" using tab by (simp add: expr_table_def)
  ultimately show "int (((m_activeCount n)(e := k)) x) =
     ext x + (if x = e then int k - int (m_activeCount n e) else 0)
          + (if 0 < m_activeCount n e then occ x (subs (tab e)) else 0)
          - (if 0 < k then occ x (subs (tab e)) else 0) +
     (\<Sum>f\<in>F. if 0 < ((m_activeCount n)(e := k)) f then occ x (subs (tab f)) else 0)"
    using e by (simp only: sum_switch) auto
qed

text \<open>\<open>counted d f\<close>: running \<open>f\<close> amounts to \<open>d\<close> activations from outside.\<close>

definition counted ::
  "(eid \<Rightarrow> expr) \<Rightarrow> eid set \<Rightarrow> (eid \<Rightarrow> int) \<Rightarrow> (net \<Rightarrow> net result) \<Rightarrow> bool" where
  "counted tab F d f \<longleftrightarrow>
     (\<forall>ext n n'. refcounts tab F ext n \<longrightarrow> f n = Inr n' \<longrightarrow> refcounts tab F (\<lambda>x. ext x + d x) n')"

lemma countedD:
  "counted tab F d f \<Longrightarrow> refcounts tab F ext n \<Longrightarrow> f n = Inr n' \<Longrightarrow>
   refcounts tab F (\<lambda>x. ext x + d x) n'"
  by (simp add: counted_def)

lemma counted_Inr: "counted tab F (\<lambda>x. 0) Inr"
  by (simp add: counted_def)

lemma counted_bind:
  assumes "counted tab F d1 f" and "counted tab F d2 g"
  shows "counted tab F (\<lambda>x. d1 x + d2 x) (\<lambda>n. bindE (f n) g)"
  unfolding counted_def
proof (intro allI impI)
  fix ext n n'
  assume rc: "refcounts tab F ext n" and "bindE (f n) g = Inr n'"
  then obtain m where m: "f n = Inr m" "g m = Inr n'" by auto
  from countedD [OF assms(2) countedD [OF assms(1) rc m(1)] m(2)]
  show "refcounts tab F (\<lambda>x. ext x + (d1 x + d2 x)) n'" by (simp add: algebra_simps)
qed

lemma counted_up:
  assumes tab: "expr_table tab F" and e: "e \<in> F"
    and h: "counted tab F (\<lambda>x. occ x (subs (tab e))) h"
  shows "counted tab F (\<lambda>x. if x = e then 1 else 0) (count_up e h)"
  unfolding counted_def
proof (intro allI impI)
  fix ext n n'
  assume rc: "refcounts tab F ext n" and run: "count_up e h n = Inr n'"
  show "refcounts tab F (\<lambda>x. ext x + (if x = e then 1 else 0)) n'"
  proof (cases "m_activeCount n e = 0")
    case True
    let ?n = "n\<lparr>m_activeCount := (m_activeCount n)(e := Suc 0)\<rparr>"
    have "h ?n = Inr n'" using run True by (simp add: count_up_def SIZE_MAX_def)
    from countedD [OF h refcounts_update [OF tab e rc, of ?n "Suc 0"] this] show ?thesis
      by (simp add: True algebra_simps cong: if_cong)
  next
    case False
    then have "m_activeCount n' = (m_activeCount n)(e := Suc (m_activeCount n e))"
      using run by (auto simp: count_up_def split: if_splits)
    from refcounts_update [OF tab e rc this] show ?thesis using False by (simp cong: if_cong)
  qed
qed

lemma counted_down:
  assumes tab: "expr_table tab F" and e: "e \<in> F"
    and h: "counted tab F (\<lambda>x. - occ x (subs (tab e))) h"
  shows "counted tab F (\<lambda>x. if x = e then -1 else 0) (count_down e h)"
  unfolding counted_def
proof (intro allI impI)
  fix ext n n'
  assume rc: "refcounts tab F ext n" and run: "count_down e h n = Inr n'"
  let ?n = "n\<lparr>m_activeCount := (m_activeCount n)(e := m_activeCount n e - 1)\<rparr>"
  note upd = refcounts_update [OF tab e rc, of ?n "m_activeCount n e - 1"]
  show "refcounts tab F (\<lambda>x. ext x + (if x = e then -1 else 0)) n'"
  proof (cases "m_activeCount n e = 1")
    case True
    then have "h ?n = Inr n'" using run by (simp add: count_down_def)
    from countedD [OF h upd this] show ?thesis by (simp add: True algebra_simps cong: if_cong)
  next
    case False
    with run have n': "n' = ?n" and gt: "m_activeCount n e > 1"
      by (auto simp: count_down_def split: if_splits)
    from gt obtain j where j: "m_activeCount n e = Suc (Suc j)"
      by (auto dest: less_imp_Suc_add)
    have "(\<lambda>x. ext x + (if x = e then -1 else 0)) =
          (\<lambda>x. ext x + (if x = e then int (m_activeCount n e - 1) - int (m_activeCount n e) else 0)
             + (if 0 < m_activeCount n e then occ x (subs (tab e)) else 0)
             - (if 0 < m_activeCount n e - 1 then occ x (subs (tab e)) else 0))"
      by (simp add: j fun_eq_iff)
    with upd show ?thesis unfolding n' by simp
  qed
qed

lemma counted_cong:
  "counted tab F d f \<Longrightarrow> (\<And>x. d x = d' x) \<Longrightarrow> counted tab F d' f"
  by (simp add: counted_def)

lemma counted_fields:
  "(\<And>n. m_activeCount (f n) = m_activeCount n) \<Longrightarrow> counted tab F d g \<Longrightarrow>
   counted tab F d (\<lambda>n. g (f n))"
  unfolding counted_def by (metis refcounts_cong)

lemma counted_same:
  assumes "\<And>n n'. f n = Inr n' \<Longrightarrow> m_activeCount n' = m_activeCount n"
  shows "counted tab F (\<lambda>x. 0) f"
  unfolding counted_def
proof (intro allI impI)
  fix ext n n'
  assume "refcounts tab F ext n" and "f n = Inr n'"
  then have "refcounts tab F ext n'" using refcounts_cong [OF assms] by blast
  then show "refcounts tab F (\<lambda>x. ext x + 0) n'" by simp
qed

lemma known_exprD: "known_expr tab F e \<Longrightarrow> eid_of e = Some i \<Longrightarrow> i \<in> F \<and> tab i = e"
  by (simp add: known_expr_def)

lemma known_subs:
  "expr_table tab F \<Longrightarrow> known_expr tab F e \<Longrightarrow> eid_of e = Some i \<Longrightarrow> a \<in> set (subs e) \<Longrightarrow>
   known_expr tab F a"
  by (auto simp: expr_table_def dest: known_exprD)

lemma counted_activate_all:
  "(\<And>a. a \<in> set as \<Longrightarrow> counted tab F (\<lambda>x. occ x [a]) (activate env a)) \<Longrightarrow>
   counted tab F (\<lambda>x. occ x as) (activate_all env as)"
proof (induction as)
  case Nil
  then show ?case by (simp add: counted_def)
next
  case (Cons a as)
  then have "counted tab F (\<lambda>x. occ x [a] + occ x as)
      (\<lambda>n. bindE (activate env a n) (activate_all env as))"
    by (intro counted_bind) auto
  then show ?case by (auto simp: counted_def)
qed

lemma counted_deactivate_all:
  "(\<And>a. a \<in> set as \<Longrightarrow> counted tab F (\<lambda>x. - occ x [a]) (deactivate a)) \<Longrightarrow>
   counted tab F (\<lambda>x. - occ x as) (deactivate_all as)"
proof (induction as)
  case Nil
  then show ?case by (simp add: counted_def)
next
  case (Cons a as)
  then have "counted tab F (\<lambda>x. - occ x [a] + - occ x as)
      (\<lambda>n. bindE (deactivate a n) (deactivate_all as))"
    by (intro counted_bind) auto
  then show ?case by (auto simp: counted_def algebra_simps)
qed

text \<open>\<open>activate\<close> and \<open>deactivate\<close> as functions of the expression alone.\<close>

lemma activate_eqs:
  "activate env (EFun e f as) = count_up e (activate_all env as)"
  "activate env (ESimpleBool e) =
     count_up e (\<lambda>n. Inr (n\<lparr>m_value := (m_value n)(e := VBoolean False)\<rparr>))"
  "activate env (EHandleVar e) = count_up e Inr"
  "activate env (ENodeFun e g k) = count_up e Inr"
  "activate env (EHandleKnown e h) = count_up e Inr"
  "activate env (EInterruptible e h) = count_up e Inr"
  "activate env (EUserVar e ty None) = count_up e (\<lambda>n. Inr (n\<lparr>m_savedKnown := (m_savedKnown n)(e := False),
       m_known := (m_known n)(e := False)\<rparr>))"
  "activate env (EUserVar e ty (Some i)) = count_up e (\<lambda>n.
       bindE (activate env i (n\<lparr>m_savedKnown := (m_savedKnown n)(e := False)\<rparr>))
         (initialize env e ty i))"
  by (simp_all add: fun_eq_iff Let_def)

lemma deactivate_eqs:
  "deactivate (EFun e f as) = count_down e (deactivate_all as)"
  "deactivate (ESimpleBool e) = count_down e Inr"
  "deactivate (EHandleVar e) = count_down e Inr"
  "deactivate (ENodeFun e g k) = count_down e Inr"
  "deactivate (EHandleKnown e h) = count_down e Inr"
  "deactivate (EInterruptible e h) = count_down e Inr"
  "deactivate (EUserVar e ty None) = count_down e Inr"
  "deactivate (EUserVar e ty (Some i)) = count_down e (deactivate i)"
  by (simp_all add: fun_eq_iff eta_contract_eq)

text \<open>Objects without subexpressions, and objects with them.\<close>

lemma counted_object_up:
  assumes "expr_table tab F" "known_expr tab F x" "eid_of x = Some e"
    and "counted tab F (\<lambda>y. occ y (subs x)) h"
  shows "counted tab F (\<lambda>y. occ y [x]) (count_up e h)"
proof -
  have e: "e \<in> F" "tab e = x" using assms(2,3) by (auto dest: known_exprD)
  have "counted tab F (\<lambda>y. if y = e then 1 else 0) (count_up e h)"
    using assms(1,4) e by (intro counted_up) auto
  then show ?thesis by (rule counted_cong) (auto simp: assms(3))
qed

lemma counted_object_down:
  assumes "expr_table tab F" "known_expr tab F x" "eid_of x = Some e"
    and "counted tab F (\<lambda>y. - occ y (subs x)) h"
  shows "counted tab F (\<lambda>y. - occ y [x]) (count_down e h)"
proof -
  have e: "e \<in> F" "tab e = x" using assms(2,3) by (auto dest: known_exprD)
  have "counted tab F (\<lambda>y. if y = e then -1 else 0) (count_down e h)"
    using assms(1,4) e by (intro counted_down) auto
  then show ?thesis by (rule counted_cong) (auto simp: assms(3))
qed

lemma counted_leaf:
  assumes "\<And>n n'. h n = Inr n' \<Longrightarrow> m_activeCount n' = m_activeCount n" and "subs x = []"
  shows "counted tab F (\<lambda>y. occ y (subs x)) h" and "counted tab F (\<lambda>y. - occ y (subs x)) h"
  using counted_same [of h tab F] assms by (auto intro: counted_cong)

lemma counted_no_object:
  "eid_of x = None \<Longrightarrow> f = Inr \<Longrightarrow>
   counted tab F (\<lambda>y. occ y [x]) f \<and> counted tab F (\<lambda>y. - occ y [x]) f"
  by (simp add: counted_def)

lemma counted_activate:
  assumes tab: "expr_table tab F"
  shows "known_expr tab F e \<Longrightarrow> counted tab F (\<lambda>x. occ x [e]) (activate env e)"
proof (induction e)
  case (EUserVar e ty init)
  show ?case
  proof (cases init)
    case None
    show ?thesis unfolding None activate_eqs
      using EUserVar.prems None
      by (intro counted_object_up [OF tab] counted_leaf) auto
  next
    case (Some i)
    have "known_expr tab F i" using known_subs [OF tab EUserVar.prems, of e i] Some by simp
    then have i: "counted tab F (\<lambda>x. occ x [i]) (activate env i)" using EUserVar.IH Some by simp
    have "counted tab F (\<lambda>x. occ x [i] + 0)
       (\<lambda>n. bindE (activate env i (n\<lparr>m_savedKnown := (m_savedKnown n)(e := False)\<rparr>))
         (initialize env e ty i))"
      by (intro counted_bind counted_fields [OF _ i] counted_same) (auto dest: count_initialize)
    then show ?thesis unfolding Some activate_eqs
      using EUserVar.prems Some by (intro counted_object_up [OF tab]) auto
  qed
next
  case (EFun e f as)
  have "counted tab F (\<lambda>x. occ x as) (activate_all env as)"
    using EFun.IH known_subs [OF tab EFun.prems] by (intro counted_activate_all) simp
  then show ?case unfolding activate_eqs
    using EFun.prems by (intro counted_object_up [OF tab]) auto
qed (unfold activate_eqs,
     (intro counted_object_up [OF tab] counted_leaf conjunct1 [OF counted_no_object]; auto)+)

lemma counted_deactivate:
  assumes tab: "expr_table tab F"
  shows "known_expr tab F e \<Longrightarrow> counted tab F (\<lambda>x. - occ x [e]) (deactivate e)"
proof (induction e)
  case (EUserVar e ty init)
  show ?case
  proof (cases init)
    case None
    show ?thesis unfolding None deactivate_eqs
      using EUserVar.prems None
      by (intro counted_object_down [OF tab] counted_leaf) auto
  next
    case (Some i)
    have "known_expr tab F i" using known_subs [OF tab EUserVar.prems, of e i] Some by simp
    then have "counted tab F (\<lambda>x. - occ x [i]) (deactivate i)" using EUserVar.IH Some by simp
    then show ?thesis unfolding Some deactivate_eqs
      using EUserVar.prems Some by (intro counted_object_down [OF tab]) auto
  qed
next
  case (EFun e f as)
  have "counted tab F (\<lambda>x. - occ x as) (deactivate_all as)"
    using EFun.IH known_subs [OF tab EFun.prems] by (intro counted_deactivate_all) simp
  then show ?case unfolding deactivate_eqs
    using EFun.prems by (intro counted_object_down [OF tab]) auto
qed (unfold deactivate_eqs,
     (intro counted_object_down [OF tab] counted_leaf conjunct2 [OF counted_no_object]; auto)+)

end
