(* ===== verification/Expr_Activation.thy ===== *)
theory Expr_Activation
  imports Expr_Net
begin

text \<open>
  What the activation counts of Expr_Net guarantee: after any sequence of activations and
  deactivations the counts depend only on how often each expression has been activated
  more than deactivated, an expression that is activated keeps its subexpressions active,
  and can be deactivated without failing an assertion.
\<close>

section \<open>Deactivation does not fail\<close>

definition safe_down :: "(eid \<Rightarrow> expr) \<Rightarrow> eid set \<Rightarrow> (eid \<Rightarrow> int) \<Rightarrow> (net \<Rightarrow> net result) \<Rightarrow> bool" where
  "safe_down tab F d f \<longleftrightarrow>
     (\<forall>ext n. refcounts tab F ext n \<longrightarrow> (\<forall>x. 0 \<le> ext x \<and> d x \<le> ext x) \<longrightarrow> (\<exists>n'. f n = Inr n'))"

lemma refcounts_ge:
  assumes "refcounts tab F ext n"
  shows "ext x \<le> int (m_activeCount n x)"
proof -
  have "0 \<le> (\<Sum>f\<in>F. if isActive n f then occ x (subs (tab f)) else 0)"
    by (rule sum_nonneg) (simp add: occ_nonneg)
  then show ?thesis using assms by (simp add: refcounts_def)
qed

lemma safe_deactivate_all:
  assumes "\<And>a. a \<in> set as \<Longrightarrow> safe_down tab F (\<lambda>x. occ x [a]) (deactivate a)"
    and "\<And>a. a \<in> set as \<Longrightarrow> counted tab F (\<lambda>x. - occ x [a]) (deactivate a)"
  shows "safe_down tab F (\<lambda>x. occ x as) (deactivate_all as)"
  using assms
proof (induction as)
  case Nil
  show ?case by (simp add: safe_down_def)
next
  case (Cons a as)
  show ?case
    unfolding safe_down_def
  proof (intro allI impI)
    fix ext n
    assume rc: "refcounts tab F ext n" and ge: "\<forall>x. 0 \<le> ext x \<and> occ x (a # as) \<le> ext x"
    have a: "safe_down tab F (\<lambda>x. occ x [a]) (deactivate a)"
      "counted tab F (\<lambda>x. - occ x [a]) (deactivate a)"
      using Cons.prems by simp_all
    have ge_a: "0 \<le> ext x \<and> occ x [a] \<le> ext x" for x
      using ge [rule_format, of x] occ_nonneg [of x as] by (auto split: if_splits)
    from a(1) rc ge_a obtain m where m: "deactivate a n = Inr m"
      unfolding safe_down_def by blast
    have rest: "0 \<le> ext x + - occ x [a] \<and> occ x as \<le> ext x + - occ x [a]" for x
      using ge [rule_format, of x] ge_a [of x] by (simp split: if_splits)
    have "safe_down tab F (\<lambda>x. occ x as) (deactivate_all as)"
      using Cons by simp
    with countedD [OF a(2) rc m] rest obtain n' where "deactivate_all as m = Inr n'"
      unfolding safe_down_def by blast
    with m show "\<exists>n'. deactivate_all (a # as) n = Inr n'" by simp
  qed
qed

lemma safe_object_down:
  assumes tab: "expr_table tab F" and x: "known_expr tab F x" "eid_of x = Some e"
    and h: "safe_down tab F (\<lambda>y. occ y (subs x)) h"
  shows "safe_down tab F (\<lambda>y. occ y [x]) (count_down e h)"
  unfolding safe_down_def
proof (intro allI impI)
  fix ext n
  assume rc: "refcounts tab F ext n" and ge: "\<forall>y. 0 \<le> ext y \<and> occ y [x] \<le> ext y"
  have e: "e \<in> F" "tab e = x" using x by (auto dest: known_exprD)
  have "1 \<le> ext e" using ge [rule_format, of e] x(2) by simp
  with refcounts_ge [OF rc, of e] have act: "m_activeCount n e \<noteq> 0" by auto
  show "\<exists>n'. count_down e h n = Inr n'"
  proof (cases "m_activeCount n e = 1")
    case True
    let ?n = "n\<lparr>m_activeCount := (m_activeCount n)(e := 0)\<rparr>"
    let ?ext = "\<lambda>y. ext y + (if y = e then int 0 - int (m_activeCount n e) else 0)
          + (if 0 < m_activeCount n e then occ y (subs (tab e)) else 0)
          - (if 0 < (0::nat) then occ y (subs (tab e)) else 0)"
    have rc': "refcounts tab F ?ext ?n"
      by (rule refcounts_update [OF tab e(1) rc]) simp
    have "0 \<le> ?ext y \<and> occ y (subs x) \<le> ?ext y" for y
      using ge [rule_format, of y] \<open>1 \<le> ext e\<close> occ_nonneg [of y "subs x"] by (simp add: True e(2))
    with h rc' obtain n' where "h ?n = Inr n'" unfolding safe_down_def by blast
    then show ?thesis using True by (simp add: count_down_def)
  next
    case False
    with act show ?thesis by (simp add: count_down_def)
  qed
qed

lemma safe_Inr: "safe_down tab F d Inr"
  by (simp add: safe_down_def)

lemma safe_no_object: "eid_of x = None \<Longrightarrow> safe_down tab F d (deactivate x)"
  by (cases x) (simp_all add: safe_down_def)

lemma safe_deactivate:
  assumes tab: "expr_table tab F"
  shows "known_expr tab F e \<Longrightarrow> safe_down tab F (\<lambda>x. occ x [e]) (deactivate e)"
proof (induction e)
  case (EUserVar e ty init)
  show ?case
  proof (cases init)
    case None
    show ?thesis unfolding None deactivate_eqs
      using EUserVar.prems None by (intro safe_object_down [OF tab] safe_Inr) auto
  next
    case (Some i)
    have "known_expr tab F i" using known_subs [OF tab EUserVar.prems, of e i] Some by simp
    then have "safe_down tab F (\<lambda>x. occ x [i]) (deactivate i)" using EUserVar.IH Some by simp
    then show ?thesis unfolding Some deactivate_eqs
      using EUserVar.prems Some by (intro safe_object_down [OF tab]) auto
  qed
next
  case (EFun e f as)
  have "safe_down tab F (\<lambda>x. occ x as) (deactivate_all as)"
    using EFun.IH known_subs [OF tab EFun.prems] counted_deactivate [OF tab]
    by (intro safe_deactivate_all) auto
  then show ?case unfolding deactivate_eqs
    using EFun.prems by (intro safe_object_down [OF tab]) auto
qed (((rule safe_no_object, (simp; fail)) |
      (unfold deactivate_eqs, intro safe_object_down [OF tab] safe_Inr; auto))+)

section \<open>The counts are determined by the activations from outside\<close>

lemma sub_size: "a \<in> set (subs x) \<Longrightarrow> size a < size x"
  by (cases x) (auto split: option.splits simp: less_Suc_eq_le size_list_estimation' intro: le_SucI)

lemma occ_pos: "0 < occ x es \<Longrightarrow> \<exists>a\<in>set es. eid_of a = Some x"
  by (induction es) (auto split: if_splits)

lemma occ_mem: "a \<in> set es \<Longrightarrow> eid_of a = Some x \<Longrightarrow> 0 < occ x es"
proof (induction es)
  case (Cons e es)
  then show ?case using occ_nonneg [of x es] by auto
qed simp

lemma refcounts_unique:
  assumes tab: "expr_table tab F" and n: "refcounts tab F ext n" and n': "refcounts tab F ext n'"
  shows "m_activeCount n x = m_activeCount n' x"
proof (induction "Max ((\<lambda>f. size (tab f)) ` F) - size (tab x)" arbitrary: x rule: less_induct)
  case less
  have fin: "finite F" using tab by (simp add: expr_table_def)
  have "(if isActive n f then occ x (subs (tab f)) else 0) =
        (if isActive n' f then occ x (subs (tab f)) else 0)" if f: "f \<in> F" for f
  proof (cases "occ x (subs (tab f)) = 0")
    case False
    then obtain a where a: "a \<in> set (subs (tab f))" "eid_of a = Some x"
      using occ_nonneg [of x "subs (tab f)"] occ_pos [of x "subs (tab f)"] by auto
    then have "tab x = a" using tab f by (auto simp: expr_table_def dest: known_exprD)
    with sub_size [OF a(1)] have "size (tab x) < size (tab f)" by simp
    moreover have "size (tab f) \<le> Max ((\<lambda>f. size (tab f)) ` F)" using f fin by simp
    ultimately have "m_activeCount n f = m_activeCount n' f" by (intro less.hyps) linarith
    then show ?thesis by (simp add: isActive_def)
  qed simp
  then have "(\<Sum>f\<in>F. if isActive n f then occ x (subs (tab f)) else 0) =
             (\<Sum>f\<in>F. if isActive n' f then occ x (subs (tab f)) else 0)"
    by (rule sum.cong [OF refl])
  then have "int (m_activeCount n x) = int (m_activeCount n' x)"
    using n n' by (simp add: refcounts_def)
  then show ?case by simp
qed

lemma refcounts_sub_active:
  assumes tab: "expr_table tab F" and n: "refcounts tab F ext n" and "\<forall>x. 0 \<le> ext x"
    and e: "known_expr tab F e" "expr_active n e" and a: "a \<in> set (subs e)"
  shows "expr_active n a"
proof (cases "eid_of a")
  case None
  then show ?thesis by (cases a) simp_all
next
  case (Some x)
  obtain i where i: "eid_of e = Some i" using a by (cases e) auto
  then have iF: "i \<in> F" "tab i = e" using e(1) by (auto dest: known_exprD)
  have act: "isActive n i" using e(2) i by (cases e) auto
  have "0 < occ x (subs (tab i))" using a Some iF by (auto intro: occ_mem)
  then have "0 < (if isActive n i then occ x (subs (tab i)) else 0)" using act by simp
  also have "\<dots> \<le> (\<Sum>f\<in>F. if isActive n f then occ x (subs (tab f)) else 0)"
    using tab iF by (intro member_le_sum) (auto simp: expr_table_def occ_nonneg)
  finally have "0 < int (m_activeCount n x)"
    using n assms(3) by (simp add: refcounts_def add_nonneg_pos)
  then show ?thesis using Some by (cases a) (simp_all add: isActive_def)
qed

section \<open>Runs\<close>

datatype net_op = Act expr | Deact expr

fun net_op_expr :: "net_op \<Rightarrow> expr" where
  "net_op_expr (Act e) = e"
| "net_op_expr (Deact e) = e"

fun run_op :: "node_env \<Rightarrow> net_op \<Rightarrow> net \<Rightarrow> net result" where
  "run_op env (Act e) n = activate env e n"
| "run_op env (Deact e) n = deactivate e n"

text \<open>How often an object has been activated more than deactivated.\<close>

fun balance :: "net_op list \<Rightarrow> eid \<Rightarrow> int" where
  "balance [] x = 0"
| "balance (Act e # ops) x = occ x [e] + balance ops x"
| "balance (Deact e # ops) x = - occ x [e] + balance ops x"

lemma counted_run:
  assumes tab: "expr_table tab F" and "\<forall>p\<in>set ops. known_expr tab F (net_op_expr p)"
  shows "counted tab F (balance ops) (forE (run_op env) ops)"
  using assms(2)
proof (induction ops)
  case Nil
  then show ?case by (simp add: counted_def)
next
  case (Cons p ops)
  let ?d = "\<lambda>x. balance [p] x"
  have "counted tab F ?d (run_op env p)"
    using Cons.prems counted_activate [OF tab] counted_deactivate [OF tab]
    by (cases p) (auto simp: counted_def)
  then have "counted tab F (\<lambda>x. ?d x + balance ops x) (\<lambda>n. bindE (run_op env p n) (forE (run_op env) ops))"
    using Cons by (intro counted_bind) auto
  then show ?case by (cases p) (auto simp: counted_def algebra_simps)
qed

lemma refcounts_zero:
  "(\<forall>x. m_activeCount n x = 0) \<Longrightarrow> refcounts tab F (\<lambda>x. 0) n"
  by (simp add: refcounts_def isActive_def)

section \<open>Properties\<close>

text \<open>
  Property C19. The activation counts of the expressions of a plan are reference counts: two
  sequences of activations and deactivations that activate every object equally often on
  balance leave all counts equal, whatever their order and however the expressions share
  subexpressions; so a sequence in which they cancel out leaves every count at 0.
\<close>

theorem activation_counts:
  assumes "expr_table tab F" and "\<forall>x. m_activeCount n0 x = 0"
    and "\<forall>p\<in>set ops \<union> set ops'. known_expr tab F (net_op_expr p)"
    and "forE (run_op env) ops n0 = Inr n" and "forE (run_op env') ops' n0 = Inr n'"
    and "\<forall>x. balance ops x = balance ops' x"
  shows "m_activeCount n x = m_activeCount n' x \<and>
         ((\<forall>x. balance ops x = 0) \<longrightarrow> m_activeCount n x = 0)"
proof -
  have k: "\<forall>p\<in>set ops. known_expr tab F (net_op_expr p)"
    "\<forall>p\<in>set ops'. known_expr tab F (net_op_expr p)" using assms(3) by auto
  have bal: "balance ops' = balance ops" using assms(6) by auto
  have n: "refcounts tab F (balance ops) n"
    using countedD [OF counted_run [OF assms(1) k(1)] refcounts_zero [OF assms(2)] assms(4)] by simp
  have n': "refcounts tab F (balance ops) n'"
    using countedD [OF counted_run [OF assms(1) k(2)] refcounts_zero [OF assms(2)] assms(5)] bal
    by simp
  have "m_activeCount n x = m_activeCount n0 x" if "\<forall>x. balance ops x = 0"
  proof -
    have "balance ops = (\<lambda>x. 0)" using that by auto
    then show ?thesis using refcounts_unique [OF assms(1) n] refcounts_zero [OF assms(2)] by simp
  qed
  then show ?thesis using refcounts_unique [OF assms(1) n n'] assms(2) by simp
qed

text \<open>
  Two variables, their disjunction, and a second function that shares the first variable
  and the disjunction.
\<close>

definition example_var :: "eid \<Rightarrow> expr" where
  "example_var v = EUserVar v BOOLEAN_TYPE (Some (EConst BOOLEAN_TYPE (Some (VBoolean False))))"

definition example_or :: expr where
  "example_or = EFun 2 OpOr [example_var 0, example_var 1]"

definition example_and :: expr where
  "example_and = EFun 3 OpAnd [example_var 0, example_or]"

definition example_tab :: "eid \<Rightarrow> expr" where
  "example_tab i = (if i = 2 then example_or else if i = 3 then example_and else example_var i)"

definition example_net :: net where
  "example_net = \<lparr>m_activeCount = (\<lambda>e. 0), m_outgoingListeners = (\<lambda>e. []), node_listeners = (\<lambda>k. []),
     m_value = (\<lambda>e. VBoolean False), m_known = (\<lambda>e. False), m_savedValue = (\<lambda>e. VBoolean False),
     m_savedKnown = (\<lambda>e. False), m_commandHandle = (\<lambda>e. NO_COMMAND_HANDLE), notified = []\<rparr>"

definition example_env :: node_env where
  "example_env = \<lparr>ne_vars = (\<lambda>k. example_node INACTIVE_STATE), ne_children = (\<lambda>k. [])\<rparr>"

lemmas example_defs =
  example_var_def example_or_def example_and_def example_tab_def example_net_def

lemma example_table: "expr_table example_tab {0, 1, 2, 3}"
  by (simp add: expr_table_def known_expr_def example_defs)

lemma publish_no_listeners:
  "m_outgoingListeners n e = [] \<Longrightarrow> publishChange e n = Inr n"
  by (simp add: publishChange_def notify_listeners_def)

lemma SIZE_MAX_values [simp]: "SIZE_MAX \<noteq> 0" "0 \<noteq> SIZE_MAX" "Suc 0 \<noteq> SIZE_MAX"
  by (simp_all add: SIZE_MAX_def)

lemma example_run:
  "forE (run_op example_env) [Act example_and, Act example_or, Deact example_and] example_net =
   Inr (example_net\<lparr>m_activeCount := (\<lambda>e. 0)(2 := 1, 0 := 1, 1 := 1, 3 := 0),
          m_known := (\<lambda>e. False)(0 := True, 1 := True)\<rparr>)"
  by (simp add: example_defs count_up_def count_down_def initialize_def typed_def
      publish_no_listeners fun_eq_iff)

lemma example_run_2:
  "forE (run_op example_env) [Act example_or] example_net =
   Inr (example_net\<lparr>m_activeCount := (\<lambda>e. 0)(2 := 1, 0 := 1, 1 := 1),
          m_known := (\<lambda>e. False)(0 := True, 1 := True)\<rparr>)"
  by (simp add: example_defs count_up_def count_down_def initialize_def typed_def
      publish_no_listeners fun_eq_iff)

theorem activation_counts_witness:
  "m_activeCount (example_net\<lparr>m_activeCount := (\<lambda>e. 0)(2 := 1, 0 := 1, 1 := 1, 3 := 0),
          m_known := (\<lambda>e. False)(0 := True, 1 := True)\<rparr>) 3 = 0"
proof -
  note t = activation_counts [OF example_table _ _ example_run example_run_2, of 3]
  have "\<forall>x. balance [Act example_and, Act example_or, Deact example_and] x = balance [Act example_or] x"
    by (simp add: example_defs)
  moreover have "\<forall>p\<in>set [Act example_and, Act example_or, Deact example_and] \<union> set [Act example_or].
      known_expr example_tab {0, 1, 2, 3} (net_op_expr p)"
    by (simp add: known_expr_def example_defs)
  moreover have "\<forall>x. m_activeCount example_net x = 0" by (simp add: example_net_def)
  ultimately show ?thesis using t by (simp add: example_net_def)
qed

text \<open>
  Property C20. Expressions activated at least as often as deactivated work: an expression
  activated more often than deactivated is active and can be deactivated without failing
  the assertion on its count or on that of any subexpression, and whatever is active keeps
  all its subexpressions active.
\<close>

theorem active_expressions:
  assumes "expr_table tab F" and "\<forall>x. m_activeCount n0 x = 0"
    and "\<forall>p\<in>set ops. known_expr tab F (net_op_expr p)"
    and "forE (run_op env) ops n0 = Inr n" and "\<forall>x. 0 \<le> balance ops x"
    and "known_expr tab F e"
  shows "(\<forall>i. eid_of e = Some i \<longrightarrow> 0 < balance ops i \<longrightarrow>
            expr_active n e \<and> (\<exists>n'. deactivate e n = Inr n')) \<and>
         (expr_active n e \<longrightarrow> (\<forall>a\<in>set (subs e). expr_active n a))"
proof -
  have n: "refcounts tab F (balance ops) n"
    using countedD [OF counted_run [OF assms(1,3)] refcounts_zero [OF assms(2)] assms(4)] by simp
  have "expr_active n e \<and> (\<exists>n'. deactivate e n = Inr n')"
    if i: "eid_of e = Some i" and pos: "0 < balance ops i" for i
  proof
    show "expr_active n e"
      using refcounts_ge [OF n, of i] i pos by (cases e) (simp_all add: isActive_def)
    have "0 \<le> balance ops x \<and> occ x [e] \<le> balance ops x" for x
      using assms(5) pos i by auto
    then show "\<exists>n'. deactivate e n = Inr n'"
      using safe_deactivate [OF assms(1,6)] n unfolding safe_down_def by blast
  qed
  then show ?thesis using refcounts_sub_active [OF assms(1) n assms(5,6)] by blast
qed

theorem active_expressions_witness:
  "\<exists>n'. deactivate example_or
     (example_net\<lparr>m_activeCount := (\<lambda>e. 0)(2 := 1, 0 := 1, 1 := 1, 3 := 0),
          m_known := (\<lambda>e. False)(0 := True, 1 := True)\<rparr>) = Inr n'"
proof -
  have "\<forall>p\<in>set [Act example_and, Act example_or, Deact example_and].
      known_expr example_tab {0, 1, 2, 3} (net_op_expr p)"
    and "\<forall>x. 0 \<le> balance [Act example_and, Act example_or, Deact example_and] x"
    and "known_expr example_tab {0, 1, 2, 3} example_or"
    and "\<forall>x. m_activeCount example_net x = 0"
    and "0 < balance [Act example_and, Act example_or, Deact example_and] 2"
    and "eid_of example_or = Some 2"
    by (simp_all add: known_expr_def example_defs)
  with active_expressions [OF example_table _ _ example_run, of example_or] show ?thesis by blast
qed

end
