(* ===== verification/Expr_Notify.thy ===== *)
theory Expr_Notify
  imports Expr_Net Expr_Activation
begin

text \<open>
  Change propagation: the listener network that \<open>addListener\<close> builds when a plan is loaded
  is complete. A node listens to its conditions; whenever a variable, a command handle or a
  node changes in a way that changes the value of an active condition, the node is notified.
\<close>

section \<open>The listener network\<close>

fun is_function :: "expr \<Rightarrow> bool" where
  "is_function (EFun _ _ _) = True"
| "is_function (ENodeFun _ _ _) = True"
| "is_function (EHandleKnown _ _) = True"
| "is_function (EInterruptible _ _) = True"
| "is_function _ = False"

definition listeners_of :: "net \<Rightarrow> source \<Rightarrow> listener list" where
  "listeners_of n s = (case s of SExpr e \<Rightarrow> m_outgoingListeners n e | SNode k \<Rightarrow> node_listeners n k)"

text \<open>The objects the propagation sources of functions refer to are not functions.\<close>

definition source_table :: "(nid \<Rightarrow> nid list) \<Rightarrow> (eid \<Rightarrow> expr) \<Rightarrow> eid set \<Rightarrow> bool" where
  "source_table ch tab F \<longleftrightarrow> expr_table tab F \<and>
     (\<forall>f\<in>F. \<forall>v. SExpr v \<in> set (sources ch (tab f)) \<longrightarrow> \<not> is_function (tab v))"

text \<open>
  \<open>wired\<close>: only nodes listen to functions, and a function that has listeners listens to all
  the propagation sources under it. \<open>listens\<close>: node \<open>k\<close> is a listener of condition \<open>e\<close>.
\<close>

definition wired :: "(nid \<Rightarrow> nid list) \<Rightarrow> (eid \<Rightarrow> expr) \<Rightarrow> eid set \<Rightarrow> net \<Rightarrow> bool" where
  "wired ch tab F n \<longleftrightarrow>
     (\<forall>s f. LExpr f \<in> set (listeners_of n s) \<longrightarrow> f \<in> F \<and> is_function (tab f)) \<and>
     (\<forall>f\<in>F. is_function (tab f) \<longrightarrow>
        (\<forall>l \<in> set (m_outgoingListeners n f). \<exists>k. l = LNode k) \<and>
        (m_outgoingListeners n f \<noteq> [] \<longrightarrow>
          (\<forall>s \<in> set (sources ch (tab f)). LExpr f \<in> set (listeners_of n s))))"

fun listens :: "(nid \<Rightarrow> nid list) \<Rightarrow> net \<Rightarrow> expr \<Rightarrow> nid \<Rightarrow> bool" where
  "listens ch n e k \<longleftrightarrow>
     (if is_function e then LNode k \<in> set (m_outgoingListeners n (the (eid_of e)))
      else (\<forall>s \<in> set (sources ch e). LNode k \<in> set (listeners_of n s)))"

declare listens.simps [simp del]

lemma listeners_notifier_add:
  "listeners_of (notifier_addListener e l n) s =
     (if s = SExpr e then push_back_new l (listeners_of n s) else listeners_of n s)"
  by (cases s) (simp_all add: listeners_of_def notifier_addListener_def)

lemma listeners_node_add:
  "listeners_of (node_addListener k l n) s =
     (if s = SNode k then push_back_new l (listeners_of n s) else listeners_of n s)"
  by (cases s) (simp_all add: listeners_of_def node_addListener_def)

lemma listeners_source_add:
  "listeners_of (source_addListener l t n) s =
     (if s = t then push_back_new l (listeners_of n s) else listeners_of n s)"
  by (cases t) (simp_all add: listeners_notifier_add listeners_node_add)

lemma listeners_source_adds:
  "set (listeners_of (fold (source_addListener l) ts n) s) =
     (if s \<in> set ts then {l} else {}) \<union> set (listeners_of n s)"
  by (induction ts arbitrary: n) (auto simp: listeners_source_add)

lemma outgoing_listeners: "m_outgoingListeners n e = listeners_of n (SExpr e)"
  by (simp add: listeners_of_def)

text \<open>What \<open>addListener\<close> adds: the listener, and the function itself to its sources.\<close>

lemma listeners_add_function:
  assumes "is_function e" and "eid_of e = Some i" and "SExpr i \<notin> set (sources ch e)"
  shows "set (listeners_of (addListener ch e l n) s) =
           set (listeners_of n s) \<union> (if s = SExpr i then {l} else {}) \<union>
           (if m_outgoingListeners n i = [] \<and> s \<in> set (sources ch e) then {LExpr i} else {})"
proof -
  have "addListener ch e l n = propagator_addListener ch e i l n"
    using assms(1,2) by (cases e) simp_all
  then show ?thesis
    using assms(3)
    by (auto simp: propagator_addListener_def listeners_notifier_add listeners_source_adds
        outgoing_listeners)
qed

lemma listeners_add_other:
  assumes "\<not> is_function e"
  shows "set (listeners_of (addListener ch e l n) s) =
           set (listeners_of n s) \<union> (if s \<in> set (sources ch e) then {l} else {})"
  using assms
  by (cases e) (auto simp: listeners_notifier_add listeners_node_add)

lemma listeners_add_mono:
  assumes "source_table ch tab F" and "known_expr tab F e"
  shows "set (listeners_of n s) \<subseteq> set (listeners_of (addListener ch e l n) s)"
proof (cases "is_function e")
  case True
  then obtain i where i: "eid_of e = Some i" by (cases e) auto
  then have "SExpr i \<notin> set (sources ch e)"
    using assms True by (auto simp: source_table_def dest: known_exprD)
  then show ?thesis using listeners_add_function [OF True i] by auto
next
  case False
  then show ?thesis by (auto simp: listeners_add_other)
qed

lemma listens_mono:
  assumes "\<And>s. set (listeners_of n s) \<subseteq> set (listeners_of n' s)" and "listens ch n e k"
  shows "listens ch n' e k"
  using assms(2) assms(1) unfolding listens.simps outgoing_listeners
  by (auto split: if_splits dest: subsetD [OF assms(1)])

lemma listens_add:
  assumes "source_table ch tab F" and "known_expr tab F e"
  shows "listens ch (addListener ch e (LNode k) n) e k"
proof (cases "is_function e")
  case True
  then obtain i where i: "eid_of e = Some i" by (cases e) auto
  then have "SExpr i \<notin> set (sources ch e)"
    using assms True by (auto simp: source_table_def dest: known_exprD)
  then show ?thesis
    using listeners_add_function [OF True i, of ch "LNode k" n "SExpr i"] True i
    by (simp add: listens.simps outgoing_listeners)
next
  case False
  then show ?thesis by (simp add: listens.simps listeners_add_other)
qed

lemma source_not_function:
  assumes "source_table ch tab F" and "known_expr tab F e" and "SExpr v \<in> set (sources ch e)"
    and "f \<in> F" "is_function (tab f)"
  shows "v \<noteq> f"
proof (cases "eid_of e")
  case None
  with assms(3) show ?thesis by (cases e) auto
next
  case (Some i)
  then have "i \<in> F" "tab i = e" using assms(2) by (auto dest: known_exprD)
  then show ?thesis using assms by (auto simp: source_table_def)
qed

lemma wired_add:
  assumes st: "source_table ch tab F" and e: "known_expr tab F e" and w: "wired ch tab F n"
  shows "wired ch tab F (addListener ch e (LNode k) n)"
proof (cases "is_function e")
  case True
  then obtain i where i: "eid_of e = Some i" by (cases e) auto
  then have iF: "i \<in> F" "tab i = e" using e by (auto dest: known_exprD)
  have self: "SExpr i \<notin> set (sources ch e)"
    using st True iF unfolding source_table_def by metis
  note ls = listeners_add_function [OF True i self, of "LNode k" n]
  have w1: "LExpr f \<in> set (listeners_of n s) \<Longrightarrow> f \<in> F \<and> is_function (tab f)" for s f
    using w unfolding wired_def by blast
  have w2: "f \<in> F \<Longrightarrow> is_function (tab f) \<Longrightarrow> l \<in> set (listeners_of n (SExpr f)) \<Longrightarrow>
      \<exists>k. l = LNode k" for f l
    using w unfolding wired_def outgoing_listeners by blast
  have w3: "f \<in> F \<Longrightarrow> is_function (tab f) \<Longrightarrow> listeners_of n (SExpr f) \<noteq> [] \<Longrightarrow>
      s \<in> set (sources ch (tab f)) \<Longrightarrow> LExpr f \<in> set (listeners_of n s)" for f s
    using w unfolding wired_def outgoing_listeners by blast
  show ?thesis
    unfolding wired_def outgoing_listeners
  proof (intro conjI allI ballI impI)
    fix s f
    assume "LExpr f \<in> set (listeners_of (addListener ch e (LNode k) n) s)"
    then have "f = i \<or> LExpr f \<in> set (listeners_of n s)"
      unfolding ls by (auto split: if_splits)
    then show "f \<in> F" "is_function (tab f)" using w1 iF True by blast+
  next
    fix f l
    assume "f \<in> F" "is_function (tab f)"
      "l \<in> set (listeners_of (addListener ch e (LNode k) n) (SExpr f))"
    then have "l = LNode k \<or> l \<in> set (listeners_of n (SExpr f))"
      using source_not_function [OF st e _ \<open>f \<in> F\<close> \<open>is_function (tab f)\<close>, of f]
      unfolding ls by (auto split: if_splits)
    then show "\<exists>k. l = LNode k" using w2 \<open>f \<in> F\<close> \<open>is_function (tab f)\<close> by blast
  next
    fix f s
    assume f: "f \<in> F" "is_function (tab f)" "s \<in> set (sources ch (tab f))"
      "listeners_of (addListener ch e (LNode k) n) (SExpr f) \<noteq> []"
    then have "set (listeners_of (addListener ch e (LNode k) n) (SExpr f)) \<noteq> {}" by simp
    then have "f = i \<or> listeners_of n (SExpr f) \<noteq> []"
      using source_not_function [OF st e _ f(1,2)] by (auto simp: ls split: if_splits)
    then show "LExpr f \<in> set (listeners_of (addListener ch e (LNode k) n) s)"
    proof
      assume "f = i"
      then show ?thesis
        using w3 [OF f(1,2) _ f(3)] f(3) iF by (cases "listeners_of n (SExpr i) = []")
          (auto simp: ls outgoing_listeners)
    next
      assume "listeners_of n (SExpr f) \<noteq> []"
      then show ?thesis using w3 [OF f(1,2) _ f(3)] by (simp add: ls)
    qed
  qed
next
  case False
  note ls = listeners_add_other [OF False, of ch "LNode k" n]
  show ?thesis
    unfolding wired_def outgoing_listeners
  proof (intro conjI allI ballI impI)
    fix s f
    assume "LExpr f \<in> set (listeners_of (addListener ch e (LNode k) n) s)"
    then have "LExpr f \<in> set (listeners_of n s)" unfolding ls by (auto split: if_splits)
    then show "f \<in> F" "is_function (tab f)" using w unfolding wired_def by blast+
  next
    fix f l
    assume "f \<in> F" "is_function (tab f)"
      "l \<in> set (listeners_of (addListener ch e (LNode k) n) (SExpr f))"
    then have "l = LNode k \<or> l \<in> set (listeners_of n (SExpr f))" and f: "f \<in> F" "is_function (tab f)"
      unfolding ls by (auto split: if_splits)
    then show "\<exists>k. l = LNode k" using w unfolding wired_def outgoing_listeners by blast
  next
    fix f s
    assume f: "f \<in> F" "is_function (tab f)" "s \<in> set (sources ch (tab f))"
      "listeners_of (addListener ch e (LNode k) n) (SExpr f) \<noteq> []"
    then have "set (listeners_of (addListener ch e (LNode k) n) (SExpr f)) \<noteq> {}" by simp
    then have "listeners_of n (SExpr f) \<noteq> []"
      using source_not_function [OF st e _ f(1,2)] by (auto simp: ls split: if_splits)
    then have "LExpr f \<in> set (listeners_of n s)"
      using w f(1-3) unfolding wired_def outgoing_listeners by blast
    then show "LExpr f \<in> set (listeners_of (addListener ch e (LNode k) n) s)" unfolding ls by blast
  qed
qed

section \<open>Publication\<close>

lemma publish_nodes:
  "(\<forall>l\<in>set ls. \<exists>k. l = LNode k) \<Longrightarrow> \<exists>ks. publish d n ls = Inr ks \<and> (\<forall>k. k \<in> set ks \<longleftrightarrow> LNode k \<in> set ls)"
proof (induction ls)
  case (Cons l ls)
  then obtain ks where "publish d n ls = Inr ks" "\<forall>k. k \<in> set ks \<longleftrightarrow> LNode k \<in> set ls" by auto
  moreover obtain k where "l = LNode k" using Cons.prems by auto
  ultimately show ?case by auto
qed simp

text \<open>One level of propagation reaches every node that listens, directly or through a function.\<close>

lemma publish_total:
  assumes "\<forall>f. LExpr f \<in> set ls \<longrightarrow> (\<forall>l \<in> set (m_outgoingListeners n f). \<exists>k. l = LNode k)"
  shows "\<exists>ks. publish 1 n ls = Inr ks \<and>
    (\<forall>k. k \<in> set ks \<longleftrightarrow> LNode k \<in> set ls \<or>
       (\<exists>f. LExpr f \<in> set ls \<and> isActive n f \<and> LNode k \<in> set (m_outgoingListeners n f)))"
  using assms
proof (induction ls)
  case Nil
  show ?case by simp
next
  case (Cons l ls)
  then obtain ks where ks: "publish 1 n ls = Inr ks"
    "\<forall>k. k \<in> set ks \<longleftrightarrow> LNode k \<in> set ls \<or>
       (\<exists>f. LExpr f \<in> set ls \<and> isActive n f \<and> LNode k \<in> set (m_outgoingListeners n f))"
    by auto
  show ?case
  proof (cases l)
    case (LNode k)
    with ks show ?thesis by auto
  next
    case (LExpr f)
    with Cons.prems have "\<forall>l \<in> set (m_outgoingListeners n f). \<exists>k. l = LNode k" by auto
    from publish_nodes [OF this, of 0 n] obtain ks' where "publish 0 n (m_outgoingListeners n f) = Inr ks'"
      "\<forall>k. k \<in> set ks' \<longleftrightarrow> LNode k \<in> set (m_outgoingListeners n f)" by auto
    with ks LExpr show ?thesis by (cases "isActive n f") auto
  qed
qed

section \<open>What a condition depends on\<close>

text \<open>
  \<open>differ_at s\<close>: the two states differ at most in what expressions read of the source \<open>s\<close>.
\<close>

definition differ_at :: "source \<Rightarrow> node_env \<Rightarrow> net \<Rightarrow> node_env \<Rightarrow> net \<Rightarrow> bool" where
  "differ_at s env n env' n' \<longleftrightarrow>
     m_activeCount n' = m_activeCount n \<and> ne_children env' = ne_children env \<and>
     (\<forall>v. SExpr v \<noteq> s \<longrightarrow> m_value n' v = m_value n v \<and> m_known n' v = m_known n v \<and>
        m_commandHandle n' v = m_commandHandle n v) \<and>
     (\<forall>k. SNode k \<noteq> s \<longrightarrow> ne_vars env' k = ne_vars env k)"

lemma differ_at_simps:
  assumes "differ_at s env n env' n'"
  shows "isActive n' e = isActive n e" "ne_children env' = ne_children env"
    and "s \<noteq> SExpr v \<Longrightarrow> m_value n' v = m_value n v"
    and "s \<noteq> SExpr v \<Longrightarrow> m_known n' v = m_known n v"
    and "s \<noteq> SExpr v \<Longrightarrow> m_commandHandle n' v = m_commandHandle n v"
    and "s \<noteq> SNode k \<Longrightarrow> ne_vars env' k = ne_vars env k"
  using assms by (auto simp: differ_at_def isActive_def)

lemma apply_node_oper_cong:
  "ne_children env' = ne_children env \<Longrightarrow>
   (\<And>c. c \<in> set (ne_children env k) \<Longrightarrow> ne_vars env' c = ne_vars env c) \<Longrightarrow>
   apply_node_oper env' f k = apply_node_oper env f k"
  by (cases f) (simp_all add: list_all_iff)

lemma value_outside:
  assumes d: "differ_at s env n env' n'"
  shows "s \<notin> set (sources (ne_children env) e) \<Longrightarrow>
    getValue env' n' e = getValue env n e \<and> isKnown_with env' n' e r = isKnown_with env n e r"
proof (induction e arbitrary: r)
  case (EFun e f as)
  have "getValue env' n' a = getValue env n a \<and> isKnown_with env' n' a r = isKnown_with env n a r"
    if "a \<in> set as" for a r
    using EFun.IH [OF that] EFun.prems that by auto
  then have m: "map (\<lambda>a. \<lparr>a_type = valueType a, a_read = getValue env' n' a,
                a_known = isKnown_with env' n' a (getValue env' n' a BOOLEAN_TYPE)\<rparr>) as =
             map (\<lambda>a. \<lparr>a_type = valueType a, a_read = getValue env n a,
                a_known = isKnown_with env n a (getValue env n a BOOLEAN_TYPE)\<rparr>) as"
    by simp
  show ?case by (intro conjI ext) (simp_all only: getValue.simps isKnown_with.simps m)
next
  case (ENodeFun e f k)
  have "apply_node_oper env' f k = apply_node_oper env f k"
    using ENodeFun differ_at_simps(2,6) [OF d] by (intro apply_node_oper_cong) auto
  then show ?case by (simp add: fun_eq_iff)
qed (simp_all add: fun_eq_iff differ_at_simps [OF d])

lemma getBoolean_outside:
  assumes "differ_at s env n env' n'" and "s \<notin> set (sources (ne_children env) e)"
  shows "getBoolean env' n' e = getBoolean env n e"
  using value_outside [OF assms] by (simp add: getBoolean_def)

section \<open>Changes\<close>

text \<open>
  The ways a source changes while a plan executes: assignment to a user variable and its
  retraction, acknowledgement through a simple variable, a command handle, and a node whose
  transition has set its variables and then publishes.
\<close>

datatype change =
    SetVariable eid val_type "val option" | RestoreVariable eid | SetSimple eid bool
  | SetHandle eid command_handle | ChangeNode nid node_vars

fun change_source :: "change \<Rightarrow> source" where
  "change_source (SetVariable v _ _) = SExpr v"
| "change_source (RestoreVariable v) = SExpr v"
| "change_source (SetSimple v _) = SExpr v"
| "change_source (SetHandle v _) = SExpr v"
| "change_source (ChangeNode k _) = SNode k"

fun source_active :: "net \<Rightarrow> source \<Rightarrow> bool" where
  "source_active n (SExpr v) = isActive n v"
| "source_active n (SNode k) = True"

fun apply_change :: "change \<Rightarrow> node_env \<Rightarrow> net \<Rightarrow> node_env \<times> net result" where
  "apply_change (SetVariable v ty x) env n = (env, setValue v ty x n)"
| "apply_change (RestoreVariable v) env n = (env, restoreSavedValue v n)"
| "apply_change (SetSimple v b) env n = (env, simple_setValue v b n)"
| "apply_change (SetHandle v h) env n = (env, handle_setValue v h n)"
| "apply_change (ChangeNode k vars) env n =
     (env\<lparr>ne_vars := (ne_vars env)(k := vars)\<rparr>, node_publishChange k n)"

lemma setValueImpl_cases:
  assumes "setValueImpl v y n = Inr n'"
  shows "n' = n \<or>
    publishChange v (n\<lparr>m_value := (m_value n)(v := y), m_known := (m_known n)(v := True)\<rparr>) = Inr n'"
proof (cases "m_known n v \<and> y = m_value n v")
  case True
  then have "(m_known n)(v := True) = m_known n" by (simp add: fun_upd_idem)
  with True assms show ?thesis by (simp add: setValueImpl_def)
next
  case False
  with assms show ?thesis by (simp add: setValueImpl_def)
qed

lemma setUnknown_cases:
  assumes "setUnknown v n = Inr n'"
  shows "n' = n \<or> publishChange v (n\<lparr>m_known := (m_known n)(v := False)\<rparr>) = Inr n'"
proof (cases "m_known n v")
  case True
  with assms show ?thesis by (simp add: setUnknown_def)
next
  case False
  then have "(m_known n)(v := False) = m_known n" by (simp add: fun_upd_idem)
  with False assms show ?thesis by (simp add: setUnknown_def)
qed

lemma published:
  assumes "publishChange v m = Inr n'" and "isActive n v" and "differ_at (SExpr v) env n env m"
    and "m_outgoingListeners m = m_outgoingListeners n"
  shows "notify_listeners (listeners_of n (SExpr v)) m = Inr n'"
  using assms differ_at_simps(1) [OF assms(3), of v] by (simp add: publishChange_def listeners_of_def)

text \<open>A change either leaves the network alone or alters one source and publishes.\<close>

lemma apply_change_cases:
  assumes "apply_change c env n = (env', Inr n')" and "source_active n (change_source c)"
  obtains "getValue env' n' = getValue env n"
  | m where "differ_at (change_source c) env n env' m"
      "m_outgoingListeners m = m_outgoingListeners n" "notified m = notified n"
      "notify_listeners (listeners_of n (change_source c)) m = Inr n'"
proof (cases c)
  case (SetVariable v ty x)
  define m where "m = (case x of None \<Rightarrow> n\<lparr>m_known := (m_known n)(v := False)\<rparr>
    | Some y \<Rightarrow> n\<lparr>m_value := (m_value n)(v := y), m_known := (m_known n)(v := True)\<rparr>)"
  have env: "env' = env" and run: "setValue v ty x n = Inr n'" using assms SetVariable by auto
  have m: "differ_at (SExpr v) env n env m" "m_outgoingListeners m = m_outgoingListeners n"
    "notified m = notified n"
    by (auto simp: m_def differ_at_def split: option.splits)
  have "n' = n \<or> publishChange v m = Inr n'"
    using run unfolding m_def
    by (cases x) (auto simp: setValue_def dest!: setValueImpl_cases setUnknown_cases split: if_splits)
  then show ?thesis
    using that published [OF _ _ m(1,2)] m assms(2) SetVariable env by fastforce
next
  case (RestoreVariable v)
  define m where "m = n\<lparr>m_value := (m_value n)(v := m_savedValue n v),
                m_known := (m_known n)(v := m_savedKnown n v)\<rparr>"
  have env: "env' = env" and run: "restoreSavedValue v n = Inr n'" using assms RestoreVariable by auto
  have m: "differ_at (SExpr v) env n env m" "m_outgoingListeners m = m_outgoingListeners n"
    "notified m = notified n" by (auto simp: m_def differ_at_def)
  have "n' = n \<or> publishChange v m = Inr n'"
    using run by (cases "m_known n v = m_savedKnown n v \<and> m_value n v = m_savedValue n v")
      (auto simp: restoreSavedValue_def Let_def m_def fun_upd_idem)
  then show ?thesis
    using that published [OF _ _ m(1,2)] m assms(2) RestoreVariable env by fastforce
next
  case (SetSimple v b)
  define m where "m = n\<lparr>m_value := (m_value n)(v := VBoolean b)\<rparr>"
  have env: "env' = env" and run: "simple_setValue v b n = Inr n'" using assms SetSimple by auto
  have m: "differ_at (SExpr v) env n env m" "m_outgoingListeners m = m_outgoingListeners n"
    "notified m = notified n" by (auto simp: m_def differ_at_def)
  have "n' = n \<or> publishChange v m = Inr n'"
    using run by (auto simp: simple_setValue_def m_def split: if_splits)
  then show ?thesis
    using that published [OF _ _ m(1,2)] m assms(2) SetSimple env by fastforce
next
  case (SetHandle v h)
  define m where "m = n\<lparr>m_commandHandle := (m_commandHandle n)(v := h)\<rparr>"
  have env: "env' = env" and run: "publishChange v m = Inr n'"
    using assms SetHandle by (auto simp: handle_setValue_def m_def)
  have m: "differ_at (SExpr v) env n env m" "m_outgoingListeners m = m_outgoingListeners n"
    "notified m = notified n" by (auto simp: m_def differ_at_def)
  show ?thesis
    using that published [OF run _ m(1,2)] m assms(2) SetHandle env by fastforce
next
  case (ChangeNode k vars)
  have "differ_at (SNode k) env n (env\<lparr>ne_vars := (ne_vars env)(k := vars)\<rparr>) n"
    by (auto simp: differ_at_def)
  then show ?thesis using that(2) [of n] assms ChangeNode
    by (auto simp: node_publishChange_def listeners_of_def)
qed

lemma notify_listeners_reaches:
  assumes w: "wired ch tab F n" and e: "known_expr tab F e" and act: "expr_active n e"
    and l: "listens ch n e k" and s: "s \<in> set (sources ch e)"
    and m: "m_activeCount m = m_activeCount n" "m_outgoingListeners m = m_outgoingListeners n"
  shows "\<exists>ks. notify_listeners (listeners_of n s) m = Inr (m\<lparr>notified := notified m @ ks\<rparr>) \<and> k \<in> set ks"
proof -
  have "\<forall>f. LExpr f \<in> set (listeners_of n s) \<longrightarrow> (\<forall>l \<in> set (m_outgoingListeners m f). \<exists>k. l = LNode k)"
    using w unfolding wired_def m by blast
  from publish_total [OF this] obtain ks where ks: "publish 1 m (listeners_of n s) = Inr ks"
    "\<forall>k. k \<in> set ks \<longleftrightarrow> LNode k \<in> set (listeners_of n s) \<or>
       (\<exists>f. LExpr f \<in> set (listeners_of n s) \<and> isActive m f \<and> LNode k \<in> set (m_outgoingListeners m f))"
    by blast
  have "k \<in> set ks"
  proof (cases "is_function e")
    case True
    then obtain i where i: "eid_of e = Some i" by (cases e) auto
    then have iF: "i \<in> F" "tab i = e" using e by (auto dest: known_exprD)
    have lk: "LNode k \<in> set (m_outgoingListeners n i)" using l True i by (simp add: listens.simps)
    then have "m_outgoingListeners n i \<noteq> []" by auto
    then have "LExpr i \<in> set (listeners_of n s)"
      using w iF True s unfolding wired_def by blast
    moreover have "isActive m i" using act i True m by (cases e) (auto simp: isActive_def)
    ultimately show ?thesis using ks(2) lk m by auto
  next
    case False
    then show ?thesis using ks(2) l s by (auto simp: listens.simps)
  qed
  then show ?thesis using ks(1) by (auto simp: notify_listeners_def)
qed

section \<open>Properties\<close>

text \<open>
  Loading a plan wires its network: after \<open>addListener\<close> has been called for any
  list of conditions and nodes, each of those nodes listens to its condition, only nodes
  listen to functions, and every function that is listened to listens to all the variables
  and nodes it depends on.
\<close>

theorem network_wired:
  assumes "source_table ch tab F" and "\<forall>(e, k)\<in>set conds. known_expr tab F e"
    and "\<forall>s. listeners_of n0 s = []"
    and "n = fold (\<lambda>(e, k). addListener ch e (LNode k)) conds n0"
  shows "wired ch tab F n \<and> (\<forall>(e, k)\<in>set conds. listens ch n e k)"
proof -
  have w0: "wired ch tab F n0" using assms(3) by (simp add: wired_def outgoing_listeners)
  have "wired ch tab F (fold (\<lambda>(e, k). addListener ch e (LNode k)) conds n1) \<and>
        (\<forall>(e, k)\<in>set conds \<union> old. listens ch (fold (\<lambda>(e, k). addListener ch e (LNode k)) conds n1) e k)"
    if "wired ch tab F n1" and "\<forall>(e, k)\<in>old. listens ch n1 e k" for n1 old
    using assms(2) that
  proof (induction conds arbitrary: n1 old)
    case Nil
    then show ?case by simp
  next
    case (Cons p conds)
    obtain e k where p: "p = (e, k)" by (cases p)
    have e: "known_expr tab F e" using Cons.prems(1) p by simp
    let ?n = "addListener ch e (LNode k) n1"
    have "wired ch tab F ?n" using wired_add [OF assms(1) e Cons.prems(2)] .
    moreover have "\<forall>(e', k')\<in>insert (e, k) old. listens ch ?n e' k'"
      using Cons.prems(3) listens_add [OF assms(1) e]
        listens_mono [OF listeners_add_mono [OF assms(1) e]] by fastforce
    ultimately show ?case
      using Cons.IH [of ?n "insert (e, k) old"] Cons.prems(1) p by simp
  qed
  from this [OF w0, of "{}"] assms(4) show ?thesis by simp
qed

lemma example_sources: "source_table (\<lambda>k. []) example_tab {0, 1, 2, 3}"
  using example_table by (simp add: source_table_def example_defs)

definition example_wired :: net where
  "example_wired = fold (\<lambda>(e, k). addListener (\<lambda>k. []) e (LNode k))
     [(example_or, 7), (example_and, 8)] example_net"

theorem network_wired_witness:
  "wired (\<lambda>k. []) example_tab {0, 1, 2, 3} example_wired \<and>
   listens (\<lambda>k. []) example_wired example_or 7"
  using network_wired [OF example_sources, of "[(example_or, 7), (example_and, 8)]" example_net example_wired]
  by (simp add: example_wired_def known_expr_def example_tab_def example_or_def example_and_def
      listeners_of_def example_net_def split: source.splits)

text \<open>
  Property C7. No change is missed: if a change of one active variable, one command handle or
  one node alters the value of an active condition to which a node listens, in a wired
  network, that node is notified.
\<close>

theorem change_notifies:
  assumes "wired (ne_children env) tab F n" and "known_expr tab F e" and "expr_active n e"
    and "listens (ne_children env) n e k" and "source_active n (change_source c)"
    and "apply_change c env n = (env', Inr n')"
    and "getBoolean env' n' e \<noteq> getBoolean env n e"
  shows "\<exists>ks. notified n' = notified n @ ks \<and> k \<in> set ks"
  using assms(6,5)
proof (cases rule: apply_change_cases)
  case 1
  then show ?thesis using assms(7) by (simp add: getBoolean_def)
next
  case (2 m)
  obtain ks' where n': "n' = m\<lparr>notified := notified m @ ks'\<rparr>"
    using 2(4) by (auto simp: notify_listeners_def)
  then have "differ_at (change_source c) env n env' n'" using 2(1) by (simp add: differ_at_def)
  with getBoolean_outside assms(7) have "change_source c \<in> set (sources (ne_children env) e)"
    by metis
  moreover have "m_activeCount m = m_activeCount n" using 2(1) by (simp add: differ_at_def)
  ultimately obtain ks where "n' = m\<lparr>notified := notified m @ ks\<rparr>" "k \<in> set ks"
    using notify_listeners_reaches [OF assms(1-4) _ _ 2(2)] 2(4) by fastforce
  then show ?thesis using 2(3) by auto
qed

text \<open>An assignment to the second variable makes the disjunction true, and node 7 hears of it.\<close>

definition example_running :: net where
  "example_running = example_net\<lparr>
     m_activeCount := (\<lambda>e. 0)(0 := 1, 1 := 1, 2 := 1),
     m_known := (\<lambda>e. False)(0 := True, 1 := True),
     m_outgoingListeners := (\<lambda>e. [])(0 := [LExpr 2], 1 := [LExpr 2], 2 := [LNode 7])\<rparr>"

lemma example_running_wired: "wired (\<lambda>k. []) example_tab {0, 1, 2, 3} example_running"
  by (auto simp: wired_def example_running_def listeners_of_def example_defs split: source.splits)

theorem change_notifies_witness:
  "\<exists>n'. setValue 1 BOOLEAN_TYPE (Some (VBoolean True)) example_running = Inr n' \<and>
     (\<exists>ks. notified n' = notified example_running @ ks \<and> 7 \<in> set ks)"
proof -
  let ?n' = "example_running\<lparr>m_value := (m_value example_running)(1 := VBoolean True),
      m_known := (m_known example_running)(1 := True), notified := [7]\<rparr>"
  have run: "setValue 1 BOOLEAN_TYPE (Some (VBoolean True)) example_running = Inr ?n'"
    by (simp add: setValue_def setValueImpl_def publishChange_def notify_listeners_def isActive_def
        example_running_def example_net_def)
  have "getBoolean example_env ?n' example_or \<noteq> getBoolean example_env example_running example_or"
    by (simp add: getBoolean_def example_or_def example_var_def example_running_def example_net_def
        typed_def isActive_def read_bool_def booleanOr2_def)
  moreover have "known_expr example_tab {0, 1, 2, 3} example_or"
    by (simp add: known_expr_def example_tab_def example_or_def)
  moreover have "listens (ne_children example_env) example_running example_or 7"
    by (simp add: listens.simps example_or_def example_running_def)
  moreover have "expr_active example_running example_or"
    by (simp add: example_or_def example_running_def isActive_def)
  moreover have "wired (ne_children example_env) example_tab {0, 1, 2, 3} example_running"
    using example_running_wired by (simp add: example_env_def)
  moreover have "apply_change (SetVariable 1 BOOLEAN_TYPE (Some (VBoolean True))) example_env example_running
      = (example_env, Inr ?n')" using run by simp
  moreover have "source_active example_running (change_source (SetVariable 1 BOOLEAN_TYPE (Some (VBoolean True))))"
    by (simp add: example_running_def isActive_def)
  ultimately have "\<exists>ks. notified ?n' = notified example_running @ ks \<and> 7 \<in> set ks"
    using change_notifies by blast
  with run show ?thesis by blast
qed

text \<open>
  Property C35. Retraction restores a variable: if a variable's value is saved when an
  assignment is fixed, the assignment executed and then retracted, the variable has the
  value, known or unknown, that it had before. What \<open>getSavedValue\<close> reports to the
  listener for the retraction is that value only if it was known; otherwise it is a known
  value all the same.
\<close>

theorem assignment_retracted:
  assumes "setValue v ty x (saveCurrentValue v n) = Inr n1" and "restoreSavedValue v n1 = Inr n2"
  shows "m_known n2 v = m_known n v \<and> m_value n2 v = m_value n v \<and>
         getSavedValue v n2 = Some (m_value n v)"
proof -
  have pub: "publishChange v m = Inr m' \<Longrightarrow>
      m_known m' = m_known m \<and> m_value m' = m_value m \<and> m_savedValue m' = m_savedValue m \<and>
      m_savedKnown m' = m_savedKnown m" for m m'
    by (auto simp: publishChange_def notify_listeners_def split: if_splits)
  have "m_savedValue n1 v = m_value n v \<and> m_savedKnown n1 v = m_known n v"
    using assms(1) by (cases x)
      (auto simp: setValue_def saveCurrentValue_def split: if_splits
        dest!: setValueImpl_cases setUnknown_cases pub)
  then show ?thesis
    using assms(2)
    by (auto simp: restoreSavedValue_def Let_def getSavedValue_def split: if_splits dest!: pub)
qed

text \<open>A variable that was unknown is unknown again, but its saved value is reported as known.\<close>

theorem assignment_retracted_witness:
  "\<exists>n1 n2. setValue 0 BOOLEAN_TYPE (Some (VBoolean True)) (saveCurrentValue 0 example_net) = Inr n1 \<and>
     restoreSavedValue 0 n1 = Inr n2 \<and> \<not> m_known n2 0 \<and> getSavedValue 0 n2 = Some (VBoolean False)"
proof -
  define n1 where "n1 = (saveCurrentValue 0 example_net)\<lparr>
      m_value := (\<lambda>e. VBoolean False)(0 := VBoolean True), m_known := (\<lambda>e. False)(0 := True)\<rparr>"
  define n2 where "n2 = n1\<lparr>m_value := (m_value n1)(0 := VBoolean False), m_known := (m_known n1)(0 := False)\<rparr>"
  have 1: "setValue 0 BOOLEAN_TYPE (Some (VBoolean True)) (saveCurrentValue 0 example_net) = Inr n1"
    by (simp add: n1_def setValue_def setValueImpl_def publishChange_def isActive_def
        saveCurrentValue_def example_net_def)
  have 2: "restoreSavedValue 0 n1 = Inr n2"
    by (simp add: n2_def n1_def restoreSavedValue_def publishChange_def isActive_def
        saveCurrentValue_def example_net_def)
  from assignment_retracted [OF 1 2] 1 2 show ?thesis by (auto simp: example_net_def)
qed

end
