(* ===== verification/Exec_State.thy ===== *)
theory Exec_State
  imports Node_Transition Expr_Net Reservable Linked_Queue
begin

text \<open>
  The state of the executive: the nodes of the plans with their conditions, actions and
  queue status (src/src/exec/NodeImpl.hh, AssignmentNode.hh, CommandNode.hh, UpdateNode.hh),
  the expression network, the reservable resources, and the queues of
  src/src/exec/PlexilExec.cc. Then the operations of a node on that state which the
  executive and other nodes call: \<open>notify\<close>, \<open>notifyResourceAvailable\<close>, and the
  acquisition and release of resources.

  The queues are lists here; Linked_Queue shows that the linked lists through the nodes'
  \<open>m_next\<close> members behave as these lists do.
\<close>

section \<open>State\<close>

text \<open>Assignment.cc; \<open>a_value\<close> is \<open>m_value\<close>, \<open>None\<close> when unknown.\<close>

record assignment =
  a_dest :: expr
  a_rhs :: expr
  a_ack :: eid
  a_abortComplete :: eid
  a_value :: "val option"

text \<open>
  CommandImpl.cc: the handle variable \<open>m_ack\<close>, the abort-complete variable, the destination
  variable, and the expressions for the name, arguments and resources that are not constant.
\<close>

record command =
  c_ack :: eid
  c_abortComplete :: eid
  c_dest :: "expr option"
  c_name :: "expr list"
  c_args :: "expr list"
  c_resources :: "expr list"
  c_active :: bool
  c_values :: "val option list"

text \<open>UpdateImpl in UpdateNode.cc: the pairs' expressions and the acknowledgement.\<close>

record update =
  u_pairs :: "expr list"
  u_ack :: eid
  u_values :: "val option list"

type_synonym mid = nat

record node = node_vars +
  m_type :: node_type
  m_parent :: "nid option"
  m_children :: "nid list"
  m_priority :: int
  m_conditions :: "cond_index \<Rightarrow> expr option"
  m_localVariables :: "expr list"
  m_usingMutexes :: "mid list"
  m_assignment :: "assignment option"
  m_command :: "command option"
  m_update :: "update option"
  m_queueStatus :: queue_status

datatype resource = RMutex mid | RVariable eid

record exec =
  m_plan :: "nid list"
  m_finishedRootNodesDeleted :: bool
  nodes :: "nid \<Rightarrow> node"
  net_of :: net
  reservables :: "resource \<Rightarrow> nid reservable"
  candidateQueue :: "nid list"
  stateChangeQueue :: "nid list"
  pendingQueue :: "nid list"
  assignmentsToExecute :: "nid list"   \<comment> \<open>an action is named by its node\<close>
  assignmentsToRetract :: "nid list"
  commandsToExecute :: "nid list"
  commandsToAbort :: "nid list"
  updatesToExecute :: "nid list"
  finishedRootNodes :: "nid list"

definition upd_node :: "nid \<Rightarrow> (node \<Rightarrow> node) \<Rightarrow> exec \<Rightarrow> exec" where
  "upd_node k f x = x\<lparr>nodes := (nodes x)(k := f (nodes x k))\<rparr>"

definition setQueueStatus :: "nid \<Rightarrow> queue_status \<Rightarrow> exec \<Rightarrow> exec" where
  "setQueueStatus k s = upd_node k (\<lambda>n. n\<lparr>m_queueStatus := s\<rparr>)"

abbreviation queueStatus :: "exec \<Rightarrow> nid \<Rightarrow> queue_status" where
  "queueStatus x k \<equiv> m_queueStatus (nodes x k)"

section \<open>Notification\<close>

definition addCandidateNode :: "nid \<Rightarrow> exec \<Rightarrow> exec" where
  "addCandidateNode k x = x\<lparr>candidateQueue := candidateQueue x @ [k]\<rparr>"

text \<open>
  \<open>NodeImpl::notify\<close>. A node in \<open>QUEUE_PENDING_TRY_CHECK\<close> falls into the default case.
\<close>

definition notify :: "nid \<Rightarrow> exec \<Rightarrow> exec result" where
  "notify k x =
     (case queueStatus x k of
        QUEUE_NONE \<Rightarrow> Inr (addCandidateNode k (setQueueStatus k QUEUE_CHECK x))
      | QUEUE_PENDING \<Rightarrow> Inr (setQueueStatus k QUEUE_PENDING_CHECK x)
      | QUEUE_PENDING_TRY \<Rightarrow> Inr (setQueueStatus k QUEUE_PENDING_TRY_CHECK x)
      | QUEUE_TRANSITION \<Rightarrow> Inr (setQueueStatus k QUEUE_TRANSITION_CHECK x)
      | QUEUE_CHECK \<Rightarrow> Inr x
      | QUEUE_PENDING_CHECK \<Rightarrow> Inr x
      | QUEUE_TRANSITION_CHECK \<Rightarrow> Inr x
      | QUEUE_DELETE \<Rightarrow> Inl ErrorMsg
      | QUEUE_PENDING_TRY_CHECK \<Rightarrow> Inl ErrorMsg)"

definition notifyResourceAvailable :: "nid \<Rightarrow> exec \<Rightarrow> exec" where
  "notifyResourceAvailable k x =
     (case queueStatus x k of
        QUEUE_PENDING_TRY \<Rightarrow> x
      | QUEUE_PENDING \<Rightarrow> setQueueStatus k QUEUE_PENDING_TRY x
      | QUEUE_PENDING_CHECK \<Rightarrow> setQueueStatus k QUEUE_PENDING_TRY_CHECK x
      | _ \<Rightarrow> x)"

text \<open>
  An operation of the expression network, followed by the notification of the nodes it
  reaches (\<open>notify\<close> does not touch the network).
\<close>

definition env_of :: "exec \<Rightarrow> node_env" where
  "env_of x = \<lparr>ne_vars = (\<lambda>k. node_vars.truncate (nodes x k)), ne_children = (\<lambda>k. m_children (nodes x k))\<rparr>"

definition net_op :: "(net \<Rightarrow> net result) \<Rightarrow> exec \<Rightarrow> exec result" where
  "net_op f x =
     bindE (f (net_of x)) (\<lambda>n.
       forE notify (notified n) (x\<lparr>net_of := n\<lparr>notified := []\<rparr>\<rparr>))"

section \<open>Resources\<close>

definition acquiresResources :: "nid \<Rightarrow> exec \<Rightarrow> bool" where
  "acquiresResources k x \<longleftrightarrow>
     m_type (nodes x k) = NodeType_Assignment \<or> m_usingMutexes (nodes x k) \<noteq> []"

text \<open>\<open>getAssignmentVariable()->getBaseVariable()\<close>: the destination is a user variable.\<close>

definition assignment_variable :: "nid \<Rightarrow> exec \<Rightarrow> resource result" where
  "assignment_variable k x =
     (case m_assignment (nodes x k) of
        None \<Rightarrow> Inl NullPointer
      | Some a \<Rightarrow> (case a_dest a of EUserVar v _ _ \<Rightarrow> Inr (RVariable v) | _ \<Rightarrow> Inl NullPointer))"

definition upd_resource :: "resource \<Rightarrow> (nid reservable \<Rightarrow> nid reservable) \<Rightarrow> exec \<Rightarrow> exec" where
  "upd_resource r f x = x\<lparr>reservables := (reservables x)(r := f (reservables x r))\<rparr>"

definition acquire_resource :: "nid \<Rightarrow> resource \<Rightarrow> exec \<Rightarrow> bool \<times> exec" where
  "acquire_resource k r x =
     (let (ok, r') = acquire k (reservables x r) in (ok, upd_resource r (\<lambda>_. r') x))"

text \<open>\<open>release\<close> clears the holder, then calls \<open>notifyResourceAvailable\<close> on each waiting node.\<close>

definition release_resource :: "nid \<Rightarrow> resource \<Rightarrow> exec \<Rightarrow> exec" where
  "release_resource k r x =
     (let (ks, r') = release k (reservables x r) in
      fold notifyResourceAvailable ks (upd_resource r (\<lambda>_. r') x))"

definition add_waiting :: "nid \<Rightarrow> resource \<Rightarrow> exec \<Rightarrow> exec" where
  "add_waiting k r = upd_resource r (addWaitingNode k)"

definition remove_waiting :: "nid \<Rightarrow> resource \<Rightarrow> exec \<Rightarrow> exec" where
  "remove_waiting k r = upd_resource r (removeWaitingNode k)"

text \<open>
  The walk up the ancestors when a mutex is busy: a plan error if one of them holds it. The
  bound on the walk is the depth of the plan tree.
\<close>

fun check_ancestors :: "nat \<Rightarrow> nid option \<Rightarrow> nid option \<Rightarrow> exec \<Rightarrow> unit result" where
  "check_ancestors depth holder None x = Inr ()"
| "check_ancestors 0 holder (Some a) x = Inl OutOfFuel"
| "check_ancestors (Suc depth) holder (Some a) x =
     bindE (check PlanError (holder \<noteq> Some a))
       (\<lambda>_. check_ancestors depth holder (m_parent (nodes x a)) x)"

text \<open>The loop over the mutexes: stop at the first that is busy.\<close>

fun acquire_mutexes :: "nat \<Rightarrow> nid \<Rightarrow> mid list \<Rightarrow> exec \<Rightarrow> (bool \<times> exec) result" where
  "acquire_mutexes depth k [] x = Inr (True, x)"
| "acquire_mutexes depth k (m # ms) x =
     (let (success, x) = acquire_resource k (RMutex m) x in
      if \<not> success
      then bindE (check_ancestors depth (m_holder (reservables x (RMutex m))) (m_parent (nodes x k)) x)
             (\<lambda>_. Inr (False, x))
      else acquire_mutexes depth k ms x)"

text \<open>
  On failure, every mutex that the node holds is released, and the node is put on every
  mutex's waiting list.
\<close>

definition release_all :: "nid \<Rightarrow> mid list \<Rightarrow> exec \<Rightarrow> exec" where
  "release_all k ms x =
     fold (\<lambda>m x. add_waiting k (RMutex m)
             (if m_holder (reservables x (RMutex m)) = Some k
              then release_resource k (RMutex m) x else x)) ms x"

definition tryResourceAcquisition :: "nat \<Rightarrow> nid \<Rightarrow> exec \<Rightarrow> (bool \<times> exec) result" where
  "tryResourceAcquisition depth k x =
     bindE (acquire_mutexes depth k (m_usingMutexes (nodes x k)) x) (\<lambda>(success, x).
     bindE (if m_type (nodes x k) = NodeType_Assignment
            then bindE (assignment_variable k x) (\<lambda>var.
                   if success then Inr (acquire_resource k var x)
                   else Inr (False, add_waiting k var x))
            else Inr (success, x)) (\<lambda>(success, x).
     if \<not> success then Inr (False, release_all k (m_usingMutexes (nodes x k)) x)
     else Inr (True, x)))"

text \<open>\<open>AssignmentNode\<close> wraps the method of \<open>NodeImpl\<close>.\<close>

definition releaseResourceReservations :: "nid \<Rightarrow> exec \<Rightarrow> exec result" where
  "releaseResourceReservations k x =
     bindE (if m_type (nodes x k) = NodeType_Assignment
            then bindE (assignment_variable k x) (\<lambda>var. Inr (remove_waiting k var x))
            else Inr x)
       (\<lambda>x. Inr (fold (\<lambda>m. remove_waiting k (RMutex m)) (m_usingMutexes (nodes x k)) x))"

section \<open>Conditions\<close>

text \<open>
  \<open>NodeImpl::getCondition\<close>: a node's ancestor conditions are the conditions its parent
  keeps for its children.
\<close>

definition getCondition :: "exec \<Rightarrow> nid \<Rightarrow> cond_index \<Rightarrow> expr option" where
  "getCondition x k i =
     (if i \<in> {ancestorEndIdx, ancestorExitIdx, ancestorInvariantIdx}
      then (case m_parent (nodes x k) of
              Some p \<Rightarrow> m_conditions (nodes x p) i | None \<Rightarrow> None)
      else m_conditions (nodes x k) i)"

definition all_cond_indices :: "cond_index list" where
  "all_cond_indices =
     [ancestorExitIdx, ancestorInvariantIdx, ancestorEndIdx, skipIdx, startIdx, preIdx, exitIdx,
      invariantIdx, endIdx, postIdx, repeatIdx, actionCompleteIdx, abortCompleteIdx]"

text \<open>
  What \<open>getDestState\<close> sees of the conditions. Conditions are Boolean expressions (the parser
  checks their types), so their evaluation does not raise; if a condition did, this model
  reports it whether or not the state the node is in consults that condition.
\<close>

definition view_condition :: "exec \<Rightarrow> nid \<Rightarrow> cond_index \<Rightarrow> cond_view option" where
  "view_condition x k i =
     (case getCondition x k i of
        None \<Rightarrow> None
      | Some e \<Rightarrow> (case getBoolean (env_of x) (net_of x) e of
            Inl _ \<Rightarrow> None
          | Inr v \<Rightarrow> Some \<lparr>cv_active = expr_active (net_of x) e, cv_value = v\<rparr>))"

fun condition_error :: "exec \<Rightarrow> nid \<Rightarrow> cond_index list \<Rightarrow> unit result" where
  "condition_error x k [] = Inr ()"
| "condition_error x k (i # cs) =
     (case getCondition x k i of
        None \<Rightarrow> condition_error x k cs
      | Some e \<Rightarrow> bindE (getBoolean (env_of x) (net_of x) e) (\<lambda>_. condition_error x k cs))"

definition node_getDestState :: "nid \<Rightarrow> exec \<Rightarrow> (bool \<times> exec) result" where
  "node_getDestState k x =
     bindE (condition_error x k all_cond_indices) (\<lambda>_.
     bindE (getDestState (m_type (nodes x k))
              (map_option (\<lambda>p. m_state (nodes x p)) (m_parent (nodes x k)))
              (view_condition x k) (nodes x k))
       (\<lambda>(b, n). Inr (b, upd_node k (\<lambda>_. n) x)))"

end
