(* ===== verification/Plexil_Exec.thy ===== *)
theory Plexil_Exec
  imports Exec_State
begin

text \<open>
  The executive, src/src/exec/PlexilExec.cc, and what its steps run: the actions of
  assignment, command and update nodes (Assignment.cc, src/src/intfc/CommandImpl.cc,
  UpdateNode.cc), \<open>NodeImpl::transition\<close> with the scripts of Node_Transition, and the
  macro step \<open>step\<close> with its queues.
\<close>

section \<open>Actions\<close>

definition toValue :: "exec \<Rightarrow> expr \<Rightarrow> val option result" where
  "toValue x e = getValue (env_of x) (net_of x) e (valueType e)"

fun toValues :: "exec \<Rightarrow> expr list \<Rightarrow> val option list result" where
  "toValues x [] = Inr []"
| "toValues x (e # es) = bindE (toValue x e) (\<lambda>v. bindE (toValues x es) (\<lambda>vs. Inr (v # vs)))"

definition activate_expr :: "expr \<Rightarrow> exec \<Rightarrow> exec result" where
  "activate_expr e x = net_op (activate (env_of x) e) x"

definition deactivate_expr :: "expr \<Rightarrow> exec \<Rightarrow> exec result" where
  "deactivate_expr e = net_op (deactivate e)"

definition activate_opt :: "expr option \<Rightarrow> exec \<Rightarrow> exec result" where
  "activate_opt e = (case e of None \<Rightarrow> Inr | Some e \<Rightarrow> activate_expr e)"

definition deactivate_opt :: "expr option \<Rightarrow> exec \<Rightarrow> exec result" where
  "deactivate_opt e = (case e of None \<Rightarrow> Inr | Some e \<Rightarrow> deactivate_expr e)"

text \<open>\<open>assertTrue_1(m_command)\<close> and the like: the action must exist.\<close>

definition with_action :: "plexil_error \<Rightarrow> 'a option \<Rightarrow> ('a \<Rightarrow> exec \<Rightarrow> exec result) \<Rightarrow> exec \<Rightarrow> exec result" where
  "with_action err a f = (case a of None \<Rightarrow> (\<lambda>x. Inl err) | Some a \<Rightarrow> f a)"

text \<open>Assignment.cc.\<close>

definition assignment_activate :: "assignment \<Rightarrow> exec \<Rightarrow> exec result" where
  "assignment_activate a = seqs [activate_expr (a_rhs a), activate_expr (a_dest a)]"

definition assignment_deactivate :: "assignment \<Rightarrow> exec \<Rightarrow> exec result" where
  "assignment_deactivate a = seqs [deactivate_expr (a_rhs a), deactivate_expr (a_dest a)]"

definition dest_variable :: "assignment \<Rightarrow> (eid \<times> val_type) result" where
  "dest_variable a = (case a_dest a of EUserVar v ty _ \<Rightarrow> Inr (v, ty) | _ \<Rightarrow> Inl NullPointer)"

definition assignment_fixValue :: "nid \<Rightarrow> assignment \<Rightarrow> exec \<Rightarrow> exec result" where
  "assignment_fixValue k a x =
     bindE (dest_variable a) (\<lambda>(v, ty).
     bindE (net_op (\<lambda>n. Inr (saveCurrentValue v n)) x) (\<lambda>x.
     bindE (toValue x (a_rhs a)) (\<lambda>y.
     Inr (upd_node k (\<lambda>n. n\<lparr>m_assignment := Some (a\<lparr>a_value := y\<rparr>)\<rparr>) x))))"

definition assignment_execute :: "nid \<Rightarrow> exec \<Rightarrow> exec result" where
  "assignment_execute k x =
     with_action NullPointer (m_assignment (nodes x k)) (\<lambda>a x.
       bindE (dest_variable a) (\<lambda>(v, ty).
       seqs [net_op (setValue v ty (a_value a)), net_op (simple_setValue (a_ack a) True)] x)) x"

definition assignment_retract :: "nid \<Rightarrow> exec \<Rightarrow> exec result" where
  "assignment_retract k x =
     with_action NullPointer (m_assignment (nodes x k)) (\<lambda>a x.
       bindE (dest_variable a) (\<lambda>(v, ty).
       seqs [net_op (restoreSavedValue v), net_op (simple_setValue (a_abortComplete a) True)] x)) x"

text \<open>CommandImpl.cc.\<close>

definition command_activate :: "nid \<Rightarrow> command \<Rightarrow> exec \<Rightarrow> exec result" where
  "command_activate k c x =
     bindE (check CheckError (\<not> c_active c)) (\<lambda>_.
     seqs
       [net_op (\<lambda>n. Inr (n\<lparr>m_commandHandle := (m_commandHandle n)(c_ack c := NO_COMMAND_HANDLE)\<rparr>)),
        activate_expr (EHandleVar (c_ack c)),
        activate_expr (ESimpleBool (c_abortComplete c)),
        forE activate_expr (c_name c),
        forE activate_expr (c_args c),
        forE activate_expr (c_resources c),
        activate_opt (c_dest c),
        \<lambda>x. Inr (upd_node k (\<lambda>n. n\<lparr>m_command := Some (c\<lparr>c_active := True\<rparr>)\<rparr>) x)] x)"

definition command_fixValues :: "nid \<Rightarrow> exec \<Rightarrow> exec result" where
  "command_fixValues k x =
     with_action AssertFailed (m_command (nodes x k)) (\<lambda>c x.
       bindE (check CheckError (c_active c)) (\<lambda>_.
       bindE (toValues x (c_name c @ c_args c)) (\<lambda>vs.
       bindE (toValues x (c_resources c)) (\<lambda>rs.
       bindE (check PlanError (None \<notin> set rs)) (\<lambda>_.
       Inr (upd_node k (\<lambda>n. n\<lparr>m_command := Some (c\<lparr>c_values := vs @ rs\<rparr>)\<rparr>) x)))))) x"

text \<open>
  \<open>deactivate\<close> also tells the resource arbiter to release the resources of the command; the
  arbiter is not part of this state.
\<close>

definition command_deactivate :: "nid \<Rightarrow> command \<Rightarrow> exec \<Rightarrow> exec result" where
  "command_deactivate k c x =
     bindE (check CheckError (c_active c)) (\<lambda>_.
     seqs
       [\<lambda>x. Inr (upd_node k (\<lambda>n. n\<lparr>m_command := Some (c\<lparr>c_active := False\<rparr>)\<rparr>) x),
        deactivate_expr (ESimpleBool (c_abortComplete c)),
        deactivate_expr (EHandleVar (c_ack c)),
        deactivate_opt (c_dest c),
        forE deactivate_expr (c_resources c),
        forE deactivate_expr (c_name c),
        forE deactivate_expr (c_args c)] x)"

text \<open>What the outside world reports about a command.\<close>

definition setCommandHandle :: "nid \<Rightarrow> command_handle \<Rightarrow> exec \<Rightarrow> exec result" where
  "setCommandHandle k h x =
     with_action NullPointer (m_command (nodes x k)) (\<lambda>c x.
       if \<not> c_active c then Inr x
       else bindE (check InterfaceError (h \<noteq> NO_COMMAND_HANDLE))
              (\<lambda>_. net_op (handle_setValue (c_ack c) h) x)) x"

definition returnValue :: "nid \<Rightarrow> val option \<Rightarrow> exec \<Rightarrow> exec result" where
  "returnValue k v x =
     with_action NullPointer (m_command (nodes x k)) (\<lambda>c x.
       case c_dest c of
         Some (EUserVar d ty _) \<Rightarrow> if c_active c then net_op (setValue d ty v) x else Inr x
       | _ \<Rightarrow> Inr x) x"

definition acknowledgeAbort :: "nid \<Rightarrow> bool \<Rightarrow> exec \<Rightarrow> exec result" where
  "acknowledgeAbort k ack x =
     with_action NullPointer (m_command (nodes x k)) (\<lambda>c x.
       if \<not> c_active c then Inr x else net_op (simple_setValue (c_abortComplete c) ack) x) x"

text \<open>UpdateNode.cc.\<close>

definition update_activate :: "update \<Rightarrow> exec \<Rightarrow> exec result" where
  "update_activate u = seqs [forE activate_expr (u_pairs u), activate_expr (ESimpleBool (u_ack u))]"

definition update_deactivate :: "update \<Rightarrow> exec \<Rightarrow> exec result" where
  "update_deactivate u = seqs [forE deactivate_expr (u_pairs u), deactivate_expr (ESimpleBool (u_ack u))]"

definition update_fixValues :: "nid \<Rightarrow> update \<Rightarrow> exec \<Rightarrow> exec result" where
  "update_fixValues k u x =
     bindE (toValues x (u_pairs u)) (\<lambda>vs.
       Inr (upd_node k (\<lambda>n. n\<lparr>m_update := Some (u\<lparr>u_values := vs\<rparr>)\<rparr>) x))"

definition update_acknowledge :: "nid \<Rightarrow> bool \<Rightarrow> exec \<Rightarrow> exec result" where
  "update_acknowledge k ack x =
     with_action NullPointer (m_update (nodes x k)) (\<lambda>u x.
       if \<not> isActive (net_of x) (u_ack u) then Inr x
       else net_op (simple_setValue (u_ack u) ack) x) x"

section \<open>Execution of a node\<close>

definition specializedHandleExecution :: "nid \<Rightarrow> exec \<Rightarrow> exec result" where
  "specializedHandleExecution k x =
     (case m_type (nodes x k) of
        NodeType_Command \<Rightarrow>
          with_action AssertFailed (m_command (nodes x k)) (\<lambda>c. seqs
            [command_activate k c, command_fixValues k,
             \<lambda>x. Inr (x\<lparr>commandsToExecute := commandsToExecute x @ [k]\<rparr>)]) x
      | NodeType_Assignment \<Rightarrow>
          with_action AssertFailed (m_assignment (nodes x k)) (\<lambda>a. seqs
            [assignment_activate a, assignment_fixValue k a,
             \<lambda>x. Inr (x\<lparr>assignmentsToExecute := assignmentsToExecute x @ [k]\<rparr>)]) x
      | NodeType_Update \<Rightarrow>
          with_action AssertFailed (m_update (nodes x k)) (\<lambda>u. seqs
            [update_activate u, update_fixValues k u,
             \<lambda>x. Inr (x\<lparr>updatesToExecute := updatesToExecute x @ [k]\<rparr>)]) x
      | _ \<Rightarrow> Inr x)"

definition specializedDeactivateExecutable :: "nid \<Rightarrow> exec \<Rightarrow> exec result" where
  "specializedDeactivateExecutable k x =
     (case m_type (nodes x k) of
        NodeType_Command \<Rightarrow> with_action AssertFailed (m_command (nodes x k)) (command_deactivate k) x
      | NodeType_Assignment \<Rightarrow>
          (case m_assignment (nodes x k) of None \<Rightarrow> Inr x | Some a \<Rightarrow> assignment_deactivate a x)
      | NodeType_Update \<Rightarrow> with_action NullPointer (m_update (nodes x k)) update_deactivate x
      | _ \<Rightarrow> Inr x)"

section \<open>Running the transition scripts\<close>

definition own_condition :: "nid \<Rightarrow> cond_index \<Rightarrow> exec \<Rightarrow> expr option" where
  "own_condition k i x = m_conditions (nodes x k) i"

fun run_call :: "nid \<Rightarrow> call \<Rightarrow> exec \<Rightarrow> exec result" where
  "run_call k (Activate i) x = activate_opt (own_condition k i x) x"
| "run_call k (Deactivate i) x = deactivate_opt (own_condition k i x) x"
| "run_call k (ActivateAsserted i) x = with_action AssertFailed (own_condition k i x) activate_expr x"
| "run_call k (DeactivateDeref i) x = with_action NullPointer (own_condition k i x) deactivate_expr x"
| "run_call k ActivateLocalVariables x = forE activate_expr (m_localVariables (nodes x k)) x"
| "run_call k DeactivateLocalVariables x = forE deactivate_expr (m_localVariables (nodes x k)) x"
| "run_call k SpecializedDeactivateExecutable x = specializedDeactivateExecutable k x"
| "run_call k ReleaseMutexes x =
     Inr (fold (\<lambda>m. release_resource k (RMutex m)) (m_usingMutexes (nodes x k)) x)"
| "run_call k ReleaseAssignmentVariable x =
     bindE (assignment_variable k x) (\<lambda>var. Inr (release_resource k var x))"
| "run_call k EnqueueAbortCommand x = Inr (x\<lparr>commandsToAbort := commandsToAbort x @ [k]\<rparr>)"
| "run_call k EnqueueAssignmentForRetraction x =
     Inr (x\<lparr>assignmentsToRetract := assignmentsToRetract x @ [k]\<rparr>)"
| "run_call k ResetNode x = Inr (upd_node k reset x)"
| "run_call k RaiseErrorMsg x = Inl ErrorMsg"

definition run_calls :: "nid \<Rightarrow> call list \<Rightarrow> exec \<Rightarrow> exec result" where
  "run_calls k = forE (run_call k)"

definition addFinishedRootNode :: "nid \<Rightarrow> exec \<Rightarrow> exec result" where
  "addFinishedRootNode k x =
     (let mark = (\<lambda>x. (setQueueStatus k QUEUE_DELETE x)\<lparr>finishedRootNodes := finishedRootNodes x @ [k]\<rparr>) in
      case queueStatus x k of
        QUEUE_CHECK \<Rightarrow> Inr (mark (x\<lparr>candidateQueue := remove1 k (candidateQueue x)\<rparr>))
      | QUEUE_NONE \<Rightarrow> Inr (mark x)
      | QUEUE_DELETE \<Rightarrow> Inr x
      | _ \<Rightarrow> Inl ErrorMsg)"

text \<open>\<open>NodeImpl::setState\<close>, and \<open>ListNode::setState\<close>, which also notifies the children.\<close>

definition setState_Node :: "nid \<Rightarrow> node_state \<Rightarrow> exec \<Rightarrow> exec result" where
  "setState_Node k newValue x =
     (if newValue = m_state (nodes x k) then Inr x
      else let x = upd_node k (\<lambda>n. n\<lparr>m_state := newValue\<rparr>) x in
        if newValue = FINISHED_STATE \<and> m_parent (nodes x k) = None
        then addFinishedRootNode k x else notify k x)"

definition notify_children :: "nid \<Rightarrow> node_state \<Rightarrow> exec \<Rightarrow> exec result" where
  "notify_children k st x =
     forE (\<lambda>c x. if m_state (nodes x c) = st then notify c x else Inr x) (m_children (nodes x k)) x"

definition setState :: "nid \<Rightarrow> node_state \<Rightarrow> exec \<Rightarrow> exec result" where
  "setState k newValue x =
     bindE (setState_Node k newValue x) (\<lambda>x.
       if is_list (m_type (nodes x k))
       then (case newValue of
               WAITING_STATE \<Rightarrow> notify_children k FINISHED_STATE x
             | EXECUTING_STATE \<Rightarrow> notify_children k INACTIVE_STATE x
             | FINISHED_STATE \<Rightarrow> notify_children k INACTIVE_STATE x
             | _ \<Rightarrow> Inr x)
       else Inr x)"

definition set_outcome :: "nid \<Rightarrow> exec \<Rightarrow> exec" where
  "set_outcome k =
     upd_node k (\<lambda>n.
       if m_nextOutcome n \<noteq> NO_OUTCOME
       then (let n = n\<lparr>m_outcome := m_nextOutcome n\<rparr> in
             if m_nextFailureType n \<noteq> NO_FAILURE
             then n\<lparr>m_failureType := m_nextFailureType n\<rparr> else n)
       else n)"

definition transition :: "nid \<Rightarrow> exec \<Rightarrow> exec result" where
  "transition k x =
     (let ty = m_type (nodes x k); st = m_state (nodes x k); next = m_nextState (nodes x k) in
      if next = st then Inr x
      else seqs
        [run_calls k (transitionFrom ty st next),
         run_calls k (transitionTo ty st next),
         setState k next,
         \<lambda>x. Inr (set_outcome k x),
         \<lambda>x. if next = EXECUTING_STATE then specializedHandleExecution k x else Inr x,
         \<lambda>x. Inr (upd_node k clear_next x),
         net_op (node_publishChange k)] x)"

section \<open>Queues\<close>

definition getCandidateNode :: "exec \<Rightarrow> nid option \<times> exec" where
  "getCandidateNode x =
     (case candidateQueue x of
        [] \<Rightarrow> (None, x)
      | k # ks \<Rightarrow> (Some k, setQueueStatus k QUEUE_NONE (x\<lparr>candidateQueue := ks\<rparr>)))"

definition getStateChangeNode :: "exec \<Rightarrow> (nid option \<times> exec) result" where
  "getStateChangeNode x =
     (case stateChangeQueue x of
        [] \<Rightarrow> Inr (None, x)
      | k # ks \<Rightarrow>
          (let was = queueStatus x k;
               x = setQueueStatus k QUEUE_NONE (x\<lparr>stateChangeQueue := ks\<rparr>) in
           bindE (if was = QUEUE_TRANSITION_CHECK then notify k x else Inr x)
             (\<lambda>x. Inr (Some k, x))))"

definition addStateChangeNode :: "nid \<Rightarrow> exec \<Rightarrow> exec result" where
  "addStateChangeNode k x =
     (case queueStatus x k of
        QUEUE_NONE \<Rightarrow>
          Inr ((setQueueStatus k QUEUE_TRANSITION x)\<lparr>stateChangeQueue := stateChangeQueue x @ [k]\<rparr>)
      | _ \<Rightarrow> Inl ErrorMsg)"

definition getPriority :: "exec \<Rightarrow> nid \<Rightarrow> int" where
  "getPriority x k = m_priority (nodes x k)"

text \<open>\<open>PriorityCompare\<close>: numerically lower priorities first.\<close>

definition addPendingNode :: "nid \<Rightarrow> exec \<Rightarrow> exec" where
  "addPendingNode k x =
     (let x = setQueueStatus k QUEUE_PENDING_TRY x in
      x\<lparr>pendingQueue := insert_prio (lt_by (getPriority x)) k (pendingQueue x)\<rparr>)"

definition removePendingNode :: "nid \<Rightarrow> exec \<Rightarrow> exec result" where
  "removePendingNode k x =
     releaseResourceReservations k
       (setQueueStatus k QUEUE_NONE (x\<lparr>pendingQueue := remove1 k (pendingQueue x)\<rparr>))"

section \<open>Resource conflicts\<close>

definition resourceCheckRequired :: "nid \<Rightarrow> exec \<Rightarrow> bool" where
  "resourceCheckRequired k x \<longleftrightarrow>
     m_nextState (nodes x k) = EXECUTING_STATE \<and> acquiresResources k x"

text \<open>
  In the first case the code sets the status to \<open>QUEUE_PENDING\<close> after all three branches,
  also when the node has just been removed from the pending queue.
\<close>

definition resourceCheckEligible :: "nid \<Rightarrow> exec \<Rightarrow> (bool \<times> exec) result" where
  "resourceCheckEligible k x =
     (case queueStatus x k of
        QUEUE_PENDING_CHECK \<Rightarrow>
          bindE (node_getDestState k x) (\<lambda>(b, x).
          bindE (if \<not> b then removePendingNode k x
                 else if m_nextState (nodes x k) \<noteq> EXECUTING_STATE
                 then bindE (removePendingNode k x) (addStateChangeNode k)
                 else Inr x)
            (\<lambda>x. Inr (False, setQueueStatus k QUEUE_PENDING x)))
      | QUEUE_PENDING_TRY_CHECK \<Rightarrow>
          bindE (node_getDestState k x) (\<lambda>(b, x).
            if \<not> b then bindE (removePendingNode k x) (\<lambda>x. Inr (False, x))
            else if m_nextState (nodes x k) \<noteq> EXECUTING_STATE
            then bindE (bindE (removePendingNode k x) (addStateChangeNode k)) (\<lambda>x. Inr (False, x))
            else Inr (True, x))
      | QUEUE_PENDING_TRY \<Rightarrow> Inr (True, x)
      | QUEUE_PENDING \<Rightarrow> Inr (False, x)
      | _ \<Rightarrow> Inl CheckError)"

text \<open>
  \<open>temp->next()\<close>: the successor in the pending queue; a node that has just been removed from
  it, and possibly appended to the state change queue, has no successor.
\<close>

fun successor_in :: "nid \<Rightarrow> nid list \<Rightarrow> nid option" where
  "successor_in k [] = None"
| "successor_in k (j # js) =
     (if j = k then (case js of [] \<Rightarrow> None | i # _ \<Rightarrow> Some i) else successor_in k js)"

text \<open>
  The inner loop gathers the eligible nodes of one priority. Each round checks one node, so
  the length of the pending queue bounds the rounds.
\<close>

fun gather_priority :: "nat \<Rightarrow> int \<Rightarrow> nid \<Rightarrow> nid list \<Rightarrow> exec \<Rightarrow> (nid list \<times> nid option \<times> exec) result" where
  "gather_priority 0 p temp acc x = Inl OutOfFuel"
| "gather_priority (Suc fuel) p temp acc x =
     bindE (resourceCheckEligible temp x) (\<lambda>(eligible, x).
     let acc = (if eligible then acc @ [temp] else acc) in
     case successor_in temp (pendingQueue x) of
       None \<Rightarrow> Inr (acc, None, x)
     | Some temp' \<Rightarrow>
         if getPriority x temp' = p then gather_priority fuel p temp' acc x
         else Inr (acc, Some temp', x))"

definition try_node :: "nat \<Rightarrow> nid \<Rightarrow> exec \<Rightarrow> exec result" where
  "try_node depth k x =
     bindE (tryResourceAcquisition depth k x) (\<lambda>(success, x).
       if success then bindE (removePendingNode k x) (addStateChangeNode k)
       else Inr (setQueueStatus k QUEUE_PENDING x))"

fun resolve_from :: "nat \<Rightarrow> nat \<Rightarrow> nid option \<Rightarrow> exec \<Rightarrow> exec result" where
  "resolve_from fuel depth None x = Inr x"
| "resolve_from 0 depth (Some k) x = Inl OutOfFuel"
| "resolve_from (Suc fuel) depth (Some priorityHead) x =
     bindE (gather_priority (Suc (length (pendingQueue x))) (getPriority x priorityHead) priorityHead [] x)
       (\<lambda>(priorityNodes, next, x).
     bindE (forE (try_node depth) priorityNodes x) (\<lambda>x.
     resolve_from fuel depth next x))"

definition resolveResourceConflicts :: "nat \<Rightarrow> exec \<Rightarrow> exec result" where
  "resolveResourceConflicts depth x =
     resolve_from (length (pendingQueue x)) depth
       (case pendingQueue x of [] \<Rightarrow> None | k # _ \<Rightarrow> Some k) x"

section \<open>The macro step\<close>

text \<open>One round of the loop over the candidate queue.\<close>

definition check_candidate :: "exec \<Rightarrow> exec result" where
  "check_candidate x =
     (case getCandidateNode x of
        (None, x) \<Rightarrow> Inl NullPointer
      | (Some candidate, x) \<Rightarrow>
          bindE (node_getDestState candidate x) (\<lambda>(canTransition, x).
            if canTransition
            then (if \<not> resourceCheckRequired candidate x then addStateChangeNode candidate x
                  else Inr (addPendingNode candidate x))
            else Inr x))"

fun check_candidates :: "nat \<Rightarrow> exec \<Rightarrow> exec result" where
  "check_candidates fuel x =
     (if candidateQueue x = [] then Inr x
      else case fuel of
        0 \<Rightarrow> Inl OutOfFuel
      | Suc fuel \<Rightarrow> bindE (check_candidate x) (check_candidates fuel))"

declare check_candidates.simps [simp del]

text \<open>One round of the loop over the state change queue.\<close>

definition transition_node :: "exec \<Rightarrow> exec result" where
  "transition_node x =
     bindE (getStateChangeNode x) (\<lambda>(node, x).
       case node of None \<Rightarrow> Inl NullPointer | Some k \<Rightarrow> transition k x)"

fun transition_nodes :: "nat \<Rightarrow> exec \<Rightarrow> exec result" where
  "transition_nodes fuel x =
     (if stateChangeQueue x = [] then Inr x
      else case fuel of
        0 \<Rightarrow> Inl OutOfFuel
      | Suc fuel \<Rightarrow> bindE (transition_node x) (transition_nodes fuel))"

declare transition_nodes.simps [simp del]

definition actions_pending :: "exec \<Rightarrow> bool" where
  "actions_pending x \<longleftrightarrow>
     assignmentsToExecute x \<noteq> [] \<or> assignmentsToRetract x \<noteq> [] \<or>
     commandsToExecute x \<noteq> [] \<or> commandsToAbort x \<noteq> []"

text \<open>
  The quiescence loop. Its number of rounds depends on the plan, so it takes a bound; the
  two inner loops take the length of the queue they empty.
\<close>

fun quiescence :: "nat \<Rightarrow> nat \<Rightarrow> exec \<Rightarrow> exec result" where
  "quiescence 0 depth x = Inl OutOfFuel"
| "quiescence (Suc fuel) depth x =
     bindE (check_candidates (length (candidateQueue x)) x) (\<lambda>x.
     bindE (if pendingQueue x = [] then Inr x else resolveResourceConflicts depth x) (\<lambda>x.
     if stateChangeQueue x = [] then Inr x
     else bindE (transition_nodes (length (stateChangeQueue x)) x) (\<lambda>x.
       if \<not> actions_pending x \<and> candidateQueue x \<noteq> [] then quiescence fuel depth x else Inr x)))"

definition performAssignments :: "exec \<Rightarrow> exec result" where
  "performAssignments x =
     bindE (forE assignment_execute (assignmentsToExecute x) x) (\<lambda>x.
     let x = x\<lparr>assignmentsToExecute := []\<rparr> in
     bindE (forE assignment_retract (assignmentsToRetract x) x) (\<lambda>x.
     Inr (x\<lparr>assignmentsToRetract := []\<rparr>)))"

text \<open>
  What \<open>executeOutboundQueue\<close> hands to the dispatcher, in order. The arbiter, if there is
  one, splits the commands into accepted and rejected.
\<close>

datatype dispatch =
    ExecuteCommand nid | ReportCommandArbitrationFailure nid | InvokeAbort nid | ExecuteUpdate nid

definition executeOutboundQueue ::
  "(nid list \<Rightarrow> nid list \<times> nid list) option \<Rightarrow> exec \<Rightarrow> dispatch list \<times> exec" where
  "executeOutboundQueue arbiter x =
     ((case arbiter of
         Some arbitrateCommands \<Rightarrow>
           if commandsToExecute x \<noteq> []
           then (let (accepted, rejected) = arbitrateCommands (commandsToExecute x) in
                 map ExecuteCommand accepted @ map ReportCommandArbitrationFailure rejected)
           else []
       | None \<Rightarrow> map ExecuteCommand (commandsToExecute x)) @
      map InvokeAbort (commandsToAbort x) @ map ExecuteUpdate (updatesToExecute x),
      x\<lparr>commandsToExecute := [], commandsToAbort := [], updatesToExecute := []\<rparr>)"

definition step :: "(nid list \<Rightarrow> nid list \<times> nid list) option \<Rightarrow> nat \<Rightarrow> nat \<Rightarrow> exec \<Rightarrow>
    (dispatch list \<times> exec) result" where
  "step arbiter fuel depth x =
     bindE (check CheckError (stateChangeQueue x = [])) (\<lambda>_.
     bindE (quiescence fuel depth x) (\<lambda>x.
     bindE (performAssignments x) (\<lambda>x.
     Inr (executeOutboundQueue arbiter x))))"

section \<open>Plans\<close>

fun activateNode :: "nat \<Rightarrow> nid \<Rightarrow> exec \<Rightarrow> exec result" where
  "activateNode 0 k x = Inl OutOfFuel"
| "activateNode (Suc depth) k x =
     seqs
       [run_calls k transitionToInactive,
        if is_list (m_type (nodes x k)) then forE (activateNode depth) (m_children (nodes x k)) else Inr,
        net_op (node_publishChange k)] x"

definition addPlan :: "nat \<Rightarrow> nid \<Rightarrow> exec \<Rightarrow> exec result" where
  "addPlan depth root x =
     seqs [\<lambda>x. Inr (x\<lparr>m_plan := m_plan x @ [root]\<rparr>), notify root, activateNode depth root] x"

definition allPlansFinished :: "exec \<Rightarrow> bool" where
  "allPlansFinished x \<longleftrightarrow>
     (if m_plan x = [] then m_finishedRootNodesDeleted x
      else list_all (\<lambda>root. m_state (nodes x root) = FINISHED_STATE) (m_plan x))"

definition deleteFinishedPlans :: "exec \<Rightarrow> exec" where
  "deleteFinishedPlans x =
     x\<lparr>m_plan := fold (\<lambda>node. filter (\<lambda>n. node \<noteq> n)) (finishedRootNodes x) (m_plan x),
       finishedRootNodes := [], m_finishedRootNodesDeleted := True\<rparr>"

definition needsStep :: "exec \<Rightarrow> bool" where
  "needsStep x \<longleftrightarrow> candidateQueue x \<noteq> []"

end
