(* ===== verification/Exec_Queues.thy ===== *)
theory Exec_Queues
  imports Plexil_Exec
begin

text \<open>
  The queues of the executive. Everything a transition does reaches the queues only through
  \<open>notify\<close>, \<open>notifyResourceAvailable\<close> and \<open>addFinishedRootNode\<close>: the locale \<open>exec_invariant\<close>
  turns a predicate on the queues that these three preserve into an invariant of transitions,
  assignments and resource acquisition, and \<open>step_invariant\<close> extends this to the macro step.
\<close>

section \<open>What the queue predicates look at\<close>

text \<open>
  Two states look the same when the queues and the queue status and priority of every node
  agree, and so do the state, outcome and pending members of the nodes of \<open>F\<close>.
\<close>

definition vars_of :: "exec \<Rightarrow> nid \<Rightarrow> node_vars" where
  "vars_of x k = node_vars.truncate (nodes x k)"

definition same_queues :: "nid set \<Rightarrow> exec \<Rightarrow> exec \<Rightarrow> bool" where
  "same_queues F x y \<longleftrightarrow>
     (\<forall>k. queueStatus y k = queueStatus x k \<and> getPriority y k = getPriority x k) \<and>
     (\<forall>k\<in>F. vars_of y k = vars_of x k) \<and>
     candidateQueue y = candidateQueue x \<and> stateChangeQueue y = stateChangeQueue x \<and>
     pendingQueue y = pendingQueue x \<and> finishedRootNodes y = finishedRootNodes x"

lemma same_queues_refl [simp]: "same_queues F x x"
  by (simp add: same_queues_def)

lemma same_queues_upd_node [simp]:
  "(\<And>n. m_queueStatus (f n) = m_queueStatus n) \<Longrightarrow> (\<And>n. m_priority (f n) = m_priority n) \<Longrightarrow>
   (\<And>n. k \<in> F \<Longrightarrow> node_vars.truncate (f n) = node_vars.truncate n) \<Longrightarrow>
   same_queues F x (upd_node k f x)"
  by (simp add: same_queues_def upd_node_def getPriority_def vars_of_def)

lemma same_queues_resource [simp]: "same_queues F x (upd_resource r f x)"
  by (simp add: same_queues_def upd_resource_def getPriority_def vars_of_def)

lemma queueStatus_set [simp]:
  "queueStatus (setQueueStatus k s x) j = (if j = k then s else queueStatus x j)"
  by (simp add: setQueueStatus_def upd_node_def)

lemma queues_set_status [simp]:
  "candidateQueue (setQueueStatus k s x) = candidateQueue x"
  "stateChangeQueue (setQueueStatus k s x) = stateChangeQueue x"
  "pendingQueue (setQueueStatus k s x) = pendingQueue x"
  "finishedRootNodes (setQueueStatus k s x) = finishedRootNodes x"
  by (simp_all add: setQueueStatus_def upd_node_def)

text \<open>More composition rules: reading the state, and case distinctions.\<close>

lemma preserves_read [preserves_intros]:
  "(\<And>v. preserves P (f v)) \<Longrightarrow> preserves P (\<lambda>x. bindE (m x) (\<lambda>v. f v x))"
  unfolding preserves_def by auto

lemma preserves_with_action [preserves_intros]:
  "(\<And>a. preserves P (f a)) \<Longrightarrow> preserves P (\<lambda>x. with_action e (g x) f x)"
  unfolding preserves_def with_action_def by (auto split: option.splits)

lemma preserves_pure [preserves_intros]:
  "(\<And>x. P x \<Longrightarrow> P (f x)) \<Longrightarrow> preserves P (\<lambda>x. Inr (f x))"
  by (simp add: preserves_def)

lemma preserves_prod [preserves_intros]:
  "(\<And>a b. preserves P (f a b)) \<Longrightarrow> preserves P (\<lambda>x. case v of (a, b) \<Rightarrow> f a b x)"
  by (cases v) simp

lemmas [simp] = node_vars.truncate_def

lemma preserves_dep: "(\<And>v. preserves P (F v)) \<Longrightarrow> preserves P (\<lambda>x. F (g x) x)"
  unfolding preserves_def by blast

lemma preserves_if [preserves_intros]:
  "preserves P f \<Longrightarrow> preserves P g \<Longrightarrow> preserves P (\<lambda>x. if b x then f x else g x)"
  by (rule preservesI) (auto split: if_splits dest: preservesD)

lemma preserves_seqs_Nil [preserves_intros]: "preserves P (seqs [])"
  by (simp add: preserves_def)

lemma preserves_seqs_Cons [preserves_intros]:
  assumes "preserves P f" and "preserves P (seqs fs)"
  shows "preserves P (seqs (f # fs))"
  using preserves_bindE [OF assms] by (simp add: preserves_def)

lemmas preserves_seqs_list = preserves_seqs_Nil preserves_seqs_Cons

lemma preserves_forE_read:
  assumes "\<And>a. preserves P (f a)"
  shows "preserves P (\<lambda>x. forE f (g x) x)"
proof (rule preservesI)
  fix x y
  assume "P x" and "forE f (g x) x = Inr y"
  then show "P y" using preservesD [OF preserves_forE [of "g x" P f]] assms by blast
qed

lemma getDestState_queueStatus:
  fixes n :: node
  assumes "getDestState ty parent c n = Inr (b, n')"
  shows "m_queueStatus n' = m_queueStatus n" and "m_priority n' = m_priority n"
proof -
  have eq: "n' = (n\<lparr>m_nextState := NO_NODE_STATE\<rparr>)\<lparr>m_nextState := m_nextState n',
      m_nextOutcome := m_nextOutcome n', m_nextFailureType := m_nextFailureType n'\<rparr>"
    using dest_allD [OF dest_post_state assms] by (simp add: dest_post_def)
  show "m_queueStatus n' = m_queueStatus n" by (rule trans [OF arg_cong [OF eq]]) simp
  show "m_priority n' = m_priority n" by (rule trans [OF arg_cong [OF eq]]) simp
qed

lemma node_getDestState_same:
  assumes "node_getDestState k x = Inr (b, y)"
  shows "same_queues (UNIV - {k}) x y"
proof -
  obtain n where n: "getDestState (m_type (nodes x k))
      (map_option (\<lambda>p. m_state (nodes x p)) (m_parent (nodes x k)))
      (view_condition x k) (nodes x k) = Inr (b, n)" and y: "y = upd_node k (\<lambda>_. n) x"
    using assms by (auto simp: node_getDestState_def)
  show ?thesis
    using getDestState_queueStatus [OF n]
    by (simp add: y same_queues_def upd_node_def getPriority_def vars_of_def)
qed

section \<open>Invariants of a transition\<close>

locale exec_invariant =
  fixes P :: "exec \<Rightarrow> bool" and F :: "nid set"
  assumes frame: "P x \<Longrightarrow> same_queues F x y \<Longrightarrow> P y"
    and notify_inv: "preserves P (notify k)"
    and available_inv: "P x \<Longrightarrow> P (notifyResourceAvailable k x)"
    and finished_inv: "preserves P (addFinishedRootNode k)"
begin

lemma P_upd_node [intro]:
  "P x \<Longrightarrow> (\<And>n. m_queueStatus (f n) = m_queueStatus n) \<Longrightarrow> (\<And>n. m_priority (f n) = m_priority n) \<Longrightarrow>
   (\<And>n. k \<in> F \<Longrightarrow> node_vars.truncate (f n) = node_vars.truncate n) \<Longrightarrow> P (upd_node k f x)"
  by (erule frame) simp

lemma net_op_inv: "preserves P (net_op f)"
proof (rule preservesI)
  fix x y
  assume P: "P x" and run: "net_op f x = Inr y"
  then obtain n where "forE notify (notified n) (x\<lparr>net_of := n\<lparr>notified := []\<rparr>\<rparr>) = Inr y"
    by (auto simp: net_op_def)
  moreover have "P (x\<lparr>net_of := n\<lparr>notified := []\<rparr>\<rparr>)"
    using P by (rule frame) (simp add: same_queues_def getPriority_def vars_of_def)
  ultimately show "P y"
    using preservesD [OF preserves_forE [of _ P notify]] notify_inv by blast
qed

lemma release_resource_inv: "P x \<Longrightarrow> P (release_resource k r x)"
proof -
  assume P: "P x"
  obtain ks r' where rel: "release k (reservables x r) = (ks, r')" by fastforce
  have "P (upd_resource r (\<lambda>_. r') x)" using P by (rule frame) simp
  then have "P (fold notifyResourceAvailable ks (upd_resource r (\<lambda>_. r') x))"
    by (induction ks arbitrary: x rule: rev_induct) (simp_all add: available_inv)
  then show ?thesis by (simp add: release_resource_def rel)
qed

lemma waiting_inv: "P x \<Longrightarrow> P (add_waiting k r x)" "P x \<Longrightarrow> P (remove_waiting k r x)"
  by (auto simp: add_waiting_def remove_waiting_def elim: frame)

lemma acquire_inv: "P x \<Longrightarrow> acquire_resource k r x = (b, y) \<Longrightarrow> P y"
  by (auto simp: acquire_resource_def split: prod.splits elim: frame)

lemma fold_inv: "(\<And>a x. P x \<Longrightarrow> P (f a x)) \<Longrightarrow> P x \<Longrightarrow> P (fold f as x)"
  by (induction as arbitrary: x) simp_all

lemmas exec_inv = net_op_inv release_resource_inv

lemma expr_inv:
  "preserves P (activate_expr e)" "preserves P (deactivate_expr e)"
  "preserves P (activate_opt oe)" "preserves P (deactivate_opt oe)"
  using net_op_inv
  by (auto simp: activate_expr_def deactivate_expr_def activate_opt_def deactivate_opt_def
      preserves_def split: option.splits)

lemma exprs_inv: "preserves P (forE activate_expr es)" "preserves P (forE deactivate_expr es)"
  by (intro preserves_forE expr_inv)+

lemma assignment_inv:
  "preserves P (assignment_activate a)" "preserves P (assignment_deactivate a)"
  "preserves P (assignment_fixValue k a)" "preserves P (assignment_execute k)"
  "preserves P (assignment_retract k)"
proof -
  show "preserves P (assignment_activate a)" "preserves P (assignment_deactivate a)"
    unfolding assignment_activate_def assignment_deactivate_def
    by (intro preserves_seqs_list expr_inv)+
  show "preserves P (assignment_fixValue k a)"
    unfolding assignment_fixValue_def
    by (rule preserves_read, rule preserves_prod, rule preserves_bindE [OF net_op_inv],
        rule preserves_read, rule preserves_pure) auto
  show "preserves P (assignment_execute k)" "preserves P (assignment_retract k)"
    unfolding assignment_execute_def assignment_retract_def
    by (intro preserves_with_action preserves_read preserves_prod preserves_seqs_list net_op_inv)+
qed

lemma command_inv:
  "preserves P (command_activate k c)" "preserves P (command_fixValues k)"
  "preserves P (command_deactivate k c)"
proof -
  show "preserves P (command_activate k c)"
    unfolding command_activate_def
    by (intro preserves_read preserves_seqs_list net_op_inv expr_inv exprs_inv preserves_pure) auto
  show "preserves P (command_fixValues k)"
    unfolding command_fixValues_def
    by (intro preserves_with_action preserves_read preserves_pure) auto
  show "preserves P (command_deactivate k c)"
    unfolding command_deactivate_def
    by (intro preserves_read preserves_seqs_list net_op_inv expr_inv exprs_inv preserves_pure) auto
qed

lemma update_inv:
  "preserves P (update_activate u)" "preserves P (update_deactivate u)"
  "preserves P (update_fixValues k u)"
proof -
  show "preserves P (update_activate u)" "preserves P (update_deactivate u)"
    unfolding update_activate_def update_deactivate_def
    by (intro preserves_seqs_list expr_inv exprs_inv)+
  show "preserves P (update_fixValues k u)"
    unfolding update_fixValues_def by (intro preserves_read preserves_pure) auto
qed

lemma enqueue_inv:
  "P x \<Longrightarrow> P (x\<lparr>commandsToExecute := v\<rparr>)" "P x \<Longrightarrow> P (x\<lparr>assignmentsToExecute := v\<rparr>)"
  "P x \<Longrightarrow> P (x\<lparr>updatesToExecute := v\<rparr>)" "P x \<Longrightarrow> P (x\<lparr>commandsToAbort := v\<rparr>)"
  "P x \<Longrightarrow> P (x\<lparr>assignmentsToRetract := v\<rparr>)"
  by (erule frame, simp add: same_queues_def getPriority_def vars_of_def)+

lemma preserves_at: "preserves P f \<Longrightarrow> P x \<Longrightarrow> f x = Inr y \<Longrightarrow> P y"
  by (rule preservesD)

lemma execution_inv: "preserves P (specializedHandleExecution k)"
proof -
  have c: "preserves P (seqs [command_activate k c, command_fixValues k,
             \<lambda>x. Inr (x\<lparr>commandsToExecute := commandsToExecute x @ [k]\<rparr>)])" for c
    by (intro preserves_seqs_list command_inv preserves_pure enqueue_inv)
  have a: "preserves P (seqs [assignment_activate a, assignment_fixValue k a,
             \<lambda>x. Inr (x\<lparr>assignmentsToExecute := assignmentsToExecute x @ [k]\<rparr>)])" for a
    by (intro preserves_seqs_list assignment_inv preserves_pure enqueue_inv)
  have u: "preserves P (seqs [update_activate u, update_fixValues k u,
             \<lambda>x. Inr (x\<lparr>updatesToExecute := updatesToExecute x @ [k]\<rparr>)])" for u
    by (intro preserves_seqs_list update_inv preserves_pure enqueue_inv)
  have "preserves P (\<lambda>z. case m_type n of
        NodeType_Command \<Rightarrow> with_action AssertFailed (m_command n) (\<lambda>c. seqs
            [command_activate k c, command_fixValues k,
             \<lambda>x. Inr (x\<lparr>commandsToExecute := commandsToExecute x @ [k]\<rparr>)]) z
      | NodeType_Assignment \<Rightarrow> with_action AssertFailed (m_assignment n) (\<lambda>a. seqs
            [assignment_activate a, assignment_fixValue k a,
             \<lambda>x. Inr (x\<lparr>assignmentsToExecute := assignmentsToExecute x @ [k]\<rparr>)]) z
      | NodeType_Update \<Rightarrow> with_action AssertFailed (m_update n) (\<lambda>u. seqs
            [update_activate u, update_fixValues k u,
             \<lambda>x. Inr (x\<lparr>updatesToExecute := updatesToExecute x @ [k]\<rparr>)]) z
      | _ \<Rightarrow> Inr z)" for n
    by (cases "m_type n"; simp only: node_type.case; intro preserves_with_action c a u preserves_skip)
  from preserves_dep [of P, OF this, of "\<lambda>x. nodes x k"] show ?thesis
    by (simp add: specializedHandleExecution_def [abs_def])
qed

lemma deactivateExecutable_inv: "preserves P (specializedDeactivateExecutable k)"
proof -
  have "preserves P (\<lambda>z. case m_type n of
        NodeType_Command \<Rightarrow> with_action AssertFailed (m_command n) (command_deactivate k) z
      | NodeType_Assignment \<Rightarrow> (case m_assignment n of None \<Rightarrow> Inr z | Some a \<Rightarrow> assignment_deactivate a z)
      | NodeType_Update \<Rightarrow> with_action NullPointer (m_update n) update_deactivate z
      | _ \<Rightarrow> Inr z)" for n
    by (cases "m_type n"; simp only: node_type.case;
        (cases "m_assignment n"; simp only: option.case)?;
        intro preserves_with_action command_inv update_inv assignment_inv preserves_skip)
  from preserves_dep [of P, OF this, of "\<lambda>x. nodes x k"] show ?thesis
    by (simp add: specializedDeactivateExecutable_def [abs_def])
qed

lemma reset_status: "m_queueStatus (reset n) = m_queueStatus n" "m_priority (reset n) = m_priority n"
  by (simp_all add: reset_def)

lemma clear_next_status:
  "m_queueStatus (clear_next n) = m_queueStatus n" "m_priority (clear_next n) = m_priority n"
  by (simp_all add: clear_next_def)

lemma run_call_inv:
  assumes "k \<notin> F \<or> c \<noteq> ResetNode"
  shows "preserves P (run_call k c)"
proof (cases c)
  case (Activate i)
  then show ?thesis using preserves_dep [OF expr_inv(3)] by (simp add: fun_eq_iff preserves_def)
next
  case (Deactivate i)
  then show ?thesis using preserves_dep [OF expr_inv(4)] by (simp add: fun_eq_iff preserves_def)
next
  case (ActivateAsserted i)
  have "preserves P (\<lambda>x. with_action AssertFailed (own_condition k i x) activate_expr x)"
    by (intro preserves_with_action expr_inv)
  then show ?thesis unfolding ActivateAsserted by (simp add: preserves_def)
next
  case (DeactivateDeref i)
  have "preserves P (\<lambda>x. with_action NullPointer (own_condition k i x) deactivate_expr x)"
    by (intro preserves_with_action expr_inv)
  then show ?thesis unfolding DeactivateDeref by (simp add: preserves_def)
next
  case ActivateLocalVariables
  then show ?thesis using preserves_forE_read [OF expr_inv(1)] by (simp add: preserves_def)
next
  case DeactivateLocalVariables
  then show ?thesis using preserves_forE_read [OF expr_inv(2)] by (simp add: preserves_def)
next
  case SpecializedDeactivateExecutable
  then show ?thesis using deactivateExecutable_inv by (simp add: preserves_def)
next
  case ReleaseMutexes
  have "P x \<Longrightarrow> P (fold (\<lambda>m. release_resource k (RMutex m)) ms x)" for ms x
    by (rule fold_inv) (rule release_resource_inv)
  then show ?thesis unfolding ReleaseMutexes by (simp add: preserves_def)
next
  case ReleaseAssignmentVariable
  show ?thesis unfolding ReleaseAssignmentVariable preserves_def
    using release_resource_inv by auto
next
  case ResetNode
  with assms have "k \<notin> F" by simp
  then have "P x \<Longrightarrow> P (upd_node k reset x)" for x by (auto simp: reset_status)
  then show ?thesis unfolding ResetNode by (simp add: preserves_def)
qed (simp_all add: preserves_def enqueue_inv)

lemma run_calls_inv: "k \<notin> F \<or> ResetNode \<notin> set cs \<Longrightarrow> preserves P (run_calls k cs)"
  unfolding run_calls_def by (intro preserves_forE run_call_inv) auto

lemma notify_children_inv: "preserves P (notify_children k st)"
  unfolding notify_children_def
  by (intro preserves_forE_read preserves_if notify_inv preserves_skip)

lemma setState_inv:
  assumes F: "k \<notin> F"
  shows "preserves P (setState k st)"
proof -
  have node: "preserves P (setState_Node k st)"
  proof (rule preservesI)
    fix x y
    assume P: "P x" and run: "setState_Node k st x = Inr y"
    have P': "P (upd_node k (\<lambda>n. n\<lparr>m_state := st\<rparr>) x)" using P F by auto
    consider "y = x" | "addFinishedRootNode k (upd_node k (\<lambda>n. n\<lparr>m_state := st\<rparr>) x) = Inr y"
      | "notify k (upd_node k (\<lambda>n. n\<lparr>m_state := st\<rparr>) x) = Inr y"
      using run unfolding setState_Node_def Let_def by (metis Inr_inject)
    then show "P y"
    proof cases
      case 1
      with P show ?thesis by simp
    next
      case 2
      show ?thesis by (rule preservesD [OF finished_inv P' 2])
    next
      case 3
      show ?thesis by (rule preservesD [OF notify_inv P' 3])
    qed
  qed
  show ?thesis
  proof (rule preservesI)
    fix x y
    assume P: "P x" and run: "setState k st x = Inr y"
    from run obtain z where z: "setState_Node k st x = Inr z" and
      y: "(if is_list (m_type (nodes z k))
       then (case st of
               WAITING_STATE \<Rightarrow> notify_children k FINISHED_STATE z
             | EXECUTING_STATE \<Rightarrow> notify_children k INACTIVE_STATE z
             | FINISHED_STATE \<Rightarrow> notify_children k INACTIVE_STATE z
             | _ \<Rightarrow> Inr z) else Inr z) = Inr y"
      unfolding setState_def bindE_eq_Inr by (elim exE conjE)
    have "preserves P (\<lambda>z. if is_list (m_type (nodes z k))
       then (case st of
               WAITING_STATE \<Rightarrow> notify_children k FINISHED_STATE z
             | EXECUTING_STATE \<Rightarrow> notify_children k INACTIVE_STATE z
             | FINISHED_STATE \<Rightarrow> notify_children k INACTIVE_STATE z
             | _ \<Rightarrow> Inr z) else Inr z)"
      by (cases st; simp only: node_state.case; intro preserves_if notify_children_inv preserves_skip)
    from preservesD [OF this preservesD [OF node P z]] y show "P y" .
  qed
qed

lemma set_outcome_inv: "k \<notin> F \<Longrightarrow> P x \<Longrightarrow> P (set_outcome k x)"
  unfolding set_outcome_def by (erule P_upd_node) (simp_all add: Let_def)

lemma transition_inv:
  assumes F: "k \<notin> F"
  shows "preserves P (transition k)"
proof (rule preservesI)
  fix x y
  assume P: "P x" and run: "transition k x = Inr y"
  have "preserves P (\<lambda>z. if m_nextState (nodes x k) = EXECUTING_STATE
      then specializedHandleExecution k z else Inr z)"
    by (intro preserves_if execution_inv preserves_skip)
  then have "preserves P (seqs
        [run_calls k (transitionFrom (m_type (nodes x k)) (m_state (nodes x k)) (m_nextState (nodes x k))),
         run_calls k (transitionTo (m_type (nodes x k)) (m_state (nodes x k)) (m_nextState (nodes x k))),
         setState k (m_nextState (nodes x k)),
         \<lambda>x. Inr (set_outcome k x),
         \<lambda>z. if m_nextState (nodes x k) = EXECUTING_STATE then specializedHandleExecution k z else Inr z,
         \<lambda>x. Inr (upd_node k clear_next x),
         net_op (node_publishChange k)])"
    using F by (intro preserves_seqs_list run_calls_inv setState_inv preserves_pure set_outcome_inv
        net_op_inv P_upd_node clear_next_status) auto
  from preservesD [OF this P] run P show "P y"
    by (auto simp: transition_def Let_def split: if_splits)
qed

lemma performAssignments_inv: "preserves P performAssignments"
proof (rule preservesI)
  fix x y
  assume P: "P x" and run: "performAssignments x = Inr y"
  then obtain z where z: "forE assignment_execute (assignmentsToExecute x) x = Inr z"
    and "\<exists>w. forE assignment_retract (assignmentsToRetract z) (z\<lparr>assignmentsToExecute := []\<rparr>) = Inr w \<and>
          y = w\<lparr>assignmentsToRetract := []\<rparr>"
    by (auto simp: performAssignments_def Let_def)
  then obtain w where w: "forE assignment_retract (assignmentsToRetract z) (z\<lparr>assignmentsToExecute := []\<rparr>) = Inr w"
    and y: "y = w\<lparr>assignmentsToRetract := []\<rparr>" by blast
  have "P z" using preservesD [OF preserves_forE [OF assignment_inv(4)] P z] .
  then have "P (z\<lparr>assignmentsToExecute := []\<rparr>)" by (rule enqueue_inv)
  then have "P w" using preservesD [OF preserves_forE [OF assignment_inv(5)] _ w] by blast
  then show "P y" unfolding y by (rule enqueue_inv)
qed

lemma acquire_mutexes_inv: "P x \<Longrightarrow> acquire_mutexes depth k ms x = Inr (b, y) \<Longrightarrow> P y"
  by (induction ms arbitrary: x) (auto split: prod.splits if_splits dest: acquire_inv)

lemma tryResourceAcquisition_inv:
  assumes P: "P x" and run: "tryResourceAcquisition depth k x = Inr (b, y)"
  shows "P y"
proof -
  obtain b1 z where 1: "acquire_mutexes depth k (m_usingMutexes (nodes x k)) x = Inr (b1, z)"
    and 2: "bindE (if m_type (nodes z k) = NodeType_Assignment
            then bindE (assignment_variable k z) (\<lambda>var.
                   if b1 then Inr (acquire_resource k var z) else Inr (False, add_waiting k var z))
            else Inr (b1, z)) (\<lambda>(success, x).
       if \<not> success then Inr (False, release_all k (m_usingMutexes (nodes x k)) x) else Inr (True, x))
       = Inr (b, y)"
    using run by (auto simp: tryResourceAcquisition_def)
  have z: "P z" using acquire_mutexes_inv [OF P 1] .
  from 2 obtain b2 w where w: "(if m_type (nodes z k) = NodeType_Assignment
            then bindE (assignment_variable k z) (\<lambda>var.
                   if b1 then Inr (acquire_resource k var z) else Inr (False, add_waiting k var z))
            else Inr (b1, z)) = Inr (b2, w)"
    and y: "y = (if \<not> b2 then release_all k (m_usingMutexes (nodes w k)) w else w)"
    unfolding bindE_eq_Inr by (force split: if_splits)
  have "P w" using w z acquire_inv waiting_inv by (fastforce split: if_splits)
  then have "P (release_all k ms w)" for ms
    unfolding release_all_def by (intro fold_inv) (auto intro: waiting_inv release_resource_inv)
  with \<open>P w\<close> show ?thesis by (simp add: y)
qed

lemma releaseReservations_inv: "preserves P (releaseResourceReservations k)"
proof (rule preservesI)
  fix x y
  assume P: "P x" and "releaseResourceReservations k x = Inr y"
  then obtain z where z: "P z"
    and y: "y = fold (\<lambda>m. remove_waiting k (RMutex m)) (m_usingMutexes (nodes z k)) z"
    by (auto simp: releaseResourceReservations_def split: if_splits intro: waiting_inv)
  show "P y" unfolding y using z by (intro fold_inv) (auto intro: waiting_inv)
qed

lemma getDestState_inv:
  assumes P: "P x" and F: "k \<notin> F" and run: "node_getDestState k x = Inr (b, y)"
  shows "P y"
proof -
  have "same_queues F x y"
    using node_getDestState_same [OF run] F by (auto simp: same_queues_def)
  with P show ?thesis by (rule frame)
qed

end

end
