(* ===== verification/Exec_Step.thy ===== *)
theory Exec_Step
  imports Exec_Queues
begin

text \<open>
  The queue discipline of the executive: which queue a node is in for each queue status, that
  every operation of PlexilExec.cc keeps it, and what becomes of nodes that the pending
  status outlives their place in the queue. Every operation is covered for a set \<open>L\<close> of such
  lost nodes at once; \<open>L = {}\<close> gives the plain queue invariant.
\<close>

section \<open>The queue invariant\<close>

definition pending_status :: "queue_status set" where
  "pending_status =
     {QUEUE_PENDING, QUEUE_PENDING_CHECK, QUEUE_PENDING_TRY, QUEUE_PENDING_TRY_CHECK}"

definition transition_status :: "queue_status set" where
  "transition_status = {QUEUE_TRANSITION, QUEUE_TRANSITION_CHECK}"

text \<open>
  A node in the state change queue may have a pending status, and so may a node in no queue:
  \<open>resourceCheckEligible\<close> produces both.
\<close>

definition queues_ok :: "exec \<Rightarrow> bool" where
  "queues_ok x \<longleftrightarrow>
     distinct (candidateQueue x) \<and> distinct (stateChangeQueue x) \<and>
     distinct (pendingQueue x) \<and> distinct (finishedRootNodes x) \<and>
     sorted (map (getPriority x) (pendingQueue x)) \<and>
     (\<forall>k. k \<in> set (candidateQueue x) \<longleftrightarrow> queueStatus x k = QUEUE_CHECK) \<and>
     (\<forall>k. k \<in> set (stateChangeQueue x) \<longrightarrow> queueStatus x k \<in> transition_status \<union> pending_status) \<and>
     (\<forall>k. queueStatus x k \<in> transition_status \<longrightarrow> k \<in> set (stateChangeQueue x)) \<and>
     (\<forall>k. k \<in> set (pendingQueue x) \<longrightarrow> queueStatus x k \<in> pending_status) \<and>
     (\<forall>k. k \<in> set (pendingQueue x) \<longrightarrow> k \<notin> set (stateChangeQueue x)) \<and>
     (\<forall>k. k \<in> set (finishedRootNodes x) \<longrightarrow> queueStatus x k = QUEUE_DELETE)"

definition lost :: "exec \<Rightarrow> nid \<Rightarrow> bool" where
  "lost x k \<longleftrightarrow> queueStatus x k \<in> pending_status \<and>
     k \<notin> set (pendingQueue x) \<and> k \<notin> set (stateChangeQueue x)"

definition queue_inv :: "nid set \<Rightarrow> (nid \<Rightarrow> node_vars) \<Rightarrow> exec \<Rightarrow> bool" where
  "queue_inv L V x \<longleftrightarrow> queues_ok x \<and> (\<forall>k. k \<in> L \<longrightarrow> lost x k \<and> vars_of x k = V k)"

lemmas queue_defs = queue_inv_def queues_ok_def lost_def

lemma status_families:
  "s \<in> pending_status \<Longrightarrow>
   s \<noteq> QUEUE_NONE \<and> s \<noteq> QUEUE_CHECK \<and> s \<noteq> QUEUE_DELETE \<and> s \<notin> transition_status"
  "s \<in> transition_status \<Longrightarrow>
   s \<noteq> QUEUE_NONE \<and> s \<noteq> QUEUE_CHECK \<and> s \<noteq> QUEUE_DELETE \<and> s \<notin> pending_status"
  by (auto simp: pending_status_def transition_status_def)

lemma status_in [simp]:
  "QUEUE_PENDING \<in> pending_status" "QUEUE_PENDING_CHECK \<in> pending_status"
  "QUEUE_PENDING_TRY \<in> pending_status" "QUEUE_PENDING_TRY_CHECK \<in> pending_status"
  "QUEUE_TRANSITION \<in> transition_status" "QUEUE_TRANSITION_CHECK \<in> transition_status"
  "QUEUE_NONE \<notin> pending_status" "QUEUE_CHECK \<notin> pending_status" "QUEUE_DELETE \<notin> pending_status"
  "QUEUE_NONE \<notin> transition_status" "QUEUE_CHECK \<notin> transition_status"
  "QUEUE_DELETE \<notin> transition_status"
  "QUEUE_TRANSITION \<notin> pending_status" "QUEUE_TRANSITION_CHECK \<notin> pending_status"
  "QUEUE_PENDING \<notin> transition_status" "QUEUE_PENDING_CHECK \<notin> transition_status"
  "QUEUE_PENDING_TRY \<notin> transition_status" "QUEUE_PENDING_TRY_CHECK \<notin> transition_status"
  by (simp_all add: pending_status_def transition_status_def)

lemma priority_set_status [simp]: "getPriority (setQueueStatus k s x) = getPriority x"
  by (simp add: getPriority_def setQueueStatus_def upd_node_def fun_eq_iff)

lemma vars_set_status [simp]: "vars_of (setQueueStatus k s x) j = vars_of x j"
  by (simp add: setQueueStatus_def upd_node_def vars_of_def)

lemma vars_of_queues [simp]:
  "vars_of (x\<lparr>candidateQueue := a\<rparr>) = vars_of x"
  "vars_of (x\<lparr>stateChangeQueue := b\<rparr>) = vars_of x"
  "vars_of (x\<lparr>pendingQueue := c\<rparr>) = vars_of x"
  "vars_of (x\<lparr>finishedRootNodes := d\<rparr>) = vars_of x"
  by (simp_all add: vars_of_def fun_eq_iff)

lemma priority_of_queues [simp]:
  "getPriority (x\<lparr>candidateQueue := a\<rparr>) = getPriority x"
  "getPriority (x\<lparr>stateChangeQueue := b\<rparr>) = getPriority x"
  "getPriority (x\<lparr>pendingQueue := c\<rparr>) = getPriority x"
  "getPriority (x\<lparr>finishedRootNodes := d\<rparr>) = getPriority x"
  by (simp_all add: getPriority_def fun_eq_iff)

lemma same_queues_priority: "same_queues F x y \<Longrightarrow> getPriority y = getPriority x"
  by (simp add: same_queues_def fun_eq_iff)

lemma queue_inv_frame: "queue_inv L V x \<Longrightarrow> same_queues L x y \<Longrightarrow> queue_inv L V y"
  by (frule same_queues_priority) (simp add: queue_defs same_queues_def)

lemma queue_inv_status:
  assumes "queue_inv L V x"
    and "queueStatus x k \<in> pending_status \<and> s \<in> pending_status \<or>
         queueStatus x k \<in> transition_status \<and> s \<in> transition_status"
  shows "queue_inv L V (setQueueStatus k s x)"
  using assms(2)
proof
  assume "queueStatus x k \<in> pending_status \<and> s \<in> pending_status"
  then show ?thesis using assms(1) status_families(1) [of s] status_families(1) [of "queueStatus x k"]
    by (auto simp add: queue_defs)
next
  assume "queueStatus x k \<in> transition_status \<and> s \<in> transition_status"
  then show ?thesis using assms(1) status_families(2) [of s] status_families(2) [of "queueStatus x k"]
    by (auto simp add: queue_defs)
qed

lemma queue_inv_notify: "preserves (queue_inv L V) (notify k)"
proof (rule preservesI)
  fix x y
  assume inv: "queue_inv L V x" and run: "notify k x = Inr y"
  show "queue_inv L V y"
  proof (cases "queueStatus x k = QUEUE_NONE")
    case True
    with run have "y = addCandidateNode k (setQueueStatus k QUEUE_CHECK x)" by (simp add: notify_def)
    with inv True show ?thesis by (auto simp: queue_defs addCandidateNode_def)
  next
    case False
    with run have "y = x \<or> (\<exists>s. y = setQueueStatus k s x \<and>
        (queueStatus x k \<in> pending_status \<and> s \<in> pending_status \<or>
         queueStatus x k \<in> transition_status \<and> s \<in> transition_status))"
      by (auto simp: notify_def split: queue_status.splits)
    with inv queue_inv_status show ?thesis by metis
  qed
qed

lemma queue_inv_available: "queue_inv L V x \<Longrightarrow> queue_inv L V (notifyResourceAvailable k x)"
  by (auto simp: notifyResourceAvailable_def
      split: queue_status.splits intro!: queue_inv_status)

lemma queue_inv_finished: "preserves (queue_inv L V) (addFinishedRootNode k)"
proof (rule preservesI)
  fix x y
  assume inv: "queue_inv L V x" and run: "addFinishedRootNode k x = Inr y"
  then consider "queueStatus x k = QUEUE_DELETE" "y = x"
    | "queueStatus x k = QUEUE_NONE"
      "y = (setQueueStatus k QUEUE_DELETE x)\<lparr>finishedRootNodes := finishedRootNodes x @ [k]\<rparr>"
    | "queueStatus x k = QUEUE_CHECK"
      "y = (setQueueStatus k QUEUE_DELETE (x\<lparr>candidateQueue := remove1 k (candidateQueue x)\<rparr>))
             \<lparr>finishedRootNodes := finishedRootNodes x @ [k]\<rparr>"
    by (auto simp: addFinishedRootNode_def Let_def split: queue_status.splits)
  then show "queue_inv L V y"
    using inv by cases (auto simp: queue_defs)
qed

interpretation queue: exec_invariant "queue_inv L V" L
  by unfold_locales
    (auto intro: queue_inv_frame queue_inv_notify queue_inv_available queue_inv_finished)

section \<open>The queue operations\<close>

lemma queue_inv_pop_candidate:
  assumes inv: "queue_inv L V x" and q: "candidateQueue x = k # ks"
  shows "queue_inv L V (setQueueStatus k QUEUE_NONE (x\<lparr>candidateQueue := ks\<rparr>))"
proof -
  have "queueStatus x k = QUEUE_CHECK" using inv q by (auto simp: queue_defs)
  with inv q show ?thesis by (auto simp: queue_defs)
qed

lemma queue_inv_pop_state_change:
  assumes inv: "queue_inv L V x" and q: "stateChangeQueue x = k # ks"
  shows "queue_inv L V (setQueueStatus k QUEUE_NONE (x\<lparr>stateChangeQueue := ks\<rparr>))"
    and "k \<notin> L"
proof -
  have "queueStatus x k \<in> transition_status \<union> pending_status" and "k \<notin> set (pendingQueue x)"
    using inv q by (auto simp: queue_defs)
  moreover from this have "queueStatus x k \<noteq> QUEUE_CHECK \<and> queueStatus x k \<noteq> QUEUE_DELETE"
    by (auto dest: status_families)
  moreover from this have "k \<notin> set (candidateQueue x) \<and> k \<notin> set (finishedRootNodes x)"
    using inv by (auto simp: queue_defs)
  ultimately show "queue_inv L V (setQueueStatus k QUEUE_NONE (x\<lparr>stateChangeQueue := ks\<rparr>))"
    using inv q by (auto simp: queue_defs)
  show "k \<notin> L" using inv q by (auto simp: queue_defs)
qed

lemma none_in_no_queue:
  assumes "queue_inv L V x" and "queueStatus x k = QUEUE_NONE"
  shows "k \<notin> set (candidateQueue x) \<and> k \<notin> set (stateChangeQueue x) \<and>
         k \<notin> set (pendingQueue x) \<and> k \<notin> set (finishedRootNodes x) \<and> k \<notin> L"
proof (intro conjI notI)
  note inv = assms(1) [unfolded queue_defs]
  show False if "k \<in> set (candidateQueue x)" using that inv assms(2) by simp
  show False if "k \<in> set (finishedRootNodes x)" using that inv assms(2) by fastforce
  show False if "k \<in> set (stateChangeQueue x)"
  proof -
    from that inv have "queueStatus x k \<in> transition_status \<union> pending_status" by blast
    with assms(2) show False by simp
  qed
  show False if "k \<in> set (pendingQueue x)"
  proof -
    from that inv have "queueStatus x k \<in> pending_status" by blast
    with assms(2) show False by simp
  qed
  show False if "k \<in> L"
  proof -
    from that inv have "queueStatus x k \<in> pending_status" by blast
    with assms(2) show False by simp
  qed
qed

lemma queue_inv_addStateChange: "preserves (queue_inv L V) (addStateChangeNode k)"
proof (rule preservesI)
  fix x y
  assume inv: "queue_inv L V x" and run: "addStateChangeNode k x = Inr y"
  then have k: "queueStatus x k = QUEUE_NONE"
    and y: "y = (setQueueStatus k QUEUE_TRANSITION x)\<lparr>stateChangeQueue := stateChangeQueue x @ [k]\<rparr>"
    by (auto simp: addStateChangeNode_def split: queue_status.splits)
  show "queue_inv L V y"
    using inv none_in_no_queue [OF inv k] unfolding y by (auto simp: queue_defs)
qed

lemma queue_inv_addPending:
  assumes inv: "queue_inv L V x" and k: "queueStatus x k = QUEUE_NONE"
  shows "queue_inv L V (addPendingNode k x)"
  using inv none_in_no_queue [OF inv k] sorted_insert_prio [of "getPriority x" "pendingQueue x" k]
  by (auto simp: queue_defs addPendingNode_def Let_def)

lemma sorted_map_remove1: "sorted (map f xs) \<Longrightarrow> sorted (map f (remove1 k xs))"
  by (induction xs) (auto simp: set_remove1_subset dest: subsetD [OF set_remove1_subset])

lemma releaseReservations_same:
  "releaseResourceReservations k x = Inr y \<Longrightarrow> same_queues UNIV x y"
proof -
  have w: "same_queues UNIV x z \<Longrightarrow> same_queues UNIV x (remove_waiting k r z)" for r z
    by (simp add: remove_waiting_def same_queues_def upd_resource_def getPriority_def vars_of_def)
  have f: "same_queues UNIV x z \<Longrightarrow> same_queues UNIV x (fold (\<lambda>m. remove_waiting k (RMutex m)) ms z)" for ms z
    by (induction ms arbitrary: z) (simp_all add: w)
  assume "releaseResourceReservations k x = Inr y"
  then show ?thesis by (auto simp: releaseResourceReservations_def split: if_splits intro!: f w)
qed

lemma same_queues_mono: "same_queues UNIV x y \<Longrightarrow> same_queues F x y"
  by (simp add: same_queues_def)

text \<open>What \<open>removePendingNode\<close> leaves behind.\<close>

lemma removePending_result:
  assumes inv: "queue_inv L V x" and k: "k \<in> set (pendingQueue x)"
    and run: "removePendingNode k x = Inr y"
  shows "queue_inv L V y" and "queueStatus y k = QUEUE_NONE"
    and "pendingQueue y = remove1 k (pendingQueue x)" and "stateChangeQueue y = stateChangeQueue x"
    and "vars_of y = vars_of x" and "getPriority y = getPriority x"
proof -
  let ?z = "setQueueStatus k QUEUE_NONE (x\<lparr>pendingQueue := remove1 k (pendingQueue x)\<rparr>)"
  have same: "same_queues UNIV ?z y"
    using run releaseReservations_same by (auto simp: removePendingNode_def)
  have k': "queueStatus x k \<in> pending_status" and "k \<notin> set (stateChangeQueue x)"
    using inv k by (auto simp: queue_defs)
  have "queue_inv L V ?z"
    using inv k status_families(1) [OF k'] \<open>k \<notin> set (stateChangeQueue x)\<close>
    by (auto simp: queue_defs sorted_map_remove1 set_remove1_eq)
  then show "queue_inv L V y" using same_queues_mono [OF same] by (rule queue_inv_frame)
  from same show "queueStatus y k = QUEUE_NONE" "pendingQueue y = remove1 k (pendingQueue x)"
    "stateChangeQueue y = stateChangeQueue x" "vars_of y = vars_of x" "getPriority y = getPriority x"
    by (auto simp: same_queues_def fun_eq_iff)
qed

text \<open>
  A node whose status is not that of the candidate queue or of a finished plan may be given
  the status \<open>QUEUE_PENDING\<close>, wherever it is.
\<close>

lemma queue_inv_set_pending:
  assumes inv: "queue_inv L V x"
    and k: "queueStatus x k \<noteq> QUEUE_CHECK" "queueStatus x k \<noteq> QUEUE_DELETE"
  shows "queue_inv L V (setQueueStatus k QUEUE_PENDING x)"
  using assms by (auto simp: queue_defs)

section \<open>Candidates\<close>

lemma queue_inv_check_candidate: "preserves (queue_inv L V) check_candidate"
proof (rule preservesI)
  fix x y
  assume inv: "queue_inv L V x" and run: "check_candidate x = Inr y"
  then obtain k ks where q: "candidateQueue x = k # ks"
    by (cases "candidateQueue x") (auto simp: check_candidate_def getCandidateNode_def)
  let ?x = "setQueueStatus k QUEUE_NONE (x\<lparr>candidateQueue := ks\<rparr>)"
  have inv': "queue_inv L V ?x" by (rule queue_inv_pop_candidate [OF inv q])
  have pop: "getCandidateNode x = (Some k, ?x)" by (simp add: getCandidateNode_def q)
  from run obtain p where "node_getDestState k ?x = Inr p"
    and "(case p of (b, z) \<Rightarrow> if b then (if \<not> resourceCheckRequired k z then addStateChangeNode k z
                else Inr (addPendingNode k z)) else Inr z) = Inr y"
    unfolding check_candidate_def pop prod.case option.case bindE_eq_Inr by (elim exE conjE)
  then obtain b z where z: "node_getDestState k ?x = Inr (b, z)"
    and y: "(if b then (if \<not> resourceCheckRequired k z then addStateChangeNode k z
                else Inr (addPendingNode k z)) else Inr z) = Inr y"
    by (cases p) simp
  have "k \<notin> L" using none_in_no_queue [OF inv', of k] by simp
  then have invz: "queue_inv L V z" using queue.getDestState_inv [OF inv' _ z] by blast
  have status: "queueStatus z k = QUEUE_NONE"
    using node_getDestState_same [OF z] by (simp add: same_queues_def)
  consider "addStateChangeNode k z = Inr y" | "y = addPendingNode k z" | "y = z"
    using y by (metis Inr_inject)
  then show "queue_inv L V y"
  proof cases
    case 1
    then show ?thesis using preservesD [OF queue_inv_addStateChange invz] by blast
  next
    case 2
    then show ?thesis using queue_inv_addPending [OF invz status] by simp
  next
    case 3
    with invz show ?thesis by simp
  qed
qed

lemma queue_inv_check_candidates: "preserves (queue_inv L V) (check_candidates fuel)"
proof (induction fuel)
  case 0
  show ?case by (rule preservesI) (auto simp: check_candidates.simps [of 0] split: if_splits)
next
  case (Suc fuel)
  note step = preserves_bindE [OF queue_inv_check_candidate [of L V] Suc.IH]
  show ?case
  proof (rule preservesI)
    fix x y
    assume inv: "queue_inv L V x" and run: "check_candidates (Suc fuel) x = Inr y"
    show "queue_inv L V y"
    proof (cases "candidateQueue x = []")
      case True
      with inv run show ?thesis by (simp add: check_candidates.simps)
    next
      case False
      with run have "bindE (check_candidate x) (check_candidates fuel) = Inr y"
        by (simp add: check_candidates.simps [of "Suc fuel"] del: bindE_eq_Inr)
      with step inv show ?thesis by (rule preservesD)
    qed
  qed
qed

section \<open>The pending queue\<close>

text \<open>Trying to acquire resources does not move nodes.\<close>

definition unmoved :: "nid list \<Rightarrow> nid list \<Rightarrow> (nid \<Rightarrow> int) \<Rightarrow> exec \<Rightarrow> bool" where
  "unmoved q sc pr x \<longleftrightarrow> pendingQueue x = q \<and> stateChangeQueue x = sc \<and> getPriority x = pr"

lemma unmoved_notify: "preserves (unmoved q sc pr) (notify k)"
  by (rule preservesI)
    (auto simp: unmoved_def notify_def addCandidateNode_def split: queue_status.splits)

lemma unmoved_available: "unmoved q sc pr x \<Longrightarrow> unmoved q sc pr (notifyResourceAvailable k x)"
  by (auto simp: unmoved_def notifyResourceAvailable_def split: queue_status.splits)

lemma unmoved_finished: "preserves (unmoved q sc pr) (addFinishedRootNode k)"
  by (rule preservesI)
    (auto simp: unmoved_def addFinishedRootNode_def Let_def split: queue_status.splits)

lemma unmoved_frame: "unmoved q sc pr x \<Longrightarrow> same_queues {} x y \<Longrightarrow> unmoved q sc pr y"
  by (auto simp: unmoved_def same_queues_def fun_eq_iff)

interpretation unmoved: exec_invariant "unmoved q sc pr" "{}"
  by unfold_locales
    (auto intro: unmoved_frame unmoved_notify unmoved_available unmoved_finished)

lemma tryResource_unmoved:
  assumes "tryResourceAcquisition depth k x = Inr (b, y)"
  shows "pendingQueue y = pendingQueue x \<and> stateChangeQueue y = stateChangeQueue x \<and>
         getPriority y = getPriority x"
  using unmoved.tryResourceAcquisition_inv [OF _ assms,
      of "pendingQueue x" "stateChangeQueue x" "getPriority x"]
  by (simp add: unmoved_def)

lemma addStateChange_pending:
  "addStateChangeNode k x = Inr y \<Longrightarrow> pendingQueue y = pendingQueue x \<and> getPriority y = getPriority x"
  by (auto simp: addStateChangeNode_def split: queue_status.splits)

text \<open>
  Checking a node of the pending queue either leaves it there or takes it out and reports it
  as not eligible.
\<close>

lemma getDestState_pending:
  assumes inv: "queue_inv L V x" and k: "k \<in> set (pendingQueue x)"
    and run: "node_getDestState k x = Inr (b, y)"
  shows "queue_inv L V y" and "pendingQueue y = pendingQueue x" and "getPriority y = getPriority x"
    and "queueStatus y k = queueStatus x k" and "queueStatus x k \<in> pending_status"
proof -
  have "k \<notin> L" and "queueStatus x k \<in> pending_status" using inv k by (auto simp: queue_defs)
  then show "queueStatus x k \<in> pending_status" "queue_inv L V y"
    using queue.getDestState_inv [OF inv _ run] by simp_all
  show "pendingQueue y = pendingQueue x" "getPriority y = getPriority x"
    "queueStatus y k = queueStatus x k"
    using node_getDestState_same [OF run] by (auto simp: same_queues_def fun_eq_iff)
qed

lemma remove_and_add:
  assumes inv: "queue_inv L V x" and k: "k \<in> set (pendingQueue x)"
    and run: "bindE (removePendingNode k x) (addStateChangeNode k) = Inr y"
  shows "queue_inv L V y" and "pendingQueue y = remove1 k (pendingQueue x)"
    and "getPriority y = getPriority x" and "queueStatus y k = QUEUE_TRANSITION"
proof -
  from run obtain z where z: "removePendingNode k x = Inr z" and y: "addStateChangeNode k z = Inr y"
    by auto
  note z = removePending_result [OF inv k z]
  show "queue_inv L V y" using preservesD [OF queue_inv_addStateChange z(1) y] .
  show "pendingQueue y = remove1 k (pendingQueue x)" "getPriority y = getPriority x"
    using z addStateChange_pending [OF y] by auto
  show "queueStatus y k = QUEUE_TRANSITION"
    using y by (auto simp: addStateChangeNode_def split: queue_status.splits)
qed

definition stays_or_goes :: "nid \<Rightarrow> bool \<Rightarrow> exec \<Rightarrow> exec \<Rightarrow> bool" where
  "stays_or_goes k eligible x y \<longleftrightarrow> getPriority y = getPriority x \<and>
     (pendingQueue y = pendingQueue x \<or>
      \<not> eligible \<and> pendingQueue y = remove1 k (pendingQueue x))"

lemma check_eligible:
  assumes inv: "queue_inv L V x" and k: "k \<in> set (pendingQueue x)"
    and run: "resourceCheckEligible k x = Inr (e, y)"
  shows "queue_inv L V y \<and> stays_or_goes k e x y"
proof -
  have "queueStatus x k \<in> pending_status" using inv k by (auto simp: queue_defs)
  then consider "queueStatus x k = QUEUE_PENDING_CHECK" | "queueStatus x k = QUEUE_PENDING_TRY_CHECK"
    | "y = x"
    using run by (auto simp: pending_status_def resourceCheckEligible_def)
  then show ?thesis
  proof cases
    case 1
    then obtain b z w where z: "node_getDestState k x = Inr (b, z)"
      and w: "(if \<not> b then removePendingNode k z
               else if m_nextState (nodes z k) \<noteq> EXECUTING_STATE
               then bindE (removePendingNode k z) (addStateChangeNode k) else Inr z) = Inr w"
      and y: "y = setQueueStatus k QUEUE_PENDING w" and e: "\<not> e"
      using run by (auto simp: resourceCheckEligible_def simp del: bindE_simps split: prod.splits if_splits)
    note z' = getDestState_pending [OF inv k z]
    have kz: "k \<in> set (pendingQueue z)" using k z'(2) by simp
    consider "removePendingNode k z = Inr w" | "bindE (removePendingNode k z) (addStateChangeNode k) = Inr w"
      | "w = z"
      using w by (metis Inr_inject)
    then have "queue_inv L V w \<and> getPriority w = getPriority x \<and>
        (pendingQueue w = pendingQueue x \<or> pendingQueue w = remove1 k (pendingQueue x)) \<and>
        queueStatus w k \<noteq> QUEUE_CHECK \<and> queueStatus w k \<noteq> QUEUE_DELETE"
    proof cases
      case 1
      show ?thesis using removePending_result [OF z'(1) kz 1] z' by simp
    next
      case 2
      show ?thesis using remove_and_add [OF z'(1) kz 2] z' by simp
    next
      case 3
      then show ?thesis using z' status_families(1) [OF z'(5)] by simp
    qed
    then show ?thesis using e by (simp add: y queue_inv_set_pending stays_or_goes_def)
  next
    case 2
    then obtain b z where z: "node_getDestState k x = Inr (b, z)"
      and y: "(if \<not> b then bindE (removePendingNode k z) (\<lambda>x. Inr (False, x))
            else if m_nextState (nodes z k) \<noteq> EXECUTING_STATE
            then bindE (bindE (removePendingNode k z) (addStateChangeNode k)) (\<lambda>x. Inr (False, x))
            else Inr (True, z)) = Inr (e, y)"
      using run by (auto simp: resourceCheckEligible_def simp del: bindE_simps split: prod.splits)
    note z' = getDestState_pending [OF inv k z]
    have kz: "k \<in> set (pendingQueue z)" using k z'(2) by simp
    consider "removePendingNode k z = Inr y" "\<not> e"
      | "bindE (removePendingNode k z) (addStateChangeNode k) = Inr y" "\<not> e" | "y = z"
      using y by (simp split: if_splits)
    then show ?thesis
    proof cases
      case 1
      show ?thesis using removePending_result [OF z'(1) kz 1(1)] z' 1(2) by (simp add: stays_or_goes_def)
    next
      case 2
      show ?thesis using remove_and_add [OF z'(1) kz 2(1)] z' 2(2) by (simp add: stays_or_goes_def)
    next
      case 3
      then show ?thesis using z' by (simp add: stays_or_goes_def)
    qed
  next
    case 3
    with inv show ?thesis by (simp add: stays_or_goes_def)
  qed
qed

section \<open>Resource conflicts\<close>

lemma successor_in_split:
  "distinct (pre @ k # suf) \<Longrightarrow>
   successor_in k (pre @ k # suf) = (case suf of [] \<Rightarrow> None | j # _ \<Rightarrow> Some j)"
  by (induction pre) auto

lemma successor_in_absent: "k \<notin> set q \<Longrightarrow> successor_in k q = None"
  by (induction q) auto

text \<open>Where the scan of the pending queue stands after gathering the nodes of a priority.\<close>

definition scan_at :: "nid list \<Rightarrow> nid option \<Rightarrow> nat \<Rightarrow> exec \<Rightarrow> bool" where
  "scan_at ks next bound x \<longleftrightarrow>
     (case next of
        None \<Rightarrow> set ks \<subseteq> set (pendingQueue x)
      | Some j \<Rightarrow> (\<exists>pre suf. pendingQueue x = pre @ j # suf \<and> set ks \<subseteq> set pre \<and> length suf < bound))"

lemma gather_inv:
  assumes "queue_inv L V x" and "pendingQueue x = pre @ temp # suf"
    and "distinct acc" and "set acc \<subseteq> set pre"
    and "gather_priority fuel p temp acc x = Inr (acc', next, y)"
  shows "queue_inv L V y \<and> distinct acc' \<and> scan_at acc' next (length suf) y"
  using assms
proof (induction fuel arbitrary: pre temp suf acc x)
  case 0
  then show ?case by simp
next
  case (Suc fuel)
  have k: "temp \<in> set (pendingQueue x)" using Suc.prems(2) by simp
  have dist: "distinct (pre @ temp # suf)" using Suc.prems(1,2) by (simp add: queue_defs)
  obtain e z where z: "resourceCheckEligible temp x = Inr (e, z)"
    and rest: "(case successor_in temp (pendingQueue z) of
        None \<Rightarrow> Inr (if e then acc @ [temp] else acc, None, z)
      | Some temp' \<Rightarrow> if getPriority z temp' = p
          then gather_priority fuel p temp' (if e then acc @ [temp] else acc) z
          else Inr (if e then acc @ [temp] else acc, Some temp', z)) = Inr (acc', next, y)"
    using Suc.prems(5) by (auto simp: Let_def simp del: bindE_simps)
  have inv: "queue_inv L V z" and step: "stays_or_goes temp e x z"
    using check_eligible [OF Suc.prems(1) k z] by auto
  have acc: "distinct (if e then acc @ [temp] else acc)"
    "set (if e then acc @ [temp] else acc) \<subseteq> set (pre @ [temp])"
    using Suc.prems(3,4) dist by auto
  show ?case
  proof (cases "pendingQueue z = pendingQueue x")
    case True
    then have q: "pendingQueue z = (pre @ [temp]) @ suf" using Suc.prems(2) by simp
    have succ: "successor_in temp (pendingQueue z) = (case suf of [] \<Rightarrow> None | j # _ \<Rightarrow> Some j)"
      using successor_in_split [OF dist] True Suc.prems(2) by simp
    show ?thesis
    proof (cases suf)
      case Nil
      with succ rest have "acc' = (if e then acc @ [temp] else acc)" "next = None" "y = z" by auto
      with inv acc q Nil show ?thesis by (auto simp: scan_at_def)
    next
      case (Cons j suf')
      with q have q': "pendingQueue z = (pre @ [temp]) @ j # suf'" by simp
      show ?thesis
      proof (cases "getPriority z j = p")
        case True
        with rest succ Cons have run: "gather_priority fuel p j (if e then acc @ [temp] else acc) z =
            Inr (acc', next, y)" by simp
        have "scan_at ks nx (length suf') w \<Longrightarrow> scan_at ks nx (length suf) w" for ks nx w
          using Cons by (auto simp: scan_at_def split: option.splits) (metis less_Suc_eq)
        then show ?thesis using Suc.IH [OF inv q' acc run] by blast
      next
        case False
        with rest succ Cons have "acc' = (if e then acc @ [temp] else acc)" "next = Some j" "y = z"
          by auto
        moreover have "scan_at (if e then acc @ [temp] else acc) (Some j) (length suf) z"
          unfolding scan_at_def option.case using q' acc(2) Cons
          by (intro exI [of _ "pre @ [temp]"] exI [of _ suf']) auto
        ultimately show ?thesis using inv acc(1) by simp
      qed
    qed
  next
    case False
    with step have e: "\<not> e" and "pendingQueue z = remove1 temp (pendingQueue x)"
      by (auto simp: stays_or_goes_def)
    then have q: "pendingQueue z = pre @ suf"
      using Suc.prems(2) dist by (simp add: remove1_append)
    then have "successor_in temp (pendingQueue z) = None"
      using dist by (intro successor_in_absent) auto
    with rest e have "acc' = acc" "next = None" "y = z" by auto
    with inv Suc.prems(3,4) q show ?thesis by (auto simp: scan_at_def)
  qed
qed

lemma try_node_inv:
  assumes inv: "queue_inv L V x" and k: "k \<in> set (pendingQueue x)"
    and run: "try_node depth k x = Inr y"
  shows "queue_inv L V y" and "getPriority y = getPriority x"
    and "pendingQueue y = pendingQueue x \<or> pendingQueue y = remove1 k (pendingQueue x)"
proof -
  obtain b z where z: "tryResourceAcquisition depth k x = Inr (b, z)"
    and y: "(if b then bindE (removePendingNode k z) (addStateChangeNode k)
             else Inr (setQueueStatus k QUEUE_PENDING z)) = Inr y"
    using run by (auto simp: try_node_def simp del: bindE_simps)
  have invz: "queue_inv L V z" by (rule queue.tryResourceAcquisition_inv [OF inv z])
  note same = tryResource_unmoved [OF z]
  have kz: "k \<in> set (pendingQueue z)" using k same by simp
  then have "queueStatus z k \<in> pending_status" using invz by (auto simp: queue_defs)
  note st = status_families(1) [OF this]
  consider "bindE (removePendingNode k z) (addStateChangeNode k) = Inr y"
    | "y = setQueueStatus k QUEUE_PENDING z"
    using y by (metis Inr_inject)
  then have "queue_inv L V y \<and> getPriority y = getPriority x \<and>
      (pendingQueue y = pendingQueue x \<or> pendingQueue y = remove1 k (pendingQueue x))"
  proof cases
    case 1
    show ?thesis using remove_and_add [OF invz kz 1] same by simp
  next
    case 2
    then show ?thesis using queue_inv_set_pending [OF invz] st same by simp
  qed
  then show "queue_inv L V y" "getPriority y = getPriority x"
    "pendingQueue y = pendingQueue x \<or> pendingQueue y = remove1 k (pendingQueue x)" by auto
qed

lemma try_nodes_inv:
  assumes "queue_inv L V x" and "pendingQueue x = pre @ rest" and "distinct ks" and "set ks \<subseteq> set pre"
    and "forE (try_node depth) ks x = Inr y"
  shows "queue_inv L V y \<and> getPriority y = getPriority x \<and> (\<exists>pre'. pendingQueue y = pre' @ rest)"
  using assms
proof (induction ks arbitrary: x pre)
  case Nil
  then show ?case by auto
next
  case (Cons k ks)
  obtain z where z: "try_node depth k x = Inr z" and y: "forE (try_node depth) ks z = Inr y"
    using Cons.prems(5) by auto
  have k: "k \<in> set pre" "k \<in> set (pendingQueue x)" using Cons.prems(2,4) by auto
  note step = try_node_inv [OF Cons.prems(1) k(2) z]
  obtain pre' where q: "pendingQueue z = pre' @ rest" and "set pre - {k} \<subseteq> set pre'"
  proof -
    have "pendingQueue z = pre @ rest \<or> pendingQueue z = remove1 k pre @ rest"
      using step(3) k(1) Cons.prems(2) by (simp add: remove1_append)
    moreover have "set pre - {k} \<subseteq> set (remove1 k pre)" by (simp add: subset_iff in_set_remove1)
    ultimately show ?thesis using that by blast
  qed
  then have "set ks \<subseteq> set pre'" using Cons.prems(3,4) by auto
  then show ?case using Cons.IH [OF step(1) q] Cons.prems(3) y step(2) by simp
qed

definition next_at :: "nid option \<Rightarrow> nat \<Rightarrow> exec \<Rightarrow> bool" where
  "next_at nx bound x \<longleftrightarrow>
     (\<forall>j. nx = Some j \<longrightarrow> (\<exists>pre suf. pendingQueue x = pre @ j # suf \<and> length suf < bound))"

lemma try_gathered:
  assumes inv: "queue_inv L V x" and "scan_at ks nx bound x" and "distinct ks"
    and run: "forE (try_node depth) ks x = Inr y"
  shows "queue_inv L V y \<and> next_at nx bound y"
proof (cases nx)
  case None
  with assms show ?thesis using try_nodes_inv [OF inv, of "pendingQueue x" "[]"]
    by (auto simp: scan_at_def next_at_def)
next
  case (Some j)
  with assms obtain pre suf where "pendingQueue x = pre @ j # suf" and "set ks \<subseteq> set pre"
    and "length suf < bound" by (auto simp: scan_at_def)
  note q = this
  obtain pre' where "pendingQueue y = pre' @ j # suf" and "queue_inv L V y"
    using try_nodes_inv [OF inv q(1) assms(3) q(2) run] by blast
  with q(3) show ?thesis unfolding next_at_def Some by blast
qed

lemma resolve_from_inv:
  "queue_inv L V x \<Longrightarrow> next_at nx fuel x \<Longrightarrow> resolve_from fuel depth nx x = Inr y \<Longrightarrow> queue_inv L V y"
proof (induction fuel arbitrary: nx x)
  case 0
  then show ?case by (cases nx) auto
next
  case (Suc fuel)
  show ?case
  proof (cases nx)
    case None
    with Suc.prems show ?thesis by simp
  next
    case (Some k)
    with Suc.prems(2) obtain pre suf where q: "pendingQueue x = pre @ k # suf"
      and bound: "length suf \<le> fuel" by (auto simp: next_at_def)
    obtain ks nx2 z w where z: "gather_priority (Suc (length (pendingQueue x))) (getPriority x k) k [] x =
        Inr (ks, nx2, z)"
      and w: "forE (try_node depth) ks z = Inr w" and y: "resolve_from fuel depth nx2 w = Inr y"
      using Suc.prems(3) Some by (auto simp del: gather_priority.simps)
    from gather_inv [OF Suc.prems(1) q _ _ z]
    have "queue_inv L V z" "distinct ks" "scan_at ks nx2 (length suf) z" by auto
    from try_gathered [OF this(1,3,2) w] have "queue_inv L V w" "next_at nx2 (length suf) w" by auto
    moreover from this(2) bound have "next_at nx2 fuel w" by (fastforce simp: next_at_def)
    ultimately show ?thesis using Suc.IH y by blast
  qed
qed

lemma queue_inv_resolve: "preserves (queue_inv L V) (resolveResourceConflicts depth)"
proof (rule preservesI)
  fix x y
  assume inv: "queue_inv L V x" and run: "resolveResourceConflicts depth x = Inr y"
  have "next_at (case pendingQueue x of [] \<Rightarrow> None | k # _ \<Rightarrow> Some k) (length (pendingQueue x)) x"
    by (cases "pendingQueue x") (auto simp: next_at_def intro: exI [of _ "[]"])
  from resolve_from_inv [OF inv this] run show "queue_inv L V y"
    unfolding resolveResourceConflicts_def by blast
qed

section \<open>Transitions and the macro step\<close>

lemma queue_inv_transition_node: "preserves (queue_inv L V) transition_node"
proof (rule preservesI)
  fix x y
  assume inv: "queue_inv L V x" and run: "transition_node x = Inr y"
  then obtain k ks where q: "stateChangeQueue x = k # ks"
    by (cases "stateChangeQueue x") (auto simp: transition_node_def getStateChangeNode_def)
  let ?x = "setQueueStatus k QUEUE_NONE (x\<lparr>stateChangeQueue := ks\<rparr>)"
  note pop = queue_inv_pop_state_change [OF inv q]
  have "getStateChangeNode x =
      bindE (if queueStatus x k = QUEUE_TRANSITION_CHECK then notify k ?x else Inr ?x) (\<lambda>x. Inr (Some k, x))"
    by (simp add: getStateChangeNode_def q Let_def)
  with run obtain z where z: "(if queueStatus x k = QUEUE_TRANSITION_CHECK then notify k ?x else Inr ?x) = Inr z"
    and y: "transition k z = Inr y"
    by (auto simp: transition_node_def simp del: bindE_simps if_split)
  have "queue_inv L V z"
    using z pop(1) preservesD [OF queue_inv_notify pop(1)] by (metis Inr_inject)
  then show "queue_inv L V y" using preservesD [OF queue.transition_inv [OF pop(2)] _ y] by blast
qed

lemma queue_inv_transition_nodes: "preserves (queue_inv L V) (transition_nodes fuel)"
proof (induction fuel)
  case 0
  show ?case by (rule preservesI) (auto simp: transition_nodes.simps [of 0] split: if_splits)
next
  case (Suc fuel)
  note step = preserves_bindE [OF queue_inv_transition_node [of L V] Suc.IH]
  show ?case
  proof (rule preservesI)
    fix x y
    assume inv: "queue_inv L V x" and run: "transition_nodes (Suc fuel) x = Inr y"
    show "queue_inv L V y"
    proof (cases "stateChangeQueue x = []")
      case True
      with inv run show ?thesis by (simp add: transition_nodes.simps)
    next
      case False
      with run have "bindE (transition_node x) (transition_nodes fuel) = Inr y"
        by (simp add: transition_nodes.simps [of "Suc fuel"] del: bindE_eq_Inr)
      with step inv show ?thesis by (rule preservesD)
    qed
  qed
qed

lemma queue_inv_quiescence: "preserves (queue_inv L V) (quiescence fuel depth)"
proof (induction fuel)
  case 0
  show ?case by (rule preservesI) simp
next
  case (Suc fuel)
  show ?case
  proof (rule preservesI)
    fix x y
    assume inv: "queue_inv L V x" and run: "quiescence (Suc fuel) depth x = Inr y"
    from run obtain a b where a: "check_candidates (length (candidateQueue x)) x = Inr a"
      and b: "(if pendingQueue a = [] then Inr a else resolveResourceConflicts depth a) = Inr b"
      and y: "(if stateChangeQueue b = [] then Inr b
        else bindE (transition_nodes (length (stateChangeQueue b)) b) (\<lambda>x.
          if \<not> actions_pending x \<and> candidateQueue x \<noteq> [] then quiescence fuel depth x else Inr x)) = Inr y"
      unfolding quiescence.simps bindE_eq_Inr by (elim exE conjE)
    have inva: "queue_inv L V a" by (rule preservesD [OF queue_inv_check_candidates inv a])
    have invb: "queue_inv L V b"
      using b inva preservesD [OF queue_inv_resolve inva] by (metis Inr_inject)
    show "queue_inv L V y"
    proof (cases "stateChangeQueue b = []")
      case True
      with y invb show ?thesis by simp
    next
      case False
      with y obtain c where c: "transition_nodes (length (stateChangeQueue b)) b = Inr c"
        and y: "(if \<not> actions_pending c \<and> candidateQueue c \<noteq> [] then quiescence fuel depth c
          else Inr c) = Inr y" by (auto split del: if_split)
      have invc: "queue_inv L V c" by (rule preservesD [OF queue_inv_transition_nodes invb c])
      with y preservesD [OF Suc.IH invc] show ?thesis by (metis Inr_inject)
    qed
  qed
qed

lemma queue_inv_step:
  assumes inv: "queue_inv L V x" and run: "step arbiter fuel depth x = Inr (ds, y)"
  shows "queue_inv L V y"
proof -
  obtain a b where a: "quiescence fuel depth x = Inr a" and b: "performAssignments a = Inr b"
    and y: "executeOutboundQueue arbiter b = (ds, y)"
    using run by (auto simp: step_def)
  have "queue_inv L V b"
    using preservesD [OF queue.performAssignments_inv preservesD [OF queue_inv_quiescence inv a] b] .
  moreover have "same_queues L b y"
    using y by (auto simp: executeOutboundQueue_def same_queues_def getPriority_def vars_of_def)
  ultimately show ?thesis by (rule queue_inv_frame)
qed

lemma queue_inv_activateNode: "preserves (queue_inv L V) (activateNode depth k)"
proof (induction depth arbitrary: k)
  case 0
  show ?case by (rule preservesI) simp
next
  case (Suc depth)
  have calls: "preserves (queue_inv L V) (run_calls k transitionToInactive)"
    by (rule queue.run_calls_inv) (simp add: transitionToInactive_def)
  show ?case
  proof (rule preservesI)
    fix x y
    assume inv: "queue_inv L V x" and run: "activateNode (Suc depth) k x = Inr y"
    have "preserves (queue_inv L V) (if is_list (m_type (nodes x k))
        then forE (activateNode depth) (m_children (nodes x k)) else Inr)"
      by (auto intro: preserves_forE Suc.IH preserves_skip)
    then have "preserves (queue_inv L V) (seqs [run_calls k transitionToInactive,
        if is_list (m_type (nodes x k)) then forE (activateNode depth) (m_children (nodes x k)) else Inr,
        net_op (node_publishChange k)])"
      by (intro preserves_seqs_list calls queue.net_op_inv)
    from preservesD [OF this inv] run show "queue_inv L V y" by simp
  qed
qed

lemma queue_inv_addPlan: "preserves (queue_inv L V) (addPlan depth root)"
proof -
  have "preserves (queue_inv L V) (\<lambda>x. Inr (x\<lparr>m_plan := m_plan x @ [root]\<rparr>))"
    by (rule preserves_pure, erule queue_inv_frame)
      (simp add: same_queues_def getPriority_def vars_of_def)
  then have "preserves (queue_inv L V) (seqs [\<lambda>x. Inr (x\<lparr>m_plan := m_plan x @ [root]\<rparr>), notify root,
      activateNode depth root])"
    by (intro preserves_seqs_list queue_inv_notify queue_inv_activateNode)
  then show ?thesis unfolding addPlan_def [abs_def] .
qed

lemma queue_inv_delete: "queue_inv L V x \<Longrightarrow> queue_inv L V (deleteFinishedPlans x)"
  by (simp add: queue_defs deleteFinishedPlans_def getPriority_def [abs_def] vars_of_def)

end
