(* ===== verification/Exec_System.thy ===== *)
theory Exec_System
  imports Exec_Step
begin

text \<open>
  The executive as a system: its states change by macro steps, by the answers of the outside
  world to commands and updates, by changes of the values the expressions read, and by plans
  that come and go. Invariants of these steps, the bounds of the loops inside a macro step,
  and what happens to a node that the executive loses.
\<close>

section \<open>The system\<close>

definition initial :: "exec \<Rightarrow> bool" where
  "initial x \<longleftrightarrow> candidateQueue x = [] \<and> stateChangeQueue x = [] \<and> pendingQueue x = [] \<and>
     finishedRootNodes x = [] \<and> (\<forall>k. queueStatus x k = QUEUE_NONE)"

text \<open>
  A change of the network stands for a new lookup value, a message or a variable set from
  outside; whatever it does to the network, the nodes it reaches are notified.
\<close>

inductive exec_step :: "exec \<Rightarrow> exec \<Rightarrow> bool" where
  macro_step: "step arbiter fuel depth x = Inr (ds, y) \<Longrightarrow> exec_step x y"
| command_handle: "setCommandHandle k h x = Inr y \<Longrightarrow> exec_step x y"
| command_return: "returnValue k v x = Inr y \<Longrightarrow> exec_step x y"
| command_abort: "acknowledgeAbort k b x = Inr y \<Longrightarrow> exec_step x y"
| update_ack: "update_acknowledge k b x = Inr y \<Longrightarrow> exec_step x y"
| network_change: "net_op f x = Inr y \<Longrightarrow> exec_step x y"
| plan_added: "addPlan depth root x = Inr y \<Longrightarrow> exec_step x y"
| plans_deleted: "exec_step x (deleteFinishedPlans x)"

inductive_cases exec_stepE: "exec_step x y"

lemma queue_inv_external:
  "preserves (queue_inv L V) (setCommandHandle k h)" "preserves (queue_inv L V) (returnValue k v)"
  "preserves (queue_inv L V) (acknowledgeAbort k b)" "preserves (queue_inv L V) (update_acknowledge k b)"
proof -
  show "preserves (queue_inv L V) (setCommandHandle k h)"
    unfolding setCommandHandle_def
    by (intro preserves_with_action preserves_if preserves_skip preserves_read queue.net_op_inv)
  show "preserves (queue_inv L V) (acknowledgeAbort k b)"
    unfolding acknowledgeAbort_def
    by (intro preserves_with_action preserves_if preserves_skip queue.net_op_inv)
  have "preserves (queue_inv L V) (\<lambda>x. if \<not> isActive (net_of x) (u_ack u) then Inr x
       else net_op (simple_setValue (u_ack u) b) x)" for u
    by (intro preserves_if preserves_skip queue.net_op_inv)
  then show "preserves (queue_inv L V) (update_acknowledge k b)"
    unfolding update_acknowledge_def by (intro preserves_with_action)
  have "preserves (queue_inv L V) (\<lambda>x. case c_dest c of
         Some (EUserVar d ty _) \<Rightarrow> if c_active c then net_op (setValue d ty v) x else Inr x
       | _ \<Rightarrow> Inr x)" for c
    by (rule preservesI)
      (auto split: option.splits expr.splits if_splits dest: preservesD [OF queue.net_op_inv])
  then show "preserves (queue_inv L V) (returnValue k v)"
    unfolding returnValue_def by (intro preserves_with_action)
qed

lemma queue_inv_exec_step:
  assumes "exec_step x y" and inv: "queue_inv L V x"
  shows "queue_inv L V y"
  using assms(1)
proof cases
  case (macro_step arbiter fuel depth ds)
  then show ?thesis using inv queue_inv_step by blast
next
  case (command_handle k h)
  then show ?thesis using preservesD [OF queue_inv_external(1) inv] by blast
next
  case (command_return k v)
  then show ?thesis using preservesD [OF queue_inv_external(2) inv] by blast
next
  case (command_abort k b)
  then show ?thesis using preservesD [OF queue_inv_external(3) inv] by blast
next
  case (update_ack k b)
  then show ?thesis using preservesD [OF queue_inv_external(4) inv] by blast
next
  case (network_change f)
  then show ?thesis using preservesD [OF queue.net_op_inv inv] by blast
next
  case (plan_added depth root)
  then show ?thesis using preservesD [OF queue_inv_addPlan inv] by blast
next
  case plans_deleted
  then show ?thesis using queue_inv_delete [OF inv] by simp
qed

lemma queue_inv_reachable: "exec_step\<^sup>*\<^sup>* x y \<Longrightarrow> queue_inv L V x \<Longrightarrow> queue_inv L V y"
  by (induction rule: rtranclp_induct) (auto intro: queue_inv_exec_step)

lemma queues_ok_reachable: "exec_step\<^sup>*\<^sup>* x y \<Longrightarrow> queues_ok x \<Longrightarrow> queues_ok y"
  using queue_inv_reachable [of x y "{}" undefined] by (simp add: queue_inv_def)

lemma exec_steps1: "exec_step x y \<Longrightarrow> exec_step\<^sup>*\<^sup>* x y"
  by (rule r_into_rtranclp)

lemma initial_queues_ok: "initial x \<Longrightarrow> queues_ok x"
  by (simp add: initial_def queues_ok_def)

lemma queues_disjoint:
  assumes "queues_ok x"
  shows "distinct (candidateQueue x @ stateChangeQueue x @ pendingQueue x @ finishedRootNodes x)"
proof -
  note ok = assms [unfolded queues_ok_def]
  have "queueStatus x k = QUEUE_CHECK" if "k \<in> set (candidateQueue x)" for k using ok that by blast
  moreover have "queueStatus x k \<in> transition_status \<union> pending_status"
    if "k \<in> set (stateChangeQueue x)" for k using ok that by blast
  moreover have "queueStatus x k \<in> pending_status \<and> k \<notin> set (stateChangeQueue x)"
    if "k \<in> set (pendingQueue x)" for k using ok that by blast
  moreover have "queueStatus x k = QUEUE_DELETE" if "k \<in> set (finishedRootNodes x)" for k
    using ok that by blast
  ultimately show ?thesis using ok by (fastforce simp: disjoint_iff dest: status_families)
qed

section \<open>Bounds of the inner loops\<close>

lemma check_candidate_shrinks:
  assumes "check_candidate x = Inr y"
  shows "Suc (length (candidateQueue y)) = length (candidateQueue x)"
proof (cases "candidateQueue x")
  case Nil
  with assms show ?thesis by (simp add: check_candidate_def getCandidateNode_def)
next
  case (Cons k ks)
  let ?x = "setQueueStatus k QUEUE_NONE (x\<lparr>candidateQueue := ks\<rparr>)"
  have pop: "getCandidateNode x = (Some k, ?x)" by (simp add: getCandidateNode_def Cons)
  from assms obtain p where p: "node_getDestState k ?x = Inr p"
    and y: "(case p of (b, z) \<Rightarrow> if b then (if \<not> resourceCheckRequired k z then addStateChangeNode k z
                else Inr (addPendingNode k z)) else Inr z) = Inr y"
    unfolding check_candidate_def pop prod.case option.case bindE_eq_Inr by (elim exE conjE)
  have "candidateQueue (snd p) = ks"
    using node_getDestState_same [of k ?x "fst p" "snd p"] p by (simp add: same_queues_def)
  moreover have "candidateQueue y = candidateQueue (snd p)"
    using y by (auto simp: addStateChangeNode_def addPendingNode_def Let_def
        split: prod.splits if_splits queue_status.splits)
  ultimately show ?thesis by (simp add: Cons)
qed

lemma check_candidates_rounds:
  "length qs = length (candidateQueue x) \<Longrightarrow>
   check_candidates (length qs + m) x = forE (\<lambda>_. check_candidate) qs x"
proof (induction qs arbitrary: x)
  case Nil
  then show ?case by (simp add: check_candidates.simps)
next
  case (Cons k qs)
  then have "candidateQueue x \<noteq> []" by auto
  moreover have "check_candidates (length qs + m) y = forE (\<lambda>_. check_candidate) qs y"
    if "check_candidate x = Inr y" for y
    using Cons.IH [of y] Cons.prems check_candidate_shrinks [OF that] by (metis Suc_inject length_Cons)
  ultimately show ?case
    by (simp add: check_candidates.simps [of "Suc _"]) (cases "check_candidate x"; simp)
qed

lemma check_candidates_empties: "check_candidates fuel x = Inr y \<Longrightarrow> candidateQueue y = []"
proof (induction fuel arbitrary: x)
  case 0
  then show ?case by (auto simp: check_candidates.simps [of 0] split: if_splits)
next
  case (Suc fuel)
  then show ?case by (auto simp: check_candidates.simps [of "Suc _"] split: if_splits)
qed

lemma transition_node_shrinks:
  assumes "transition_node x = Inr y"
  shows "Suc (length (stateChangeQueue y)) = length (stateChangeQueue x)"
proof (cases "stateChangeQueue x")
  case Nil
  with assms show ?thesis by (simp add: transition_node_def getStateChangeNode_def)
next
  case (Cons k ks)
  let ?x = "setQueueStatus k QUEUE_NONE (x\<lparr>stateChangeQueue := ks\<rparr>)"
  have "getStateChangeNode x =
      bindE (if queueStatus x k = QUEUE_TRANSITION_CHECK then notify k ?x else Inr ?x) (\<lambda>x. Inr (Some k, x))"
    by (simp add: getStateChangeNode_def Cons Let_def)
  with assms obtain z where z: "(if queueStatus x k = QUEUE_TRANSITION_CHECK then notify k ?x else Inr ?x) = Inr z"
    and y: "transition k z = Inr y"
    by (auto simp: transition_node_def simp del: bindE_simps if_split)
  have start: "unmoved (pendingQueue x) ks (getPriority x) ?x" by (simp add: unmoved_def)
  have "unmoved (pendingQueue x) ks (getPriority x) z"
    using z start preservesD [OF unmoved_notify start] by (metis Inr_inject)
  then have "unmoved (pendingQueue x) ks (getPriority x) y"
    using preservesD [OF unmoved.transition_inv _ y] by blast
  then show ?thesis by (simp add: unmoved_def Cons)
qed

lemma transition_nodes_rounds:
  "length qs = length (stateChangeQueue x) \<Longrightarrow>
   transition_nodes (length qs + m) x = forE (\<lambda>_. transition_node) qs x"
proof (induction qs arbitrary: x)
  case Nil
  then show ?case by (simp add: transition_nodes.simps)
next
  case (Cons k qs)
  then have "stateChangeQueue x \<noteq> []" by auto
  moreover have "transition_nodes (length qs + m) y = forE (\<lambda>_. transition_node) qs y"
    if "transition_node x = Inr y" for y
    using Cons.IH [of y] Cons.prems transition_node_shrinks [OF that] by (metis Suc_inject length_Cons)
  ultimately show ?case
    by (simp add: transition_nodes.simps [of "Suc _"]) (cases "transition_node x"; simp)
qed

lemma transition_nodes_empties: "transition_nodes fuel x = Inr y \<Longrightarrow> stateChangeQueue y = []"
proof (induction fuel arbitrary: x)
  case 0
  then show ?case by (auto simp: transition_nodes.simps [of 0] split: if_splits)
next
  case (Suc fuel)
  then show ?case by (auto simp: transition_nodes.simps [of "Suc _"] split: if_splits)
qed

lemma bindE_cong: "(\<And>v. m = Inr v \<Longrightarrow> f v = g v) \<Longrightarrow> bindE m f = bindE m g"
  by (cases m) simp_all

text \<open>Where a round of the scan has a successor, it is the next node of the pending queue.\<close>

lemma gather_next:
  assumes inv: "queue_inv L V x" and q: "pendingQueue x = pre @ temp # suf"
    and z: "resourceCheckEligible temp x = Inr (e, z)" and j: "successor_in temp (pendingQueue z) = Some j"
  obtains suf' where "queue_inv L V z" and "suf = j # suf'" and "pendingQueue z = (pre @ [temp]) @ j # suf'"
proof -
  have k: "temp \<in> set (pendingQueue x)" using q by simp
  have dist: "distinct (pre @ temp # suf)" using inv q by (simp add: queue_defs)
  have step: "stays_or_goes temp e x z" and inv': "queue_inv L V z"
    using check_eligible [OF inv k z] by auto
  have same: "pendingQueue z = pendingQueue x"
  proof (rule ccontr)
    assume "pendingQueue z \<noteq> pendingQueue x"
    with step have "pendingQueue z = pre @ suf"
      using q dist by (simp add: stays_or_goes_def remove1_append)
    with j dist successor_in_absent [of temp "pre @ suf"] show False by simp
  qed
  with j successor_in_split [OF dist] q obtain suf' where "suf = j # suf'" by (cases suf) auto
  with same q show ?thesis by (intro that [OF inv']) simp_all
qed

lemma gather_fuel:
  assumes "queue_inv L V x" and "pendingQueue x = pre @ temp # suf"
    and "length suf < fuel" and "length suf < fuel'"
  shows "gather_priority fuel p temp acc x = gather_priority fuel' p temp acc x"
  using assms
proof (induction fuel arbitrary: fuel' pre temp suf acc x)
  case 0
  then show ?case by simp
next
  case (Suc fuel)
  then obtain f where f: "fuel' = Suc f" by (cases fuel') auto
  show ?case unfolding f gather_priority.simps
  proof (rule bindE_cong, clarify)
    fix e z
    assume z: "resourceCheckEligible temp x = Inr (e, z)"
    let ?acc = "if e then acc @ [temp] else acc"
    have "gather_priority fuel p j ?acc z = gather_priority f p j ?acc z"
      if j: "successor_in temp (pendingQueue z) = Some j" for j
      using gather_next [OF Suc.prems(1,2) z j] Suc.IH [of z "pre @ [temp]" j _ f ?acc] Suc.prems(3,4) f
      by (metis Suc_less_SucD length_Cons)
    then show "(let acc = ?acc in
           case successor_in temp (pendingQueue z) of None \<Rightarrow> Inr (acc, None, z)
           | Some temp' \<Rightarrow> if getPriority z temp' = p then gather_priority fuel p temp' acc z
                           else Inr (acc, Some temp', z)) =
       (let acc = ?acc in
           case successor_in temp (pendingQueue z) of None \<Rightarrow> Inr (acc, None, z)
           | Some temp' \<Rightarrow> if getPriority z temp' = p then gather_priority f p temp' acc z
                           else Inr (acc, Some temp', z))"
      by (cases "successor_in temp (pendingQueue z)") (simp_all add: Let_def)
  qed
qed

text \<open>With that many rounds the scan does not run out of them; only a check can.\<close>

lemma gather_enough:
  assumes "queue_inv L V x" and "pendingQueue x = pre @ temp # suf" and "length suf < fuel"
    and "gather_priority fuel p temp acc x = Inl OutOfFuel"
  shows "\<exists>j z. resourceCheckEligible j z = Inl OutOfFuel"
  using assms
proof (induction fuel arbitrary: pre temp suf acc x)
  case 0
  then show ?case by simp
next
  case (Suc fuel)
  show ?case
  proof (cases "resourceCheckEligible temp x")
    case (Inl err)
    then show ?thesis using Suc.prems(4) by auto
  next
    case (Inr r)
    obtain e z where z: "resourceCheckEligible temp x = Inr (e, z)" using Inr by (cases r) auto
    with Suc.prems(4) obtain j where j: "successor_in temp (pendingQueue z) = Some j"
      and out: "gather_priority fuel p j (if e then acc @ [temp] else acc) z = Inl OutOfFuel"
      by (auto simp: Let_def split: option.splits if_splits)
    obtain suf' where "queue_inv L V z" "suf = j # suf'" "pendingQueue z = (pre @ [temp]) @ j # suf'"
      by (rule gather_next [OF Suc.prems(1,2) z j])
    then show ?thesis using Suc.IH [OF _ _ _ out] Suc.prems(3) by (metis Suc_less_SucD length_Cons)
  qed
qed

lemma resolve_from_fuel:
  "queue_inv L V x \<Longrightarrow> next_at nx fuel x \<Longrightarrow> next_at nx fuel' x \<Longrightarrow>
   resolve_from fuel depth nx x = resolve_from fuel' depth nx x"
proof (induction fuel arbitrary: fuel' nx x)
  case 0
  then show ?case by (cases nx) (auto simp: next_at_def)
next
  case (Suc fuel)
  show ?case
  proof (cases nx)
    case None
    then show ?thesis by simp
  next
    case (Some k)
    with Suc.prems(2,3) obtain pre suf pre' suf' where q: "pendingQueue x = pre @ k # suf"
      and bound: "length suf < Suc fuel"
      and q': "pendingQueue x = pre' @ k # suf'" and bound': "length suf' < fuel'"
      by (auto simp: next_at_def)
    have "distinct (pendingQueue x)" using Suc.prems(1) by (simp add: queue_defs)
    with q q' have "suf' = suf" by (metis append_Cons_eq_iff distinct_append not_distinct_conv_prefix
        disjoint_iff list.set_intros(1) distinct.simps(2))
    with bound' obtain f where f: "fuel' = Suc f" "length suf \<le> f" by (cases fuel') auto
    have "resolve_from fuel depth nx2 w = resolve_from f depth nx2 w"
      if z: "gather_priority (Suc (length (pendingQueue x))) (getPriority x k) k [] x = Inr (ks, nx2, z)"
        and w: "forE (try_node depth) ks z = Inr w" for ks nx2 z w
    proof -
      from gather_inv [OF Suc.prems(1) q _ _ z]
      have "queue_inv L V z" "distinct ks" "scan_at ks nx2 (length suf) z" by auto
      from try_gathered [OF this(1,3,2) w] have w: "queue_inv L V w" "next_at nx2 (length suf) w" by auto
      then have "next_at nx2 fuel w" "next_at nx2 f w"
        using bound f(2) by (fastforce simp: next_at_def)+
      with w(1) show ?thesis using Suc.IH by blast
    qed
    then show ?thesis unfolding Some f resolve_from.simps
      by (intro bindE_cong) (clarify, intro bindE_cong, blast)
  qed
qed

lemma try_nodes_out_of_fuel:
  assumes "forE (try_node depth) ks x = Inl OutOfFuel"
  shows "\<exists>j z. try_node depth j z = Inl OutOfFuel"
  using assms
proof (induction ks arbitrary: x)
  case (Cons k ks)
  then show ?case by (cases "try_node depth k x") auto
qed simp

lemma resolve_from_enough:
  "queue_inv L V x \<Longrightarrow> next_at nx fuel x \<Longrightarrow> resolve_from fuel depth nx x = Inl OutOfFuel \<Longrightarrow>
   \<exists>j z. resourceCheckEligible j z = Inl OutOfFuel \<or> try_node depth j z = Inl OutOfFuel"
proof (induction fuel arbitrary: nx x)
  case 0
  then show ?case by (cases nx) (auto simp: next_at_def)
next
  case (Suc fuel)
  then obtain k where k: "nx = Some k" by (cases nx) auto
  with Suc.prems(2) obtain pre suf where q: "pendingQueue x = pre @ k # suf" and bound: "length suf < Suc fuel"
    by (auto simp: next_at_def)
  have n: "length suf < Suc (length (pendingQueue x))" using q by simp
  let ?g = "gather_priority (Suc (length (pendingQueue x))) (getPriority x k) k [] x"
  show ?case
  proof (cases ?g)
    case (Inl err)
    then have "err = OutOfFuel" using Suc.prems(3) by (simp add: k del: gather_priority.simps)
    then show ?thesis using gather_enough [OF Suc.prems(1) q n] Inl by blast
  next
    case (Inr r)
    obtain ks nx2 z where z: "?g = Inr (ks, nx2, z)" using Inr by (cases r) auto
    from gather_inv [OF Suc.prems(1) q _ _ z]
    have inv: "queue_inv L V z" "distinct ks" "scan_at ks nx2 (length suf) z" by auto
    show ?thesis
    proof (cases "forE (try_node depth) ks z")
      case (Inl err)
      then have "err = OutOfFuel" using Suc.prems(3) z by (simp add: k del: gather_priority.simps)
      then show ?thesis using try_nodes_out_of_fuel Inl by blast
    next
      case w: (Inr w)
      from try_gathered [OF inv(1,3,2) w] bound have "queue_inv L V w" "next_at nx2 fuel w"
        by (fastforce simp: next_at_def)+
      then show ?thesis using Suc.IH Suc.prems(3) z w by (simp add: k del: gather_priority.simps)
    qed
  qed
qed

section \<open>What is left alone\<close>

lemma remove_waiting_frame:
  "nodes (remove_waiting k r x) = nodes x" "pendingQueue (remove_waiting k r x) = pendingQueue x"
  "stateChangeQueue (remove_waiting k r x) = stateChangeQueue x"
  by (simp_all add: remove_waiting_def upd_resource_def)

lemma fold_remove_waiting_frame:
  "nodes (fold (\<lambda>m. remove_waiting k (RMutex m)) ms x) = nodes x"
  "pendingQueue (fold (\<lambda>m. remove_waiting k (RMutex m)) ms x) = pendingQueue x"
  "stateChangeQueue (fold (\<lambda>m. remove_waiting k (RMutex m)) ms x) = stateChangeQueue x"
  by (induction ms arbitrary: x) (simp_all add: remove_waiting_frame)

lemma removePending_frame:
  assumes "removePendingNode k x = Inr y"
  shows "pendingQueue y = remove1 k (pendingQueue x)" and "stateChangeQueue y = stateChangeQueue x"
    and "queueStatus y k = QUEUE_NONE" and "j \<noteq> k \<Longrightarrow> nodes y j = nodes x j"
  using assms
  by (auto simp: removePendingNode_def releaseResourceReservations_def remove_waiting_frame
      fold_remove_waiting_frame setQueueStatus_def upd_node_def split: if_splits)

section \<open>A small executive\<close>

text \<open>
  One waiting node whose start condition is false, in a given queue status, with a given
  pending queue.
\<close>

definition idle_node :: "queue_status \<Rightarrow> node" where
  "idle_node s = \<lparr>m_state = WAITING_STATE, m_outcome = NO_OUTCOME, m_failureType = NO_FAILURE,
     m_nextState = EXECUTING_STATE, m_nextOutcome = NO_OUTCOME, m_nextFailureType = NO_FAILURE,
     m_type = NodeType_Empty, m_parent = None, m_children = [], m_priority = 0,
     m_conditions = (\<lambda>i. if i = startIdx then Some (EConst BOOLEAN_TYPE (Some (VBoolean False))) else None),
     m_localVariables = [], m_usingMutexes = [0], m_assignment = None, m_command = None,
     m_update = None, m_queueStatus = s\<rparr>"

definition idle_net :: net where
  "idle_net = \<lparr>m_activeCount = (\<lambda>_. 0), m_outgoingListeners = (\<lambda>_. []), node_listeners = (\<lambda>_. []),
     m_value = (\<lambda>_. VBoolean False), m_known = (\<lambda>_. False), m_savedValue = (\<lambda>_. VBoolean False),
     m_savedKnown = (\<lambda>_. False), m_commandHandle = (\<lambda>_. NO_COMMAND_HANDLE), notified = []\<rparr>"

definition idle_exec :: "(nid \<Rightarrow> queue_status) \<Rightarrow> nid list \<Rightarrow> exec" where
  "idle_exec status pending = \<lparr>m_plan = [], m_finishedRootNodesDeleted = False,
     nodes = (\<lambda>k. idle_node (status k)), net_of = idle_net, reservables = (\<lambda>_. new_reservable),
     candidateQueue = [], stateChangeQueue = [], pendingQueue = pending,
     assignmentsToExecute = [], assignmentsToRetract = [], commandsToExecute = [],
     commandsToAbort = [], updatesToExecute = [], finishedRootNodes = []\<rparr>"

lemma idle_initial: "initial (idle_exec (\<lambda>_. QUEUE_NONE) [])"
  by (simp add: initial_def idle_exec_def idle_node_def)

lemmas idle_defs = idle_exec_def idle_node_def idle_net_def new_reservable_def

lemma idle_getDestState:
  "node_getDestState k (idle_exec status q) =
     Inr (False, upd_node k (\<lambda>n. n\<lparr>m_nextState := NO_NODE_STATE\<rparr>) (idle_exec status q))"
  by (simp add: node_getDestState_def all_cond_indices_def getCondition_def idle_defs
      getDestState_def getDestStateFromWaiting_def view_condition_def getBoolean_def typed_def
      checked_def check_not_true_def if_not_true_def tested_def no_change_def next_outcome_def
      upd_node_def Let_def fun_eq_iff)

section \<open>Properties\<close>

text \<open>
  Property C1. A node is in at most one queue at a time, and at most once: at every point
  between operations of the executive and its environment the four node queues hold distinct
  nodes, the pending queue is in order of priority, a node has the status of the candidate
  queue exactly when it is in it, nodes in the pending queue have a pending status, and
  nodes with a transition status are in the state change queue.
\<close>

theorem queue_discipline:
  assumes "initial x0" and "exec_step\<^sup>*\<^sup>* x0 x"
  shows "distinct (candidateQueue x @ stateChangeQueue x @ pendingQueue x @ finishedRootNodes x) \<and>
         sorted (map (getPriority x) (pendingQueue x)) \<and>
         (k \<in> set (candidateQueue x) \<longleftrightarrow> queueStatus x k = QUEUE_CHECK) \<and>
         (k \<in> set (pendingQueue x) \<longrightarrow> queueStatus x k \<in> pending_status) \<and>
         (queueStatus x k \<in> transition_status \<longrightarrow> k \<in> set (stateChangeQueue x)) \<and>
         (k \<in> set (finishedRootNodes x) \<longrightarrow> queueStatus x k = QUEUE_DELETE)"
proof -
  have "queues_ok x"
    by (rule queues_ok_reachable [OF assms(2) initial_queues_ok [OF assms(1)]])
  with queues_disjoint [OF this] show ?thesis unfolding queues_ok_def by blast
qed

theorem queue_discipline_witness:
  "\<exists>x. exec_step (idle_exec (\<lambda>_. QUEUE_NONE) []) x \<and> candidateQueue x = [0] \<and>
     distinct (candidateQueue x @ stateChangeQueue x @ pendingQueue x @ finishedRootNodes x) \<and>
     queueStatus x 0 = QUEUE_CHECK"
proof -
  let ?x0 = "idle_exec (\<lambda>_. QUEUE_NONE) []"
  obtain x where x: "net_op (\<lambda>n. Inr (n\<lparr>notified := [0]\<rparr>)) ?x0 = Inr x"
    and q: "candidateQueue x = [0]"
    by (simp add: net_op_def notify_def idle_exec_def idle_node_def addCandidateNode_def
        setQueueStatus_def upd_node_def)
  have "exec_step ?x0 x" using x by (rule network_change)
  with queue_discipline [OF idle_initial exec_steps1 [OF this], of 0] q show ?thesis by auto
qed

text \<open>
  Property C2. A node whose conditions change while it waits for a resource, none of its
  resources having been released, is lost: when the executive finds that such a node (status
  \<open>QUEUE_PENDING_CHECK\<close>) no longer wants to transition, it takes the node out of the pending
  queue but leaves it the status \<open>QUEUE_PENDING\<close>. From then on, whatever the executive and its
  environment do, the node is in no queue of the executive that leads to a transition,
  notifications do not make it a candidate, and its state, outcome and pending transition
  never change again. A node one of whose resources has been released as well (status
  \<open>QUEUE_PENDING_TRY_CHECK\<close>) is taken out with the status \<open>QUEUE_NONE\<close> instead, and the next
  notification makes it a candidate as it should.
\<close>

theorem lost_forever:
  assumes "queues_ok x" and "k \<in> set (pendingQueue x)"
    and "queueStatus x k \<in> {QUEUE_PENDING_CHECK, QUEUE_PENDING_TRY_CHECK}"
    and "node_getDestState k x = Inr (False, z)" and "resourceCheckEligible k x = Inr (e, y)"
  shows "(queueStatus x k = QUEUE_PENDING_CHECK \<longrightarrow>
           (\<forall>w. exec_step\<^sup>*\<^sup>* y w \<longrightarrow>
              queueStatus w k \<in> pending_status \<and>
              k \<notin> set (candidateQueue w @ stateChangeQueue w @ pendingQueue w @ finishedRootNodes w) \<and>
              vars_of w k = vars_of z k)) \<and>
         (queueStatus x k = QUEUE_PENDING_TRY_CHECK \<longrightarrow>
           queueStatus y k = QUEUE_NONE \<and>
           k \<notin> set (candidateQueue y @ stateChangeQueue y @ pendingQueue y @ finishedRootNodes y) \<and>
           (\<exists>w. notify k y = Inr w \<and> k \<in> set (candidateQueue w) \<and> queues_ok w))"
proof -
  have inv: "queue_inv {} V x" for V using assms(1) by (simp add: queue_inv_def)
  note z = getDestState_pending [OF inv assms(2,4)]
  have kz: "k \<in> set (pendingQueue z)" using assms(2) z(2) by simp
  obtain v where v: "removePendingNode k z = Inr v"
    and y: "y = (if queueStatus x k = QUEUE_PENDING_CHECK then setQueueStatus k QUEUE_PENDING v else v)"
    using assms(3,4,5) by (auto simp: resourceCheckEligible_def)
  note r = removePending_result [OF z(1) kz v]
  have dist: "distinct (pendingQueue z)" and sc: "k \<notin> set (stateChangeQueue z)"
    using z(1) kz by (auto simp: queue_defs)
  have lost: "queueStatus w k \<in> pending_status \<and>
      k \<notin> set (candidateQueue w @ stateChangeQueue w @ pendingQueue w @ finishedRootNodes w) \<and>
      vars_of w k = vars_of z k"
    if st: "queueStatus x k = QUEUE_PENDING_CHECK" and w: "exec_step\<^sup>*\<^sup>* y w" for w
  proof -
    have y': "y = setQueueStatus k QUEUE_PENDING v" using st y by simp
    have "queue_inv {} undefined y"
      unfolding y' by (rule queue_inv_set_pending) (use r in simp_all)
    moreover have "lost y k" "vars_of y k = vars_of z k"
      using r dist sc by (simp_all add: y' lost_def)
    ultimately have "queue_inv {k} (\<lambda>_. vars_of z k) y" by (simp add: queue_inv_def)
    then have w: "queue_inv {k} (\<lambda>_. vars_of z k) w" by (rule queue_inv_reachable [OF w])
    then have "queueStatus w k \<in> pending_status" by (simp add: queue_inv_def lost_def)
    with status_families(1) [OF this] w show ?thesis by (auto simp: queue_defs)
  qed
  have kept: "queueStatus y k = QUEUE_NONE \<and>
      k \<notin> set (candidateQueue y @ stateChangeQueue y @ pendingQueue y @ finishedRootNodes y) \<and>
      (\<exists>w. notify k y = Inr w \<and> k \<in> set (candidateQueue w) \<and> queues_ok w)"
    if st: "queueStatus x k = QUEUE_PENDING_TRY_CHECK"
  proof -
    have "y = v" using st y by simp
    then have ok: "queue_inv {} undefined y" and none: "queueStatus y k = QUEUE_NONE"
      and out: "k \<notin> set (stateChangeQueue y)" "k \<notin> set (pendingQueue y)"
      using r dist sc by simp_all
    obtain w where w: "notify k y = Inr w" and "k \<in> set (candidateQueue w)"
      by (simp add: notify_def none addCandidateNode_def)
    moreover have "queues_ok w"
      using preservesD [OF queue_inv_notify ok w] by (simp add: queue_inv_def)
    moreover have "k \<notin> set (candidateQueue y)" "k \<notin> set (finishedRootNodes y)"
      using ok none by (auto simp: queue_defs)
    ultimately show ?thesis using none out by auto
  qed
  show ?thesis using lost kept by blast
qed

theorem lost_forever_witness:
  "\<exists>y w. resourceCheckEligible 0 (idle_exec (\<lambda>k. if k = 0 then QUEUE_PENDING_CHECK else QUEUE_NONE) [0]) =
        Inr (False, y) \<and>
      exec_step y w \<and> queueStatus w 0 = QUEUE_PENDING_CHECK \<and> m_state (nodes w 0) = WAITING_STATE \<and>
      0 \<notin> set (candidateQueue w @ stateChangeQueue w @ pendingQueue w @ finishedRootNodes w)"
proof -
  let ?x = "idle_exec (\<lambda>k. if k = 0 then QUEUE_PENDING_CHECK else QUEUE_NONE) [0]"
  have ok: "queues_ok ?x" and k: "0 \<in> set (pendingQueue ?x)" "queueStatus ?x 0 = QUEUE_PENDING_CHECK"
    by (simp_all add: queues_ok_def idle_exec_def idle_node_def)
  then have k': "queueStatus ?x 0 \<in> {QUEUE_PENDING_CHECK, QUEUE_PENDING_TRY_CHECK}" by simp
  obtain y where y: "resourceCheckEligible 0 ?x = Inr (False, y)" and "queueStatus y 0 = QUEUE_PENDING"
    by (simp add: resourceCheckEligible_def idle_getDestState k(2))
      (simp add: removePendingNode_def releaseResourceReservations_def setQueueStatus_def
        upd_node_def idle_exec_def idle_node_def remove_waiting_def upd_resource_def)
  obtain w where w: "net_op (\<lambda>n. Inr (n\<lparr>notified := [0]\<rparr>)) y = Inr w"
    and s: "queueStatus w 0 = QUEUE_PENDING_CHECK"
    using \<open>queueStatus y 0 = QUEUE_PENDING\<close> by (simp add: net_op_def notify_def)
  have step: "exec_step y w" using w by (rule network_change)
  have "vars_of w 0 = vars_of (upd_node 0 (\<lambda>n. n\<lparr>m_nextState := NO_NODE_STATE\<rparr>) ?x) 0 \<and>
      0 \<notin> set (candidateQueue w @ stateChangeQueue w @ pendingQueue w @ finishedRootNodes w)"
    using lost_forever [OF ok k(1) k' idle_getDestState y] k(2) exec_steps1 [OF step] by blast
  moreover from this have "m_state (nodes w 0) = WAITING_STATE"
    by (simp add: vars_of_def upd_node_def idle_exec_def idle_node_def)
  ultimately show ?thesis using y step s by blast
qed

text \<open>
  Property C25. The inner loops of a macro step end within as many rounds as their queue has
  nodes, in every state with the queue discipline of property C1, whatever is in the queues.
  The loop over the candidate queue and the loop over the state change queue run exactly one
  round for each node that is in the queue when they start, however many more the bound
  allows, unless a round fails, and the queue is empty when they return. The scan of the
  pending queue at one priority takes at most one round for each node from where it starts
  to the end, and the loop over the priorities at most one for each pending node: allowing
  more changes nothing, and they never run out of rounds, only a check of a node or an
  attempt to acquire its resources can.
\<close>

theorem loops_bounded:
  assumes "queues_ok x"
  shows "check_candidates (length (candidateQueue x) + m) x = forE (\<lambda>_. check_candidate) (candidateQueue x) x \<and>
    (check_candidates fuel x = Inr y \<longrightarrow> candidateQueue y = []) \<and>
    transition_nodes (length (stateChangeQueue x) + m) x = forE (\<lambda>_. transition_node) (stateChangeQueue x) x \<and>
    (transition_nodes fuel x = Inr y \<longrightarrow> stateChangeQueue y = []) \<and>
    (\<forall>pre temp suf. pendingQueue x = pre @ temp # suf \<longrightarrow>
       gather_priority (Suc (length suf) + m) p temp acc x = gather_priority (Suc (length suf)) p temp acc x \<and>
       (gather_priority (Suc (length suf)) p temp acc x = Inl OutOfFuel \<longrightarrow>
          (\<exists>j z. resourceCheckEligible j z = Inl OutOfFuel))) \<and>
    resolve_from (length (pendingQueue x) + m) depth
      (case pendingQueue x of [] \<Rightarrow> None | k # _ \<Rightarrow> Some k) x = resolveResourceConflicts depth x \<and>
    (resolveResourceConflicts depth x = Inl OutOfFuel \<longrightarrow>
       (\<exists>j z. resourceCheckEligible j z = Inl OutOfFuel \<or> try_node depth j z = Inl OutOfFuel))"
proof -
  have inv: "queue_inv {} undefined x" using assms by (simp add: queue_inv_def)
  let ?hd = "case pendingQueue x of [] \<Rightarrow> None | k # _ \<Rightarrow> Some k"
  have start: "next_at ?hd (length (pendingQueue x) + n) x" for n
    by (cases "pendingQueue x") (auto simp: next_at_def intro: exI [of _ "[]"])
  have "resolve_from (length (pendingQueue x) + m) depth ?hd x = resolveResourceConflicts depth x"
    using resolve_from_fuel [OF inv start start [of 0]] by (simp add: resolveResourceConflicts_def)
  moreover have "\<exists>j z. resourceCheckEligible j z = Inl OutOfFuel \<or> try_node depth j z = Inl OutOfFuel"
    if "resolveResourceConflicts depth x = Inl OutOfFuel"
    using resolve_from_enough [OF inv start [of 0]] that by (simp add: resolveResourceConflicts_def)
  moreover have "gather_priority (Suc (length suf) + m) p temp acc x = gather_priority (Suc (length suf)) p temp acc x"
    if "pendingQueue x = pre @ temp # suf" for pre temp suf
    by (rule gather_fuel [OF inv that]) simp_all
  moreover have "\<exists>j z. resourceCheckEligible j z = Inl OutOfFuel"
    if "pendingQueue x = pre @ temp # suf" "gather_priority (Suc (length suf)) p temp acc x = Inl OutOfFuel"
    for pre temp suf
    by (rule gather_enough [OF inv that(1) lessI that(2)])
  moreover note check_candidates_rounds [OF refl, of x m] check_candidates_empties [of fuel x y]
    transition_nodes_rounds [OF refl, of x m] transition_nodes_empties [of fuel x y]
  ultimately show ?thesis by blast
qed

theorem loops_bounded_witness:
  "let x = (idle_exec (\<lambda>k. if k < 2 then QUEUE_TRANSITION else QUEUE_NONE) [])\<lparr>stateChangeQueue := [0, 1]\<rparr>
   in queues_ok x \<and> transition_nodes 7 x = bindE (transition_node x) transition_node"
proof -
  define x where "x = (idle_exec (\<lambda>k. if k < 2 then QUEUE_TRANSITION else QUEUE_NONE) [])\<lparr>stateChangeQueue := [0, 1]\<rparr>"
  have ok: "queues_ok x"
    by (auto simp: x_def queues_ok_def idle_exec_def idle_node_def transition_status_def pending_status_def
        less_2_cases_iff split: if_splits)
  have "stateChangeQueue x = [0, 1]" by (simp add: x_def)
  with loops_bounded [OF ok, of 5] have "transition_nodes 7 x = forE (\<lambda>_. transition_node) [0, 1 :: nid] x"
    by simp
  then have "transition_nodes 7 x = bindE (transition_node x) transition_node"
    by (cases "transition_node x"; cases "transition_node (projr (transition_node x))") simp_all
  with ok show ?thesis unfolding x_def Let_def by blast
qed

text \<open>
  Property C26. One node that gives up its place hides the rest of the pending queue: when the
  first node of the queue had a change of conditions, whether or not a resource was released
  for it too, and it no longer wants to transition or now wants to go elsewhere than to
  EXECUTING, \<open>resolveResourceConflicts\<close> takes it out (and in the second case appends it to
  the state change queue) and does nothing else. No other pending node is checked or tries to
  acquire its resources in that round, whatever its priority and even if its resources have
  just been released, because the scan continues from the successor of the removed node. The
  status it is left with is \<open>QUEUE_PENDING\<close> if no resource was released for it.
\<close>

theorem resolve_skips_rest:
  assumes "pendingQueue x = k # ks" and "k \<notin> set ks"
    and "queueStatus x k \<in> {QUEUE_PENDING_CHECK, QUEUE_PENDING_TRY_CHECK}"
    and "node_getDestState k x = Inr (b, z)" and "b \<longrightarrow> m_nextState (nodes z k) \<noteq> EXECUTING_STATE"
    and "resourceCheckEligible k x = Inr (e, y)"
  shows "resolveResourceConflicts depth x = Inr y \<and> pendingQueue y = ks \<and>
    stateChangeQueue y = stateChangeQueue x @ (if b then [k] else []) \<and>
    queueStatus y k = (if queueStatus x k = QUEUE_PENDING_CHECK then QUEUE_PENDING
                       else if b then QUEUE_TRANSITION else QUEUE_NONE) \<and>
    (\<forall>j. j \<noteq> k \<longrightarrow> nodes y j = nodes x j)"
proof -
  have z: "pendingQueue z = k # ks" "stateChangeQueue z = stateChangeQueue x" "j \<noteq> k \<Longrightarrow> nodes z j = nodes x j" for j
    using assms(4,1) by (auto simp: node_getDestState_def upd_node_def)
  obtain v w where v: "removePendingNode k z = Inr v"
    and w: "(if b then addStateChangeNode k v else Inr v) = Inr w"
    and y: "y = (if queueStatus x k = QUEUE_PENDING_CHECK then setQueueStatus k QUEUE_PENDING w else w)"
    and e: "\<not> e"
    using assms(3-6) by (cases b) (auto simp: resourceCheckEligible_def)
  have v': "pendingQueue v = ks" "stateChangeQueue v = stateChangeQueue x" "queueStatus v k = QUEUE_NONE"
      "j \<noteq> k \<Longrightarrow> nodes v j = nodes x j" for j
    using removePending_frame [OF v] z by simp_all
  then have y': "pendingQueue y = ks" "stateChangeQueue y = stateChangeQueue x @ (if b then [k] else [])"
      "queueStatus y k = (if queueStatus x k = QUEUE_PENDING_CHECK then QUEUE_PENDING
                          else if b then QUEUE_TRANSITION else QUEUE_NONE)"
      "j \<noteq> k \<Longrightarrow> nodes y j = nodes x j" for j
    using w by (auto simp: y addStateChangeNode_def setQueueStatus_def upd_node_def split: if_splits)
  then have "resolveResourceConflicts depth x = Inr y"
    using assms(1,2,6) e successor_in_absent [of k ks]
    by (cases ks) (simp_all add: resolveResourceConflicts_def)
  with y' show ?thesis by blast
qed

theorem resolve_skips_rest_witness:
  "\<exists>y. resolveResourceConflicts 0
      (idle_exec (\<lambda>k. if k = 0 then QUEUE_PENDING_CHECK else QUEUE_PENDING_TRY) [0, 1]) = Inr y \<and>
    pendingQueue y = [1] \<and> queueStatus y 1 = QUEUE_PENDING_TRY"
proof -
  let ?s = "\<lambda>k. if k = (0::nat) then QUEUE_PENDING_CHECK else QUEUE_PENDING_TRY"
  have s: "queueStatus (idle_exec ?s [0, 1]) 0 = QUEUE_PENDING_CHECK" by (simp add: idle_exec_def idle_node_def)
  obtain y where y: "resourceCheckEligible 0 (idle_exec ?s [0, 1]) = Inr (False, y)"
    by (simp add: resourceCheckEligible_def idle_getDestState s del: One_nat_def)
      (simp add: removePendingNode_def releaseResourceReservations_def setQueueStatus_def
        upd_node_def idle_exec_def idle_node_def remove_waiting_def upd_resource_def)
  with resolve_skips_rest [OF _ _ _ idle_getDestState _ y, of "[1]" 0] show ?thesis
    by (simp add: idle_exec_def idle_node_def)
qed

text \<open>Events that reach a node of the pending queue.\<close>

datatype pending_event = Changed | Released

fun run_event :: "nid \<Rightarrow> pending_event \<Rightarrow> exec \<Rightarrow> exec result" where
  "run_event k Changed x = notify k x"
| "run_event k Released x = Inr (notifyResourceAvailable k x)"

definition recorded :: "bool \<Rightarrow> bool \<Rightarrow> queue_status" where
  "recorded changed released =
     (if released then if changed then QUEUE_PENDING_TRY_CHECK else QUEUE_PENDING_TRY
      else if changed then QUEUE_PENDING_CHECK else QUEUE_PENDING)"

fun accepted :: "bool \<Rightarrow> bool \<Rightarrow> pending_event list \<Rightarrow> bool" where
  "accepted c r [] = True"
| "accepted c r (Changed # es) = (\<not> (c \<and> r) \<and> accepted True r es)"
| "accepted c r (Released # es) = accepted c True es"

lemma setQueueStatus_twice [simp]:
  "setQueueStatus k s (setQueueStatus k t x) = setQueueStatus k s x"
  by (simp add: setQueueStatus_def upd_node_def)

lemma setQueueStatus_same: "queueStatus x k = s \<Longrightarrow> setQueueStatus k s x = x"
  by (auto simp: setQueueStatus_def upd_node_def fun_upd_idem)

lemma pending_event_step:
  "queueStatus x k = recorded c r \<Longrightarrow>
   run_event k e x =
     (if e = Changed \<and> c \<and> r then Inl ErrorMsg
      else Inr (setQueueStatus k (recorded (c \<or> e = Changed) (r \<or> e = Released)) x))"
  by (cases e; cases c; cases r)
    (simp_all add: recorded_def notify_def notifyResourceAvailable_def setQueueStatus_same)

text \<open>
  Notifications of a node in the pending queue and releases of the resources it
  waits for, in any order: they are accepted, and leave the node in the pending queue with
  both recorded, unless a notification arrives when one has already been recorded together
  with a release. That notification is reported as an internal error.
\<close>

theorem pending_events:
  assumes "queueStatus x k = recorded c r"
  shows "forE (run_event k) es x =
     (if accepted c r es
      then Inr (setQueueStatus k (recorded (c \<or> Changed \<in> set es) (r \<or> Released \<in> set es)) x)
      else Inl ErrorMsg)"
  using assms
proof (induction es arbitrary: c r x)
  case Nil
  then show ?case by (simp add: setQueueStatus_same)
next
  case (Cons e es)
  show ?case
    using pending_event_step [OF Cons.prems, of e]
      Cons.IH [of "setQueueStatus k (recorded (c \<or> e = Changed) (r \<or> e = Released)) x"
        "c \<or> e = Changed" "r \<or> e = Released"]
    by (cases e) auto
qed

theorem pending_events_witness:
  "forE (run_event 0) [Changed, Released, Changed] (idle_exec (\<lambda>_. QUEUE_PENDING) [0]) = Inl ErrorMsg \<and>
   forE (run_event 0) [Changed, Changed, Released] (idle_exec (\<lambda>_. QUEUE_PENDING) [0]) =
     Inr (setQueueStatus 0 QUEUE_PENDING_TRY_CHECK (idle_exec (\<lambda>_. QUEUE_PENDING) [0]))"
proof -
  have "queueStatus (idle_exec (\<lambda>_. QUEUE_PENDING) [0]) 0 = recorded False False"
    by (simp add: idle_exec_def idle_node_def recorded_def)
  from pending_events [OF this, of "[Changed, Released, Changed]"]
    pending_events [OF this, of "[Changed, Changed, Released]"]
  show ?thesis by (simp add: recorded_def)
qed

end
