(* ===== verification/Exec_Resources.thy ===== *)
theory Exec_Resources
  imports Exec_System
begin

text \<open>
  How a node acquires the mutexes and the variable it needs, and gives them back: all or
  nothing, and never what another node holds. Then the transition of a node in the executive,
  whose effect on the node's own members is that of \<open>transition_vars\<close>.
\<close>

section \<open>Holders\<close>

abbreviation holder :: "exec \<Rightarrow> resource \<Rightarrow> nid option" where
  "holder x r \<equiv> m_holder (reservables x r)"

abbreviation waiters :: "exec \<Rightarrow> resource \<Rightarrow> nid list" where
  "waiters x r \<equiv> m_waiters (reservables x r)"

lemma available_frame [simp]:
  "reservables (notifyResourceAvailable k x) = reservables x"
  "m_usingMutexes (nodes (notifyResourceAvailable k x) j) = m_usingMutexes (nodes x j)"
  "m_type (nodes (notifyResourceAvailable k x) j) = m_type (nodes x j)"
  "m_assignment (nodes (notifyResourceAvailable k x) j) = m_assignment (nodes x j)"
  by (simp_all add: notifyResourceAvailable_def setQueueStatus_def upd_node_def split: queue_status.splits)

lemma fold_available_frame [simp]:
  "reservables (fold notifyResourceAvailable ks x) = reservables x"
  "m_usingMutexes (nodes (fold notifyResourceAvailable ks x) j) = m_usingMutexes (nodes x j)"
  "m_type (nodes (fold notifyResourceAvailable ks x) j) = m_type (nodes x j)"
  "m_assignment (nodes (fold notifyResourceAvailable ks x) j) = m_assignment (nodes x j)"
  by (induction ks arbitrary: x) simp_all

lemma upd_resource_frame [simp]:
  "nodes (upd_resource r f x) = nodes x"
  "reservables (upd_resource r f x) q = (if q = r then f (reservables x r) else reservables x q)"
  by (simp_all add: upd_resource_def)

lemma waiting_simps [simp]:
  "nodes (add_waiting k r x) = nodes x"
  "holder (add_waiting k r x) q = holder x q"
  "waiters (add_waiting k r x) q = (if q = r then push_back_new k (waiters x q) else waiters x q)"
  by (simp_all add: add_waiting_def)

lemma acquire_resource_simps:
  assumes "acquire_resource k r x = (b, y)"
  shows "b \<longleftrightarrow> holder x r = None" and "nodes y = nodes x"
    and "holder y q = (if q = r \<and> holder x r = None then Some k else holder x q)"
    and "j \<noteq> k \<Longrightarrow> j \<in> set (waiters y q) \<longleftrightarrow> j \<in> set (waiters x q)"
    and "\<not> b \<Longrightarrow> k \<in> set (waiters y r)"
  using assms
  by (auto simp: acquire_resource_def acquire_def Let_def in_set_remove1 split: option.splits if_splits)

lemma release_resource_simps [simp]:
  "m_usingMutexes (nodes (release_resource k r x) j) = m_usingMutexes (nodes x j)"
  "m_type (nodes (release_resource k r x) j) = m_type (nodes x j)"
  "m_assignment (nodes (release_resource k r x) j) = m_assignment (nodes x j)"
  "holder (release_resource k r x) q = (if q = r \<and> holder x r = Some k then None else holder x q)"
  "waiters (release_resource k r x) q = waiters x q"
  by (simp_all add: release_resource_def release_def split: option.splits)

section \<open>Acquisition\<close>

lemma acquire_mutexes_holders:
  "acquire_mutexes depth k ms x = Inr (b, y) \<Longrightarrow>
   nodes y = nodes x \<and>
   (b \<longleftrightarrow> distinct ms \<and> (\<forall>m\<in>set ms. holder x (RMutex m) = None)) \<and>
   (\<forall>q. holder y q = holder x q \<or>
        holder x q = None \<and> holder y q = Some k \<and> (\<exists>m\<in>set ms. q = RMutex m)) \<and>
   (b \<longrightarrow> (\<forall>m\<in>set ms. holder y (RMutex m) = Some k))"
proof (induction ms arbitrary: x)
  case Nil
  then show ?case by simp
next
  case (Cons m ms)
  obtain b1 z where z: "acquire_resource k (RMutex m) x = (b1, z)" by fastforce
  note a = acquire_resource_simps [OF z]
  show ?case
  proof (cases b1)
    case False
    with Cons.prems z have "b = False" "y = z" by (auto simp: Let_def)
    with False a show ?thesis by auto
  next
    case True
    with Cons.prems z have run: "acquire_mutexes depth k ms z = Inr (b, y)" by simp
    note IH = Cons.IH [OF run]
    have hz: "holder z q = (if q = RMutex m then Some k else holder x q)" for q
      using a(1,3) True by auto
    have "b \<longleftrightarrow> distinct ms \<and> (\<forall>j\<in>set ms. holder z (RMutex j) = None)" using IH by blast
    also have "\<dots> \<longleftrightarrow> distinct (m # ms) \<and> (\<forall>j\<in>set (m # ms). holder x (RMutex j) = None)"
      using hz a(1) True by auto
    finally have b: "b \<longleftrightarrow> distinct (m # ms) \<and> (\<forall>j\<in>set (m # ms). holder x (RMutex j) = None)" .
    have y: "holder y q = holder z q \<or>
        holder z q = None \<and> holder y q = Some k \<and> (\<exists>j\<in>set ms. q = RMutex j)" for q
      using IH by blast
    have m: "holder y (RMutex m) = Some k" using y [of "RMutex m"] hz by auto
    have q: "holder y q = holder x q \<or>
        holder x q = None \<and> holder y q = Some k \<and> (\<exists>j\<in>set (m # ms). q = RMutex j)" for q
      using y [of q] hz [of q] a(1) True by (auto split: if_splits)
    have "nodes y = nodes z" and "b \<longrightarrow> (\<forall>j\<in>set ms. holder y (RMutex j) = Some k)" using IH by blast+
    then have nodes: "nodes y = nodes x" and
      all: "b \<longrightarrow> (\<forall>j\<in>set (m # ms). holder y (RMutex j) = Some k)"
      using a(2) m by simp_all
    show ?thesis by (intro conjI allI nodes b q all)
  qed
qed

lemma release_all_simps [simp]:
  "release_all k [] x = x"
  "release_all k (m # ms) x = release_all k ms (add_waiting k (RMutex m)
     (if holder x (RMutex m) = Some k then release_resource k (RMutex m) x else x))"
  by (simp_all add: release_all_def)

lemma release_all_holders:
  "holder (release_all k ms x) q =
     (if holder x q = Some k \<and> (\<exists>m\<in>set ms. q = RMutex m) then None else holder x q)"
proof (induction ms arbitrary: x q)
  case (Cons m ms)
  show ?case
    by (cases "holder x (RMutex m) = Some k"; cases "q = RMutex m") (simp_all add: Cons)
qed simp

lemma release_all_waiters:
  "j \<in> set (waiters (release_all k ms x) q) \<longleftrightarrow>
     j \<in> set (waiters x q) \<or> j = k \<and> (\<exists>m\<in>set ms. q = RMutex m)"
proof (induction ms arbitrary: x q)
  case (Cons m ms)
  show ?case
    by (cases "holder x (RMutex m) = Some k"; cases "q = RMutex m") (auto simp add: Cons)
qed simp

text \<open>What a node needs: its mutexes, and for an assignment node the variable.\<close>

definition needs :: "exec \<Rightarrow> nid \<Rightarrow> resource \<Rightarrow> bool" where
  "needs x k r \<longleftrightarrow> (\<exists>m\<in>set (m_usingMutexes (nodes x k)). r = RMutex m) \<or>
     m_type (nodes x k) = NodeType_Assignment \<and> assignment_variable k x = Inr r"

lemma assignment_variable_not_mutex: "assignment_variable k x \<noteq> Inr (RMutex m)"
  by (simp add: assignment_variable_def split: option.splits expr.splits)

lemma assignment_variable_nodes: "nodes y = nodes x \<Longrightarrow> assignment_variable k y = assignment_variable k x"
  by (simp add: assignment_variable_def)

text \<open>The outcome of the acquisition in terms of the holders before it.\<close>

lemma tryResource_holders:
  assumes run: "tryResourceAcquisition depth k x = Inr (b, y)"
    and dist: "distinct (m_usingMutexes (nodes x k))"
  shows "b \<longleftrightarrow> (\<forall>r. needs x k r \<longrightarrow> holder x r = None)"
    and "b \<Longrightarrow> holder y r = (if needs x k r then Some k else holder x r)"
    and "\<not> b \<Longrightarrow> holder y r = (if (\<exists>m\<in>set (m_usingMutexes (nodes x k)). r = RMutex m) \<and>
            holder x r = Some k then None else holder x r)"
    and "\<not> b \<Longrightarrow> needs x k r \<Longrightarrow> k \<in> set (waiters y r)"
proof -
  let ?ms = "m_usingMutexes (nodes x k)"
  obtain b1 z where z: "acquire_mutexes depth k ?ms x = Inr (b1, z)"
    and rest: "bindE (if m_type (nodes z k) = NodeType_Assignment
            then bindE (assignment_variable k z) (\<lambda>var.
                   if b1 then Inr (acquire_resource k var z) else Inr (False, add_waiting k var z))
            else Inr (b1, z)) (\<lambda>(success, x).
       if \<not> success then Inr (False, release_all k (m_usingMutexes (nodes x k)) x) else Inr (True, x))
       = Inr (b, y)"
    using run by (auto simp: tryResourceAcquisition_def)
  note M = acquire_mutexes_holders [OF z]
  have nz: "nodes z = nodes x" and b1: "b1 \<longleftrightarrow> (\<forall>m\<in>set ?ms. holder x (RMutex m) = None)"
    using M dist by blast+
  have hz: "holder z q = holder x q \<or> holder x q = None \<and> holder z q = Some k \<and> (\<exists>m\<in>set ?ms. q = RMutex m)"
    for q using M by blast
  have hz1: "b1 \<Longrightarrow> holder z q = (if \<exists>m\<in>set ?ms. q = RMutex m then Some k else holder x q)" for q
  proof -
    assume "b1"
    then have "\<forall>m\<in>set ?ms. holder z (RMutex m) = Some k" using M by blast
    then show ?thesis using hz [of q] by (cases "\<exists>m\<in>set ?ms. q = RMutex m") auto
  qed
  obtain b2 w where w: "(if m_type (nodes z k) = NodeType_Assignment
            then bindE (assignment_variable k z) (\<lambda>var.
                   if b1 then Inr (acquire_resource k var z) else Inr (False, add_waiting k var z))
            else Inr (b1, z)) = Inr (b2, w)"
    and y: "(if \<not> b2 then Inr (False, release_all k (m_usingMutexes (nodes w k)) w) else Inr (True, w)) =
      (Inr (b, y) :: (bool \<times> exec) result)"
  proof -
    from rest obtain p where "(if m_type (nodes z k) = NodeType_Assignment
            then bindE (assignment_variable k z) (\<lambda>var.
                   if b1 then Inr (acquire_resource k var z) else Inr (False, add_waiting k var z))
            else Inr (b1, z)) = Inr p"
      and "(case p of (success, x) \<Rightarrow>
         if \<not> success then Inr (False, release_all k (m_usingMutexes (nodes x k)) x) else Inr (True, x)) =
         (Inr (b, y) :: (bool \<times> exec) result)"
      by (rule bindE_InrE) (rule that)
    with that show ?thesis by (cases p) simp
  qed
  have "nodes w = nodes x \<and> (b2 \<longleftrightarrow> (\<forall>r. needs x k r \<longrightarrow> holder x r = None)) \<and>
      (\<forall>q. b2 \<longrightarrow> holder w q = (if needs x k q then Some k else holder x q)) \<and>
      (\<forall>q. \<not> b2 \<longrightarrow> holder w q = holder z q) \<and>
      (\<forall>q. \<not> b2 \<longrightarrow> needs x k q \<longrightarrow> (\<forall>m. q \<noteq> RMutex m) \<longrightarrow> k \<in> set (waiters w q))"
  proof (cases "m_type (nodes x k) = NodeType_Assignment")
    case False
    then have "needs x k q \<longleftrightarrow> (\<exists>m\<in>set ?ms. q = RMutex m)" for q by (simp add: needs_def)
    note needs = this
    have "b2 = b1" and "w = z" using w nz False by simp_all
    moreover have "b1 \<longleftrightarrow> (\<forall>r. needs x k r \<longrightarrow> holder x r = None)" unfolding needs b1 by auto
    moreover have "holder z q = (if needs x k q then Some k else holder x q)" if b1 for q
      unfolding needs using hz1 [OF that] by blast
    moreover have "\<not> needs x k q" if "\<forall>m. q \<noteq> RMutex m" for q unfolding needs using that by blast
    ultimately show ?thesis using nz by blast
  next
    case True
    with w nz obtain v where v: "assignment_variable k x = Inr v"
      and w: "(if b1 then acquire_resource k v z else (False, add_waiting k v z)) = (b2, w)"
      by (auto simp: assignment_variable_nodes [OF nz] split: if_splits)
    have needs: "needs x k q \<longleftrightarrow> (\<exists>m\<in>set ?ms. q = RMutex m) \<or> q = v" for q
      using True v by (auto simp: needs_def)
    have v_not: "v \<noteq> RMutex m" for m using v assignment_variable_not_mutex by auto
    show ?thesis
    proof (cases b1)
      case False
      with w have "b2 = False" and "w = add_waiting k v z" by simp_all
      moreover have "\<not> (\<forall>r. needs x k r \<longrightarrow> holder x r = None)"
        using False b1 needs by blast
      moreover have "q = v" if "needs x k q" "\<forall>m. q \<noteq> RMutex m" for q using that needs by blast
      ultimately show ?thesis using nz by auto
    next
      case True
      with w have acq: "acquire_resource k v z = (b2, w)" by simp
      note A = acquire_resource_simps [OF acq]
      have hv: "holder z v = holder x v" using hz1 [OF True, of v] v_not by auto
      have "b2 \<longleftrightarrow> (\<forall>r. needs x k r \<longrightarrow> holder x r = None)"
        using A(1) hv b1 True needs by auto
      moreover have "holder w q = (if needs x k q then Some k else holder x q)" if b2 for q
        using A(1) A(3) [of q] that hz1 [OF True, of q] needs [of q] by auto
      moreover have "holder w q = holder z q" if "\<not> b2" for q
        using A(1) A(3) [of q] that by auto
      moreover have "k \<in> set (waiters w q)" if "\<not> b2" "needs x k q" "\<forall>m. q \<noteq> RMutex m" for q
        using A(5) [OF that(1)] that(2,3) needs by blast
      ultimately show ?thesis using A(2) nz by auto
    qed
  qed
  then have nw: "nodes w = nodes x" and b2: "b2 \<longleftrightarrow> (\<forall>r. needs x k r \<longrightarrow> holder x r = None)"
    and hw: "\<And>q. b2 \<Longrightarrow> holder w q = (if needs x k q then Some k else holder x q)"
    "\<And>q. \<not> b2 \<Longrightarrow> holder w q = holder z q"
    and ww: "\<And>q. \<not> b2 \<Longrightarrow> needs x k q \<Longrightarrow> (\<forall>m. q \<noteq> RMutex m) \<Longrightarrow> k \<in> set (waiters w q)" by blast+
  have b: "b = b2" and yw: "b2 \<Longrightarrow> y = w" "\<not> b2 \<Longrightarrow> y = release_all k ?ms w"
    using y nw by (auto split: if_splits)
  show "b \<longleftrightarrow> (\<forall>r. needs x k r \<longrightarrow> holder x r = None)" using b b2 by simp
  show "holder y r = (if needs x k r then Some k else holder x r)" if b
    using that b yw hw by simp
  show "holder y r = (if (\<exists>m\<in>set ?ms. r = RMutex m) \<and> holder x r = Some k then None else holder x r)"
    if "\<not> b"
    using that b yw(2) hw(2) [of r] hz [of r] by (auto simp: release_all_holders)
  show "k \<in> set (waiters y r)" if "\<not> b" "needs x k r"
  proof (cases "\<exists>m\<in>set ?ms. r = RMutex m")
    case True
    then show ?thesis using that b yw(2) by (simp add: release_all_waiters)
  next
    case False
    then have "\<forall>m. r \<noteq> RMutex m" using that(2) assignment_variable_not_mutex by (auto simp: needs_def)
    then show ?thesis using that b yw(2) ww by (simp add: release_all_waiters)
  qed
qed

section \<open>Transitions\<close>

text \<open>Nothing but a node's own transition or \<open>getDestState\<close> changes its members.\<close>

definition vars_kept :: "nid set \<Rightarrow> (nid \<Rightarrow> node_vars) \<Rightarrow> exec \<Rightarrow> bool" where
  "vars_kept F V x \<longleftrightarrow> (\<forall>k\<in>F. vars_of x k = V k)"

lemma vars_set_queue [simp]:
  "vars_of (addCandidateNode k x) = vars_of x"
  "vars_of (notifyResourceAvailable k x) j = vars_of x j"
  by (simp_all add: addCandidateNode_def vars_of_def fun_eq_iff notifyResourceAvailable_def
      setQueueStatus_def upd_node_def split: queue_status.splits)

lemma vars_kept_frame: "vars_kept F V x \<Longrightarrow> same_queues F x y \<Longrightarrow> vars_kept F V y"
  by (simp add: vars_kept_def same_queues_def)

lemma vars_kept_notify: "preserves (vars_kept F V) (notify k)"
  by (rule preservesI) (auto simp: vars_kept_def notify_def split: queue_status.splits)

lemma vars_kept_available: "vars_kept F V x \<Longrightarrow> vars_kept F V (notifyResourceAvailable k x)"
  by (simp add: vars_kept_def)

lemma vars_kept_finished: "preserves (vars_kept F V) (addFinishedRootNode k)"
  by (rule preservesI)
    (auto simp: vars_kept_def addFinishedRootNode_def Let_def split: queue_status.splits)

interpretation kept: exec_invariant "vars_kept F V" F
  by unfold_locales
    (auto intro: vars_kept_frame vars_kept_notify vars_kept_available vars_kept_finished)

lemma keptD:
  assumes "preserves (vars_kept {k} (\<lambda>_. v)) f" and "f x = Inr y" and "vars_of x k = v"
  shows "vars_of y k = v"
  using preservesD [OF assms(1) _ assms(2)] assms(3) by (simp add: vars_kept_def)

lemma vars_upd_node:
  "vars_of (upd_node k f x) k = node_vars.truncate (f (nodes x k))"
  by (simp add: vars_of_def upd_node_def)

lemma reset_reset [simp]: "reset (reset n) = reset n"
  by (simp add: reset_def)

lemma run_calls_vars:
  "run_calls k cs x = Inr y \<Longrightarrow>
   vars_of y k = (if ResetNode \<in> set cs then reset (vars_of x k) else vars_of x k)"
proof (induction cs arbitrary: x)
  case Nil
  then show ?case by (simp add: run_calls_def)
next
  case (Cons c cs)
  from Cons.prems obtain z where z: "run_call k c x = Inr z" and y: "run_calls k cs z = Inr y"
    by (auto simp: run_calls_def)
  show ?case
  proof (cases "c = ResetNode")
    case True
    with z have "vars_of z k = reset (vars_of x k)"
      by (auto simp: vars_upd_node vars_of_def [of x] reset_def)
    with Cons.IH [OF y] True show ?thesis by simp
  next
    case False
    then have "vars_of z k = vars_of x k"
      using keptD [OF kept.run_call_inv z] by blast
    with Cons.IH [OF y] False show ?thesis by simp
  qed
qed

lemma setState_Node_vars:
  assumes "setState_Node k st x = Inr y"
  shows "vars_of y k = (vars_of x k)\<lparr>m_state := st\<rparr>"
proof (cases "st = m_state (nodes x k)")
  case True
  with assms show ?thesis by (simp add: setState_Node_def vars_of_def)
next
  case False
  let ?x = "upd_node k (\<lambda>n. n\<lparr>m_state := st\<rparr>) x"
  have v: "vars_of ?x k = (vars_of x k)\<lparr>m_state := st\<rparr>"
    by (simp add: vars_of_def upd_node_def)
  from False assms consider "addFinishedRootNode k ?x = Inr y" | "notify k ?x = Inr y"
    unfolding setState_Node_def Let_def by (metis (full_types))
  then show ?thesis
  proof cases
    case 1
    show ?thesis using keptD [OF vars_kept_finished 1] v by simp
  next
    case 2
    show ?thesis using keptD [OF vars_kept_notify 2] v by simp
  qed
qed

lemma setState_vars:
  assumes "setState k st x = Inr y"
  shows "vars_of y k = (vars_of x k)\<lparr>m_state := st\<rparr>"
proof -
  from assms obtain z where z: "setState_Node k st x = Inr z"
    and y: "(if is_list (m_type (nodes z k))
       then (case st of
               WAITING_STATE \<Rightarrow> notify_children k FINISHED_STATE z
             | EXECUTING_STATE \<Rightarrow> notify_children k INACTIVE_STATE z
             | FINISHED_STATE \<Rightarrow> notify_children k INACTIVE_STATE z
             | _ \<Rightarrow> Inr z) else Inr z) = Inr y"
    unfolding setState_def by (rule bindE_InrE)
  have "preserves (vars_kept {k} (\<lambda>_. vars_of z k)) (\<lambda>z. if is_list (m_type (nodes z k))
       then (case st of
               WAITING_STATE \<Rightarrow> notify_children k FINISHED_STATE z
             | EXECUTING_STATE \<Rightarrow> notify_children k INACTIVE_STATE z
             | FINISHED_STATE \<Rightarrow> notify_children k INACTIVE_STATE z
             | _ \<Rightarrow> Inr z) else Inr z)"
    by (cases st; simp only: node_state.case; intro preserves_if kept.notify_children_inv preserves_skip)
  from keptD [OF this y] setState_Node_vars [OF z] show ?thesis by simp
qed

lemma set_outcome_vars:
  "m_state (vars_of x k) = m_nextState (vars_of x k) \<Longrightarrow>
   vars_of (set_outcome k x) k = record_next (vars_of x k)"
  by (simp add: set_outcome_def vars_of_def upd_node_def record_next_def Let_def)

lemma clear_next_vars: "vars_of (upd_node k clear_next x) k = clear_next (vars_of x k)"
  by (simp add: vars_of_def upd_node_def clear_next_def)

lemma record_next_state: "record_next (v\<lparr>m_state := m_nextState v\<rparr>) = record_next v"
  by (simp add: record_next_def Let_def)

lemma transition_vars_exec:
  assumes run: "transition k x = Inr y"
  shows "vars_of y k = transition_vars (m_type (nodes x k)) (vars_of x k)"
proof (cases "m_nextState (nodes x k) = m_state (nodes x k)")
  case True
  with run show ?thesis by (simp add: transition_def transition_vars_def vars_of_def)
next
  case False
  let ?ty = "m_type (nodes x k)" and ?st = "m_state (nodes x k)" and ?nx = "m_nextState (nodes x k)"
  from False run have "seqs
        [run_calls k (transitionFrom ?ty ?st ?nx), run_calls k (transitionTo ?ty ?st ?nx), setState k ?nx,
         \<lambda>x. Inr (set_outcome k x),
         \<lambda>x. if ?nx = EXECUTING_STATE then specializedHandleExecution k x else Inr x,
         \<lambda>x. Inr (upd_node k clear_next x), net_op (node_publishChange k)] x = Inr y"
    by (simp add: transition_def Let_def)
  then obtain a b c d where a: "run_calls k (transitionFrom ?ty ?st ?nx) x = Inr a"
    and b: "run_calls k (transitionTo ?ty ?st ?nx) a = Inr b"
    and c: "setState k ?nx b = Inr c"
    and d: "(if ?nx = EXECUTING_STATE then specializedHandleExecution k (set_outcome k c)
             else Inr (set_outcome k c)) = Inr d"
    and y: "net_op (node_publishChange k) (upd_node k clear_next d) = Inr y"
    by (auto split del: if_split)
  let ?v = "vars_of x k" and ?R = "ResetNode \<in> set (transition_calls ?ty ?st ?nx)"
  have vb: "vars_of b k = (if ?R then reset ?v else ?v)"
    using run_calls_vars [OF a] run_calls_vars [OF b] by (auto simp: transition_calls_def)
  have nx: "m_nextState (vars_of b k) = ?nx"
    unfolding vb by (simp add: reset_def vars_of_def)
  have vc: "vars_of c k = (vars_of b k)\<lparr>m_state := ?nx\<rparr>" by (rule setState_vars [OF c])
  have "vars_of (set_outcome k c) k = record_next (vars_of b k)"
    using set_outcome_vars [of c k] record_next_state [of "vars_of b k"] nx by (simp add: vc)
  moreover have "vars_of d k = vars_of (set_outcome k c) k"
    using d keptD [OF kept.execution_inv, of k _ d] by (metis Inr_inject)
  moreover have "vars_of y k = vars_of (upd_node k clear_next d) k"
    using keptD [OF kept.net_op_inv y] by simp
  ultimately have "vars_of y k = clear_next (record_next (if ?R then reset ?v else ?v))"
    by (simp add: clear_next_vars vb del: node_vars.truncate_def)
  then show ?thesis using False by (simp add: transition_vars_def vars_of_def)
qed

section \<open>Properties\<close>

text \<open>
  Property C3. Resources are acquired all or none: a node that holds nothing of what it needs
  acquires its mutexes, and its variable if it is an assignment node, exactly if all of them
  are free, and then holds them all; otherwise it holds none of them afterwards and waits
  for every one of them. Either way what other nodes hold, they keep.
\<close>

theorem acquisition_all_or_none:
  assumes "tryResourceAcquisition depth k x = Inr (b, y)"
    and "distinct (m_usingMutexes (nodes x k))" and "\<forall>r. needs x k r \<longrightarrow> holder x r \<noteq> Some k"
  shows "(b \<longleftrightarrow> (\<forall>r. needs x k r \<longrightarrow> holder x r = None)) \<and>
         (b \<longrightarrow> (\<forall>r. holder y r = (if needs x k r then Some k else holder x r))) \<and>
         (\<not> b \<longrightarrow> (\<forall>r. holder y r = holder x r \<and> (needs x k r \<longrightarrow> k \<in> set (waiters y r))))"
proof -
  note t = tryResource_holders [OF assms(1,2)]
  have "holder y r = holder x r" if "\<not> b" for r
    using t(3) [OF that, of r] assms(3) by (auto simp: needs_def)
  with t(1,2,4) show ?thesis by blast
qed

theorem acquisition_all_or_none_witness:
  "\<exists>y z. tryResourceAcquisition 0 0 (idle_exec (\<lambda>_. QUEUE_NONE) []) = Inr (True, y) \<and>
     holder y (RMutex 0) = Some 0 \<and>
     tryResourceAcquisition 0 1 y = Inr (False, z) \<and> holder z (RMutex 0) = Some 0 \<and>
     1 \<in> set (waiters z (RMutex 0))"
proof -
  let ?x = "idle_exec (\<lambda>_. QUEUE_NONE) []"
  obtain y where y: "tryResourceAcquisition 0 0 ?x = Inr (True, y)" and ny: "nodes y = nodes ?x"
    by (simp add: tryResourceAcquisition_def idle_exec_def idle_node_def acquire_resource_def
        acquire_def new_reservable_def upd_resource_def Let_def)
  have n: "needs ?x j r \<longleftrightarrow> r = RMutex 0" for j r
    by (simp add: needs_def idle_exec_def idle_node_def)
  then have n': "needs y j r \<longleftrightarrow> r = RMutex 0" for j r
    using assignment_variable_nodes [OF ny] by (simp add: needs_def ny)
  have h: "holder ?x r = None" for r by (simp add: idle_exec_def new_reservable_def)
  have "distinct (m_usingMutexes (nodes ?x j))" for j by (simp add: idle_exec_def idle_node_def)
  note d = this this [folded ny]
  have hy: "holder y (RMutex 0) = Some 0"
    using acquisition_all_or_none [OF y d(1)] n h by simp
  obtain b z where z: "tryResourceAcquisition 0 1 y = Inr (b, z)"
    using hy by (auto simp: tryResourceAcquisition_def acquire_resource_def acquire_def Let_def ny
        idle_exec_def idle_node_def)
  have "\<not> b \<and> holder z (RMutex 0) = Some 0 \<and> 1 \<in> set (waiters z (RMutex 0))"
    using acquisition_all_or_none [OF z d(2)] n' hy by auto
  with y z hy show ?thesis by auto
qed

text \<open>
  Property C4. The transition of a node in the executive does to the node's own state,
  outcome, failure type and pending members what \<open>transition_vars\<close> describes, whatever the
  scripts of its node type do to its conditions, variables, command, resources and the
  network, and does not touch those members of any other node.
\<close>

theorem transition_refines:
  assumes "transition k x = Inr y"
  shows "vars_of y j =
    (if j = k then transition_vars (m_type (nodes x k)) (vars_of x k) else vars_of x j)"
proof (cases "j = k")
  case True
  with transition_vars_exec [OF assms] show ?thesis by simp
next
  case False
  then have "preserves (vars_kept {j} (\<lambda>_. vars_of x j)) (transition k)"
    by (intro kept.transition_inv) simp
  from keptD [OF this assms] False show ?thesis by simp
qed

theorem transition_refines_witness:
  "\<exists>y. transition 0 (idle_exec (\<lambda>_. QUEUE_NONE) []) = Inr y \<and>
     m_state (vars_of y 0) = EXECUTING_STATE \<and> m_nextState (vars_of y 0) = NO_NODE_STATE \<and>
     m_state (vars_of y 1) = WAITING_STATE"
proof -
  let ?x = "idle_exec (\<lambda>_. QUEUE_NONE) []"
  obtain y where y: "transition 0 ?x = Inr y"
    by (simp add: transition_def Let_def idle_defs transitionFrom_def transitionTo_def script_defs
        run_calls_def own_condition_def activate_opt_def deactivate_opt_def activate_expr_def
        deactivate_expr_def net_op_def setState_def setState_Node_def upd_node_def is_list_def
        notify_def addCandidateNode_def setQueueStatus_def set_outcome_def
        specializedHandleExecution_def clear_next_def node_publishChange_def notify_listeners_def)
  have "m_type (nodes ?x 0) = NodeType_Empty" and "vars_of ?x j = \<lparr>m_state = WAITING_STATE,
      m_outcome = NO_OUTCOME, m_failureType = NO_FAILURE, m_nextState = EXECUTING_STATE,
      m_nextOutcome = NO_OUTCOME, m_nextFailureType = NO_FAILURE\<rparr>" for j
    by (simp_all add: idle_defs vars_of_def)
  with transition_refines [OF y, of 0] transition_refines [OF y, of 1] y show ?thesis
    by (simp add: transition_vars_def record_next_def clear_next_def reset_def Let_def)
qed

end
