(* ===== verification/Resource_Arbiter.thy ===== *)
theory Resource_Arbiter
  imports Prelude "HOL-Library.List_Lexorder" "HOL-Library.Char_ord" "HOL-Library.Multiset" "HOL-Library.Sublist"
begin

text \<open>
  The command resource arbiter, src/src/intfc/ResourceArbiterInterface.cc: it decides which of
  the commands of a step may be executed, given the resources each requests, the hierarchy of
  resources, and what is allocated already. Resource amounts are \<open>double\<close> in the code; the
  definitions are over any type with the operators they use, and so are the theorems here:
  nothing is assumed of the arithmetic except in the locale \<open>rounded_sums\<close>, the laws of which
  hold of sums that are rounded. Arbiter_Levels interprets it on doubles.
  Reading the hierarchy file and the debug output are not modelled.
\<close>

section \<open>Data\<close>

record 'w child_resource =
  cr_name :: string
  cr_weight :: 'w
  cr_release :: bool

record 'w resource_node =
  rn_children :: "'w child_resource list"
  maxConsumableValue :: 'w

type_synonym 'w hierarchy = "string \<rightharpoonup> 'w resource_node"

text \<open>\<open>ResourceValue\<close> of CommandImpl.hh.\<close>

record 'w resource_value =
  rv_name :: string
  rv_upperBound :: 'w
  rv_priority :: int
  rv_releaseAtTermination :: bool

text \<open>
  \<open>ResourceSet\<close>, a \<open>std::set\<close> ordered by name: a list in order of names without repetition.
  Inserting an element whose name is present changes nothing.
\<close>

type_synonym 'w resource_set = "'w child_resource list"

fun set_insert :: "'w child_resource \<Rightarrow> 'w resource_set \<Rightarrow> 'w resource_set" where
  "set_insert x [] = [x]"
| "set_insert x (y # ys) =
     (if cr_name x < cr_name y then x # y # ys
      else if cr_name x = cr_name y then y # ys
      else y # set_insert x ys)"

definition set_find :: "'w child_resource \<Rightarrow> 'w resource_set \<Rightarrow> bool" where
  "set_find x s \<longleftrightarrow> cr_name x \<in> cr_name ` set s"

type_synonym cmd = nat

record 'w command_entry =
  ce_resources :: "'w resource_set"
  ce_command :: cmd
  ce_priority :: int

record 'w estimate =
  renewable :: 'w
  consumable :: 'w

record 'w arbiter =
  m_resourceHierarchy :: "'w hierarchy"
  m_allocated :: "string \<rightharpoonup> 'w"
  m_cmdResMap :: "cmd \<rightharpoonup> 'w resource_set"

section \<open>Requirements of a command\<close>

text \<open>
  The descendants of a resource, in depth-first order. The recursion ends only if the
  hierarchy has no cycle below the resource; the depth bounds it here.
\<close>

fun determineChildResources :: "nat \<Rightarrow> 'w hierarchy \<Rightarrow> string \<Rightarrow> bool \<Rightarrow> 'w child_resource list result"
and determineEach :: "nat \<Rightarrow> 'w hierarchy \<Rightarrow> 'w child_resource list \<Rightarrow> bool \<Rightarrow> 'w child_resource list result"
where
  "determineChildResources 0 h resName release = Inl OutOfFuel"
| "determineChildResources (Suc depth) h resName release =
     (case h resName of
        None \<Rightarrow> Inr []
      | Some node \<Rightarrow> determineEach depth h (rn_children node) release)"
| "determineEach depth h [] release = Inr []"
| "determineEach depth h (child # cs) release =
     bindE (determineChildResources depth h (cr_name child) release) (\<lambda>below.
     bindE (determineEach depth h cs release) (\<lambda>rest.
     Inr (child\<lparr>cr_release := release\<rparr> # below @ rest)))"

definition determineAllChildResources ::
  "nat \<Rightarrow> 'w hierarchy \<Rightarrow> 'w resource_value \<Rightarrow> 'w resource_set \<Rightarrow> 'w resource_set result" where
  "determineAllChildResources depth h request resourcesNeeded =
     bindE (determineChildResources depth h (rv_name request) (rv_releaseAtTermination request)) (\<lambda>below.
     Inr (fold (\<lambda>fres needed.
            if \<not> set_find fres needed then set_insert fres needed
            else if cr_name fres = rv_name request then set_insert fres needed
            else needed)
          (\<lparr>cr_name = rv_name request, cr_weight = rv_upperBound request,
            cr_release = rv_releaseAtTermination request\<rparr> # below) resourcesNeeded))"

fun requirements :: "nat \<Rightarrow> 'w hierarchy \<Rightarrow> 'w resource_value list \<Rightarrow> 'w resource_set \<Rightarrow> 'w resource_set result" where
  "requirements depth h [] s = Inr s"
| "requirements depth h (r # rs) s =
     bindE (determineAllChildResources depth h r s) (requirements depth h rs)"

text \<open>
  The commands without requests, and the others with their requirements, in order of
  priority (\<open>std::stable_sort\<close> is \<open>sort_key\<close>).
\<close>

fun partition_loop :: "nat \<Rightarrow> 'w hierarchy \<Rightarrow> (cmd \<times> 'w resource_value list) list \<Rightarrow>
    (cmd list \<times> 'w command_entry list) result" where
  "partition_loop depth h [] = Inr ([], [])"
| "partition_loop depth h ((c, resList) # cmds) =
     (case resList of
        [] \<Rightarrow> bindE (partition_loop depth h cmds) (\<lambda>(accept, entries). Inr (c # accept, entries))
      | r # _ \<Rightarrow>
          bindE (requirements depth h resList []) (\<lambda>resources.
          bindE (partition_loop depth h cmds) (\<lambda>(accept, entries).
          Inr (accept, \<lparr>ce_resources = resources, ce_command = c, ce_priority = rv_priority r\<rparr> # entries))))"

definition partitionCommands :: "nat \<Rightarrow> 'w hierarchy \<Rightarrow> (cmd \<times> 'w resource_value list) list \<Rightarrow>
    (cmd list \<times> 'w command_entry list) result" where
  "partitionCommands depth h cmds =
     bindE (partition_loop depth h cmds) (\<lambda>(accept, entries). Inr (accept, sort_key ce_priority entries))"

section \<open>Arbitration\<close>

definition maxConsumableResourceValue :: "('w::one) arbiter \<Rightarrow> string \<Rightarrow> 'w" where
  "maxConsumableResourceValue a resName =
     (case m_resourceHierarchy a resName of Some node \<Rightarrow> maxConsumableValue node | None \<Rightarrow> 1)"

text \<open>\<open>m_allocated[name]\<close>, which creates the entry with the value 0 when there is none.\<close>

definition allocated :: "('w::zero) arbiter \<Rightarrow> string \<Rightarrow> 'w" where
  "allocated a name = (case m_allocated a name of Some v \<Rightarrow> v | None \<Rightarrow> 0)"

definition prepare_one :: "('w::zero) child_resource \<Rightarrow> (string \<rightharpoonup> 'w estimate) \<times> 'w arbiter \<Rightarrow>
    (string \<rightharpoonup> 'w estimate) \<times> 'w arbiter" where
  "prepare_one res = (\<lambda>(estimates, a).
     let value = allocated a (cr_name res);
         a = a\<lparr>m_allocated := (m_allocated a)(cr_name res \<mapsto> value)\<rparr>
     in (estimates(cr_name res \<mapsto> \<lparr>renewable = value, consumable = value\<rparr>), a))"

definition prepare :: "('w::zero) command_entry list \<Rightarrow> 'w arbiter \<Rightarrow> (string \<rightharpoonup> 'w estimate) \<times> 'w arbiter" where
  "prepare entries a =
     fold (\<lambda>entry s. fold prepare_one (ce_resources entry) s) entries (Map.empty, a)"

definition estimate_of :: "(string \<rightharpoonup> ('w::zero) estimate) \<Rightarrow> string \<Rightarrow> 'w estimate" where
  "estimate_of estimates name =
     (case estimates name of Some e \<Rightarrow> e | None \<Rightarrow> \<lparr>renewable = 0, consumable = 0\<rparr>)"

text \<open>The loop over the requests of a command; \<open>None\<close> when it is left with \<open>invalid\<close> set.\<close>

fun check_requests :: "'w arbiter \<Rightarrow> ('w::{zero,one,plus,ord}) child_resource list \<Rightarrow>
    (string \<rightharpoonup> 'w estimate) \<Rightarrow> (string \<rightharpoonup> 'w estimate) option" where
  "check_requests a [] estimates = Some estimates"
| "check_requests a (res # rs) estimates =
     (let est = estimate_of estimates (cr_name res);
          est = (if cr_weight res < 0 then est\<lparr>renewable := renewable est + cr_weight res\<rparr>
                 else est\<lparr>consumable := consumable est + cr_weight res\<rparr>);
          resMax = maxConsumableResourceValue a (cr_name res)
      in if renewable est < 0 \<or> resMax < renewable est then None
         else if consumable est < 0 \<or> resMax < consumable est then None
         else check_requests a rs (estimates(cr_name res \<mapsto> est)))"

definition allocate :: "('w::{zero,plus}) child_resource \<Rightarrow> 'w arbiter \<Rightarrow> 'w arbiter" where
  "allocate res a =
     a\<lparr>m_allocated := (m_allocated a)(cr_name res \<mapsto> allocated a (cr_name res) + cr_weight res)\<rparr>"

fun arbitrate_loop :: "('w::{zero,one,plus,ord}) command_entry list \<Rightarrow> (string \<rightharpoonup> 'w estimate) \<Rightarrow>
    'w arbiter \<Rightarrow> cmd list \<times> cmd list \<times> 'w arbiter" where
  "arbitrate_loop [] estimates a = ([], [], a)"
| "arbitrate_loop (entry # entries) estimates a =
     (case check_requests a (ce_resources entry) estimates of
        None \<Rightarrow>
          (let (acc, rej, a) = arbitrate_loop entries estimates a
           in (acc, ce_command entry # rej, a))
      | Some estimates \<Rightarrow>
          (let a = a\<lparr>m_cmdResMap := (m_cmdResMap a)(ce_command entry \<mapsto> ce_resources entry)\<rparr>;
               a = fold allocate (ce_resources entry) a;
               (acc, rej, a) = arbitrate_loop entries estimates a
           in (ce_command entry # acc, rej, a)))"

definition optimalResourceArbitration ::
  "('w::{zero,one,plus,ord}) command_entry list \<Rightarrow> 'w arbiter \<Rightarrow> cmd list \<times> cmd list \<times> 'w arbiter" where
  "optimalResourceArbitration entries a =
     (let (estimates, a) = prepare entries a in arbitrate_loop entries estimates a)"

definition arbitrateCommands ::
  "nat \<Rightarrow> (cmd \<times> ('w::{zero,one,plus,ord}) resource_value list) list \<Rightarrow> 'w arbiter \<Rightarrow>
   (cmd list \<times> cmd list \<times> 'w arbiter) result" where
  "arbitrateCommands depth cmds a =
     bindE (partitionCommands depth (m_resourceHierarchy a) cmds) (\<lambda>(accept, sorted).
       let (acc, rej, a) = optimalResourceArbitration sorted a in Inr (accept @ acc, rej, a))"

text \<open>The comparison \<open>== 0.0\<close> of doubles is written with \<open>\<le>\<close>; it is true of both zeros.\<close>

definition release_one :: "('w::{zero,minus,ord}) child_resource \<Rightarrow> 'w arbiter \<Rightarrow> 'w arbiter" where
  "release_one res a =
     (if cr_release res
      then (let v = allocated a (cr_name res) - cr_weight res in
            a\<lparr>m_allocated := (m_allocated a)(cr_name res := if v \<le> 0 \<and> 0 \<le> v then None else Some v)\<rparr>)
      else a)"

definition releaseResourcesForCommand :: "cmd \<Rightarrow> ('w::{zero,minus,ord}) arbiter \<Rightarrow> 'w arbiter" where
  "releaseResourcesForCommand cmd a =
     (case m_cmdResMap a cmd of
        None \<Rightarrow> a
      | Some resources \<Rightarrow>
          (fold release_one resources a)\<lparr>m_cmdResMap := (m_cmdResMap a)(cmd := None)\<rparr>)"

section \<open>The sets of requirements\<close>

text \<open>The keys of a resource set, and the element a name maps to.\<close>

definition names :: "'w resource_set \<Rightarrow> string list" where
  "names s = map cr_name s"

definition lookup :: "'w resource_set \<Rightarrow> string \<rightharpoonup> 'w child_resource" where
  "lookup s n = find (\<lambda>x. cr_name x = n) s"

definition ordered :: "'w resource_set \<Rightarrow> bool" where
  "ordered s \<longleftrightarrow> sorted_wrt (<) (names s)"

lemma names_simps [simp]: "names [] = []" "names (x # s) = cr_name x # names s"
  by (simp_all add: names_def)

lemma lookup_simps [simp]:
  "lookup [] n = None"
  "lookup (x # s) n = (if cr_name x = n then Some x else lookup s n)"
  by (simp_all add: lookup_def)

lemma set_names: "set (names s) = cr_name ` set s"
  by (simp add: names_def)

lemma lookup_None: "lookup s n = None \<longleftrightarrow> n \<notin> set (names s)"
  by (induction s) auto

lemma ordered_distinct: "ordered s \<Longrightarrow> distinct (names s)"
  by (simp add: ordered_def strict_sorted_iff)

lemma set_names_insert: "set (names (set_insert x s)) = insert (cr_name x) (set (names s))"
  by (induction s) auto

lemma ordered_set_insert: "ordered s \<Longrightarrow> ordered (set_insert x s)"
  by (induction s) (auto simp: ordered_def set_names_insert)

lemma lookup_set_insert:
  "ordered s \<Longrightarrow>
   lookup (set_insert x s) n = (if n \<in> set (names s) then lookup s n
                                else if n = cr_name x then Some x else None)"
  by (induction s) (auto simp: ordered_def lookup_None)

definition insert_needed :: "string \<Rightarrow> 'w child_resource \<Rightarrow> 'w resource_set \<Rightarrow> 'w resource_set" where
  "insert_needed requestName fres needed =
     (if \<not> set_find fres needed then set_insert fres needed
      else if cr_name fres = requestName then set_insert fres needed
      else needed)"

lemma insert_needed_spec:
  assumes "ordered s"
  shows "ordered (insert_needed r x s)"
    and "lookup (insert_needed r x s) n = (if n \<in> set (names s) then lookup s n
                                          else if n = cr_name x then Some x else None)"
    and "set (names (insert_needed r x s)) = insert (cr_name x) (set (names s))"
  using assms
  by (auto simp: insert_needed_def ordered_set_insert lookup_set_insert set_names_insert
      set_find_def lookup_None set_names [symmetric])

lemma fold_insert_needed:
  assumes "ordered s"
  shows "ordered (fold (insert_needed r) xs s)
       \<and> (\<forall>n. lookup (fold (insert_needed r) xs s) n =
               (if n \<in> set (names s) then lookup s n else lookup xs n))
       \<and> set (names (fold (insert_needed r) xs s)) = set (names xs) \<union> set (names s)"
  using assms
proof (induction xs arbitrary: s)
  case Nil
  then show ?case by (simp add: lookup_None)
next
  case (Cons x xs)
  show ?case using Cons.IH [OF insert_needed_spec(1) [OF Cons.prems], of r x]
    by (auto simp: insert_needed_spec [OF Cons.prems])
qed

lemma determineAllChildResources_eq:
  "determineAllChildResources depth h request s =
     bindE (determineChildResources depth h (rv_name request) (rv_releaseAtTermination request))
       (\<lambda>below. Inr (fold (insert_needed (rv_name request))
          (\<lparr>cr_name = rv_name request, cr_weight = rv_upperBound request,
            cr_release = rv_releaseAtTermination request\<rparr> # below) s))"
  by (simp add: determineAllChildResources_def insert_needed_def [abs_def])

lemma requirements_ordered:
  "requirements depth h rs s = Inr s' \<Longrightarrow> ordered s \<Longrightarrow> ordered s'"
proof (induction rs arbitrary: s)
  case (Cons r rs)
  from Cons.prems(1) obtain t where
    t: "determineAllChildResources depth h r s = Inr t" and "requirements depth h rs t = Inr s'"
    by auto
  moreover have "ordered t"
    using t Cons.prems(2) fold_insert_needed [OF Cons.prems(2)]
    unfolding determineAllChildResources_eq by (elim bindE_InrE) (metis sum.inject(2))
  ultimately show ?case using Cons.IH by blast
qed simp

text \<open>The requested resource followed by its descendants (\<open>flattenedRes\<close>).\<close>

definition flattened :: "nat \<Rightarrow> 'w hierarchy \<Rightarrow> 'w resource_value \<Rightarrow> 'w child_resource list result" where
  "flattened depth h request =
     bindE (determineChildResources depth h (rv_name request) (rv_releaseAtTermination request))
       (\<lambda>below. Inr (\<lparr>cr_name = rv_name request, cr_weight = rv_upperBound request,
                      cr_release = rv_releaseAtTermination request\<rparr> # below))"

lemma determineAllChildResources_flattened:
  "determineAllChildResources depth h request s =
     bindE (flattened depth h request) (\<lambda>f. Inr (fold (insert_needed (rv_name request)) f s))"
  by (simp add: determineAllChildResources_eq flattened_def bindE_assoc)

lemma names_append [simp]: "names (xs @ ys) = names xs @ names ys"
  by (simp add: names_def)

lemma lookup_append: "lookup (xs @ ys) n = (if n \<in> set (names xs) then lookup xs n else lookup ys n)"
  by (induction xs) auto

lemma requirements_spec:
  assumes "requirements depth h rs s = Inr s'" and "ordered s"
  shows "\<exists>fs. list_all2 (\<lambda>r f. flattened depth h r = Inr f) rs fs \<and>
    (\<forall>n. lookup s' n = (if n \<in> set (names s) then lookup s n else lookup (concat fs) n)) \<and> ordered s'"
  using assms
proof (induction rs arbitrary: s)
  case Nil
  then show ?case by (auto simp: lookup_None)
next
  case (Cons r rs)
  from Cons.prems(1) obtain f where f: "flattened depth h r = Inr f"
    and rest: "requirements depth h rs (fold (insert_needed (rv_name r)) f s) = Inr s'"
    by (auto simp: determineAllChildResources_flattened)
  note ins = fold_insert_needed [OF Cons.prems(2), of "rv_name r" f]
  from Cons.IH [OF rest] ins obtain fs where
    fs: "list_all2 (\<lambda>r f. flattened depth h r = Inr f) rs fs" "ordered s'"
    and look: "lookup s' n = (if n \<in> set (names f) \<union> set (names s)
                 then lookup (fold (insert_needed (rv_name r)) f s) n else lookup (concat fs) n)" for n
    by auto
  have "list_all2 (\<lambda>r f. flattened depth h r = Inr f) (r # rs) (f # fs)"
    using f fs by simp
  moreover have "lookup s' n = (if n \<in> set (names s) then lookup s n else lookup (concat (f # fs)) n)" for n
    using look [of n] ins by (auto simp: lookup_append)
  ultimately show ?case using fs by blast
qed

section \<open>Descent through the hierarchy\<close>

definition child_of :: "'w hierarchy \<Rightarrow> (string \<times> string) set" where
  "child_of h = {(p, c). \<exists>node. h p = Some node \<and> c \<in> cr_name ` set (rn_children node)}"

lemma determineEach_Inr:
  "(\<exists>l. determineEach depth h cs release = Inr l) \<longleftrightarrow>
     (\<forall>c \<in> set cs. \<exists>l. determineChildResources depth h (cr_name c) release = Inr l)"
  by (induction cs) auto

lemma determineChildResources_Suc_Inr:
  "(\<exists>l. determineChildResources (Suc depth) h n release = Inr l) \<longleftrightarrow>
     (\<forall>c. (n, c) \<in> child_of h \<longrightarrow> (\<exists>l. determineChildResources depth h c release = Inr l))"
  by (auto simp: child_of_def determineEach_Inr split: option.splits)

lemma determineChildResources_mono:
  assumes "\<exists>l. determineChildResources depth h n release = Inr l" and "depth \<le> depth'"
  shows "\<exists>l. determineChildResources depth' h n release = Inr l"
  using assms
proof (induction depth arbitrary: n depth')
  case 0
  then show ?case by simp
next
  case (Suc depth)
  obtain d where d: "depth' = Suc d" and "depth \<le> d"
    using Suc.prems(2) by (cases depth') auto
  show ?case
    using Suc.prems(1) Suc.IH [OF _ \<open>depth \<le> d\<close>]
    unfolding d determineChildResources_Suc_Inr by blast
qed

text \<open>The depth reached below a resource: a chain of that many children exists when it is not enough.\<close>

lemma determineChildResources_chain:
  "(\<exists>l. determineChildResources depth h n release = Inr l) \<or>
   (\<exists>ps. length ps = depth \<and> (\<forall>i < depth. ((n # ps) ! i, (n # ps) ! Suc i) \<in> child_of h))"
proof (induction depth arbitrary: n)
  case 0
  show ?case by simp
next
  case (Suc depth)
  show ?case
  proof (cases "\<exists>l. determineChildResources (Suc depth) h n release = Inr l")
    case False
    then obtain c where c: "(n, c) \<in> child_of h"
      and no: "\<not> (\<exists>l. determineChildResources depth h c release = Inr l)"
      unfolding determineChildResources_Suc_Inr by blast
    from Suc.IH [of c] no obtain ps where "length ps = depth"
      "\<forall>i < depth. ((c # ps) ! i, (c # ps) ! Suc i) \<in> child_of h" by auto
    then have "length (c # ps) = Suc depth \<and>
      (\<forall>i < Suc depth. ((n # c # ps) ! i, (n # c # ps) ! Suc i) \<in> child_of h)"
      using c by (auto simp: nth_Cons split: nat.splits)
    then show ?thesis by blast
  qed simp
qed

lemma chain_trancl:
  assumes "\<forall>i < k. (xs ! i, xs ! Suc i) \<in> r" and "i < j" and "j \<le> k"
  shows "(xs ! i, xs ! j) \<in> r\<^sup>+"
  using assms(2,3)
proof (induction j)
  case (Suc j)
  then have step: "(xs ! j, xs ! Suc j) \<in> r" using assms(1) by simp
  show ?case
  proof (cases "i = j")
    case True
    then show ?thesis using step by blast
  next
    case False
    then show ?thesis using Suc step by (auto intro: trancl_into_trancl)
  qed
qed simp

lemma acyclic_below_returns:
  assumes fin: "finite (dom h)" and acyclic: "\<And>m. (n, m) \<in> (child_of h)\<^sup>* \<Longrightarrow> (m, m) \<notin> (child_of h)\<^sup>+"
    and deep: "card (dom h) < depth"
  shows "\<exists>l. determineChildResources depth h n release = Inr l"
proof (rule ccontr)
  assume "\<not> ?thesis"
  then obtain ps where len: "length ps = depth"
    and chain: "\<forall>i < depth. ((n # ps) ! i, (n # ps) ! Suc i) \<in> child_of h"
    using determineChildResources_chain [of depth h n release] by blast
  have "set (take depth (n # ps)) \<subseteq> dom h"
    using chain len by (fastforce simp: in_set_conv_nth child_of_def)
  then have "card (set (take depth (n # ps))) < depth"
    using deep card_mono [OF fin] by (meson le_less_trans)
  then have "\<not> distinct (take depth (n # ps))"
    using distinct_card len by fastforce
  then obtain i' j' where ij': "i' \<noteq> j'" "i' < depth" "j' < depth" "(n # ps) ! i' = (n # ps) ! j'"
    using len by (auto simp: distinct_conv_nth simp del: take_Suc_Cons nth_Cons')
  obtain i j where ij: "i < j" "j < depth" "(n # ps) ! i = (n # ps) ! j"
  proof (cases "i' < j'")
    case True
    then show ?thesis using that ij' by blast
  next
    case False
    then show ?thesis using that [of j' i'] ij' by simp
  qed
  have "(n, (n # ps) ! i) \<in> (child_of h)\<^sup>*"
    using chain_trancl [OF chain, of 0 i] ij by (cases "i = 0") auto
  moreover have "((n # ps) ! i, (n # ps) ! i) \<in> (child_of h)\<^sup>+"
    using chain_trancl [OF chain, of i j] ij by simp
  ultimately show False using acyclic by blast
qed

lemma returns_below:
  assumes "(n, m) \<in> (child_of h)\<^sup>*" and "\<exists>l. determineChildResources depth h n release = Inr l"
  shows "\<exists>l. determineChildResources depth h m release = Inr l"
  using assms
proof (induction rule: rtrancl_induct)
  case (step y z)
  then obtain d where d: "depth = Suc d" by (cases depth) auto
  have "\<exists>l. determineChildResources d h z release = Inr l"
    using step d determineChildResources_Suc_Inr by metis
  then show ?case using determineChildResources_mono [of d h z release depth] d by simp
qed simp

lemma cycle_never_returns:
  assumes "(n, n) \<in> (child_of h)\<^sup>+"
  shows "\<not> (\<exists>l. determineChildResources depth h n release = Inr l)"
proof (induction depth)
  case (Suc depth)
  from tranclD [OF assms] obtain c where c: "(n, c) \<in> child_of h" "(c, n) \<in> (child_of h)\<^sup>*" by blast
  show ?case
    using Suc returns_below [OF c(2), of depth release] c(1) determineChildResources_Suc_Inr by metis
qed simp

section \<open>Estimates and allocation\<close>

text \<open>What a set of requirements asks of a resource: one amount, or none if it does not name it.\<close>

definition asks :: "'w resource_set \<Rightarrow> string \<Rightarrow> 'w list" where
  "asks s n = (case lookup s n of Some r \<Rightarrow> [cr_weight r] | None \<Rightarrow> [])"

lemma asks_absent [simp]: "n \<notin> set (names s) \<Longrightarrow> asks s n = []"
  by (simp add: asks_def lookup_None [symmetric])

lemma asks_Cons: "asks (r # s) n = (if cr_name r = n then [cr_weight r] else asks s n)"
  by (simp add: asks_def)

lemma lookup_Some: "lookup s n = Some r \<Longrightarrow> r \<in> set s \<and> cr_name r = n"
  by (induction s) (auto split: if_splits)

lemma asks_mem: "w \<in> set (asks s n) \<Longrightarrow> \<exists>r \<in> set s. w = cr_weight r"
  by (cases "lookup s n") (auto simp: asks_def dest: lookup_Some)

lemma lookup_mem: "distinct (names s) \<Longrightarrow> r \<in> set s \<Longrightarrow> lookup s (cr_name r) = Some r"
  by (induction s) (auto simp: set_names)

definition bump :: "('w::{zero,plus,ord}) \<Rightarrow> 'w estimate \<Rightarrow> 'w estimate" where
  "bump w e =
     (if w < 0 then e\<lparr>renewable := renewable e + w\<rparr> else e\<lparr>consumable := consumable e + w\<rparr>)"

definition within :: "('w::{zero,ord}) \<Rightarrow> 'w estimate \<Rightarrow> bool" where
  "within m e \<longleftrightarrow> \<not> renewable e < 0 \<and> \<not> m < renewable e \<and> \<not> consumable e < 0 \<and> \<not> m < consumable e"

lemma check_requests_Cons:
  "check_requests a (res # rs) est =
     (let e = bump (cr_weight res) (estimate_of est (cr_name res))
      in if within (maxConsumableResourceValue a (cr_name res)) e
         then check_requests a rs (est(cr_name res \<mapsto> e)) else None)"
  by (simp add: Let_def within_def bump_def)

lemma estimate_of_upd [simp]:
  "estimate_of (est(m \<mapsto> e)) n = (if n = m then e else estimate_of est n)"
  by (simp add: estimate_of_def)

lemma check_requests_Some:
  assumes "distinct (names rs)" and "check_requests a rs est = Some est'"
  shows "estimate_of est' n = foldl (\<lambda>e w. bump w e) (estimate_of est n) (asks rs n)"
  using assms
proof (induction rs arbitrary: est)
  case Nil
  then show ?case by (simp add: asks_def)
next
  case (Cons r rs)
  let ?e = "bump (cr_weight r) (estimate_of est (cr_name r))"
  have "check_requests a rs (est(cr_name r \<mapsto> ?e)) = Some est'"
    using Cons.prems(2) by (simp add: check_requests_Cons Let_def del: check_requests.simps split: if_splits)
  from Cons.IH [OF _ this] Cons.prems(1) show ?case
    by (auto simp: asks_Cons simp del: fun_upd_apply)
qed

lemma check_requests_iff:
  assumes "distinct (names rs)"
  shows "check_requests a rs est \<noteq> None \<longleftrightarrow>
    (\<forall>r \<in> set rs. within (maxConsumableResourceValue a (cr_name r))
                    (bump (cr_weight r) (estimate_of est (cr_name r))))"
  using assms
proof (induction rs arbitrary: est)
  case (Cons r rs)
  define e where "e = bump (cr_weight r) (estimate_of est (cr_name r))"
  define upd where "upd = est(cr_name r \<mapsto> e)"
  have "estimate_of upd (cr_name x) = estimate_of est (cr_name x)" if "x \<in> set rs" for x
    using that Cons.prems unfolding upd_def
    by (metis distinct.simps(2) estimate_of_upd image_eqI names_simps(2) set_names)
  then have "check_requests a rs upd \<noteq> None \<longleftrightarrow>
      (\<forall>x \<in> set rs. within (maxConsumableResourceValue a (cr_name x))
                      (bump (cr_weight x) (estimate_of est (cr_name x))))"
    using Cons.IH [of upd] Cons.prems by simp
  then show ?case
    by (simp add: check_requests_Cons Let_def e_def [symmetric] upd_def [symmetric]
        del: check_requests.simps)
qed simp

lemma check_requests_limits:
  assumes "m_resourceHierarchy a = m_resourceHierarchy b"
  shows "check_requests a rs est = check_requests b rs est"
  using assms
  by (induction rs arbitrary: est) (simp_all add: maxConsumableResourceValue_def Let_def)

lemma allocate_frame [simp]:
  "m_resourceHierarchy (allocate res a) = m_resourceHierarchy a"
  "m_cmdResMap (allocate res a) = m_cmdResMap a"
  by (simp_all add: allocate_def)

lemma fold_allocate_frame [simp]:
  "m_resourceHierarchy (fold allocate rs a) = m_resourceHierarchy a"
  "m_cmdResMap (fold allocate rs a) = m_cmdResMap a"
  by (induction rs arbitrary: a) simp_all

lemma allocated_upd [simp]:
  "allocated (a\<lparr>m_allocated := m(k \<mapsto> v)\<rparr>) n = (if n = k then v else allocated (a\<lparr>m_allocated := m\<rparr>) n)"
  by (simp add: allocated_def)

lemma allocated_cmdResMap [simp]: "allocated (a\<lparr>m_cmdResMap := c\<rparr>) n = allocated a n"
  by (simp add: allocated_def)

lemma fold_allocate_allocated:
  assumes "distinct (names rs)"
  shows "allocated (fold allocate rs a) n = foldl (+) (allocated a n) (asks rs n)"
  using assms
proof (induction rs arbitrary: a)
  case Nil
  then show ?case by (simp add: asks_def)
next
  case (Cons r rs)
  have "allocated (allocate r a) n = (if n = cr_name r then allocated a n + cr_weight r else allocated a n)"
    by (simp add: allocate_def allocated_def)
  then show ?case using Cons by (auto simp: asks_Cons)
qed

text \<open>Preparing the estimates leaves the amounts as they were.\<close>

lemma prepare_one_spec:
  assumes "prepare_one res (est, a) = (est', a')"
  shows "allocated a' n = allocated a n" and "m_resourceHierarchy a' = m_resourceHierarchy a"
    and "m_cmdResMap a' = m_cmdResMap a"
    and "estimate_of est' n = (if n = cr_name res then \<lparr>renewable = allocated a n, consumable = allocated a n\<rparr>
                               else estimate_of est n)"
  using assms by (auto simp: prepare_one_def Let_def allocated_def)

lemma fold_prepare_one_spec:
  assumes "fold prepare_one rs (est, a) = (est', a')"
  shows "(\<forall>n. allocated a' n = allocated a n) \<and> m_resourceHierarchy a' = m_resourceHierarchy a
     \<and> m_cmdResMap a' = m_cmdResMap a
     \<and> (\<forall>n. estimate_of est' n = (if n \<in> set (names rs)
           then \<lparr>renewable = allocated a n, consumable = allocated a n\<rparr> else estimate_of est n))"
  using assms
proof (induction rs arbitrary: est a)
  case (Cons r rs)
  obtain e b where one: "prepare_one r (est, a) = (e, b)" by (cases "prepare_one r (est, a)")
  show ?case
    using Cons.IH [of e b] Cons.prems one prepare_one_spec [OF one] by auto
qed simp

lemma prepare_from_spec:
  assumes "fold (\<lambda>entry. fold prepare_one (ce_resources entry)) entries (est, a) = (est', a')"
  shows "(\<forall>n. allocated a' n = allocated a n) \<and> m_resourceHierarchy a' = m_resourceHierarchy a
     \<and> m_cmdResMap a' = m_cmdResMap a
     \<and> (\<forall>n. estimate_of est' n = (if \<exists>e \<in> set entries. n \<in> set (names (ce_resources e))
           then \<lparr>renewable = allocated a n, consumable = allocated a n\<rparr> else estimate_of est n))"
  using assms
proof (induction entries arbitrary: est a)
  case (Cons x entries)
  obtain e b where one: "fold prepare_one (ce_resources x) (est, a) = (e, b)"
    by (cases "fold prepare_one (ce_resources x) (est, a)")
  show ?case
    using Cons.IH [of e b] Cons.prems one fold_prepare_one_spec [OF one] by auto
qed simp

section \<open>Greedy acceptance\<close>

text \<open>
  The reference: commands are taken in order of priority, and one is accepted if, for each
  resource it requires, neither the requests of the accepted commands that add to the level
  nor those that take from it, summed up on their own in the order of acceptance, drive the
  level out of its limits. Sums are those of the arithmetic of the amounts, rounding included.
\<close>

definition asked :: "string \<Rightarrow> 'w command_entry list \<Rightarrow> 'w list" where
  "asked n es = concat (map (\<lambda>e. asks (ce_resources e) n) es)"

lemma asked_simps [simp]:
  "asked n [] = []" "asked n (e # es) = asks (ce_resources e) n @ asked n es"
  "asked n (es @ fs) = asked n es @ asked n fs"
  by (simp_all add: asked_def)

definition lowest :: "('w::{zero,plus,ord}) arbiter \<Rightarrow> 'w command_entry list \<Rightarrow> string \<Rightarrow> 'w" where
  "lowest a es n = foldl (+) (allocated a n) [w \<leftarrow> asked n es. w < 0]"

definition highest :: "('w::{zero,plus,ord}) arbiter \<Rightarrow> 'w command_entry list \<Rightarrow> string \<Rightarrow> 'w" where
  "highest a es n = foldl (+) (allocated a n) [w \<leftarrow> asked n es. \<not> w < 0]"

definition level_after :: "('w::{zero,plus}) arbiter \<Rightarrow> 'w command_entry list \<Rightarrow> string \<Rightarrow> 'w" where
  "level_after a es n = foldl (+) (allocated a n) (asked n es)"

definition fits :: "('w::{zero,one,plus,ord}) arbiter \<Rightarrow> 'w command_entry list \<Rightarrow> 'w command_entry \<Rightarrow> bool" where
  "fits a accepted e \<longleftrightarrow>
     (\<forall>n \<in> set (names (ce_resources e)).
        \<not> lowest a (accepted @ [e]) n < 0 \<and> \<not> maxConsumableResourceValue a n < lowest a (accepted @ [e]) n \<and>
        \<not> highest a (accepted @ [e]) n < 0 \<and> \<not> maxConsumableResourceValue a n < highest a (accepted @ [e]) n)"

fun greedy :: "('w::{zero,one,plus,ord}) arbiter \<Rightarrow> 'w command_entry list \<Rightarrow> 'w command_entry list \<Rightarrow>
    'w command_entry list \<times> 'w command_entry list" where
  "greedy a accepted [] = ([], [])"
| "greedy a accepted (e # es) =
     (if fits a accepted e
      then (let (acc, rej) = greedy a (accepted @ [e]) es in (e # acc, rej))
      else (let (acc, rej) = greedy a accepted es in (acc, e # rej)))"

definition in_limits :: "('w::{zero,one,ord}) arbiter \<Rightarrow> bool" where
  "in_limits a \<longleftrightarrow> (\<forall>n. 0 \<le> allocated a n \<and> allocated a n \<le> maxConsumableResourceValue a n)"

definition estimates_agree :: "('w::{zero,plus,ord}) arbiter \<Rightarrow> 'w command_entry list \<Rightarrow>
    string set \<Rightarrow> (string \<rightharpoonup> 'w estimate) \<Rightarrow> bool" where
  "estimates_agree a accepted N est \<longleftrightarrow>
     (\<forall>n \<in> N. estimate_of est n = \<lparr>renewable = lowest a accepted n, consumable = highest a accepted n\<rparr>)"

lemma bump_agree:
  assumes "estimate_of est n = \<lparr>renewable = lowest a es n, consumable = highest a es n\<rparr>"
  shows "foldl (\<lambda>e w. bump w e) (estimate_of est n) (asks (ce_resources e) n) =
    \<lparr>renewable = lowest a (es @ [e]) n, consumable = highest a (es @ [e]) n\<rparr>"
  using assms by (simp add: bump_def lowest_def highest_def asks_def split: option.split)

lemma check_requests_fits:
  assumes ord: "ordered (ce_resources e)" and same: "m_resourceHierarchy b = m_resourceHierarchy a"
    and agree: "estimates_agree a accepted N est" and "set (names (ce_resources e)) \<subseteq> N"
  shows "check_requests b (ce_resources e) est \<noteq> None \<longleftrightarrow> fits a accepted e"
proof -
  have "bump (cr_weight r) (estimate_of est (cr_name r)) =
      \<lparr>renewable = lowest a (accepted @ [e]) (cr_name r), consumable = highest a (accepted @ [e]) (cr_name r)\<rparr>"
    if "r \<in> set (ce_resources e)" for r
  proof -
    have "cr_name r \<in> N" using that assms(4) by (auto simp: set_names)
    then have "estimate_of est (cr_name r) =
        \<lparr>renewable = lowest a accepted (cr_name r), consumable = highest a accepted (cr_name r)\<rparr>"
      using agree by (simp add: estimates_agree_def)
    from bump_agree [OF this, of e] lookup_mem [OF ordered_distinct [OF ord] that]
    show ?thesis by (simp add: asks_def)
  qed
  then show ?thesis
    unfolding check_requests_limits [OF same] check_requests_iff [OF ordered_distinct [OF ord]] fits_def
    by (simp add: set_names within_def)
qed

lemma check_requests_agree:
  assumes ord: "ordered (ce_resources e)" and agree: "estimates_agree a accepted N est"
    and "check_requests b (ce_resources e) est = Some est'"
  shows "estimates_agree a (accepted @ [e]) N est'"
  using agree check_requests_Some [OF ordered_distinct [OF ord] assms(3)] bump_agree
  by (fastforce simp: estimates_agree_def)

definition record_resources :: "'w command_entry \<Rightarrow> (cmd \<rightharpoonup> 'w resource_set) \<Rightarrow> (cmd \<rightharpoonup> 'w resource_set)" where
  "record_resources e m = m(ce_command e \<mapsto> ce_resources e)"

lemma arbitrate_loop_spec:
  fixes a :: "('w::{zero,one,plus,ord}) arbiter"
  assumes "\<forall>e \<in> set entries. ordered (ce_resources e)"
    and "\<forall>e \<in> set entries. set (names (ce_resources e)) \<subseteq> N"
    and "estimates_agree a accepted N est" and "m_resourceHierarchy b = m_resourceHierarchy a"
    and "\<forall>n. allocated b n = level_after a accepted n"
    and "arbitrate_loop entries est b = (acc, rej, b')" and "greedy a accepted entries = (gacc, grej)"
  shows "acc = map ce_command gacc \<and> rej = map ce_command grej
    \<and> m_resourceHierarchy b' = m_resourceHierarchy a
    \<and> (\<forall>n. allocated b' n = level_after a (accepted @ gacc) n)
    \<and> m_cmdResMap b' = fold record_resources gacc (m_cmdResMap b)"
  using assms
proof (induction entries arbitrary: accepted est b acc rej b' gacc grej)
  case Nil
  then show ?case by simp
next
  case (Cons e entries)
  have ord: "ordered (ce_resources e)" and N: "set (names (ce_resources e)) \<subseteq> N"
    using Cons.prems by simp_all
  note fits = check_requests_fits [OF ord Cons.prems(4,3) N]
  show ?case
  proof (cases "check_requests b (ce_resources e) est")
    case None
    obtain acc1 rej1 b1 where loop: "arbitrate_loop entries est b = (acc1, rej1, b1)"
      by (cases "arbitrate_loop entries est b")
    obtain gacc1 grej1 where ref: "greedy a accepted entries = (gacc1, grej1)"
      by (cases "greedy a accepted entries")
    have "acc = acc1" "rej = ce_command e # rej1" "b' = b1" "gacc = gacc1" "grej = e # grej1"
      using Cons.prems(6,7) None loop ref fits by auto
    moreover have "\<forall>e \<in> set entries. ordered (ce_resources e)"
      "\<forall>e \<in> set entries. set (names (ce_resources e)) \<subseteq> N"
      using Cons.prems(1,2) by simp_all
    note Cons.IH [OF this Cons.prems(3-5) loop ref]
    ultimately show ?thesis by simp
  next
    case (Some est1)
    define b0 where "b0 = fold allocate (ce_resources e)
      (b\<lparr>m_cmdResMap := (m_cmdResMap b)(ce_command e \<mapsto> ce_resources e)\<rparr>)"
    obtain acc1 rej1 b1 where loop: "arbitrate_loop entries est1 b0 = (acc1, rej1, b1)"
      by (cases "arbitrate_loop entries est1 b0")
    obtain gacc1 grej1 where ref: "greedy a (accepted @ [e]) entries = (gacc1, grej1)"
      by (cases "greedy a (accepted @ [e]) entries")
    have eqs: "acc = ce_command e # acc1" "rej = rej1" "b' = b1" "gacc = e # gacc1" "grej = grej1"
      using Cons.prems(6,7) Some loop ref fits by (auto simp: Let_def b0_def [symmetric])
    have "\<forall>n. allocated b0 n = level_after a (accepted @ [e]) n"
      using Cons.prems(5)
      by (simp add: b0_def fold_allocate_allocated [OF ordered_distinct [OF ord]] level_after_def)
    moreover have "m_resourceHierarchy b0 = m_resourceHierarchy a"
      using Cons.prems(4) by (simp add: b0_def)
    moreover have "m_cmdResMap b0 = record_resources e (m_cmdResMap b)"
      by (simp add: b0_def record_resources_def)
    moreover note Cons.IH [OF _ _ check_requests_agree [OF ord Cons.prems(3) Some] _ _ loop ref]
    ultimately show ?thesis using Cons.prems(1,2) eqs by simp
  qed
qed

lemma optimalResourceArbitration_spec:
  fixes a :: "('w::{zero,one,plus,ord}) arbiter"
  assumes ord: "\<forall>e \<in> set entries. ordered (ce_resources e)"
    and opt: "optimalResourceArbitration entries a = (acc, rej, b')"
    and ref: "greedy a [] entries = (gacc, grej)"
  shows "acc = map ce_command gacc \<and> rej = map ce_command grej
    \<and> m_resourceHierarchy b' = m_resourceHierarchy a
    \<and> (\<forall>n. allocated b' n = level_after a gacc n)
    \<and> m_cmdResMap b' = fold record_resources gacc (m_cmdResMap a)"
proof -
  obtain est b where prep: "prepare entries a = (est, b)" by (cases "prepare entries a")
  note spec = prepare_from_spec [OF prep [unfolded prepare_def]]
  have "estimates_agree a [] {n. \<exists>e \<in> set entries. n \<in> set (names (ce_resources e))} est"
    using spec by (simp add: estimates_agree_def lowest_def highest_def)
  moreover have "arbitrate_loop entries est b = (acc, rej, b')"
    using opt prep by (simp add: optimalResourceArbitration_def)
  moreover have "\<forall>n. allocated b n = level_after a [] n"
    using spec by (simp add: level_after_def)
  moreover have "\<forall>e \<in> set entries.
      set (names (ce_resources e)) \<subseteq> {n. \<exists>e \<in> set entries. n \<in> set (names (ce_resources e))}"
    by blast
  ultimately show ?thesis
    using arbitrate_loop_spec [OF ord _ _ _ _ _ ref, of _ est b acc rej b'] spec by simp
qed

lemma greedy_mset:
  "greedy a accepted es = (acc, rej) \<Longrightarrow> mset acc + mset rej = mset es"
  by (induction es arbitrary: accepted acc rej) (auto split: if_splits prod.splits)

lemma greedy_subset:
  assumes "greedy a accepted es = (acc, rej)"
  shows "set acc \<subseteq> set es" and "set rej \<subseteq> set es"
  using greedy_mset [OF assms] by (auto simp: set_mset_mset [symmetric] simp del: set_mset_mset)
    (metis Un_iff set_mset_union)+

section \<open>Partition of the commands\<close>

definition entry_of :: "nat \<Rightarrow> 'w hierarchy \<Rightarrow> 'w command_entry \<Rightarrow> cmd \<times> 'w resource_value list \<Rightarrow> bool" where
  "entry_of depth h e p \<longleftrightarrow>
     ce_command e = fst p \<and> requirements depth h (snd p) [] = Inr (ce_resources e) \<and>
     ce_priority e = rv_priority (hd (snd p))"

lemma list_all2_insort:
  assumes "R x y" and "list_all2 R xs ys" and "\<And>x y. R x y \<Longrightarrow> f x = g y"
  shows "list_all2 R (insort_key f x xs) (insort_key g y ys)"
  using assms(2)
proof (induction rule: list_all2_induct)
  case (Cons v vs w ws)
  then show ?case using assms(1) assms(3) [of v w] assms(3) [OF assms(1)] by simp
qed (simp add: assms(1))

lemma list_all2_sort_key:
  assumes "list_all2 R xs ys" and "\<And>x y. R x y \<Longrightarrow> f x = g y"
  shows "list_all2 R (sort_key f xs) (sort_key g ys)"
  using assms(1) by (induction rule: list_all2_induct) (simp_all add: list_all2_insort assms(2))

lemma partition_loop_spec:
  assumes "partition_loop depth h cmds = Inr (free, entries)"
  shows "free = map fst [p \<leftarrow> cmds. snd p = []] \<and>
    list_all2 (entry_of depth h) entries [p \<leftarrow> cmds. snd p \<noteq> []]"
  using assms
proof (induction cmds arbitrary: free entries)
  case Nil
  then show ?case by simp
next
  case (Cons p cmds)
  obtain c rs where p: "p = (c, rs)" by (cases p)
  show ?case
  proof (cases rs)
    case Nil
    then show ?thesis using Cons p by auto
  next
    case (Cons r rs')
    with Cons.prems p obtain resources entries' where
      "requirements depth h rs [] = Inr resources" "partition_loop depth h cmds = Inr (free, entries')"
      "entries = \<lparr>ce_resources = resources, ce_command = c, ce_priority = rv_priority r\<rparr> # entries'"
      by (auto simp del: requirements.simps)
    with Cons.IH [of free entries'] p Cons show ?thesis
      by (simp add: entry_of_def del: requirements.simps)
  qed
qed

lemma partitionCommands_spec:
  assumes "partitionCommands depth h cmds = Inr (free, entries)"
  shows "free = map fst [p \<leftarrow> cmds. snd p = []]"
    and "list_all2 (entry_of depth h) entries
           (sort_key (\<lambda>p. rv_priority (hd (snd p))) [p \<leftarrow> cmds. snd p \<noteq> []])"
  using assms partition_loop_spec [of depth h cmds]
  by (auto simp: partitionCommands_def entry_of_def intro!: list_all2_sort_key)

lemma entry_of_ordered:
  assumes "list_all2 (entry_of depth h) entries ps"
  shows "\<forall>e \<in> set entries. ordered (ce_resources e)"
  using assms
proof (induction rule: list_all2_induct)
  case (Cons e es p ps)
  moreover have "ordered ([] :: 'a resource_set)" by (simp add: ordered_def)
  ultimately show ?case by (auto simp: entry_of_def intro: requirements_ordered)
qed simp

lemma entry_of_commands:
  "list_all2 (entry_of depth h) entries ps \<Longrightarrow> map ce_command entries = map fst ps"
  by (induction rule: list_all2_induct) (simp_all add: entry_of_def)

lemma arbitrateCommands_spec:
  fixes a :: "('w::{zero,one,plus,ord}) arbiter"
  assumes arb: "arbitrateCommands depth cmds a = Inr (acc, rej, a')"
  obtains entries gacc grej where
    "list_all2 (entry_of depth (m_resourceHierarchy a)) entries
       (sort_key (\<lambda>p. rv_priority (hd (snd p))) [p \<leftarrow> cmds. snd p \<noteq> []])"
    and "greedy a [] entries = (gacc, grej)"
    and "acc = map fst [p \<leftarrow> cmds. snd p = []] @ map ce_command gacc"
    and "rej = map ce_command grej"
    and "m_resourceHierarchy a' = m_resourceHierarchy a"
    and "\<And>n. allocated a' n = level_after a gacc n"
    and "m_cmdResMap a' = fold record_resources gacc (m_cmdResMap a)"
proof -
  from arb obtain free entries acc' where
    part: "partitionCommands depth (m_resourceHierarchy a) cmds = Inr (free, entries)"
    and opt: "optimalResourceArbitration entries a = (acc', rej, a')" and acc: "acc = free @ acc'"
    unfolding arbitrateCommands_def
    by (elim bindE_InrE) (auto simp: case_prod_beta prod_eq_iff intro: that)
  obtain gacc grej where ref: "greedy a [] entries = (gacc, grej)" by (cases "greedy a [] entries")
  show ?thesis
    using that [OF partitionCommands_spec(2) [OF part] ref]
      partitionCommands_spec(1) [OF part]
      optimalResourceArbitration_spec [OF entry_of_ordered [OF partitionCommands_spec(2) [OF part]] opt ref] acc
    by simp
qed

lemma mset_split: "mset [x \<leftarrow> xs. P x] + mset [x \<leftarrow> xs. \<not> P x] = mset xs"
  by (induction xs) auto

lemma arbitrate_loop_mset:
  "arbitrate_loop entries est a = (acc, rej, a') \<Longrightarrow> mset acc + mset rej = mset (map ce_command entries)"
  by (induction entries arbitrary: est a acc rej)
    (auto simp: Let_def split: option.splits prod.splits)

lemma arbitrateCommands_mset:
  assumes "arbitrateCommands depth cmds a = Inr (acc, rej, a')"
  shows "mset acc + mset rej = mset (map fst cmds)"
proof -
  from assms obtain free entries acc' where
    part: "partitionCommands depth (m_resourceHierarchy a) cmds = Inr (free, entries)"
    and opt: "optimalResourceArbitration entries a = (acc', rej, a')" and acc: "acc = free @ acc'"
    unfolding arbitrateCommands_def
    by (elim bindE_InrE) (auto simp: case_prod_beta prod_eq_iff intro: that)
  have "mset acc' + mset rej = mset (map ce_command entries)"
    using opt by (auto simp: optimalResourceArbitration_def split: prod.splits dest: arbitrate_loop_mset)
  also have "\<dots> = mset (map fst [p \<leftarrow> cmds. snd p \<noteq> []])"
    unfolding entry_of_commands [OF partitionCommands_spec(2) [OF part]] mset_map mset_sort by (rule refl)
  finally show ?thesis
    using mset_split [of "\<lambda>p. snd p = []" cmds] partitionCommands_spec(1) [OF part] acc
    by (metis (no_types, lifting) add.assoc image_mset_union mset_append mset_map)
qed

section \<open>Levels\<close>

lemma fold_record_resources:
  assumes "distinct (map ce_command es)"
  shows "fold record_resources es m c =
    (case find (\<lambda>e. ce_command e = c) es of Some e \<Rightarrow> Some (ce_resources e) | None \<Rightarrow> m c)"
  using assms
proof (induction es arbitrary: m)
  case (Cons e es)
  have "find (\<lambda>x. ce_command x = c) es = None" if "ce_command e = c"
    using that Cons.prems unfolding find_None_iff by (auto simp: image_iff)
  then show ?case using Cons by (auto simp: record_resources_def split: option.splits)
qed simp

lemma fold_record_resources_mem:
  assumes "distinct (map ce_command es)" and "e \<in> set es"
  shows "fold record_resources es m (ce_command e) = Some (ce_resources e)"
proof -
  have "find (\<lambda>x. ce_command x = ce_command e) es = Some e"
    using assms by (induction es) (auto simp: image_iff)
  then show ?thesis by (simp add: fold_record_resources [OF assms(1)])
qed

lemma fold_record_resources_other:
  "c \<notin> ce_command ` set es \<Longrightarrow> fold record_resources es m c = m c"
  by (induction es arbitrary: m) (auto simp: record_resources_def)

text \<open>What the commands asked of a resource, according to the table of the arbiter.\<close>

definition taken :: "'w arbiter \<Rightarrow> string \<Rightarrow> cmd list \<Rightarrow> 'w list" where
  "taken a n cs = concat (map (\<lambda>c. case m_cmdResMap a c of Some s \<Rightarrow> asks s n | None \<Rightarrow> []) cs)"

lemma taken_simps [simp]:
  "taken a n [] = []"
  "taken a n (c # cs) = (case m_cmdResMap a c of Some s \<Rightarrow> asks s n | None \<Rightarrow> []) @ taken a n cs"
  "taken a n (cs @ ds) = taken a n cs @ taken a n ds"
  by (simp_all add: taken_def)

lemma subseq_concat_map: "subseq xs ys \<Longrightarrow> subseq (concat (map f xs)) (concat (map f ys))"
  by (induction rule: list_emb.induct) (auto intro: list_emb_append_mono list_emb_append2)

lemma arbitrateCommands_levels:
  fixes a :: "('w::{zero,one,plus,ord}) arbiter"
  assumes arb: "arbitrateCommands depth cmds a = Inr (acc, rej, a')"
    and dist: "distinct (map fst cmds)" and new: "\<forall>c \<in> fst ` set cmds. m_cmdResMap a c = None"
  obtains entries gacc grej where "greedy a [] entries = (gacc, grej)"
    and "list_all2 (entry_of depth (m_resourceHierarchy a)) entries
       (sort_key (\<lambda>p. rv_priority (hd (snd p))) [p \<leftarrow> cmds. snd p \<noteq> []])"
    and "m_cmdResMap a' = fold record_resources gacc (m_cmdResMap a)"
    and "distinct (map ce_command gacc)" and "distinct acc"
    and "set (map ce_command gacc) \<subseteq> set acc" and "set acc \<subseteq> fst ` set cmds"
    and "\<forall>c \<in> set acc - ce_command ` set gacc. m_cmdResMap a' c = None"
    and "\<forall>n. taken a' n acc = asked n gacc"
    and "\<forall>n. allocated a' n = foldl (+) (allocated a n) (asked n gacc)"
    and "m_resourceHierarchy a' = m_resourceHierarchy a"
    and "\<forall>e \<in> set gacc. ordered (ce_resources e)"
proof -
  from arbitrateCommands_spec [OF arb] obtain entries gacc grej where
    entries: "list_all2 (entry_of depth (m_resourceHierarchy a)) entries
       (sort_key (\<lambda>p. rv_priority (hd (snd p))) [p \<leftarrow> cmds. snd p \<noteq> []])"
    and ref: "greedy a [] entries = (gacc, grej)"
    and acc: "acc = map fst [p \<leftarrow> cmds. snd p = []] @ map ce_command gacc"
    and hier: "m_resourceHierarchy a' = m_resourceHierarchy a"
    and alloc: "\<And>n. allocated a' n = level_after a gacc n"
    and res: "m_cmdResMap a' = fold record_resources gacc (m_cmdResMap a)" by metis
  have "mset (map ce_command entries) = mset (map fst [p \<leftarrow> cmds. snd p \<noteq> []])"
    unfolding entry_of_commands [OF entries] mset_map mset_sort by (rule refl)
  moreover have "mset gacc + mset grej = mset entries" by (rule greedy_mset [OF ref])
  ultimately have "mset acc + mset (map ce_command grej) = mset (map fst cmds)"
    using mset_split [of "\<lambda>p. snd p = []" cmds] unfolding acc
    by (metis (no_types, lifting) add.assoc image_mset_union mset_append mset_map)
  then have "distinct (acc @ map ce_command grej)" and sub: "set acc \<subseteq> fst ` set cmds"
    using dist by (metis mset_append mset_eq_imp_distinct_iff,
      metis Un_upper1 list.set_map mset_append set_append set_mset_mset)
  then have dacc: "distinct acc" and dg: "distinct (map ce_command gacc)"
    using acc by auto
  have other: "m_cmdResMap a' c = None" if "c \<in> set acc" "c \<notin> ce_command ` set gacc" for c
    using that sub new by (auto simp: res fold_record_resources_other)
  have "taken a' n (map fst [p \<leftarrow> cmds. snd p = []]) = []" for n
    using other dacc unfolding acc taken_def by (auto simp: disjoint_iff image_iff)
  moreover have "taken a' n (map ce_command es) = asked n es" if "set es \<subseteq> set gacc" for n es
    using that by (induction es) (auto simp: res fold_record_resources_mem [OF dg])
  ultimately have "taken a' n acc = asked n gacc" for n by (simp add: acc)
  moreover have "allocated a' n = foldl (+) (allocated a n) (asked n gacc)" for n
    by (simp add: alloc level_after_def)
  moreover have "\<forall>e \<in> set gacc. ordered (ce_resources e)"
    using entry_of_ordered [OF entries] greedy_subset(1) [OF ref] by blast
  moreover have "set (map ce_command gacc) \<subseteq> set acc" using acc by simp
  moreover have "\<forall>c \<in> set acc - ce_command ` set gacc. m_cmdResMap a' c = None" using other by simp
  ultimately show ?thesis
    using hier sub by (intro that [OF ref entries res dg dacc]) blast+
qed

text \<open>The amounts that can be asked for: those of the requests and of the hierarchy.\<close>

definition amounts_ok :: "('w \<Rightarrow> bool) \<Rightarrow> 'w hierarchy \<Rightarrow> (cmd \<times> 'w resource_value list) list \<Rightarrow> bool" where
  "amounts_ok P h cmds \<longleftrightarrow>
     (\<forall>p \<in> set cmds. \<forall>r \<in> set (snd p). P (rv_upperBound r)) \<and>
     (\<forall>n node. h n = Some node \<longrightarrow> (\<forall>child \<in> set (rn_children node). P (cr_weight child)))"

lemma child_amounts:
  shows "determineChildResources depth h n release = Inr l \<Longrightarrow>
      \<forall>n node. h n = Some node \<longrightarrow> (\<forall>child \<in> set (rn_children node). P (cr_weight child)) \<Longrightarrow>
      \<forall>r \<in> set l. P (cr_weight r)"
    and "determineEach depth h cs release = Inr l \<Longrightarrow>
      \<forall>n node. h n = Some node \<longrightarrow> (\<forall>child \<in> set (rn_children node). P (cr_weight child)) \<Longrightarrow>
      \<forall>r \<in> set cs. P (cr_weight r) \<Longrightarrow> \<forall>r \<in> set l. P (cr_weight r)"
proof (induction depth h n release and depth h cs release arbitrary: l and l
    rule: determineChildResources_determineEach.induct)
  case (2 depth h n release)
  show ?case
  proof (cases "h n")
    case None
    then show ?thesis using 2 by simp
  next
    case (Some node)
    have "\<forall>r \<in> set (rn_children node). P (cr_weight r)" using 2(3) Some by blast
    moreover have "determineEach depth h (rn_children node) release = Inr l" using 2(2) Some by simp
    ultimately show ?thesis using 2(1) [OF Some _ 2(3)] by blast
  qed
next
  case (4 depth h child cs release)
  then show ?case by fastforce
qed auto

lemma insert_needed_amounts:
  "\<forall>x \<in> set xs. P (cr_weight x) \<Longrightarrow> \<forall>x \<in> set t. P (cr_weight x) \<Longrightarrow>
   \<forall>x \<in> set (fold (insert_needed n) xs t). P (cr_weight x)"
proof (induction xs arbitrary: t)
  case (Cons x xs)
  have "set (set_insert x t) \<subseteq> insert x (set t)" by (induction t) auto
  then have "\<forall>y \<in> set (insert_needed n x t). P (cr_weight y)"
    using Cons.prems by (auto simp: insert_needed_def)
  then show ?case using Cons by simp
qed simp

lemma requirement_amounts:
  assumes "requirements depth h rs s = Inr s'"
    and "\<forall>r \<in> set rs. P (rv_upperBound r)"
    and h: "\<forall>n node. h n = Some node \<longrightarrow> (\<forall>child \<in> set (rn_children node). P (cr_weight child))"
    and "\<forall>r \<in> set s. P (cr_weight r)"
  shows "\<forall>r \<in> set s'. P (cr_weight r)"
  using assms(1,2,4)
proof (induction rs arbitrary: s)
  case Nil
  then show ?case by simp
next
  case (Cons r rs)
  let ?r = "\<lparr>cr_name = rv_name r, cr_weight = rv_upperBound r, cr_release = rv_releaseAtTermination r\<rparr>"
  from Cons.prems(1) obtain t where t: "determineAllChildResources depth h r s = Inr t"
    and rest: "requirements depth h rs t = Inr s'" by auto
  from t obtain below where b: "determineChildResources depth h (rv_name r) (rv_releaseAtTermination r) = Inr below"
    and t': "t = fold (insert_needed (rv_name r)) (?r # below) s"
    unfolding determineAllChildResources_eq by (elim bindE_InrE) simp
  have "\<forall>x \<in> set (?r # below). P (cr_weight x)"
    using child_amounts(1) [OF b h] Cons.prems(2) by simp
  then have "\<forall>x \<in> set t. P (cr_weight x)"
    unfolding t' using Cons.prems(3) by (rule insert_needed_amounts)
  then show ?case using Cons.IH [OF rest] Cons.prems(2) by simp
qed

lemma entry_amounts:
  assumes "list_all2 (entry_of depth h) entries ps" and "set ps \<subseteq> set cmds" and ok: "amounts_ok P h cmds"
  shows "\<forall>e \<in> set entries. \<forall>n. \<forall>w \<in> set (asks (ce_resources e) n). P w"
  using assms(1,2)
proof (induction rule: list_all2_induct)
  case Nil
  then show ?case by simp
next
  case (Cons e es p ps)
  have "requirements depth h (snd p) [] = Inr (ce_resources e)" using Cons.hyps by (simp add: entry_of_def)
  then have "\<forall>r \<in> set (ce_resources e). P (cr_weight r)"
    by (rule requirement_amounts) (use Cons.prems ok in \<open>auto simp: amounts_ok_def\<close>)
  then have "\<forall>n. \<forall>w \<in> set (asks (ce_resources e) n). P w"
    by (blast dest: asks_mem)
  then show ?case using Cons by simp
qed

section \<open>Rounded sums\<close>

text \<open>Within limits, and every selection of the amounts leads to a level between the lowest and the highest.\<close>

definition bounded :: "('w::{zero,one,plus,ord}) arbiter \<Rightarrow> string \<Rightarrow> 'w command_entry list \<Rightarrow> bool" where
  "bounded a n es \<longleftrightarrow> 0 \<le> lowest a es n \<and> highest a es n \<le> maxConsumableResourceValue a n \<and>
     (\<forall>us. subseq us (asked n es) \<longrightarrow>
        lowest a es n \<le> foldl (+) (allocated a n) us \<and> foldl (+) (allocated a n) us \<le> highest a es n)"

text \<open>
  What the arbiter needs of the arithmetic to keep the levels in their limits: an order in
  which numbers can be compared (\<open>x \<le> x\<close> says that \<open>x\<close> is one), and sums that respect it, at
  least when they start from 0 or more and an \<open>amount\<close> is added. Doubles do, although their
  sums are rounded.
\<close>

locale rounded_sums =
  fixes amount :: "('w::{zero,one,plus,ord}) \<Rightarrow> bool"
  assumes le_number: "x \<le> y \<Longrightarrow> x \<le> x \<and> y \<le> y"
    and le_transitive: "x \<le> y \<Longrightarrow> y \<le> z \<Longrightarrow> x \<le> z"
    and not_less_le: "x \<le> x \<Longrightarrow> y \<le> y \<Longrightarrow> \<not> y < x \<Longrightarrow> x \<le> y"
    and less_le: "x < y \<Longrightarrow> x \<le> y"
    and amount_number: "amount w \<Longrightarrow> w \<le> w"
    and add_number: "amount w \<Longrightarrow> 0 \<le> x \<Longrightarrow> x + w \<le> x + w"
    and add_mono: "amount w \<Longrightarrow> 0 \<le> l \<Longrightarrow> l \<le> x \<Longrightarrow> l + w \<le> x + w"
    and add_increasing: "amount w \<Longrightarrow> 0 \<le> w \<Longrightarrow> 0 \<le> x \<Longrightarrow> x \<le> x + w"
    and add_decreasing: "amount w \<Longrightarrow> w \<le> 0 \<Longrightarrow> 0 \<le> x \<Longrightarrow> x + w \<le> x"
begin

lemma bounded_amount:
  fixes m :: 'w
  assumes L: "0 \<le> L" and H: "H \<le> m" and us: "\<And>u. u \<in> U \<Longrightarrow> L \<le> u \<and> u \<le> H" and LH: "L \<le> H"
    and w: "amount w"
    and low: "w < 0 \<Longrightarrow> \<not> L + w < 0" and high: "\<not> w < 0 \<Longrightarrow> \<not> m < H + w"
  shows "0 \<le> (if w < 0 then L + w else L)" and "(if w < 0 then H else H + w) \<le> m"
    and "u \<in> U \<Longrightarrow> (if w < 0 then L + w else L) \<le> u \<and> u \<le> (if w < 0 then H else H + w)"
    and "u \<in> U \<Longrightarrow> (if w < 0 then L + w else L) \<le> u + w \<and> u + w \<le> (if w < 0 then H else H + w)"
proof -
  have zero: "(0 :: 'w) \<le> 0" and m: "m \<le> m" and H0: "0 \<le> H"
    using le_number [OF L] le_number [OF H] le_transitive [OF L LH] by auto
  show "0 \<le> (if w < 0 then L + w else L)"
    using L low not_less_le [OF zero add_number [OF w L]] by simp
  show "(if w < 0 then H else H + w) \<le> m"
    using H high not_less_le [OF add_number [OF w H0] m] by simp
  fix u assume "u \<in> U"
  then have u: "L \<le> u" "u \<le> H" and u0: "0 \<le> u" using us le_transitive [OF L] by blast+
  have pos: "0 \<le> w" if "\<not> w < 0" using not_less_le [OF zero amount_number [OF w] that] .
  show "(if w < 0 then L + w else L) \<le> u \<and> u \<le> (if w < 0 then H else H + w)"
    using u le_transitive [OF add_decreasing [OF w less_le L] u(1)]
      le_transitive [OF u(2) add_increasing [OF w pos H0]] by simp
  show "(if w < 0 then L + w else L) \<le> u + w \<and> u + w \<le> (if w < 0 then H else H + w)"
    using add_mono [OF w L u(1)] add_mono [OF w u0 u(2)]
      le_transitive [OF add_decreasing [OF w less_le u0] u(2)]
      le_transitive [OF u(1) add_increasing [OF w pos u0]] by simp
qed

lemma bounded_step:
  assumes b: "bounded a n es" and amounts: "\<forall>w \<in> set (asks (ce_resources e) n). amount w"
    and fits: "n \<in> set (names (ce_resources e)) \<longrightarrow>
      \<not> lowest a (es @ [e]) n < 0 \<and> \<not> maxConsumableResourceValue a n < highest a (es @ [e]) n"
  shows "bounded a n (es @ [e])"
proof (cases "lookup (ce_resources e) n")
  case None
  then show ?thesis using b by (simp add: bounded_def lowest_def highest_def asks_def)
next
  case (Some r)
  define w where "w = cr_weight r"
  have asks: "asks (ce_resources e) n = [w]" by (simp add: asks_def Some w_def)
  have n: "n \<in> set (names (ce_resources e))" using lookup_Some [OF Some] by (auto simp: set_names)
  let ?L = "lowest a es n" and ?H = "highest a es n" and ?m = "maxConsumableResourceValue a n"
  have L': "lowest a (es @ [e]) n = (if w < 0 then ?L + w else ?L)"
    and H': "highest a (es @ [e]) n = (if w < 0 then ?H else ?H + w)"
    by (simp_all add: lowest_def highest_def asks)
  define U where "U = (\<lambda>us. foldl (+) (allocated a n) us) ` {us. subseq us (asked n es)}"
  have U: "u \<in> U \<Longrightarrow> ?L \<le> u \<and> u \<le> ?H" for u using b by (auto simp: U_def bounded_def)
  have "[] \<in> {us. subseq us (asked n es)}" by simp
  then have LH: "?L \<le> ?H" using U le_transitive unfolding U_def by blast
  have w: "amount w" using amounts asks by simp
  have low: "w < 0 \<Longrightarrow> \<not> ?L + w < 0" and high: "\<not> w < 0 \<Longrightarrow> \<not> ?m < ?H + w"
    using fits n by (simp_all add: L' H')
  have "0 \<le> ?L" "?H \<le> ?m" using b by (simp_all add: bounded_def)
  note step = bounded_amount [OF this U LH w low high]
  have "lowest a (es @ [e]) n \<le> foldl (+) (allocated a n) us \<and> foldl (+) (allocated a n) us \<le> highest a (es @ [e]) n"
    if "subseq us (asked n (es @ [e]))" for us
  proof -
    from that obtain vs zs where us: "us = vs @ zs" "subseq vs (asked n es)" "subseq zs [w]"
      by (auto simp: asks elim: subseq_appendE)
    then have u: "foldl (+) (allocated a n) vs \<in> U" by (auto simp: U_def)
    from us(3) have "zs = [] \<or> zs = [w]" by (cases zs) (auto dest: list_emb_Nil2 split: if_splits)
    then show ?thesis using us(1) step(3,4) [OF _ _ _ u] by (auto simp: L' H')
  qed
  then show ?thesis using step(1,2) by (simp add: bounded_def L' H')
qed

lemma greedy_bounded:
  assumes "greedy a acc0 es = (acc, rej)" and "bounded a n acc0"
    and "\<forall>e \<in> set es. \<forall>w \<in> set (asks (ce_resources e) n). amount w"
  shows "bounded a n (acc0 @ acc)"
  using assms
proof (induction es arbitrary: acc0 acc rej)
  case (Cons e es)
  show ?case
  proof (cases "fits a acc0 e")
    case True
    then have "bounded a n (acc0 @ [e])"
      using Cons.prems(2,3) by (intro bounded_step) (auto simp: fits_def)
    then show ?thesis
      using Cons.IH [of "acc0 @ [e]"] Cons.prems(1,3) True by (auto split: prod.splits)
  next
    case False
    then show ?thesis using Cons.IH Cons.prems by (auto split: prod.splits)
  qed
qed simp

text \<open>
  The levels after arbitration are those before with the amounts of the accepted commands
  added in the order of acceptance, and whatever part of them is added, in that order, the
  level is in its limits.
\<close>

lemma arbitrated_levels:
  assumes lim: "in_limits a" and amounts: "amounts_ok amount (m_resourceHierarchy a) cmds"
    and arb: "arbitrateCommands depth cmds a = Inr (acc, rej, a')"
    and dist: "distinct (map fst cmds)" and new: "\<forall>c \<in> fst ` set cmds. m_cmdResMap a c = None"
  shows "allocated a' n = foldl (+) (allocated a n) (taken a' n acc)"
    and "subseq cs acc \<Longrightarrow> 0 \<le> foldl (+) (allocated a n) (taken a' n cs) \<and>
           foldl (+) (allocated a n) (taken a' n cs) \<le> maxConsumableResourceValue a n"
    and "in_limits a'"
proof -
  obtain entries gacc grej where ref: "greedy a [] entries = (gacc, grej)"
    and entries: "list_all2 (entry_of depth (m_resourceHierarchy a)) entries
       (sort_key (\<lambda>p. rv_priority (hd (snd p))) [p \<leftarrow> cmds. snd p \<noteq> []])"
    and taken: "\<forall>n. taken a' n acc = asked n gacc"
    and alloc: "\<forall>n. allocated a' n = foldl (+) (allocated a n) (asked n gacc)"
    and hier: "m_resourceHierarchy a' = m_resourceHierarchy a"
    by (rule arbitrateCommands_levels [OF arb dist new]) (rule that; assumption)
  show level: "allocated a' n = foldl (+) (allocated a n) (taken a' n acc)" for n
    using alloc taken by simp
  have start: "bounded a n []" for n
  proof -
    have "0 \<le> allocated a n" and max: "allocated a n \<le> maxConsumableResourceValue a n"
      using lim by (simp_all add: in_limits_def)
    with le_number [OF max] show ?thesis
      by (auto simp: bounded_def lowest_def highest_def dest: list_emb_Nil2)
  qed
  have "\<forall>e \<in> set entries. \<forall>n. \<forall>w \<in> set (asks (ce_resources e) n). amount w"
    by (rule entry_amounts [OF entries _ amounts]) auto
  then have bounds: "bounded a n gacc" for n
    using greedy_bounded [OF ref start, of n] by simp
  show part: "0 \<le> foldl (+) (allocated a n) (taken a' n cs) \<and>
      foldl (+) (allocated a n) (taken a' n cs) \<le> maxConsumableResourceValue a n" if "subseq cs acc" for n cs
  proof -
    have "subseq (taken a' n cs) (asked n gacc)"
      using subseq_concat_map [OF that] taken unfolding taken_def by metis
    then show ?thesis using bounds [of n] le_transitive unfolding bounded_def by blast
  qed
  show "in_limits a'"
    using part [of acc] by (simp add: in_limits_def level maxConsumableResourceValue_def hier)
qed

end

section \<open>Release\<close>

text \<open>A level of zero is the same as no entry.\<close>

definition cleared :: "('w::{zero,ord}) \<Rightarrow> 'w" where
  "cleared v = (if v \<le> 0 \<and> 0 \<le> v then 0 else v)"

lemma allocated_release_one:
  "allocated (release_one r a) n =
     (if cr_release r \<and> cr_name r = n then cleared (allocated a n - cr_weight r) else allocated a n)"
  by (simp add: release_one_def allocated_def cleared_def Let_def)

lemma release_one_cmdResMap [simp]: "m_cmdResMap (release_one r a) = m_cmdResMap a"
  by (simp add: release_one_def Let_def)

lemma fold_release_one_cmdResMap [simp]: "m_cmdResMap (fold release_one rs a) = m_cmdResMap a"
  by (induction rs arbitrary: a) simp_all

lemma set_names_filter: "set (names [r \<leftarrow> rs. P r]) \<subseteq> set (names rs)"
  by (auto simp: set_names)

lemma fold_release_one_allocated:
  assumes "distinct (names rs)"
  shows "allocated (fold release_one rs a) n =
    foldl (\<lambda>v w. cleared (v - w)) (allocated a n) (asks [r \<leftarrow> rs. cr_release r] n)"
  using assms
proof (induction rs arbitrary: a)
  case Nil
  then show ?case by (simp add: asks_def)
next
  case (Cons r rs)
  have "asks [r \<leftarrow> rs. cr_release r] (cr_name r) = []"
    using Cons.prems set_names_filter [of cr_release rs] by (intro asks_absent) auto
  then show ?case using Cons by (auto simp: asks_Cons allocated_release_one)
qed

text \<open>What releasing a command gives back, and what it keeps.\<close>

definition given_back :: "'w arbiter \<Rightarrow> string \<Rightarrow> cmd \<Rightarrow> 'w list" where
  "given_back a n c = (case m_cmdResMap a c of Some rs \<Rightarrow> asks [r \<leftarrow> rs. cr_release r] n | None \<Rightarrow> [])"

definition kept :: "'w arbiter \<Rightarrow> string \<Rightarrow> cmd \<Rightarrow> 'w list" where
  "kept a n c = (case m_cmdResMap a c of Some rs \<Rightarrow> asks [r \<leftarrow> rs. \<not> cr_release r] n | None \<Rightarrow> [])"

lemma releaseResourcesForCommand_spec:
  assumes "\<forall>rs. m_cmdResMap a c = Some rs \<longrightarrow> distinct (names rs)"
  shows "allocated (releaseResourcesForCommand c a) n =
      foldl (\<lambda>v w. cleared (v - w)) (allocated a n) (given_back a n c)"
    and "m_cmdResMap (releaseResourcesForCommand c a) = (m_cmdResMap a)(c := None)"
  using assms
  by (auto simp: releaseResourcesForCommand_def given_back_def fold_release_one_allocated split: option.splits)

section \<open>Properties\<close>

text \<open>
  Property C22. Arbitration decides as the greedy reference does: the commands that request
  nothing are accepted first, in their order; the others are considered in order of priority
  (equal priorities in order of arrival), each with its full set of requirements, and one is
  accepted exactly if the requests of those accepted before it together with its own do not
  drive any resource it needs below 0 or above its maximum, where the requests that give and
  those that take are added up separately, in the order of acceptance. This is for amounts of
  any type, so for doubles too: the sums of the reference are rounded as those of the code
  are, and a comparison with a NaN is false in both, so that a request of NaN is accepted.
\<close>

theorem arbitration_greedy:
  fixes a :: "('w::{zero,one,plus,ord}) arbiter"
  assumes "arbitrateCommands depth cmds a = Inr (acc, rej, a')"
  shows "\<exists>entries gacc grej.
    map ce_command entries = map fst (sort_key (\<lambda>(c, rs). rv_priority (hd rs)) [(c, rs) \<leftarrow> cmds. rs \<noteq> []])
    \<and> (\<forall>i < length entries. requirements depth (m_resourceHierarchy a)
          (snd (sort_key (\<lambda>(c, rs). rv_priority (hd rs)) [(c, rs) \<leftarrow> cmds. rs \<noteq> []] ! i)) [] =
          Inr (ce_resources (entries ! i)))
    \<and> greedy a [] entries = (gacc, grej)
    \<and> acc = map fst [(c, rs) \<leftarrow> cmds. rs = []] @ map ce_command gacc
    \<and> rej = map ce_command grej"
proof -
  from arbitrateCommands_spec [OF assms] obtain entries gacc grej where
    e: "list_all2 (entry_of depth (m_resourceHierarchy a)) entries
       (sort_key (\<lambda>p. rv_priority (hd (snd p))) [p \<leftarrow> cmds. snd p \<noteq> []])"
    and g: "greedy a [] entries = (gacc, grej)"
    and acc: "acc = map fst [p \<leftarrow> cmds. snd p = []] @ map ce_command gacc"
    and rej: "rej = map ce_command grej" by metis
  have req: "\<forall>i < length entries. requirements depth (m_resourceHierarchy a)
      (snd (sort_key (\<lambda>p. rv_priority (hd (snd p))) [p \<leftarrow> cmds. snd p \<noteq> []] ! i)) [] =
      Inr (ce_resources (entries ! i))"
    using e by (auto simp: list_all2_conv_all_nth entry_of_def)
  show ?thesis
    using entry_of_commands [OF e] req g acc rej by (auto simp: case_prod_beta')
qed

text \<open>
  In the requirements of a command the first mention of a resource counts,
  among the requests in order, each followed by its descendants; a later explicit request
  of a resource that is a descendant of an earlier one is ignored.
\<close>

theorem first_request_counts:
  assumes "requirements depth h rs [] = Inr s"
  shows "\<exists>fs. list_all2 (\<lambda>r f. flattened depth h r = Inr f) rs fs
    \<and> (\<forall>n. lookup s n = lookup (concat fs) n) \<and> sorted_wrt (<) (map cr_name s)"
  using requirements_spec [OF assms] by (auto simp: ordered_def names_def)

text \<open>
  Collecting the descendants of a resource returns exactly if no resource
  below it is among its own descendants; then a depth of the number of resources of the
  hierarchy is enough. With a cycle the recursion never ends.
\<close>

theorem descendants_terminate:
  assumes "finite (dom h)" and "card (dom h) < depth"
  shows "((\<exists>l. determineChildResources depth h n release = Inr l) \<longleftrightarrow>
           (\<forall>m. (n, m) \<in> (child_of h)\<^sup>* \<longrightarrow> (m, m) \<notin> (child_of h)\<^sup>+))
    \<and> ((\<exists>d l. determineChildResources d h n release = Inr l) \<longleftrightarrow>
           (\<forall>m. (n, m) \<in> (child_of h)\<^sup>* \<longrightarrow> (m, m) \<notin> (child_of h)\<^sup>+))"
proof -
  have "\<exists>l. determineChildResources depth h n release = Inr l"
    if "\<forall>m. (n, m) \<in> (child_of h)\<^sup>* \<longrightarrow> (m, m) \<notin> (child_of h)\<^sup>+"
    using that by (intro acyclic_below_returns assms) blast+
  moreover have "(m, m) \<notin> (child_of h)\<^sup>+"
    if "\<exists>l. determineChildResources d h n release = Inr l" "(n, m) \<in> (child_of h)\<^sup>*" for d m
    using returns_below [OF that(2,1)] cycle_never_returns by blast
  ultimately show ?thesis by blast
qed

section \<open>A plan of three commands\<close>

text \<open>
  Memory of which there are 10 units, and a camera that takes 4 of them and some power.
  Command 1 asks for memory with priority 2, command 2 for the camera with priority 1, and
  command 3 for nothing.
\<close>

definition example_arbiter :: "int arbiter" where
  "example_arbiter =
     \<lparr>m_resourceHierarchy =
        [''mem'' \<mapsto> \<lparr>rn_children = [], maxConsumableValue = 10\<rparr>,
         ''cam'' \<mapsto> \<lparr>rn_children = [\<lparr>cr_name = ''mem'', cr_weight = 4, cr_release = False\<rparr>,
                                   \<lparr>cr_name = ''power'', cr_weight = 1, cr_release = False\<rparr>],
                    maxConsumableValue = 1\<rparr>],
      m_allocated = Map.empty, m_cmdResMap = Map.empty\<rparr>"

definition example_request :: "string \<Rightarrow> int \<Rightarrow> int \<Rightarrow> int resource_value" where
  "example_request n w p =
     \<lparr>rv_name = n, rv_upperBound = w, rv_priority = p, rv_releaseAtTermination = True\<rparr>"

definition example_commands :: "(cmd \<times> int resource_value list) list" where
  "example_commands =
     [(1, [example_request ''mem'' 7 2]), (2, [example_request ''cam'' 1 1]), (3, [])]"

definition example_after :: "int arbiter" where
  "example_after = snd (snd (projr (arbitrateCommands 3 example_commands example_arbiter)))"

lemma example_result:
  "arbitrateCommands 3 example_commands example_arbiter = Inr ([3, 2], [1], example_after)"
proof -
  have "(case arbitrateCommands 3 example_commands example_arbiter of
      Inl _ \<Rightarrow> False | Inr (acc, rej, _) \<Rightarrow> acc = [3, 2] \<and> rej = [1])"
    by code_simp
  then show ?thesis
    unfolding example_after_def by (auto split: sum.splits)
qed

text \<open>Two requests for the same resource: the second is ignored.\<close>

theorem first_request_counts_witness:
  "\<exists>s fs. requirements 3 (m_resourceHierarchy example_arbiter)
        [example_request ''cam'' 1 1, example_request ''mem'' 9 1] [] = Inr s
    \<and> list_all2 (\<lambda>r f. flattened 3 (m_resourceHierarchy example_arbiter) r = Inr f)
        [example_request ''cam'' 1 1, example_request ''mem'' 9 1] fs
    \<and> (\<forall>n. lookup s n = lookup (concat fs) n)
    \<and> map_option cr_weight (lookup s ''mem'') = Some 4"
proof -
  have "(case requirements 3 (m_resourceHierarchy example_arbiter)
        [example_request ''cam'' 1 1, example_request ''mem'' 9 1] [] of
      Inl _ \<Rightarrow> False | Inr s \<Rightarrow> map_option cr_weight (lookup s ''mem'') = Some 4)"
    by code_simp
  then obtain s where
    s: "requirements 3 (m_resourceHierarchy example_arbiter)
        [example_request ''cam'' 1 1, example_request ''mem'' 9 1] [] = Inr s"
    and "map_option cr_weight (lookup s ''mem'') = Some 4" by (auto split: sum.splits)
  then show ?thesis using first_request_counts [OF s] by blast
qed

theorem arbitration_greedy_witness:
  "\<exists>entries gacc grej. greedy example_arbiter [] entries = (gacc, grej)
      \<and> map ce_command entries = [2, 1] \<and> map ce_command gacc = [2] \<and> map ce_command grej = [1]"
  using arbitration_greedy [OF example_result]
  by (fastforce simp: example_commands_def example_request_def)

theorem descendants_terminate_witness:
  "(\<exists>l. determineChildResources 3 (m_resourceHierarchy example_arbiter) ''cam'' True = Inr l) \<and>
   (''cam'', ''cam'') \<notin> (child_of (m_resourceHierarchy example_arbiter))\<^sup>+"
proof -
  have "finite (dom (m_resourceHierarchy example_arbiter))"
    "card (dom (m_resourceHierarchy example_arbiter)) < 3"
    by (simp_all add: example_arbiter_def)
  note iff = descendants_terminate [OF this, of "''cam''" True]
  have "isl (determineChildResources 3 (m_resourceHierarchy example_arbiter) ''cam'' True) = False"
    by code_simp
  then show ?thesis using iff by (cases "determineChildResources 3 (m_resourceHierarchy example_arbiter) ''cam'' True") auto
qed

end
