(* ===== verification/Exec_Commands.thy ===== *)
theory Exec_Commands
  imports Exec_System Resource_Arbiter
begin

text \<open>
  The executive together with the resource arbiter: what \<open>PlexilExec::executeOutboundQueue\<close>
  hands to the dispatcher when the commands of the step are arbitrated by
  \<open>ResourceArbiterImpl::arbitrateCommands\<close>.
\<close>

definition executed :: "dispatch list \<Rightarrow> nid list" where
  "executed out = concat (map (\<lambda>d. case d of ExecuteCommand c \<Rightarrow> [c] | _ \<Rightarrow> []) out)"

definition refused :: "dispatch list \<Rightarrow> nid list" where
  "refused out = concat (map (\<lambda>d. case d of ReportCommandArbitrationFailure c \<Rightarrow> [c] | _ \<Rightarrow> []) out)"

definition aborted :: "dispatch list \<Rightarrow> nid list" where
  "aborted out = concat (map (\<lambda>d. case d of InvokeAbort c \<Rightarrow> [c] | _ \<Rightarrow> []) out)"

definition updated :: "dispatch list \<Rightarrow> nid list" where
  "updated out = concat (map (\<lambda>d. case d of ExecuteUpdate c \<Rightarrow> [c] | _ \<Rightarrow> []) out)"

lemmas dispatched_defs = executed_def refused_def aborted_def updated_def

lemma concat_singletons [simp]: "concat (map (\<lambda>c. [c]) xs) = xs"
  by (induction xs) simp_all

lemma concat_nils [simp]: "concat (map (\<lambda>c. []) xs) = []"
  by (induction xs) simp_all

text \<open>
  Property C24. Every command enqueued in a step is handed to the dispatcher exactly once:
  it is executed or reported as refused by the arbiter. Aborts and updates are handed over in
  the order in which they were enqueued, and the queues of the executive are empty afterwards.
\<close>

theorem commands_dispatched_once:
  assumes "arbitrateCommands depth (map (\<lambda>c. (c, requests c)) (commandsToExecute x)) a = Inr (acc, rej, a')"
    and "executeOutboundQueue (Some (\<lambda>_. (acc, rej))) x = (out, x')"
  shows "mset (executed out) + mset (refused out) = mset (commandsToExecute x)
    \<and> aborted out = commandsToAbort x \<and> updated out = updatesToExecute x
    \<and> commandsToExecute x' = [] \<and> commandsToAbort x' = [] \<and> updatesToExecute x' = []"
proof -
  have arb: "mset acc + mset rej = mset (commandsToExecute x)"
    using arbitrateCommands_mset [OF assms(1)] by (simp add: comp_def)
  then show ?thesis
    using assms(2) by (auto simp: executeOutboundQueue_def dispatched_defs comp_def split: if_splits)
qed

definition example_requests :: "nid \<Rightarrow> int resource_value list" where
  "example_requests c =
     (if c = 1 then [example_request ''mem'' 7 2] else if c = 2 then [example_request ''cam'' 1 1] else [])"

theorem commands_dispatched_once_witness:
  "\<exists>out x'. executeOutboundQueue (Some (\<lambda>_. ([3, 2], [1])))
       (idle_exec (\<lambda>_. QUEUE_NONE) [] \<lparr>commandsToExecute := [1, 2, 3], updatesToExecute := [4]\<rparr>) = (out, x')
     \<and> mset (executed out) + mset (refused out) = mset [1, 2, 3] \<and> updated out = [4]"
proof -
  let ?x = "idle_exec (\<lambda>_. QUEUE_NONE) [] \<lparr>commandsToExecute := [1, 2, 3], updatesToExecute := [4]\<rparr>"
  have "map (\<lambda>c. (c, example_requests c)) (commandsToExecute ?x) = example_commands"
    by (simp add: example_requests_def example_commands_def)
  then have arb: "arbitrateCommands 3 (map (\<lambda>c. (c, example_requests c)) (commandsToExecute ?x))
      example_arbiter = Inr ([3, 2], [1], example_after)"
    using example_result by simp
  obtain out x' where "executeOutboundQueue (Some (\<lambda>_. ([3, 2], [1]))) ?x = (out, x')"
    by (cases "executeOutboundQueue (Some (\<lambda>_. ([3, 2], [1]))) ?x")
  with commands_dispatched_once [OF arb this] show ?thesis by auto
qed

end
