(* ===== verification/Ordered_Map.thy ===== *)
theory Ordered_Map
  imports Prelude
begin

text \<open>
  What \<open>std::map\<close> and \<open>std::set\<close> require of the comparison they are given, and what they
  promise in return. A map is the list of its entries; a key is found if neither it nor the
  key of the entry is less than the other, so keys that are not equal can be the same key.
\<close>

section \<open>Maps\<close>

definition same_key :: "('k \<Rightarrow> 'k \<Rightarrow> bool) \<Rightarrow> 'k \<Rightarrow> 'k \<Rightarrow> bool" where
  "same_key lt x y \<longleftrightarrow> \<not> lt x y \<and> \<not> lt y x"

fun map_find :: "('k \<Rightarrow> 'k \<Rightarrow> bool) \<Rightarrow> 'k \<Rightarrow> ('k \<times> 'v) list \<Rightarrow> 'v option" where
  "map_find lt k [] = None"
| "map_find lt k ((k', v) # m) = (if same_key lt k k' then Some v else map_find lt k m)"

text \<open>\<open>emplace\<close> of a key that is present changes nothing.\<close>

fun map_emplace :: "('k \<Rightarrow> 'k \<Rightarrow> bool) \<Rightarrow> 'k \<Rightarrow> 'v \<Rightarrow> ('k \<times> 'v) list \<Rightarrow> ('k \<times> 'v) list" where
  "map_emplace lt k v [] = [(k, v)]"
| "map_emplace lt k v ((k', v') # m) =
     (if lt k k' then (k, v) # (k', v') # m
      else if lt k' k then (k', v') # map_emplace lt k v m
      else (k', v') # m)"

fun map_erase :: "('k \<Rightarrow> 'k \<Rightarrow> bool) \<Rightarrow> 'k \<Rightarrow> ('k \<times> 'v) list \<Rightarrow> ('k \<times> 'v) list" where
  "map_erase lt k [] = []"
| "map_erase lt k ((k', v) # m) = (if same_key lt k k' then m else (k', v) # map_erase lt k m)"

definition keys :: "('k \<times> 'v) list \<Rightarrow> 'k set" where
  "keys m = fst ` set m"

lemma keys_simps [simp]: "keys [] = {}" "keys (e # m) = insert (fst e) (keys m)"
  by (simp_all add: keys_def)

definition sorted_map :: "('k \<Rightarrow> 'k \<Rightarrow> bool) \<Rightarrow> ('k \<times> 'v) list \<Rightarrow> bool" where
  "sorted_map lt m \<longleftrightarrow> sorted_wrt lt (map fst m)"

lemma sorted_map_simps [simp]:
  "sorted_map lt []"
  "sorted_map lt (e # m) \<longleftrightarrow> (\<forall>k \<in> keys m. lt (fst e) k) \<and> sorted_map lt m"
  by (auto simp: sorted_map_def keys_def)

lemma keys_emplace: "keys (map_emplace lt k v m) \<subseteq> insert k (keys m)"
  by (induction m) (auto split: if_splits)

lemma keys_erase: "keys (map_erase lt k m) \<subseteq> keys m"
  by (induction m) (auto split: if_splits)

section \<open>Strict weak orders\<close>

locale comparator =
  fixes A :: "'k set" and lt :: "'k \<Rightarrow> 'k \<Rightarrow> bool"
  assumes asym: "x \<in> A \<Longrightarrow> y \<in> A \<Longrightarrow> lt x y \<Longrightarrow> \<not> lt y x"
    and cotrans: "x \<in> A \<Longrightarrow> y \<in> A \<Longrightarrow> z \<in> A \<Longrightarrow> lt x y \<Longrightarrow> lt x z \<or> lt z y"
begin

lemma irrefl: "x \<in> A \<Longrightarrow> \<not> lt x x"
  using asym by blast

lemma trans: "x \<in> A \<Longrightarrow> y \<in> A \<Longrightarrow> z \<in> A \<Longrightarrow> lt x y \<Longrightarrow> lt y z \<Longrightarrow> lt x z"
  using asym cotrans by blast

lemma same_refl: "x \<in> A \<Longrightarrow> same_key lt x x"
  by (simp add: same_key_def irrefl)

lemma same_sym: "same_key lt x y \<Longrightarrow> same_key lt y x"
  by (simp add: same_key_def)

lemma same_trans: "x \<in> A \<Longrightarrow> y \<in> A \<Longrightarrow> z \<in> A \<Longrightarrow> same_key lt x y \<Longrightarrow> same_key lt y z \<Longrightarrow> same_key lt x z"
  unfolding same_key_def using cotrans by blast

lemma same_less: "x \<in> A \<Longrightarrow> y \<in> A \<Longrightarrow> z \<in> A \<Longrightarrow> same_key lt x y \<Longrightarrow> lt x z = lt y z"
  unfolding same_key_def using cotrans by blast

lemma less_not_same: "lt x y \<Longrightarrow> \<not> same_key lt x y" "lt y x \<Longrightarrow> \<not> same_key lt x y"
  by (simp_all add: same_key_def)

lemma find_same:
  assumes "x \<in> A" and "y \<in> A" and "keys m \<subseteq> A" and "same_key lt x y"
  shows "map_find lt x m = map_find lt y m"
  using assms(3)
proof (induction m)
  case (Cons e m)
  obtain k v where e: "e = (k, v)" by (cases e)
  have "k \<in> A" using Cons.prems e by simp
  then have "same_key lt x k \<longleftrightarrow> same_key lt y k"
    using assms same_trans same_sym by blast
  then show ?case using Cons e by simp
qed simp

lemma find_None_above:
  "k \<in> A \<Longrightarrow> keys m \<subseteq> A \<Longrightarrow> \<forall>k' \<in> keys m. lt k k' \<Longrightarrow> map_find lt k m = None"
  by (induction m) (auto simp: less_not_same)

lemma emplace_sorted:
  assumes "k \<in> A" and "keys m \<subseteq> A" and "sorted_map lt m"
  shows "sorted_map lt (map_emplace lt k v m)"
  using assms(2,3)
proof (induction m)
  case (Cons e m)
  obtain k' v' where e: "e = (k', v')" by (cases e)
  have k': "k' \<in> A" and m: "keys m \<subseteq> A" using Cons.prems e by auto
  have above: "\<forall>x \<in> keys m. lt k' x" using Cons.prems e by simp
  show ?case
  proof (cases "lt k k'")
    case True
    have "\<forall>x \<in> keys m. lt k x" using above True trans [OF assms(1) k'] m by blast
    then show ?thesis using True Cons.prems e by simp
  next
    case False
    then show ?thesis
      using Cons.IH [OF m] Cons.prems e above keys_emplace [of lt k v m] by auto
  qed
qed simp

lemma find_emplace:
  assumes "k \<in> A" and "k2 \<in> A" and "keys m \<subseteq> A" and "sorted_map lt m"
  shows "map_find lt k2 (map_emplace lt k v m) =
    (if same_key lt k2 k then (case map_find lt k m of Some w \<Rightarrow> Some w | None \<Rightarrow> Some v)
     else map_find lt k2 m)"
  using assms(3,4)
proof (induction m)
  case Nil
  then show ?case by simp
next
  case (Cons e m)
  obtain k' v' where e: "e = (k', v')" by (cases e)
  have k': "k' \<in> A" and m: "keys m \<subseteq> A" using Cons.prems e by auto
  have above: "\<forall>x \<in> keys m. lt k' x" using Cons.prems e by simp
  consider "lt k k'" | "lt k' k" "\<not> lt k k'" | "same_key lt k k'"
    unfolding same_key_def by blast
  then show ?case
  proof cases
    case 1
    have "\<forall>x \<in> keys m. lt k x" using above 1 trans [OF assms(1) k'] m by blast
    then have "map_find lt k m = None" using find_None_above assms(1) m by blast
    then show ?thesis using 1 e by (simp add: less_not_same)
  next
    case 2
    have "same_key lt k2 k' \<Longrightarrow> \<not> same_key lt k2 k"
      using 2 k' assms(1,2) same_less [of k2 k' k] less_not_same by (meson same_key_def)
    then show ?thesis using 2 Cons.IH [OF m] Cons.prems e by (simp add: less_not_same)
  next
    case 3
    have "same_key lt k2 k \<longleftrightarrow> same_key lt k2 k'"
      using 3 same_trans [of k2] same_sym assms(1,2) k' by blast
    then show ?thesis using 3 e by (simp add: same_key_def)
  qed
qed

lemma find_erase:
  assumes "k \<in> A" and "k2 \<in> A" and "keys m \<subseteq> A" and "sorted_map lt m"
  shows "map_find lt k2 (map_erase lt k m) = (if same_key lt k2 k then None else map_find lt k2 m)"
  using assms(3,4)
proof (induction m)
  case Nil
  then show ?case by simp
next
  case (Cons e m)
  obtain k' v' where e: "e = (k', v')" by (cases e)
  have k': "k' \<in> A" and m: "keys m \<subseteq> A" using Cons.prems e by auto
  have above: "\<forall>x \<in> keys m. lt k' x" using Cons.prems e by simp
  show ?case
  proof (cases "same_key lt k k'")
    case True
    have eq: "same_key lt k2 k \<longleftrightarrow> same_key lt k2 k'"
      using True same_trans [of k2] same_sym assms(1,2) k' by blast
    have "same_key lt k2 k' \<Longrightarrow> \<forall>x \<in> keys m. lt k2 x"
      using above same_less [OF assms(2) k'] m by blast
    then have "same_key lt k2 k' \<Longrightarrow> map_find lt k2 m = None"
      using find_None_above [OF assms(2) m] by blast
    then show ?thesis using True e eq by simp
  next
    case False
    have "same_key lt k2 k' \<Longrightarrow> \<not> same_key lt k2 k"
      using False same_trans [of k k2 k'] same_sym assms(1,2) k' by blast
    then show ?thesis using False Cons.IH [OF m] Cons.prems e by simp
  qed
qed

lemma erase_sorted:
  "sorted_map lt m \<Longrightarrow> sorted_map lt (map_erase lt k m)"
proof (induction m)
  case (Cons e m)
  then show ?case using keys_erase [of lt k m] by (cases e) auto
qed simp

end

section \<open>Building comparisons\<close>

lemma comparator_mono: "comparator A lt \<Longrightarrow> B \<subseteq> A \<Longrightarrow> comparator B lt"
  unfolding comparator_def by blast

lemma comparator_cong:
  assumes "comparator A lt" and "\<And>x y. x \<in> A \<Longrightarrow> y \<in> A \<Longrightarrow> lt' x y \<longleftrightarrow> lt x y"
  shows "comparator A lt'"
  using assms unfolding comparator_def by blast

lemma comparator_key: "comparator A (\<lambda>x y. (f x :: 'b::linorder) < f y)"
  by unfold_locales auto

lemma comparator_never: "comparator A (\<lambda>x y. False)"
  by unfold_locales auto

text \<open>First by a key, then by a comparison among those with the same key.\<close>

lemma comparator_lex:
  assumes "\<And>c. comparator {x \<in> A. f x = c} lt"
  shows "comparator A (\<lambda>x y. (f x :: 'b::linorder) < f y \<or> f x = f y \<and> lt x y)"
proof
  fix x y
  assume xy: "x \<in> A" "y \<in> A" and less: "f x < f y \<or> f x = f y \<and> lt x y"
  show "\<not> (f y < f x \<or> f y = f x \<and> lt y x)"
    using less comparator.asym [OF assms, of x "f x" y] xy by auto
next
  fix x y z
  assume xyz: "x \<in> A" "y \<in> A" "z \<in> A" and less: "f x < f y \<or> f x = f y \<and> lt x y"
  show "(f x < f z \<or> f x = f z \<and> lt x z) \<or> (f z < f y \<or> f z = f y \<and> lt z y)"
    using less comparator.cotrans [OF assms, of x "f x" y z] xyz by (cases "f z" "f x" rule: linorder_cases) auto
qed

end
