(* ===== verification/Plexil_Value.thy ===== *)
theory Plexil_Value
  imports Value_Types Node_Constants "HOL-Library.List_Lexorder" "HOL-Library.Char_ord"
begin

text \<open>
  Values (src/src/value/Value.cc), arrays (Array.cc, ArrayImpl.cc) and the states of lookups
  and commands (src/src/intfc/State.cc), with their comparison operators.

  An \<open>Integer\<close> is a \<open>32 word\<close> read with \<open>sint\<close>. A \<open>Real\<close> is the bit pattern of the double:
  comparison is that of IEEE 754, defined on the patterns, with NaN, infinities and signed
  zeros; arithmetic on reals is not used here. A \<open>String\<close> is a list of bytes.
\<close>

section \<open>Reals\<close>

type_synonym integer = "32 word"
type_synonym real_bits = "64 word"

definition r_sign :: "real_bits \<Rightarrow> bool" where
  "r_sign x \<longleftrightarrow> unat x div 2 ^ 63 = 1"

definition r_exponent :: "real_bits \<Rightarrow> nat" where
  "r_exponent x = unat x div 2 ^ 52 mod 2 ^ 11"

definition r_mantissa :: "real_bits \<Rightarrow> nat" where
  "r_mantissa x = unat x mod 2 ^ 52"

definition isnan :: "real_bits \<Rightarrow> bool" where
  "isnan x \<longleftrightarrow> r_exponent x = 2047 \<and> r_mantissa x \<noteq> 0"

text \<open>
  The number a pattern stands for, in units of the smallest positive double; an infinity gets
  a number beyond all finite ones. So both zeros are 0, and the order is that of the doubles.
\<close>

definition r_units :: "real_bits \<Rightarrow> int" where
  "r_units x =
     (let m = (if r_exponent x = 0 then int (r_mantissa x)
               else int (2 ^ 52 + r_mantissa x) * 2 ^ (r_exponent x - 1))
      in if r_sign x then - m else m)"

definition r_less :: "real_bits \<Rightarrow> real_bits \<Rightarrow> bool" where
  "r_less x y \<longleftrightarrow> \<not> isnan x \<and> \<not> isnan y \<and> r_units x < r_units y"

definition r_equal :: "real_bits \<Rightarrow> real_bits \<Rightarrow> bool" where
  "r_equal x y \<longleftrightarrow> \<not> isnan x \<and> \<not> isnan y \<and> r_units x = r_units y"

text \<open>The conversion \<open>(Real) i\<close>, exact for 32 bits.\<close>

fun ilog2 :: "nat \<Rightarrow> nat" where
  "ilog2 n = (if n < 2 then 0 else Suc (ilog2 (n div 2)))"

declare ilog2.simps [simp del]

definition real_of_integer :: "integer \<Rightarrow> real_bits" where
  "real_of_integer i =
     (let a = nat \<bar>sint i\<bar>; k = ilog2 a in
      if a = 0 then 0
      else of_nat ((if sint i < 0 then 2 ^ 63 else 0) + (1023 + k) * 2 ^ 52 + (a * 2 ^ (52 - k) - 2 ^ 52)))"

lemma ilog2_bounds: "0 < n \<Longrightarrow> 2 ^ ilog2 n \<le> n \<and> n < 2 ^ Suc (ilog2 n)"
proof (induction n rule: ilog2.induct)
  case (1 n)
  show ?case
  proof (cases "n < 2")
    case True
    then show ?thesis using 1 by (simp add: ilog2.simps)
  next
    case False
    then show ?thesis using 1 by (simp add: ilog2.simps [of n] less_mult_imp_div_less) linarith
  qed
qed

lemma r_fields:
  assumes "s < 2" and "e < 2 ^ 11" and "m < 2 ^ 52"
    and "x = of_nat (s * 2 ^ 63 + e * 2 ^ 52 + m)"
  shows "r_sign x \<longleftrightarrow> s = 1" and "r_exponent x = e" and "r_mantissa x = m"
proof -
  have x: "unat x = s * 2 ^ 63 + e * 2 ^ 52 + m"
    unfolding assms(4) unat_of_nat using assms(1-3) by (intro mod_less) simp
  then have y: "unat x = (s * 2 ^ 11 + e) * 2 ^ 52 + m" by simp
  have "unat x div 2 ^ 52 = s * 2 ^ 11 + e" using assms(3) unfolding y by (simp add: div_mult_self1)
  then show "r_exponent x = e" using assms(2) by (simp add: r_exponent_def)
  show "r_mantissa x = m" unfolding r_mantissa_def y mod_mult_self3 using assms(3) by (rule mod_less)
  show "r_sign x \<longleftrightarrow> s = 1" using assms(1-3) unfolding r_sign_def x by (simp; linarith)
qed

lemma real_of_integer_units:
  "r_units (real_of_integer i) = sint i * 2 ^ 1074" "\<not> isnan (real_of_integer i)"
proof -
  define a where "a = nat \<bar>sint i\<bar>"
  have abs: "sint i = (if sint i < 0 then - int a else int a)" by (simp add: a_def)
  show "r_units (real_of_integer i) = sint i * 2 ^ 1074" "\<not> isnan (real_of_integer i)"
  proof (atomize (full), cases "a = 0")
    case True
    then have "real_of_integer i = 0" by (simp add: real_of_integer_def a_def [symmetric])
    moreover have "sint i = 0" using True by (simp add: a_def)
    ultimately show "r_units (real_of_integer i) = sint i * 2 ^ 1074 \<and> \<not> isnan (real_of_integer i)"
      by (simp add: r_units_def r_sign_def r_exponent_def r_mantissa_def isnan_def)
  next
    case False
    define k where "k = ilog2 a"
    have k: "2 ^ k \<le> a" "a < 2 ^ Suc k" using ilog2_bounds [of a] False by (simp_all add: k_def)
    have "a \<le> 2 ^ 31"
      using sint_ge [of i] sint_lt [of i] by (simp add: a_def nat_le_iff)
    then have "(2 :: nat) ^ k \<le> 2 ^ 31" using k by linarith
    then have k31: "k \<le> 31" by (rule power_le_imp_le_exp [rotated]) simp
    let ?s = "if sint i < 0 then 1 else 0 :: nat"
    let ?m = "a * 2 ^ (52 - k) - 2 ^ 52"
    have split: "(2 :: nat) ^ 52 = 2 ^ k * 2 ^ (52 - k)" using k31 by (simp flip: power_add)
    have lo: "2 ^ 52 \<le> a * 2 ^ (52 - k)" using k by (simp only: split mult_right_mono)
    have "a * 2 ^ (52 - k) < 2 ^ Suc k * 2 ^ (52 - k)" using k by simp
    also have "\<dots> = 2 ^ 53" using k31 by (simp flip: power_add)
    finally have hi: "?m < 2 ^ 52" using lo by simp
    have x: "real_of_integer i = of_nat (?s * 2 ^ 63 + (1023 + k) * 2 ^ 52 + ?m)"
      using False unfolding real_of_integer_def a_def [symmetric] k_def [symmetric] Let_def
      by (cases "sint i < 0") simp_all
    have "?s < 2" by simp
    moreover have "1023 + k < 2 ^ 11" using k31 by simp
    ultimately have f: "r_sign (real_of_integer i) \<longleftrightarrow> ?s = 1"
      "r_exponent (real_of_integer i) = 1023 + k" "r_mantissa (real_of_integer i) = ?m"
      using r_fields [OF _ _ hi x] by blast+
    have "2 ^ 52 + ?m = a * 2 ^ (52 - k)" using lo by simp
    moreover have "a * 2 ^ (52 - k) * 2 ^ (1022 + k) = a * 2 ^ 1074"
      using k31 by (simp flip: power_add add: mult.assoc)
    ultimately have "int (2 ^ 52 + ?m) * 2 ^ (1022 + k) = int a * 2 ^ 1074"
      by (metis of_nat_mult of_nat_numeral of_nat_power)
    then have "r_units (real_of_integer i) = (if sint i < 0 then - int a else int a) * 2 ^ 1074"
      unfolding r_units_def Let_def f by simp
    then show "r_units (real_of_integer i) = sint i * 2 ^ 1074 \<and> \<not> isnan (real_of_integer i)"
      using abs f k31 by (simp add: isnan_def)
  qed
qed

text \<open>The number 1 in these units.\<close>

definition one_in_units :: int where
  "one_in_units = 2 ^ 1074"

lemma one_in_units_pos [simp]: "0 < one_in_units"
  by (simp add: one_in_units_def)

lemma one_in_units_nonzero [simp]: "one_in_units \<noteq> 0"
  by (simp add: one_in_units_def)

lemma r_units_of_integer [simp]: "r_units (real_of_integer i) = sint i * one_in_units"
  by (simp only: one_in_units_def real_of_integer_units(1))

lemma isnan_of_integer [simp]: "\<not> isnan (real_of_integer i)"
  by (rule real_of_integer_units(2))

section \<open>Arrays\<close>

text \<open>
  \<open>ArrayImpl<T>\<close>: the flags of the base class \<open>Array\<close> and the contents. An element whose
  flag is false is unknown; its slot keeps whatever was stored last.
\<close>

record 'a array_impl =
  ar_known :: "bool list"
  ar_contents :: "'a list"

definition array_size :: "'a array_impl \<Rightarrow> nat" where
  "array_size a = length (ar_known a)"

definition checkIndex :: "nat \<Rightarrow> 'a array_impl \<Rightarrow> bool" where
  "checkIndex index a \<longleftrightarrow> index < length (ar_known a)"

text \<open>\<open>std::vector::resize\<close>.\<close>

definition vector_resize :: "nat \<Rightarrow> 'a \<Rightarrow> 'a list \<Rightarrow> 'a list" where
  "vector_resize n v xs = take n xs @ replicate (n - length xs) v"

definition new_array :: "nat \<Rightarrow> 'a \<Rightarrow> 'a array_impl" where
  "new_array n v = \<lparr>ar_known = replicate n False, ar_contents = replicate n v\<rparr>"

definition array_of :: "'a list \<Rightarrow> 'a array_impl" where
  "array_of xs = \<lparr>ar_known = replicate (length xs) True, ar_contents = xs\<rparr>"

definition array_resize :: "nat \<Rightarrow> 'a \<Rightarrow> 'a array_impl \<Rightarrow> 'a array_impl" where
  "array_resize n v a =
     \<lparr>ar_known = vector_resize n False (ar_known a), ar_contents = vector_resize n v (ar_contents a)\<rparr>"

definition getElement :: "nat \<Rightarrow> 'a array_impl \<Rightarrow> 'a option" where
  "getElement index a =
     (if \<not> checkIndex index a then None
      else if \<not> ar_known a ! index then None
      else Some (ar_contents a ! index))"

definition setElement :: "nat \<Rightarrow> 'a \<Rightarrow> 'a array_impl \<Rightarrow> 'a array_impl" where
  "setElement index newval a =
     (if \<not> checkIndex index a then a
      else a\<lparr>ar_contents := (ar_contents a)[index := newval], ar_known := (ar_known a)[index := True]\<rparr>)"

definition elementKnown :: "nat \<Rightarrow> 'a array_impl \<Rightarrow> bool result" where
  "elementKnown index a =
     bindE (check PlanError (checkIndex index a)) (\<lambda>_. Inr (ar_known a ! index))"

definition setElementUnknown :: "nat \<Rightarrow> 'a array_impl \<Rightarrow> 'a array_impl result" where
  "setElementUnknown index a =
     bindE (check PlanError (checkIndex index a)) (\<lambda>_.
       Inr (a\<lparr>ar_known := (ar_known a)[index := False]\<rparr>))"

definition array_reset :: "'a array_impl \<Rightarrow> 'a array_impl" where
  "array_reset a = a\<lparr>ar_known := map (\<lambda>_. False) (ar_known a)\<rparr>"

definition allElementsKnown :: "'a array_impl \<Rightarrow> bool" where
  "allElementsKnown a \<longleftrightarrow> list_all (\<lambda>k. k) (ar_known a)"

definition anyElementsKnown :: "'a array_impl \<Rightarrow> bool" where
  "anyElementsKnown a \<longleftrightarrow> list_ex (\<lambda>k. k) (ar_known a)"

text \<open>\<open>operator==\<close>, given that of the elements: it compares the slots of unknown elements too.\<close>

definition array_equal :: "('a \<Rightarrow> 'a \<Rightarrow> bool) \<Rightarrow> 'a array_impl \<Rightarrow> 'a array_impl \<Rightarrow> bool" where
  "array_equal eq a b \<longleftrightarrow>
     (if ar_known a \<noteq> ar_known b then False else list_all2 eq (ar_contents a) (ar_contents b))"

text \<open>\<open>operator<\<close>: the loop over the elements of two arrays of the same size.\<close>

fun elements_less :: "('a \<Rightarrow> 'a \<Rightarrow> bool) \<Rightarrow> (bool \<times> 'a) list \<Rightarrow> (bool \<times> 'a) list \<Rightarrow> bool" where
  "elements_less lt ((aKnown, x) # as) ((bKnown, y) # bs) =
     (if \<not> aKnown \<and> bKnown then True
      else if aKnown \<and> \<not> bKnown then False
      else if \<not> aKnown then elements_less lt as bs
      else if lt x y then True
      else if lt y x then False
      else elements_less lt as bs)"
| "elements_less lt _ _ = False"

definition elements_of :: "'a array_impl \<Rightarrow> (bool \<times> 'a) list" where
  "elements_of a = zip (ar_known a) (ar_contents a)"

definition array_less :: "('a \<Rightarrow> 'a \<Rightarrow> bool) \<Rightarrow> 'a array_impl \<Rightarrow> 'a array_impl \<Rightarrow> bool" where
  "array_less lt a b \<longleftrightarrow>
     (if array_size a < array_size b then True
      else if array_size b < array_size a then False
      else elements_less lt (elements_of a) (elements_of b))"

section \<open>Values\<close>

datatype array =
    BooleanArray "bool array_impl"
  | IntegerArray "integer array_impl"
  | RealArray "real_bits array_impl"
  | StringArray "string array_impl"

text \<open>
  The command handle is kept as the byte of the enumeration, which \<open>deserialize\<close> reads
  without checking it.
\<close>

datatype payload =
    BooleanVal bool
  | IntegerVal integer
  | RealVal real_bits
  | StringVal string
  | NodeStateVal node_state
  | OutcomeVal node_outcome
  | FailureVal failure_type
  | CommandHandleVal "8 word"
  | ArrayVal array

datatype pvalue =
    Unknown value_type  \<comment> \<open>\<open>m_known\<close> is false\<close>
  | Known payload

fun array_type_of :: "array \<Rightarrow> value_type" where
  "array_type_of (BooleanArray _) = BOOLEAN_ARRAY_TYPE"
| "array_type_of (IntegerArray _) = INTEGER_ARRAY_TYPE"
| "array_type_of (RealArray _) = REAL_ARRAY_TYPE"
| "array_type_of (StringArray _) = STRING_ARRAY_TYPE"

fun payload_type :: "payload \<Rightarrow> value_type" where
  "payload_type (BooleanVal _) = BOOLEAN_TYPE"
| "payload_type (IntegerVal _) = INTEGER_TYPE"
| "payload_type (RealVal _) = REAL_TYPE"
| "payload_type (StringVal _) = STRING_TYPE"
| "payload_type (NodeStateVal _) = NODE_STATE_TYPE"
| "payload_type (OutcomeVal _) = OUTCOME_TYPE"
| "payload_type (FailureVal _) = FAILURE_TYPE"
| "payload_type (CommandHandleVal _) = COMMAND_HANDLE_TYPE"
| "payload_type (ArrayVal a) = array_type_of a"

fun valueType :: "pvalue \<Rightarrow> value_type" where
  "valueType (Unknown t) = t"
| "valueType (Known p) = payload_type p"

fun isKnown :: "pvalue \<Rightarrow> bool" where
  "isKnown (Unknown _) = False"
| "isKnown (Known _) = True"

text \<open>
  The \<open>getValue\<close> methods: \<open>None\<close> when the value is unknown; a value of another type is an
  error of the plan, except that a real can be got from an integer.
\<close>

fun getBoolean :: "pvalue \<Rightarrow> bool option result" where
  "getBoolean (Unknown _) = Inr None"
| "getBoolean (Known (BooleanVal b)) = Inr (Some b)"
| "getBoolean (Known _) = Inl PlanError"

fun getInteger :: "pvalue \<Rightarrow> integer option result" where
  "getInteger (Unknown _) = Inr None"
| "getInteger (Known (IntegerVal i)) = Inr (Some i)"
| "getInteger (Known _) = Inl PlanError"

fun getReal :: "pvalue \<Rightarrow> real_bits option result" where
  "getReal (Unknown _) = Inr None"
| "getReal (Known (RealVal r)) = Inr (Some r)"
| "getReal (Known (IntegerVal i)) = Inr (Some (real_of_integer i))"
| "getReal (Known _) = Inl PlanError"

fun getString :: "pvalue \<Rightarrow> string option result" where
  "getString (Unknown _) = Inr None"
| "getString (Known (StringVal t)) = Inr (Some t)"
| "getString (Known _) = Inl PlanError"

fun getArray :: "pvalue \<Rightarrow> array option result" where
  "getArray (Unknown _) = Inr None"
| "getArray (Known (ArrayVal a)) = Inr (Some a)"
| "getArray (Known _) = Inl PlanError"

fun getElementValue :: "nat \<Rightarrow> array \<Rightarrow> pvalue" where
  "getElementValue i (BooleanArray a) =
     (case getElement i a of Some b \<Rightarrow> Known (BooleanVal b) | None \<Rightarrow> Unknown UNKNOWN_TYPE)"
| "getElementValue i (IntegerArray a) =
     (case getElement i a of Some b \<Rightarrow> Known (IntegerVal b) | None \<Rightarrow> Unknown UNKNOWN_TYPE)"
| "getElementValue i (RealArray a) =
     (case getElement i a of Some b \<Rightarrow> Known (RealVal b) | None \<Rightarrow> Unknown UNKNOWN_TYPE)"
| "getElementValue i (StringArray a) =
     (case getElement i a of Some b \<Rightarrow> Known (StringVal b) | None \<Rightarrow> Unknown UNKNOWN_TYPE)"

text \<open>\<open>setElementValue\<close>: out of range nothing happens, an unknown value clears the flag.\<close>

definition set_element_from :: "nat \<Rightarrow> 'a option result \<Rightarrow> 'a array_impl \<Rightarrow> 'a array_impl result" where
  "set_element_from index value a =
     (if \<not> checkIndex index a then Inr a
      else bindE value (\<lambda>temp.
        Inr (case temp of
               Some v \<Rightarrow> a\<lparr>ar_contents := (ar_contents a)[index := v],
                           ar_known := (ar_known a)[index := True]\<rparr>
             | None \<Rightarrow> a\<lparr>ar_known := (ar_known a)[index := False]\<rparr>)))"

fun setElementValue :: "nat \<Rightarrow> pvalue \<Rightarrow> array \<Rightarrow> array result" where
  "setElementValue i v (BooleanArray a) =
     bindE (set_element_from i (getBoolean v) a) (\<lambda>a. Inr (BooleanArray a))"
| "setElementValue i v (IntegerArray a) =
     bindE (set_element_from i (getInteger v) a) (\<lambda>a. Inr (IntegerArray a))"
| "setElementValue i v (RealArray a) =
     bindE (set_element_from i (getReal v) a) (\<lambda>a. Inr (RealArray a))"
| "setElementValue i v (StringArray a) =
     bindE (set_element_from i (getString v) a) (\<lambda>a. Inr (StringArray a))"

section \<open>Comparison\<close>

fun arrays_equal :: "array \<Rightarrow> array \<Rightarrow> bool" where
  "arrays_equal (BooleanArray a) (BooleanArray b) = array_equal (=) a b"
| "arrays_equal (IntegerArray a) (IntegerArray b) = array_equal (=) a b"
| "arrays_equal (RealArray a) (RealArray b) = array_equal r_equal a b"
| "arrays_equal (StringArray a) (StringArray b) = array_equal (=) a b"
| "arrays_equal _ _ = False"

definition payload_equal :: "payload \<Rightarrow> payload \<Rightarrow> bool" where
  "payload_equal p q \<longleftrightarrow>
     (case p of
        IntegerVal i \<Rightarrow> (case q of IntegerVal j \<Rightarrow> (i = j) | RealVal r \<Rightarrow> r_equal r (real_of_integer i) | _ \<Rightarrow> False)
      | RealVal r \<Rightarrow> (case q of RealVal t \<Rightarrow> r_equal r t | IntegerVal i \<Rightarrow> r_equal r (real_of_integer i) | _ \<Rightarrow> False)
      | BooleanVal a \<Rightarrow> (case q of BooleanVal b \<Rightarrow> (a = b) | _ \<Rightarrow> False)
      | NodeStateVal a \<Rightarrow> (case q of NodeStateVal b \<Rightarrow> (a = b) | _ \<Rightarrow> False)
      | OutcomeVal a \<Rightarrow> (case q of OutcomeVal b \<Rightarrow> (a = b) | _ \<Rightarrow> False)
      | FailureVal a \<Rightarrow> (case q of FailureVal b \<Rightarrow> (a = b) | _ \<Rightarrow> False)
      | CommandHandleVal a \<Rightarrow> (case q of CommandHandleVal b \<Rightarrow> (a = b) | _ \<Rightarrow> False)
      | StringVal a \<Rightarrow> (case q of StringVal b \<Rightarrow> (a = b) | _ \<Rightarrow> False)
      | ArrayVal a \<Rightarrow> (case q of ArrayVal b \<Rightarrow> arrays_equal a b | _ \<Rightarrow> False))"

definition value_equals :: "pvalue \<Rightarrow> pvalue \<Rightarrow> bool" where
  "value_equals x y \<longleftrightarrow>
     (case (x, y) of
        (Known p, Known q) \<Rightarrow> payload_equal p q
      | (Unknown t, Unknown u) \<Rightarrow>
          (case t of
             INTEGER_TYPE \<Rightarrow> u = t \<or> u = REAL_TYPE
           | REAL_TYPE \<Rightarrow> u = t \<or> u = INTEGER_TYPE
           | _ \<Rightarrow> u = t)
      | _ \<Rightarrow> False)"

fun arrays_less :: "array \<Rightarrow> array \<Rightarrow> bool" where
  "arrays_less (BooleanArray a) (BooleanArray b) = array_less (<) a b"
| "arrays_less (IntegerArray a) (IntegerArray b) = array_less (\<lambda>i j. sint i < sint j) a b"
| "arrays_less (RealArray a) (RealArray b) = array_less r_less a b"
| "arrays_less (StringArray a) (StringArray b) = array_less (<) a b"
| "arrays_less _ _ = False"

definition payload_less :: "payload \<Rightarrow> payload \<Rightarrow> bool" where
  "payload_less p q \<longleftrightarrow>
     (case p of
        IntegerVal i \<Rightarrow> (case q of IntegerVal j \<Rightarrow> (sint i < sint j) | RealVal r \<Rightarrow> r_less (real_of_integer i) r | _ \<Rightarrow> tless (payload_type p) (payload_type q))
      | RealVal r \<Rightarrow> (case q of RealVal t \<Rightarrow> r_less r t | IntegerVal i \<Rightarrow> r_less r (real_of_integer i) | _ \<Rightarrow> tless (payload_type p) (payload_type q))
      | BooleanVal a \<Rightarrow> (case q of BooleanVal b \<Rightarrow> (a < b) | _ \<Rightarrow> tless (payload_type p) (payload_type q))
      | NodeStateVal a \<Rightarrow> (case q of NodeStateVal b \<Rightarrow> (node_state_code a < node_state_code b) | _ \<Rightarrow> tless (payload_type p) (payload_type q))
      | OutcomeVal a \<Rightarrow> (case q of OutcomeVal b \<Rightarrow> (node_outcome_code a < node_outcome_code b) | _ \<Rightarrow> tless (payload_type p) (payload_type q))
      | FailureVal a \<Rightarrow> (case q of FailureVal b \<Rightarrow> (failure_type_code a < failure_type_code b) | _ \<Rightarrow> tless (payload_type p) (payload_type q))
      | CommandHandleVal a \<Rightarrow> (case q of CommandHandleVal b \<Rightarrow> (a < b) | _ \<Rightarrow> tless (payload_type p) (payload_type q))
      | StringVal a \<Rightarrow> (case q of StringVal b \<Rightarrow> (a < b) | _ \<Rightarrow> tless (payload_type p) (payload_type q))
      | ArrayVal a \<Rightarrow> (case q of ArrayVal b \<Rightarrow> (if array_type_of a = array_type_of b then arrays_less a b
      else tless (array_type_of a) (array_type_of b)) | _ \<Rightarrow> tless (payload_type p) (payload_type q)))"

definition lessThan :: "pvalue \<Rightarrow> pvalue \<Rightarrow> bool" where
  "lessThan x y \<longleftrightarrow>
     (case (x, y) of
        (Unknown _, Known _) \<Rightarrow> True
      | (Known _, Unknown _) \<Rightarrow> False
      | (Known p, Known q) \<Rightarrow> payload_less p q
      | (Unknown t, Unknown u) \<Rightarrow>
          (case t of
             INTEGER_TYPE \<Rightarrow> if u = t then False else if u = REAL_TYPE then True else tless t u
           | REAL_TYPE \<Rightarrow> if u = t then False else if u = INTEGER_TYPE then False else tless t u
           | _ \<Rightarrow> tless t u))"

section \<open>States\<close>

record state =
  st_name :: string
  st_parameters :: "pvalue list"

definition state_equal :: "state \<Rightarrow> state \<Rightarrow> bool" where
  "state_equal a b \<longleftrightarrow> st_name a = st_name b \<and> list_all2 value_equals (st_parameters a) (st_parameters b)"

fun parameters_less :: "pvalue list \<Rightarrow> pvalue list \<Rightarrow> bool" where
  "parameters_less (a # as) (b # bs) =
     (if lessThan a b then True else if lessThan b a then False else parameters_less as bs)"
| "parameters_less _ _ = False"

definition state_less :: "state \<Rightarrow> state \<Rightarrow> bool" where
  "state_less a b \<longleftrightarrow>
     (if st_name a < st_name b then True
      else if st_name b < st_name a then False
      else if length (st_parameters a) < length (st_parameters b) then True
      else if length (st_parameters b) < length (st_parameters a) then False
      else parameters_less (st_parameters a) (st_parameters b))"

end
