(* ===== verification/Value_Order.thy ===== *)
theory Value_Order
  imports Plexil_Value Ordered_Map
begin

text \<open>
  The comparison operators of values and states are fit to be the order of a \<open>std::map\<close>, as
  the state cache uses them, as long as no NaN is involved; and how they agree with equality.
\<close>

section \<open>Arrays\<close>

context comparator
begin

lemma elements_asym:
  assumes "\<forall>(k, x) \<in> set as. k \<longrightarrow> x \<in> A" and "\<forall>(k, x) \<in> set bs. k \<longrightarrow> x \<in> A"
    and "elements_less lt as bs"
  shows "\<not> elements_less lt bs as"
  using assms
proof (induction as bs rule: list_induct2')
  case (4 e as f bs)
  obtain ak x bk y where e: "e = (ak, x)" "f = (bk, y)" by (cases e, cases f)
  have asy: "ak \<Longrightarrow> bk \<Longrightarrow> lt x y \<Longrightarrow> \<not> lt y x" using 4(2,3) asym unfolding e by simp
  have IH: "elements_less lt as bs \<Longrightarrow> \<not> elements_less lt bs as"
    using 4(1) 4(2,3) by simp
  have "elements_less lt ((ak, x) # as) ((bk, y) # bs)" using 4(4) unfolding e .
  then show ?case unfolding e using asy IH by (simp split: if_splits)
qed simp_all

lemma elements_cotrans:
  assumes "\<forall>(k, x) \<in> set as. k \<longrightarrow> x \<in> A" and "\<forall>(k, x) \<in> set bs. k \<longrightarrow> x \<in> A"
    and "\<forall>(k, x) \<in> set cs. k \<longrightarrow> x \<in> A" and "length cs = length as" and "length bs = length as"
    and "elements_less lt as bs"
  shows "elements_less lt as cs \<or> elements_less lt cs bs"
  using assms
proof (induction as bs arbitrary: cs rule: list_induct2')
  case (4 e as f bs)
  obtain g cs' where cs: "cs = g # cs'" using 4 by (cases cs) auto
  obtain ak x bk y ck z where e: "e = (ak, x)" "f = (bk, y)" "g = (ck, z)"
    by (cases e, cases f, cases g)
  have IH: "elements_less lt as bs \<Longrightarrow> elements_less lt as cs' \<or> elements_less lt cs' bs"
    using 4(1) [of cs'] 4(2-6) unfolding cs by simp
  have less: "elements_less lt ((ak, x) # as) ((bk, y) # bs)" using 4(7) unfolding e .
  have A: "ak \<Longrightarrow> x \<in> A" "bk \<Longrightarrow> y \<in> A" "ck \<Longrightarrow> z \<in> A"
    using 4(2-4) unfolding cs e by simp_all
  show ?case
  proof (cases "ak \<and> bk \<and> ck")
    case True
    then have K: ak bk ck and xyz: "x \<in> A" "y \<in> A" "z \<in> A" using A by simp_all
    have lt: "lt x y \<or> \<not> lt x y \<and> \<not> lt y x \<and> elements_less lt as bs"
      using less K by (auto split: if_splits)
    have goal: "elements_less lt (e # as) cs \<or> elements_less lt cs (f # bs) \<longleftrightarrow>
        (lt x z \<or> \<not> lt z x \<and> elements_less lt as cs') \<or> (lt z y \<or> \<not> lt y z \<and> elements_less lt cs' bs)"
      using K asym [OF xyz(1,3)] asym [OF xyz(2,3)] asym [OF xyz(3,1)] unfolding cs e by auto
    show ?thesis
      unfolding goal
      using lt IH cotrans [OF xyz(1,2,3)] cotrans [OF xyz(3,1,2)] cotrans [OF xyz(2,3,1)] by blast
  next
    case False
    then show ?thesis using less IH unfolding cs e by (cases ak; cases bk; cases ck) simp_all
  qed
qed simp_all

end

text \<open>
  Well-formed arrays have a flag for every slot. \<open>known_in\<close>: the known elements are in a set.
\<close>

definition array_wf :: "'a array_impl \<Rightarrow> bool" where
  "array_wf a \<longleftrightarrow> length (ar_known a) = length (ar_contents a)"

definition known_in :: "'a set \<Rightarrow> 'a array_impl \<Rightarrow> bool" where
  "known_in A a \<longleftrightarrow> array_wf a \<and> (\<forall>(k, x) \<in> set (elements_of a). k \<longrightarrow> x \<in> A)"

lemma length_elements [simp]: "array_wf a \<Longrightarrow> length (elements_of a) = array_size a"
  by (simp add: elements_of_def array_size_def array_wf_def)

lemma array_less_eq:
  "array_less lt a b \<longleftrightarrow>
     array_size a < array_size b \<or> array_size a = array_size b \<and> elements_less lt (elements_of a) (elements_of b)"
  by (auto simp: array_less_def)

lemma comparator_array:
  assumes "comparator A lt"
  shows "comparator {a. known_in A a} (array_less lt)"
proof -
  have "comparator {a \<in> {a. known_in A a}. array_size a = n} (\<lambda>a b. elements_less lt (elements_of a) (elements_of b))" for n
  proof (unfold_locales, goal_cases)
    case (1 a b)
    then show ?case
      using comparator.elements_asym [OF assms, of "elements_of a" "elements_of b"] by (simp add: known_in_def)
  next
    case (2 a b c)
    then show ?case
      using comparator.elements_cotrans [OF assms, of "elements_of a" "elements_of b" "elements_of c"]
      by (simp add: known_in_def)
  qed
  from comparator_lex [of "{a. known_in A a}" array_size, OF this]
  show ?thesis by (rule comparator_cong) (simp add: array_less_eq)
qed

section \<open>Payloads\<close>

definition nan_free :: "real_bits set" where
  "nan_free = {r. \<not> isnan r}"

fun array_ok :: "array \<Rightarrow> bool" where
  "array_ok (BooleanArray a) = known_in UNIV a"
| "array_ok (IntegerArray a) = known_in UNIV a"
| "array_ok (RealArray a) = known_in nan_free a"
| "array_ok (StringArray a) = known_in UNIV a"

fun payload_ok :: "payload \<Rightarrow> bool" where
  "payload_ok (RealVal r) = (\<not> isnan r)"
| "payload_ok (ArrayVal a) = array_ok a"
| "payload_ok _ = True"

text \<open>Integers and reals are compared as numbers; the other types by their code first.\<close>

fun type_rank :: "payload \<Rightarrow> nat" where
  "type_rank (BooleanVal _) = 1"
| "type_rank (IntegerVal _) = 2"
| "type_rank (RealVal _) = 2"
| "type_rank (StringVal _) = 4"
| "type_rank (ArrayVal a) = unat (value_type_code (array_type_of a))"
| "type_rank (NodeStateVal _) = 49"
| "type_rank (OutcomeVal _) = 50"
| "type_rank (FailureVal _) = 51"
| "type_rank (CommandHandleVal _) = 52"

fun number_of_payload :: "payload \<Rightarrow> int" where
  "number_of_payload (IntegerVal i) = sint i * one_in_units"
| "number_of_payload (RealVal r) = r_units r"
| "number_of_payload (BooleanVal b) = of_bool b"
| "number_of_payload (NodeStateVal s) = int (node_state_code s)"
| "number_of_payload (OutcomeVal s) = int (node_outcome_code s)"
| "number_of_payload (FailureVal s) = int (failure_type_code s)"
| "number_of_payload (CommandHandleVal h) = int (unat h)"
| "number_of_payload _ = 0"

fun string_of_payload :: "payload \<Rightarrow> string" where
  "string_of_payload (StringVal t) = t"
| "string_of_payload _ = []"

fun arrays_in_payload_less :: "payload \<Rightarrow> payload \<Rightarrow> bool" where
  "arrays_in_payload_less (ArrayVal a) (ArrayVal b) = arrays_less a b"
| "arrays_in_payload_less _ _ = False"

text \<open>The code of an array type lies strictly between 16 and 21.\<close>

lemma array_rank: "16 < unat (value_type_code (array_type_of a)) \<and> unat (value_type_code (array_type_of a)) < 21"
  by (cases a) simp_all

lemma array_rank_simps [simp]:
  "n \<le> 16 \<Longrightarrow> n < unat (value_type_code (array_type_of a))"
  "n \<le> 16 \<Longrightarrow> unat (value_type_code (array_type_of a)) \<noteq> n"
  "n \<le> 16 \<Longrightarrow> \<not> unat (value_type_code (array_type_of a)) < n"
  "21 \<le> n \<Longrightarrow> unat (value_type_code (array_type_of a)) < n"
  "21 \<le> n \<Longrightarrow> unat (value_type_code (array_type_of a)) \<noteq> n"
  "21 \<le> n \<Longrightarrow> \<not> n < unat (value_type_code (array_type_of a))"
  using array_rank [of a] by auto

lemma array_rank_inject [simp]:
  "unat (value_type_code (array_type_of a)) = unat (value_type_code (array_type_of b)) \<longleftrightarrow>
     array_type_of a = array_type_of b"
  by (cases a; cases b) simp_all

lemma payload_less_array:
  "payload_less (ArrayVal a) q \<longleftrightarrow>
    type_rank (ArrayVal a) < type_rank q \<or> type_rank (ArrayVal a) = type_rank q \<and> arrays_in_payload_less (ArrayVal a) q"
  by (cases q) (auto simp: payload_less_def word_less_nat_alt)

lemma payload_less_numeric:
  assumes "payload_ok p" and "payload_ok q" and "type_rank p = 2"
  shows "payload_less p q \<longleftrightarrow>
    type_rank p < type_rank q \<or> type_rank p = type_rank q \<and> number_of_payload p < number_of_payload q"
  using assms
  by (cases p; cases q; simp add: payload_less_def word_less_nat_alt r_less_def)

lemma payload_less_plain:
  assumes "type_rank p \<noteq> 2" and "\<And>a. p \<noteq> ArrayVal a"
  shows "payload_less p q \<longleftrightarrow>
    type_rank p < type_rank q \<or> type_rank p = type_rank q \<and>
      (number_of_payload p < number_of_payload q \<or> number_of_payload p = number_of_payload q \<and>
         string_of_payload p < string_of_payload q)"
  using assms
  by (cases p; cases q; simp add: payload_less_def word_less_nat_alt; auto simp: word_less_def
      simp flip: word_less_nat_alt)

lemma payload_less_eq:
  assumes "payload_ok p" and "payload_ok q"
  shows "payload_less p q \<longleftrightarrow>
    type_rank p < type_rank q \<or> type_rank p = type_rank q \<and>
      (number_of_payload p < number_of_payload q \<or> number_of_payload p = number_of_payload q \<and>
        (string_of_payload p < string_of_payload q \<or> string_of_payload p = string_of_payload q \<and>
          arrays_in_payload_less p q))"
proof (cases "\<exists>a. p = ArrayVal a")
  case True
  then obtain a where p: "p = ArrayVal a" by blast
  show ?thesis
    by (cases q) (auto simp: p payload_less_array)
next
  case False
  then have none: "\<not> arrays_in_payload_less p q" by (cases p) auto
  show ?thesis
  proof (cases "type_rank p = 2")
    case True
    have "string_of_payload p = string_of_payload q" if "type_rank q = 2"
      using True that False by (cases p; cases q) auto
    then show ?thesis using none payload_less_numeric [OF assms True] True by auto
  next
    case False
    then show ?thesis
      using none payload_less_plain [OF False] \<open>\<nexists>a. p = ArrayVal a\<close> by auto
  qed
qed

interpretation reals: comparator nan_free r_less
  by unfold_locales (auto simp: nan_free_def r_less_def)

interpretation boolean_arrays: comparator "{a. known_in UNIV a}" "array_less ((<) :: bool \<Rightarrow> bool \<Rightarrow> bool)"
  by (rule comparator_array [OF comparator_key [of _ "\<lambda>x. x"]])

interpretation integer_arrays: comparator "{a. known_in UNIV a}" "array_less (\<lambda>i j :: integer. sint i < sint j)"
  by (rule comparator_array [OF comparator_key])

interpretation real_arrays: comparator "{a. known_in nan_free a}" "array_less r_less"
  by (rule comparator_array) (rule reals.comparator_axioms)

interpretation string_arrays: comparator "{a. known_in UNIV a}" "array_less ((<) :: string \<Rightarrow> string \<Rightarrow> bool)"
  by (rule comparator_array [OF comparator_key [of _ "\<lambda>x. x"]])

lemmas array_asym =
  boolean_arrays.asym [unfolded mem_Collect_eq] integer_arrays.asym [unfolded mem_Collect_eq]
  real_arrays.asym [unfolded mem_Collect_eq] string_arrays.asym [unfolded mem_Collect_eq]

lemma arrays_less_asym:
  assumes "array_ok a" and "array_ok b" and "arrays_less a b"
  shows "\<not> arrays_less b a"
  using assms
  by (cases a; cases b)
    (auto dest: array_asym)

lemma arrays_less_cotrans:
  assumes "array_ok a" and "array_ok b" and "array_ok c" and "array_type_of c = array_type_of a"
    and "arrays_less a b"
  shows "arrays_less a c \<or> arrays_less c b"
proof (cases a)
  case (BooleanArray x)
  then show ?thesis
    using assms boolean_arrays.cotrans [of x] by (cases b; cases c) auto
next
  case (IntegerArray x)
  then show ?thesis
    using assms integer_arrays.cotrans [of x] by (cases b; cases c) auto
next
  case (RealArray x)
  then show ?thesis
    using assms real_arrays.cotrans [of x] by (cases b; cases c) auto
next
  case (StringArray x)
  then show ?thesis
    using assms string_arrays.cotrans [of x] by (cases b; cases c) auto
qed

lemma comparator_arrays_in_payload:
  "comparator {p. payload_ok p \<and> type_rank p = c} arrays_in_payload_less"
proof (unfold_locales, goal_cases)
  case (1 p q)
  then obtain a b where ab: "p = ArrayVal a" "q = ArrayVal b" "arrays_less a b"
    by (cases p; cases q) auto
  moreover have "array_ok a" "array_ok b" using 1 ab by simp_all
  ultimately show ?case using arrays_less_asym [of a b] by simp
next
  case (2 p q r)
  then obtain a b where ab: "p = ArrayVal a" "q = ArrayVal b" "arrays_less a b"
    by (cases p; cases q) auto
  moreover obtain d where d: "r = ArrayVal d"
    using 2 ab by (cases r) auto
  ultimately show ?case using 2 arrays_less_cotrans [of a b d] by auto
qed

lemma comparator_restrict:
  "comparator {x \<in> A. f x = c} lt \<Longrightarrow> comparator {x \<in> {x \<in> A. g x = d}. f x = c} lt"
  by (erule comparator_mono) blast

interpretation payloads: comparator "{p. payload_ok p}" payload_less
proof -
  let ?A = "{p. payload_ok p}"
  have arrays: "comparator {p \<in> {p \<in> {p \<in> ?A. type_rank p = c}. number_of_payload p = d}. string_of_payload p = e}
      arrays_in_payload_less" for c d e
    by (rule comparator_mono [OF comparator_arrays_in_payload [of c]]) auto
  from comparator_lex [OF comparator_lex [OF comparator_lex [OF arrays]]]
  show "comparator ?A payload_less"
    by (rule comparator_cong) (simp add: payload_less_eq)
qed

section \<open>Values and states\<close>

fun value_ok :: "pvalue \<Rightarrow> bool" where
  "value_ok (Unknown t) = True"
| "value_ok (Known p) = payload_ok p"

lemma lessThan_simps [simp]:
  "lessThan (Unknown t) (Known q)"
  "\<not> lessThan (Known p) (Unknown u)"
  "lessThan (Known p) (Known q) = payload_less p q"
  by (simp_all add: lessThan_def)

lemma lessThan_unknown [simp]:
  "lessThan (Unknown t) (Unknown u) \<longleftrightarrow> unat (value_type_code t) < unat (value_type_code u)"
  by (cases t) (auto simp: lessThan_def word_less_nat_alt)

lemmas payloads_asym = payloads.asym [unfolded mem_Collect_eq]
lemmas payloads_cotrans = payloads.cotrans [unfolded mem_Collect_eq]

interpretation pvalues: comparator "{v. value_ok v}" lessThan
proof (unfold_locales, goal_cases)
  case (1 x y)
  show ?case
  proof (cases "\<exists>p q. x = Known p \<and> y = Known q")
    case True
    then obtain p q where "x = Known p" "y = Known q" by blast
    then show ?thesis using 1 payloads_asym [of p q] by simp
  next
    case False
    then show ?thesis using 1 by (cases x; cases y) simp_all
  qed
next
  case (2 x y z)
  show ?case
  proof (cases "\<exists>p q r. x = Known p \<and> y = Known q \<and> z = Known r")
    case True
    then obtain p q r where "x = Known p" "y = Known q" "z = Known r" by blast
    then show ?thesis using 2 payloads_cotrans [of p q r] by simp
  next
    case False
    then show ?thesis using 2 by (cases x; cases y; cases z) auto
  qed
qed

lemma parameters_less_elements:
  "parameters_less as bs = elements_less lessThan (map (Pair True) as) (map (Pair True) bs)"
  by (induction as bs rule: parameters_less.induct) auto

lemma comparator_parameters:
  "comparator {ps. (\<forall>v \<in> set ps. value_ok v) \<and> length ps = n} parameters_less"
proof (unfold_locales, goal_cases)
  case (1 as bs)
  then show ?case
    using pvalues.elements_asym [of "map (Pair True) as" "map (Pair True) bs"]
    by (simp add: parameters_less_elements)
next
  case (2 as bs cs)
  then show ?case
    using pvalues.elements_cotrans [of "map (Pair True) as" "map (Pair True) bs" "map (Pair True) cs"]
    by (simp add: parameters_less_elements)
qed

definition state_ok :: "state \<Rightarrow> bool" where
  "state_ok s \<longleftrightarrow> (\<forall>v \<in> set (st_parameters s). value_ok v)"

lemma state_less_eq:
  "state_less a b \<longleftrightarrow>
     st_name a < st_name b \<or> st_name a = st_name b \<and>
       (length (st_parameters a) < length (st_parameters b) \<or>
        length (st_parameters a) = length (st_parameters b) \<and>
          parameters_less (st_parameters a) (st_parameters b))"
  by (auto simp: state_less_def)

interpretation states: comparator "{s. state_ok s}" state_less
proof -
  have "comparator {s \<in> {s \<in> {s. state_ok s}. st_name s = m}. length (st_parameters s) = n}
      (\<lambda>a b. parameters_less (st_parameters a) (st_parameters b))" for m n
  proof (unfold_locales, goal_cases)
    case (1 a b)
    then show ?case
      using comparator.asym [OF comparator_parameters [of n], of "st_parameters a" "st_parameters b"]
      by (simp add: state_ok_def)
  next
    case (2 a b c)
    then show ?case
      using comparator.cotrans [OF comparator_parameters [of n], of "st_parameters a" "st_parameters b" "st_parameters c"]
      by (simp add: state_ok_def)
  qed
  from comparator_lex [OF comparator_lex [OF this]]
  show "comparator {s. state_ok s} state_less"
    by (rule comparator_cong) (simp add: state_less_eq)
qed

section \<open>Equality\<close>





lemma node_state_code_inject [simp]: "node_state_code s = node_state_code s' \<longleftrightarrow> s = s'"
  by (cases s; cases s'; simp)

lemma node_outcome_code_inject [simp]: "node_outcome_code oc = node_outcome_code oc' \<longleftrightarrow> oc = oc'"
  by (cases oc; cases oc'; simp)

lemma failure_type_code_inject [simp]: "failure_type_code ft = failure_type_code ft' \<longleftrightarrow> ft = ft'"
  by (cases ft; cases ft'; simp)

lemma array_rank_Suc_0 [simp]: "Suc 0 \<noteq> unat (value_type_code (array_type_of a))"
  by (cases a) simp_all











section \<open>Properties\<close>

text \<open>
  Property C27. The order of states, by name, number of parameters and parameters, is a strict
  weak order as long as no NaN occurs in a state, so it can be the order of a map: it is
  asymmetric and transitive, and two states neither of which is less than the other are the
  same key, which is transitive too.
\<close>

theorem state_order_strict_weak:
  assumes "state_ok a" and "state_ok b" and "state_ok c"
  shows "\<not> (state_less a b \<and> state_less b a)
    \<and> (\<not> (state_less a b \<and> state_less b c) \<or> state_less a c)
    \<and> (\<not> (same_key state_less a b \<and> same_key state_less b c) \<or> same_key state_less a c)"
  using assms states.asym [of a b] states.trans [of a b c] states.same_trans [of a b c] by auto

definition state_with :: "pvalue \<Rightarrow> state" where
  "state_with v = \<lparr>st_name = ''x'', st_parameters = [v]\<rparr>"

text \<open>An integer, and reals below it, equal to it and not a number.\<close>

abbreviation "one_int \<equiv> state_with (Known (IntegerVal 1))"
abbreviation "one_real \<equiv> state_with (Known (RealVal 0x3FF0000000000000))"
abbreviation "half_real \<equiv> state_with (Known (RealVal 0x3FE0000000000000))"
abbreviation "nan_real \<equiv> state_with (Known (RealVal 0x7FF8000000000000))"

lemma example_reals:
  "\<not> isnan 0x3FF0000000000000" "\<not> isnan 0x3FE0000000000000" "isnan 0x7FF8000000000000"
  "r_units 0x3FF0000000000000 = 2 ^ 1074" "r_units 0x3FE0000000000000 = 2 ^ 1073"
  by (simp_all add: isnan_def r_exponent_def r_mantissa_def r_units_def r_sign_def)

lemma example_states_ok: "state_ok one_int" "state_ok one_real" "state_ok half_real"
  by (simp_all add: state_ok_def state_with_def example_reals)

theorem state_order_strict_weak_witness:
  "\<not> (state_less half_real one_int \<and> state_less one_int half_real)
   \<and> state_less half_real one_int \<and> state_less half_real one_real \<and> same_key state_less one_int one_real"
proof -
  have "(2 :: int) ^ 1073 < 2 ^ 1074" by (rule power_strict_increasing) simp_all
  then have "state_less half_real one_int" "same_key state_less one_int one_real"
      "state_less half_real one_real"
    by (simp_all add: same_key_def state_less_def state_with_def payload_less_def r_less_def
        example_reals one_in_units_def)
  then show ?thesis
    using state_order_strict_weak [OF example_states_ok(3,1,2)] by (simp add: same_key_def)
qed

text \<open>With a NaN there is no order: it is the same key as every real.\<close>

lemma nan_breaks_order:
  "same_key state_less half_real nan_real \<and> same_key state_less nan_real one_real
   \<and> \<not> same_key state_less half_real one_real"
proof -
  have "(2 :: int) ^ 1073 < 2 ^ 1074" by (rule power_strict_increasing) simp_all
  then show ?thesis
    by (simp add: same_key_def state_less_def state_with_def payload_less_def r_less_def example_reals)
qed




end
