(* ===== verification/Byte_Codec.thy ===== *)
theory Byte_Codec
  imports Value_Types
begin

text \<open>
  The bytes of the serial form (src/src/value/ValueType.cc, ArrayImpl.cc): sizes of three
  bytes, integers and reals in big-endian order, strings, and the vectors of flags.

  A writer gives the bytes it appends to the buffer, or \<open>None\<close> where the code returns a null
  pointer. A reader takes the rest of the buffer and gives the object and what remains. The
  buffer is as long as the bytes in it: reading on is \<open>BufferOverrun\<close>.
\<close>

unbundle bit_operations_syntax

section \<open>Bytes\<close>

type_synonym byte = "8 word"

definition byte_of_char :: "char \<Rightarrow> byte" where
  "byte_of_char c = word_of_nat (of_char c)"

definition char_of_byte :: "byte \<Rightarrow> char" where
  "char_of_byte b = char_of (unat b)"

lemma char_of_byte_of_char [simp]: "char_of_byte (byte_of_char c) = c"
proof -
  have "(of_char c :: nat) < 2 ^ 8" using nat_of_char_less_256 [of c] by simp
  then have "unat (byte_of_char c) = of_char c"
    unfolding byte_of_char_def by (simp add: unat_of_nat)
  then show ?thesis by (simp add: char_of_byte_def)
qed

text \<open>\<open>*buf++\<close>, and \<open>n\<close> bytes of it at once (\<open>memcpy\<close>).\<close>

fun read_byte :: "byte list \<Rightarrow> (byte \<times> byte list) result" where
  "read_byte [] = Inl BufferOverrun"
| "read_byte (b # bs) = Inr (b, bs)"

definition read_bytes :: "nat \<Rightarrow> byte list \<Rightarrow> (byte list \<times> byte list) result" where
  "read_bytes n bs = (if length bs < n then Inl BufferOverrun else Inr (take n bs, drop n bs))"

lemma read_bytes_append: "length xs = n \<Longrightarrow> read_bytes n (xs @ ys) = Inr (xs, ys)"
  by (auto simp add: read_bytes_def)

section \<open>Sizes\<close>

type_synonym size_t = "64 word"

text \<open>The three low bytes of a size, the first one the most significant.\<close>

definition size_bytes :: "nat \<Rightarrow> byte list" where
  "size_bytes siz =
     (let siz = of_nat siz :: size_t
      in [ucast (0xFF AND drop_bit 16 siz), ucast (0xFF AND drop_bit 8 siz), ucast (0xFF AND siz)])"

text \<open>
  A byte is read from a buffer of \<open>char\<close>, which is signed or not as the platform has it
  (the parameter \<open>schar\<close>): the cast \<open>(size_t) *buf\<close> extends the sign of a signed \<open>char\<close>, the
  cast \<open>(size_t) (unsigned char) *buf\<close> does not.
\<close>

definition size_of_char :: "bool \<Rightarrow> byte \<Rightarrow> size_t" where
  "size_of_char schar b = (if schar then scast b else ucast b)"

definition size_of_uchar :: "byte \<Rightarrow> size_t" where
  "size_of_uchar b = ucast b"

definition read_size_with :: "(byte \<Rightarrow> size_t) \<Rightarrow> byte list \<Rightarrow> (nat \<times> byte list) result" where
  "read_size_with cast buf =
     bindE (read_byte buf) (\<lambda>(b0, buf).
     bindE (read_byte buf) (\<lambda>(b1, buf).
     bindE (read_byte buf) (\<lambda>(b2, buf).
       let siz = push_bit 8 (cast b0);
           siz = push_bit 8 (siz + cast b1);
           siz = siz + cast b2
       in Inr (unat siz, buf))))"

definition read_string_size :: "byte list \<Rightarrow> (nat \<times> byte list) result" where
  "read_string_size = read_size_with size_of_uchar"

definition read_array_size :: "bool \<Rightarrow> byte list \<Rightarrow> (nat \<times> byte list) result" where
  "read_array_size schar = read_size_with (size_of_char schar)"

definition size_limit :: nat where
  "size_limit = 0xFFFFFF"

lemma length_size_bytes [simp]: "length (size_bytes n) = 3"
  by (simp add: size_bytes_def Let_def)

lemma low_byte: "(0xFF AND w :: 'a::len word) = take_bit 8 w"
  by (simp add: take_bit_eq_mask mask_eq_exp_minus_1 and.commute)

lemma push_add: "push_bit 8 (drop_bit (n + 8) w) + take_bit 8 (drop_bit n w) = drop_bit n w"
  for w :: "'a::len word"
  using bits_ident [of 8 "drop_bit n w"] by (simp add: drop_bit_drop_bit add.commute)

lemma ucast_ucast_byte: "ucast (ucast (take_bit 8 w :: 'a::len word) :: byte) = take_bit 8 w"
  by (rule bit_word_eqI) (auto simp: bit_simps)

lemma ucast_ucast_id: "take_bit 8 w = w \<Longrightarrow> ucast (ucast w :: byte) = w" for w :: "'a::len word"
  by (metis ucast_ucast_byte)

text \<open>The pieces of a word, added up from the most significant byte.\<close>

lemmas put_together = low_byte ucast_ucast_byte push_add [of 0, simplified] push_add [of 8, simplified]
  push_add [of 16, simplified] push_add [of 24, simplified] push_add [of 32, simplified]
  push_add [of 40, simplified] push_add [of 48, simplified]

lemma take_top_byte:
  "LENGTH('a) \<le> n + 8 \<Longrightarrow> take_bit 8 (drop_bit n w) = drop_bit n w" for w :: "'a::len word"
  by (rule bit_word_eqI) (auto simp: bit_simps dest: bit_imp_le_length)

lemma take_signed_byte:
  "n + 8 \<le> LENGTH('a) \<Longrightarrow> take_bit 8 (signed_drop_bit n w) = take_bit 8 (drop_bit n w)"
  for w :: "'a::len word"
  by (rule bit_word_eqI) (auto simp: bit_simps)

lemma unat_size: "n \<le> size_limit \<Longrightarrow> unat (of_nat n :: size_t) = n"
  by (simp add: size_limit_def unat_of_nat)

lemma drop_small_size:
  assumes "n \<le> size_limit"
  shows "take_bit 8 (drop_bit 16 (of_nat n :: size_t)) = drop_bit 16 (of_nat n)"
proof -
  have id: "take_bit 24 (of_nat n :: size_t) = of_nat n"
    using assms by (simp add: word_unat_eq_iff unsigned_take_bit_eq unat_size take_bit_nat_eq_self size_limit_def)
  have "take_bit 8 (drop_bit 16 (of_nat n :: size_t)) = drop_bit 16 (take_bit 24 (of_nat n))"
    by (simp add: drop_bit_take_bit)
  then show ?thesis by (simp only: id)
qed

text \<open>A cast that gives the bytes of a size back as they were written reads that size.\<close>

lemma read_size_written:
  assumes "n \<le> size_limit" and "\<And>b. b \<in> set (size_bytes n) \<Longrightarrow> cast b = ucast b"
  shows "read_size_with cast (size_bytes n @ rest) = Inr (n, rest)"
  using assms by (simp add: read_size_with_def size_bytes_def Let_def put_together drop_small_size unat_size ucast_ucast_id)

lemma read_string_size_written [simp]:
  "n \<le> size_limit \<Longrightarrow> read_string_size (size_bytes n @ rest) = Inr (n, rest)"
  unfolding read_string_size_def by (rule read_size_written) (simp_all add: size_of_uchar_def)

section \<open>Elements\<close>

definition serialize_boolean :: "bool \<Rightarrow> byte list option" where
  "serialize_boolean val = Some [if val then 1 else 0]"

definition deserialize_boolean :: "byte list \<Rightarrow> (bool \<times> byte list) result" where
  "deserialize_boolean buf = bindE (read_byte buf) (\<lambda>(b, buf). Inr (b \<noteq> 0, buf))"

definition serialize_integer :: "32 word \<Rightarrow> byte list option" where
  "serialize_integer val =
     Some [ucast (0xFF AND signed_drop_bit 24 val), ucast (0xFF AND signed_drop_bit 16 val),
           ucast (0xFF AND signed_drop_bit 8 val), ucast (0xFF AND val)]"

definition deserialize_integer :: "byte list \<Rightarrow> (32 word \<times> byte list) result" where
  "deserialize_integer buf =
     bindE (read_byte buf) (\<lambda>(b0, buf).
     bindE (read_byte buf) (\<lambda>(b1, buf).
     bindE (read_byte buf) (\<lambda>(b2, buf).
     bindE (read_byte buf) (\<lambda>(b3, buf).
       let result = push_bit 8 (ucast b0);
           result = push_bit 8 (result + ucast b1);
           result = push_bit 8 (result + ucast b2);
           result = result + ucast b3
       in Inr (result, buf)))))"

definition serialize_real :: "64 word \<Rightarrow> byte list option" where
  "serialize_real l =
     Some [ucast (0xFF AND drop_bit 56 l), ucast (0xFF AND drop_bit 48 l),
           ucast (0xFF AND drop_bit 40 l), ucast (0xFF AND drop_bit 32 l),
           ucast (0xFF AND drop_bit 24 l), ucast (0xFF AND drop_bit 16 l),
           ucast (0xFF AND drop_bit 8 l), ucast (0xFF AND l)]"

definition deserialize_real :: "byte list \<Rightarrow> (64 word \<times> byte list) result" where
  "deserialize_real buf =
     bindE (read_byte buf) (\<lambda>(b0, buf). bindE (read_byte buf) (\<lambda>(b1, buf).
     bindE (read_byte buf) (\<lambda>(b2, buf). bindE (read_byte buf) (\<lambda>(b3, buf).
     bindE (read_byte buf) (\<lambda>(b4, buf). bindE (read_byte buf) (\<lambda>(b5, buf).
     bindE (read_byte buf) (\<lambda>(b6, buf). bindE (read_byte buf) (\<lambda>(b7, buf).
       let l = ucast b0; l = push_bit 8 l;
           l = l + ucast b1; l = push_bit 8 l;
           l = l + ucast b2; l = push_bit 8 l;
           l = l + ucast b3; l = push_bit 8 l;
           l = l + ucast b4; l = push_bit 8 l;
           l = l + ucast b5; l = push_bit 8 l;
           l = l + ucast b6; l = push_bit 8 l;
           l = l + ucast b7
       in Inr (l, buf)))))))))"

definition serialize_string :: "string \<Rightarrow> byte list option" where
  "serialize_string val =
     (let siz = length val
      in if siz > size_limit then None else Some (size_bytes siz @ map byte_of_char val))"

definition deserialize_string :: "byte list \<Rightarrow> (string \<times> byte list) result" where
  "deserialize_string buf =
     bindE (read_string_size buf) (\<lambda>(siz, buf).
     bindE (read_bytes siz buf) (\<lambda>(bs, buf). Inr (map char_of_byte bs, buf)))"

text \<open>
  What the arrays need of their elements: an element that was written is read back and no
  byte more, and takes as many bytes as its size says.
\<close>

locale element_codec =
  fixes ser :: "'a \<Rightarrow> byte list option"
    and des :: "byte list \<Rightarrow> ('a \<times> byte list) result"
    and siz :: "'a \<Rightarrow> nat"
  assumes read_written: "ser x = Some bs \<Longrightarrow> des (bs @ rest) = Inr (x, rest)"
    and written_size: "ser x = Some bs \<Longrightarrow> length bs = siz x"

interpretation booleans: element_codec serialize_boolean deserialize_boolean "\<lambda>_. 1"
  by unfold_locales (auto simp: serialize_boolean_def deserialize_boolean_def)

interpretation integers: element_codec serialize_integer deserialize_integer "\<lambda>_. 4"
  by unfold_locales
    (auto simp: serialize_integer_def deserialize_integer_def Let_def low_byte take_signed_byte
      take_top_byte put_together ucast_ucast_id)

interpretation reals: element_codec serialize_real deserialize_real "\<lambda>_. 8"
  by unfold_locales
    (auto simp: serialize_real_def deserialize_real_def Let_def low_byte take_top_byte put_together ucast_ucast_id)

interpretation strings: element_codec serialize_string deserialize_string "\<lambda>val. 3 + length val"
  by unfold_locales
    (auto simp: serialize_string_def deserialize_string_def Let_def read_bytes_append comp_def
      split: if_splits)

text \<open>The loops over the contents of an array.\<close>

fun serialize_elements :: "('a \<Rightarrow> byte list option) \<Rightarrow> 'a list \<Rightarrow> byte list option" where
  "serialize_elements ser [] = Some []"
| "serialize_elements ser (x # xs) =
     (case ser x of
        None \<Rightarrow> None
      | Some bs \<Rightarrow> map_option ((@) bs) (serialize_elements ser xs))"

fun deserialize_elements :: "(byte list \<Rightarrow> ('a \<times> byte list) result) \<Rightarrow> nat \<Rightarrow> byte list
    \<Rightarrow> ('a list \<times> byte list) result" where
  "deserialize_elements des 0 buf = Inr ([], buf)"
| "deserialize_elements des (Suc n) buf =
     bindE (des buf) (\<lambda>(x, buf).
     bindE (deserialize_elements des n buf) (\<lambda>(xs, buf). Inr (x # xs, buf)))"

context element_codec
begin

lemma elements_read_written:
  "serialize_elements ser xs = Some bs \<Longrightarrow>
     deserialize_elements des (length xs) (bs @ rest) = Inr (xs, rest)"
  by (induction xs arbitrary: bs) (auto simp: read_written split: option.splits)

lemma elements_size: "serialize_elements ser xs = Some bs \<Longrightarrow> length bs = sum_list (map siz xs)"
  by (induction xs arbitrary: bs) (auto simp: written_size split: option.splits)

end

section \<open>Flags\<close>

text \<open>
  The flags go into bytes from the most significant bit on, with the mask shifted right after
  each; the switch on the number of flags left falls through to the last one.
\<close>

fun pack_bits :: "byte \<Rightarrow> byte \<Rightarrow> bool list \<Rightarrow> byte" where
  "pack_bits tmp m [] = tmp"
| "pack_bits tmp m (v # vs) = pack_bits (if v then tmp OR m else tmp) (drop_bit 1 m) vs"

fun unpack_bits :: "byte \<Rightarrow> byte \<Rightarrow> nat \<Rightarrow> bool list" where
  "unpack_bits tmp m 0 = []"
| "unpack_bits tmp m (Suc n) = (tmp AND m \<noteq> 0) # unpack_bits tmp (drop_bit 1 m) n"

function serializeBoolVector :: "bool list \<Rightarrow> byte list" where
  "serializeBoolVector val =
     (if val = [] then []
      else pack_bits 0 0x80 (take 8 val) # serializeBoolVector (drop 8 val))"
  by pat_completeness auto
termination by (relation "measure length") auto

declare serializeBoolVector.simps [simp del]

function deserializeBoolVector :: "nat \<Rightarrow> byte list \<Rightarrow> (bool list \<times> byte list) result" where
  "deserializeBoolVector n buf =
     (if n = 0 then Inr ([], buf)
      else bindE (read_byte buf) (\<lambda>(tmp, buf).
           bindE (deserializeBoolVector (n - 8) buf) (\<lambda>(vs, buf).
             Inr (unpack_bits tmp 0x80 (min 8 n) @ vs, buf))))"
  by pat_completeness auto
termination by (relation "measure fst") auto

declare deserializeBoolVector.simps [simp del]

definition bitVectorSize :: "nat \<Rightarrow> nat" where
  "bitVectorSize nbits =
     (let result = nbits div 8 in if nbits mod 8 \<noteq> 0 then result + 1 else result)"

text \<open>The mask while bit \<open>k\<close> is processed.\<close>

definition bit_mask :: "nat \<Rightarrow> byte" where
  "bit_mask k = 2 ^ k"

lemma bit_mask_simps [simp]:
  "bit (bit_mask k) i \<longleftrightarrow> i = k \<and> k < 8"
  "(tmp AND bit_mask k = 0) = (\<not> bit tmp k)"
  by (auto simp: bit_mask_def bit_simps and_exp_eq_0_iff_not_bit)

lemma drop_mask [simp]: "Suc k < 8 \<Longrightarrow> drop_bit (Suc 0) (bit_mask (Suc k)) = bit_mask k"
  by (rule bit_word_eqI) (auto simp: bit_simps)

lemma bit_pack_bits:
  assumes "length vs \<le> Suc k" and "k < 8"
  shows "bit (pack_bits tmp (bit_mask k) vs) i \<longleftrightarrow>
    bit tmp i \<or> i \<le> k \<and> k - i < length vs \<and> vs ! (k - i)"
  using assms
proof (induction vs arbitrary: tmp k)
  case Nil
  then show ?case by simp
next
  case (Cons v vs)
  show ?case
  proof (cases k)
    case 0
    then show ?thesis using Cons.prems by (auto simp: bit_simps)
  next
    case (Suc k')
    then have "bit (pack_bits tmp (bit_mask k) (v # vs)) i \<longleftrightarrow>
        bit (if v then tmp OR bit_mask k else tmp) i \<or> i \<le> k' \<and> k' - i < length vs \<and> vs ! (k' - i)"
      using Cons.IH [of k'] Cons.prems by simp
    then show ?thesis
      using Suc Cons.prems by (cases "i = k") (auto simp: bit_simps nth_Cons' Suc_diff_le le_Suc_eq)
  qed
qed

lemma unpack_bits_eq:
  assumes "n \<le> Suc k" and "k < 8"
  shows "unpack_bits tmp (bit_mask k) n = map (\<lambda>j. bit tmp (k - j)) [0..<n]"
  using assms
proof (induction n arbitrary: k)
  case 0
  then show ?case by simp
next
  case (Suc n)
  show ?case
  proof (cases k)
    case 0
    then show ?thesis using Suc.prems by simp
  next
    case (Suc k')
    then show ?thesis
      using Suc.IH [of k'] Suc.prems
      by (simp add: map_upt_Suc del: upt_Suc)
  qed
qed

lemma unpack_pack:
  assumes "length vs \<le> 8"
  shows "unpack_bits (pack_bits 0 0x80 vs) 0x80 (length vs) = vs"
proof -
  have m: "(0x80 :: byte) = bit_mask 7" by (simp add: bit_mask_def)
  have "unpack_bits (pack_bits 0 (bit_mask 7) vs) (bit_mask 7) (length vs) = vs"
    using assms by (auto intro!: nth_equalityI simp: unpack_bits_eq bit_pack_bits)
  then show ?thesis by (simp only: m)
qed

lemma length_unpack_bits [simp]: "length (unpack_bits tmp m n) = n"
  by (induction n arbitrary: m) simp_all

lemma flags_read_written:
  "deserializeBoolVector (length val) (serializeBoolVector val @ rest) = Inr (val, rest)"
proof (induction val rule: serializeBoolVector.induct)
  case (1 val)
  show ?case
  proof (cases "val = []")
    case True
    then show ?thesis by (simp add: serializeBoolVector.simps deserializeBoolVector.simps)
  next
    case False
    have "unpack_bits (pack_bits 0 0x80 (take 8 val)) 0x80 (min 8 (length val)) = take 8 val"
      using unpack_pack [of "take 8 val"] by (simp add: min.commute)
    then show ?thesis
      using False 1 by (simp add: serializeBoolVector.simps [of val] deserializeBoolVector.simps [of "length val"])
  qed
qed

lemma flags_size: "length (serializeBoolVector val) = bitVectorSize (length val)"
proof (induction val rule: serializeBoolVector.induct)
  case (1 val)
  show ?case
  proof (cases "val = []")
    case True
    then show ?thesis by (simp add: serializeBoolVector.simps bitVectorSize_def)
  next
    case False
    then have "length (serializeBoolVector val) = Suc (bitVectorSize (length val - 8))"
      using 1 by (simp add: serializeBoolVector.simps [of val])
    then show ?thesis
      using False by (cases "length val \<le> 8") (auto simp: bitVectorSize_def Let_def le_div_geq le_mod_geq le_less)
  qed
qed

section \<open>Readers consume from the front\<close>

text \<open>
  Unless it runs off the end, a reader does not depend on what follows the bytes it consumes:
  more bytes behind the buffer come out behind the rest. \<open>app\<close> puts them there.
\<close>

definition app_rest :: "byte list \<Rightarrow> 'a \<times> byte list \<Rightarrow> 'a \<times> byte list" where
  "app_rest extra r = (fst r, snd r @ extra)"

definition app_opt :: "byte list \<Rightarrow> ('a \<times> byte list) option \<Rightarrow> ('a \<times> byte list) option" where
  "app_opt extra = map_option (app_rest extra)"

lemma app_opt_some: "app_opt extra None = None" "app_opt extra (Some (x, buf)) = Some (x, buf @ extra)"
  by (simp_all add: app_opt_def app_rest_def)

definition streaming :: "(byte list \<Rightarrow> 'r \<Rightarrow> 'r) \<Rightarrow> (byte list \<Rightarrow> 'r result) \<Rightarrow> bool" where
  "streaming app r \<longleftrightarrow>
     (\<forall>buf extra. r buf = Inl BufferOverrun \<or> r (buf @ extra) = bindE (r buf) (\<lambda>x. Inr (app extra x)))"

named_theorems streaming_intros "rules that show a reader to consume from the front"

lemma streamingD:
  "streaming app r \<Longrightarrow> r buf \<noteq> Inl BufferOverrun \<Longrightarrow> r (buf @ extra) = bindE (r buf) (\<lambda>x. Inr (app extra x))"
  by (auto simp: streaming_def)

lemma streaming_return [streaming_intros]:
  "streaming app_rest (\<lambda>buf. Inr (x, buf))"
  "streaming app_opt (\<lambda>buf. Inr (Some (x, buf)))"
  "streaming app_opt (\<lambda>buf. Inr None)"
  "streaming app (\<lambda>buf. Inl e)"
  by (simp_all add: streaming_def app_rest_def app_opt_def)

lemma streaming_read_byte [streaming_intros]: "streaming app_rest read_byte"
  unfolding streaming_def
proof (intro allI)
  fix buf extra :: "byte list"
  show "read_byte buf = Inl BufferOverrun
      \<or> read_byte (buf @ extra) = bindE (read_byte buf) (\<lambda>x. Inr (app_rest extra x))"
    by (cases buf) (simp_all add: app_rest_def)
qed

lemma streaming_read_bytes [streaming_intros]: "streaming app_rest (read_bytes n)"
  by (auto simp: streaming_def read_bytes_def app_rest_def)

lemma streaming_bind [streaming_intros]:
  assumes "streaming app_rest r" and "\<And>x. streaming app (f x)"
  shows "streaming app (\<lambda>buf. bindE (r buf) (\<lambda>(x, buf). f x buf))"
  unfolding streaming_def
proof (intro allI)
  fix buf extra
  show "bindE (r buf) (\<lambda>(x, buf). f x buf) = Inl BufferOverrun
      \<or> bindE (r (buf @ extra)) (\<lambda>(x, buf). f x buf) =
        bindE (bindE (r buf) (\<lambda>(x, buf). f x buf)) (\<lambda>x. Inr (app extra x))"
  proof (cases "r buf")
    case (Inl e)
    then show ?thesis
      using streamingD [OF assms(1), of buf extra] by (cases "e = BufferOverrun") simp_all
  next
    case (Inr p)
    then have "r (buf @ extra) = Inr (fst p, snd p @ extra)"
      using streamingD [OF assms(1), of buf extra] by (simp add: app_rest_def)
    then show ?thesis
      using Inr streamingD [OF assms(2), of "fst p" "snd p" extra] by (cases p) auto
  qed
qed

lemma streaming_bind_null:
  assumes z: "\<And>extra. bindE z (\<lambda>x. Inr (app_opt extra x)) = z"
    and "streaming app_opt r" and "\<And>x. streaming app_opt (f x)"
  shows "streaming app_opt (\<lambda>buf. bindE (r buf) (\<lambda>y. case y of None \<Rightarrow> z | Some (x, buf) \<Rightarrow> f x buf))"
  unfolding streaming_def
proof (intro allI)
  fix buf extra
  let ?k = "\<lambda>y. case y of None \<Rightarrow> z | Some (x, buf) \<Rightarrow> f x buf"
  show "bindE (r buf) ?k = Inl BufferOverrun
      \<or> bindE (r (buf @ extra)) ?k = bindE (bindE (r buf) ?k) (\<lambda>x. Inr (app_opt extra x))"
  proof (cases "r buf")
    case (Inl e)
    then show ?thesis
      using streamingD [OF assms(2), of buf extra] by (cases "e = BufferOverrun") simp_all
  next
    case (Inr p)
    then have "r (buf @ extra) = Inr (app_opt extra p)"
      using streamingD [OF assms(2), of buf extra] by simp
    then show ?thesis
    proof (cases p)
      case None
      then show ?thesis using Inr \<open>r (buf @ extra) = _\<close> by (simp add: app_opt_some z)
    next
      case (Some q)
      obtain x rest where "q = (x, rest)" by fastforce
      then show ?thesis
        using Inr \<open>r (buf @ extra) = _\<close> Some streamingD [OF assms(3), of x rest extra]
        by (cases "f x rest = Inl BufferOverrun") (simp_all add: app_opt_some)
    qed
  qed
qed

lemma streaming_bind_opt [streaming_intros]:
  assumes "streaming app_opt r" and "\<And>x. streaming app_opt (f x)"
  shows "streaming app_opt (\<lambda>buf. bindE (r buf) (\<lambda>y. case y of None \<Rightarrow> Inr None | Some (x, buf) \<Rightarrow> f x buf))"
    "streaming app_opt (\<lambda>buf. bindE (r buf) (\<lambda>y. case y of None \<Rightarrow> Inl e | Some (x, buf) \<Rightarrow> f x buf))"
  using assms by (auto intro!: streaming_bind_null simp: app_opt_some)

lemma streaming_if [streaming_intros]:
  "streaming app f \<Longrightarrow> streaming app g \<Longrightarrow> streaming app (\<lambda>buf. if c then f buf else g buf)"
  by (simp add: streaming_def)

lemma streaming_check [streaming_intros]:
  "streaming app f \<Longrightarrow> streaming app (\<lambda>buf. bindE (check e c) (\<lambda>_. f buf))"
  by (cases c) (simp_all add: streaming_return)

lemma streaming_read_size [streaming_intros]: "streaming app_rest (read_size_with cast)"
  unfolding read_size_with_def Let_def by (intro streaming_intros)

lemma streaming_elements_read [streaming_intros]:
  "streaming app_rest deserialize_boolean"
  "streaming app_rest deserialize_integer"
  "streaming app_rest deserialize_real"
  "streaming app_rest deserialize_string"
  unfolding deserialize_boolean_def deserialize_integer_def deserialize_real_def
    deserialize_string_def Let_def read_string_size_def
  by (intro streaming_intros)+

lemma streaming_elements [streaming_intros]:
  "streaming app_rest des \<Longrightarrow> streaming app_rest (deserialize_elements des n)"
proof (induction n)
  case 0
  then show ?case unfolding deserialize_elements.simps by (intro streaming_intros)
next
  case (Suc n)
  then show ?case unfolding deserialize_elements.simps by (intro streaming_intros)
qed

lemma streaming_flags [streaming_intros]: "streaming app_rest (deserializeBoolVector n)"
proof (induction n rule: less_induct)
  case (less n)
  show ?case
  proof (cases "n = 0")
    case True
    then show ?thesis by (simp add: deserializeBoolVector.simps [abs_def] streaming_return)
  next
    case False
    then show ?thesis
      using less.IH [of "n - 8"]
      by (subst deserializeBoolVector.simps [abs_def]) (simp add: streaming_intros)
  qed
qed

text \<open>So what can be read back whatever follows cannot be read from less.\<close>

lemma truncated:
  assumes "streaming app_opt des" and "\<And>rest. des (bs @ rest) = Inr (Some (y, rest))" and "k < length bs"
  shows "des (take k bs) = Inl BufferOverrun"
proof (rule ccontr)
  assume "des (take k bs) \<noteq> Inl BufferOverrun"
  then have "des (take k bs @ drop k bs) = bindE (des (take k bs)) (\<lambda>x. Inr (app_opt (drop k bs) x))"
    by (rule streamingD [OF assms(1)])
  then show False
    using assms(2) [of "[]"] assms(3) by (auto simp: app_opt_def app_rest_def)
qed

end
