(* ===== verification/Serialization.thy ===== *)
theory Serialization
  imports Byte_Codec Plexil_Value
begin

text \<open>
  The serial form of values (src/src/value/ValueType.cc, ArrayImpl.cc, Array.cc, Value.cc) and of
  states (src/src/intfc/State.cc), in which the IPC and UDP interfaces exchange them: what
  \<open>serialize\<close> writes, what \<open>deserialize\<close> makes of a buffer, and \<open>serialSize\<close>.

  A reader gives \<open>Inr None\<close> where the code returns a null pointer; the object it was to fill
  is then not described. The parameter \<open>schar\<close> tells whether \<open>char\<close> is signed.
\<close>

section \<open>Codecs\<close>

text \<open>
  What a reader of whole objects promises: on the objects that \<open>fits\<close> holds of, it reads
  back \<open>norm x\<close>, and not a byte more than was written.
\<close>

locale codec =
  fixes ser :: "'a \<Rightarrow> byte list option"
    and des :: "byte list \<Rightarrow> ('a \<times> byte list) option result"
    and siz :: "'a \<Rightarrow> nat"
    and fits :: "'a \<Rightarrow> bool"
    and norm :: "'a \<Rightarrow> 'a"
  assumes read_written: "ser x = Some bs \<Longrightarrow> fits x \<Longrightarrow> des (bs @ rest) = Inr (Some (norm x, rest))"
    and written_size: "ser x = Some bs \<Longrightarrow> fits x \<Longrightarrow> length bs = siz x"

text \<open>A sequence of objects, read until one cannot be.\<close>

fun deserialize_list :: "(byte list \<Rightarrow> ('a \<times> byte list) option result) \<Rightarrow> nat \<Rightarrow> byte list
    \<Rightarrow> ('a list \<times> byte list) option result" where
  "deserialize_list des 0 buf = Inr (Some ([], buf))"
| "deserialize_list des (Suc n) buf =
     bindE (des buf) (\<lambda>r. case r of
       None \<Rightarrow> Inr None
     | Some (x, buf) \<Rightarrow>
         bindE (deserialize_list des n buf) (\<lambda>r. case r of
           None \<Rightarrow> Inr None
         | Some (xs, buf) \<Rightarrow> Inr (Some (x # xs, buf))))"

context codec
begin

lemma list_read_written:
  "serialize_elements ser xs = Some bs \<Longrightarrow> list_all fits xs \<Longrightarrow>
     deserialize_list des (length xs) (bs @ rest) = Inr (Some (map norm xs, rest))"
  by (induction xs arbitrary: bs) (auto simp: read_written simp del: bindE_eq_Inr split: option.splits)

lemma list_size:
  "serialize_elements ser xs = Some bs \<Longrightarrow> list_all fits xs \<Longrightarrow> length bs = sum_list (map siz xs)"
  by (induction xs arbitrary: bs) (auto simp: written_size split: option.splits)

end

section \<open>Scalars\<close>

text \<open>The code of the type, then the bytes of the object.\<close>

definition serialize_tagged :: "value_type \<Rightarrow> ('a \<Rightarrow> byte list option) \<Rightarrow> 'a \<Rightarrow> byte list option" where
  "serialize_tagged t ser x = map_option ((#) (value_type_code t)) (ser x)"

definition deserialize_tagged :: "value_type \<Rightarrow> (byte list \<Rightarrow> ('a \<times> byte list) result) \<Rightarrow> byte list
    \<Rightarrow> ('a \<times> byte list) option result" where
  "deserialize_tagged t des buf =
     bindE (read_byte buf) (\<lambda>(c, buf).
       if value_type_code t \<noteq> c then Inr None
       else bindE (des buf) (\<lambda>r. Inr (Some r)))"

locale tagged_codec = element_codec ser des siz
  for ser :: "'a \<Rightarrow> byte list option" and des :: "byte list \<Rightarrow> ('a \<times> byte list) result" and siz :: "'a \<Rightarrow> nat" +
  fixes t :: value_type

sublocale tagged_codec \<subseteq> whole: codec "serialize_tagged t ser" "deserialize_tagged t des" "\<lambda>x. Suc (siz x)"
  "\<lambda>_. True" "\<lambda>x. x"
  by unfold_locales
    (auto simp: serialize_tagged_def deserialize_tagged_def read_written written_size)

definition serialize_Boolean :: "bool \<Rightarrow> byte list option" where
  "serialize_Boolean = serialize_tagged BOOLEAN_TYPE serialize_boolean"

definition deserialize_Boolean :: "byte list \<Rightarrow> (bool \<times> byte list) option result" where
  "deserialize_Boolean = deserialize_tagged BOOLEAN_TYPE deserialize_boolean"

definition serialSize_Boolean :: "bool \<Rightarrow> nat" where
  "serialSize_Boolean val = 2"

definition serialize_CommandHandle :: "byte \<Rightarrow> byte list option" where
  "serialize_CommandHandle = serialize_tagged COMMAND_HANDLE_TYPE (\<lambda>val. Some [val])"

definition deserialize_CommandHandle :: "byte list \<Rightarrow> (byte \<times> byte list) option result" where
  "deserialize_CommandHandle = deserialize_tagged COMMAND_HANDLE_TYPE read_byte"

definition serialSize_CommandHandle :: "byte \<Rightarrow> nat" where
  "serialSize_CommandHandle val = 2"

definition serialize_Integer :: "integer \<Rightarrow> byte list option" where
  "serialize_Integer = serialize_tagged INTEGER_TYPE serialize_integer"

definition deserialize_Integer :: "byte list \<Rightarrow> (integer \<times> byte list) option result" where
  "deserialize_Integer = deserialize_tagged INTEGER_TYPE deserialize_integer"

definition serialSize_Integer :: "integer \<Rightarrow> nat" where
  "serialSize_Integer val = 5"

definition serialize_Real :: "real_bits \<Rightarrow> byte list option" where
  "serialize_Real = serialize_tagged REAL_TYPE serialize_real"

definition deserialize_Real :: "byte list \<Rightarrow> (real_bits \<times> byte list) option result" where
  "deserialize_Real = deserialize_tagged REAL_TYPE deserialize_real"

definition serialSize_Real :: "real_bits \<Rightarrow> nat" where
  "serialSize_Real val = 9"

definition serialize_String :: "string \<Rightarrow> byte list option" where
  "serialize_String = serialize_tagged STRING_TYPE serialize_string"

definition deserialize_String :: "byte list \<Rightarrow> (string \<times> byte list) option result" where
  "deserialize_String = deserialize_tagged STRING_TYPE deserialize_string"

definition serialSize_String :: "string \<Rightarrow> nat" where
  "serialSize_String val = length val + 4"

text \<open>
  A C string is the characters from its address on; it ends before the first NUL. The
  reader allocates room for the characters and a NUL.
\<close>

definition strlen :: "string \<Rightarrow> nat" where
  "strlen cs = length (takeWhile (\<lambda>c. c \<noteq> CHR 0x00) cs)"

definition serialize_c_string :: "string \<Rightarrow> byte list option" where
  "serialize_c_string cs =
     (let siz = strlen cs
      in if siz > size_limit then None
         else Some (value_type_code STRING_TYPE # size_bytes siz @ map byte_of_char (take siz cs)))"

definition deserialize_c_string :: "byte list \<Rightarrow> (string \<times> byte list) option result" where
  "deserialize_c_string buf =
     bindE (read_byte buf) (\<lambda>(c, buf).
       if value_type_code STRING_TYPE \<noteq> c then Inr None
       else bindE (read_string_size buf) (\<lambda>(siz, buf).
            bindE (read_bytes siz buf) (\<lambda>(bs, buf).
              Inr (Some (map char_of_byte bs @ [CHR 0x00], buf)))))"

definition serialSize_c_string :: "string \<Rightarrow> nat" where
  "serialSize_c_string cs = strlen cs + 4"

interpretation tagged_booleans: tagged_codec serialize_boolean deserialize_boolean "\<lambda>_. 1" BOOLEAN_TYPE ..
interpretation tagged_integers: tagged_codec serialize_integer deserialize_integer "\<lambda>_. 4" INTEGER_TYPE ..
interpretation tagged_reals: tagged_codec serialize_real deserialize_real "\<lambda>_. 8" REAL_TYPE ..
interpretation tagged_strings: tagged_codec serialize_string deserialize_string "\<lambda>val. 3 + length val" STRING_TYPE ..
interpretation handles: element_codec "\<lambda>val. Some [val]" read_byte "\<lambda>_. 1"
  by unfold_locales auto
interpretation tagged_handles: tagged_codec "\<lambda>val. Some [val]" read_byte "\<lambda>_. 1" COMMAND_HANDLE_TYPE ..

section \<open>Arrays\<close>

text \<open>No vector can be as long as this; \<open>resize\<close> throws.\<close>

definition vector_max_size :: nat where
  "vector_max_size = 2 ^ 63 - 1"

definition serialize_array :: "value_type \<Rightarrow> ('a \<Rightarrow> byte list option) \<Rightarrow> 'a array_impl \<Rightarrow> byte list option" where
  "serialize_array t ser a =
     (let siz = array_size a
      in if siz > size_limit then None
         else map_option (\<lambda>cs. value_type_code t # size_bytes siz @ serializeBoolVector (ar_known a) @ cs)
                (serialize_elements ser (take siz (ar_contents a))))"

definition serialize_boolean_array :: "bool array_impl \<Rightarrow> byte list option" where
  "serialize_boolean_array a =
     (let siz = array_size a
      in if siz > size_limit then None
         else Some (value_type_code BOOLEAN_ARRAY_TYPE # size_bytes siz
                    @ serializeBoolVector (ar_known a) @ serializeBoolVector (ar_contents a)))"

definition deserialize_contents :: "bool \<Rightarrow> value_type \<Rightarrow> (nat \<Rightarrow> byte list \<Rightarrow> ('a list \<times> byte list) result)
    \<Rightarrow> byte list \<Rightarrow> ('a array_impl \<times> byte list) option result" where
  "deserialize_contents schar t read_contents buf =
     bindE (read_byte buf) (\<lambda>(c, buf).
       if value_type_code t \<noteq> c then Inr None
       else bindE (read_array_size schar buf) (\<lambda>(siz, buf).
            bindE (check LengthError (siz \<le> vector_max_size)) (\<lambda>_.
            bindE (deserializeBoolVector siz buf) (\<lambda>(known, buf).
            bindE (read_contents siz buf) (\<lambda>(contents, buf).
              Inr (Some (\<lparr>ar_known = known, ar_contents = contents\<rparr>, buf)))))))"

definition deserialize_array :: "bool \<Rightarrow> value_type \<Rightarrow> (byte list \<Rightarrow> ('a \<times> byte list) result) \<Rightarrow> byte list
    \<Rightarrow> ('a array_impl \<times> byte list) option result" where
  "deserialize_array schar t des = deserialize_contents schar t (deserialize_elements des)"

definition deserialize_boolean_array :: "bool \<Rightarrow> byte list \<Rightarrow> (bool array_impl \<times> byte list) option result" where
  "deserialize_boolean_array schar = deserialize_contents schar BOOLEAN_ARRAY_TYPE deserializeBoolVector"

definition serialSize_numeric_array :: "nat \<Rightarrow> 'a array_impl \<Rightarrow> nat" where
  "serialSize_numeric_array element_size a =
     4 + bitVectorSize (array_size a) + array_size a * element_size"

definition serialSize_boolean_array :: "bool array_impl \<Rightarrow> nat" where
  "serialSize_boolean_array a = 4 + 2 * bitVectorSize (array_size a)"

definition serialSize_string_array :: "string array_impl \<Rightarrow> nat" where
  "serialSize_string_array a =
     4 + bitVectorSize (array_size a)
     + sum_list (map (\<lambda>val. 3 + length val) (take (array_size a) (ar_contents a)))"

text \<open>
  The arrays that survive: the class keeps as many flags as elements, and the bytes of
  the size must not change when they are read as \<open>char\<close>.
\<close>

definition size_readable :: "bool \<Rightarrow> nat \<Rightarrow> bool" where
  "size_readable schar n \<longleftrightarrow> schar \<longrightarrow> (\<forall>b \<in> set (size_bytes n). \<not> bit b 7)"

definition array_fits :: "bool \<Rightarrow> 'a array_impl \<Rightarrow> bool" where
  "array_fits schar a \<longleftrightarrow> length (ar_contents a) = length (ar_known a) \<and> size_readable schar (array_size a)"

lemma scast_byte: "\<not> bit b 7 \<Longrightarrow> (scast b :: size_t) = ucast b" for b :: byte
proof (rule bit_word_eqI)
  fix n assume b: "\<not> bit b 7" and "n < LENGTH(64)"
  then show "bit (scast b :: size_t) n = bit (ucast b :: size_t) n"
    by (cases "n < 7"; cases "n = 7") (auto simp: bit_simps min_def dest: bit_imp_le_length)
qed

lemma read_array_size_written:
  assumes "n \<le> size_limit" and "size_readable schar n"
  shows "read_array_size schar (size_bytes n @ rest) = Inr (n, rest)"
  unfolding read_array_size_def
  by (rule read_size_written) (use assms in \<open>auto simp: size_of_char_def size_readable_def scast_byte\<close>)

lemma contents_read_written:
  assumes "siz \<le> size_limit" and "size_readable schar siz" and "length known = siz"
    and "\<And>rest. read_contents siz (cs @ rest) = Inr (contents, rest)"
  shows "deserialize_contents schar t read_contents
      ((value_type_code t # size_bytes siz @ serializeBoolVector known @ cs) @ rest) =
    Inr (Some (\<lparr>ar_known = known, ar_contents = contents\<rparr>, rest))"
proof -
  have "siz \<le> vector_max_size" using assms(1) by (simp add: size_limit_def vector_max_size_def)
  then show ?thesis
    using assms flags_read_written [of known]
    by (simp add: deserialize_contents_def read_array_size_written del: bindE_eq_Inr)
qed

locale array_codec = element_codec ser des siz
  for ser :: "'a \<Rightarrow> byte list option" and des :: "byte list \<Rightarrow> ('a \<times> byte list) result" and siz :: "'a \<Rightarrow> nat" +
  fixes t :: value_type and schar :: bool

sublocale array_codec \<subseteq> whole: codec "serialize_array t ser" "deserialize_array schar t des"
  "\<lambda>a. 4 + bitVectorSize (array_size a) + sum_list (map siz (take (array_size a) (ar_contents a)))"
  "array_fits schar" "\<lambda>a. a"
proof
  fix x :: "'a array_impl" and bs rest
  assume w: "serialize_array t ser x = Some bs" and f: "array_fits schar x"
  from w f obtain cs where cs: "serialize_elements ser (ar_contents x) = Some cs"
    and bs: "bs = value_type_code t # size_bytes (array_size x) @ serializeBoolVector (ar_known x) @ cs"
    and lim: "array_size x \<le> size_limit"
    by (auto simp: serialize_array_def array_fits_def array_size_def Let_def split: if_splits)
  have "deserialize_elements des (array_size x) (cs @ rest) = Inr (ar_contents x, rest)" for rest
    using elements_read_written [OF cs] f by (simp add: array_fits_def array_size_def)
  then show "deserialize_array schar t des (bs @ rest) = Inr (Some (x, rest))"
    unfolding bs deserialize_array_def
    by (subst contents_read_written) (use lim f in \<open>auto simp: array_fits_def array_size_def\<close>)
  show "length bs =
      4 + bitVectorSize (array_size x) + sum_list (map siz (take (array_size x) (ar_contents x)))"
    using elements_size [OF cs] f by (simp add: bs flags_size array_fits_def array_size_def)
qed

interpretation integer_arrays: array_codec serialize_integer deserialize_integer "\<lambda>_. 4" INTEGER_ARRAY_TYPE schar
  for schar ..
interpretation real_arrays: array_codec serialize_real deserialize_real "\<lambda>_. 8" REAL_ARRAY_TYPE schar
  for schar ..
interpretation string_arrays: array_codec serialize_string deserialize_string "\<lambda>val. 3 + length val" STRING_ARRAY_TYPE schar
  for schar ..

interpretation boolean_arrays: codec serialize_boolean_array "deserialize_boolean_array schar"
  serialSize_boolean_array "array_fits schar" "\<lambda>a. a"
  for schar
proof
  fix x :: "bool array_impl" and bs rest
  assume w: "serialize_boolean_array x = Some bs" and f: "array_fits schar x"
  have len: "length (ar_contents x) = array_size x" using f by (simp add: array_fits_def array_size_def)
  from w have bs: "bs = value_type_code BOOLEAN_ARRAY_TYPE # size_bytes (array_size x)
      @ serializeBoolVector (ar_known x) @ serializeBoolVector (ar_contents x)"
    and lim: "array_size x \<le> size_limit"
    by (auto simp: serialize_boolean_array_def Let_def split: if_splits)
  show "deserialize_boolean_array schar (bs @ rest) = Inr (Some (x, rest))"
    unfolding bs deserialize_boolean_array_def
    by (subst contents_read_written)
      (use lim f len flags_read_written [of "ar_contents x"] in \<open>auto simp: array_fits_def array_size_def\<close>)
  show "length bs = serialSize_boolean_array x"
    using len by (simp add: bs flags_size serialSize_boolean_array_def array_size_def)
qed

section \<open>Values\<close>

definition read_as :: "('a \<Rightarrow> 'b) \<Rightarrow> ('a \<times> byte list) option result \<Rightarrow> ('b \<times> byte list) option result" where
  "read_as f r = bindE r (\<lambda>x. Inr (map_option (\<lambda>(x, buf). (f x, buf)) x))"

lemma read_as_read [simp]: "read_as f (Inr (Some (x, buf))) = Inr (Some (f x, buf))"
  by (simp add: read_as_def)

text \<open>\<open>Array::serialize\<close> and \<open>Array::serialSize\<close>, virtual functions of the array classes.\<close>

fun array_serialize :: "array \<Rightarrow> byte list option" where
  "array_serialize (BooleanArray a) = serialize_boolean_array a"
| "array_serialize (IntegerArray a) = serialize_array INTEGER_ARRAY_TYPE serialize_integer a"
| "array_serialize (RealArray a) = serialize_array REAL_ARRAY_TYPE serialize_real a"
| "array_serialize (StringArray a) = serialize_array STRING_ARRAY_TYPE serialize_string a"

fun array_serialSize :: "array \<Rightarrow> nat" where
  "array_serialSize (BooleanArray a) = serialSize_boolean_array a"
| "array_serialSize (IntegerArray a) = serialSize_numeric_array 4 a"
| "array_serialSize (RealArray a) = serialSize_numeric_array 8 a"
| "array_serialSize (StringArray a) = serialSize_string_array a"

fun payload_serialize :: "payload \<Rightarrow> byte list option" where
  "payload_serialize (BooleanVal b) = serialize_Boolean b"
| "payload_serialize (IntegerVal i) = serialize_Integer i"
| "payload_serialize (RealVal r) = serialize_Real r"
| "payload_serialize (StringVal t) = serialize_String t"
| "payload_serialize (CommandHandleVal h) = serialize_CommandHandle h"
| "payload_serialize (ArrayVal a) = array_serialize a"
| "payload_serialize (NodeStateVal _) = None"
| "payload_serialize (OutcomeVal _) = None"
| "payload_serialize (FailureVal _) = None"

fun value_serialize :: "pvalue \<Rightarrow> byte list option" where
  "value_serialize (Unknown _) = Some [value_type_code UNKNOWN_TYPE]"
| "value_serialize (Known p) = payload_serialize p"

fun payload_serialSize :: "payload \<Rightarrow> nat" where
  "payload_serialSize (BooleanVal b) = serialSize_Boolean b"
| "payload_serialSize (IntegerVal i) = serialSize_Integer i"
| "payload_serialSize (RealVal r) = serialSize_Real r"
| "payload_serialSize (StringVal t) = serialSize_String t"
| "payload_serialSize (CommandHandleVal h) = serialSize_CommandHandle h"
| "payload_serialSize (ArrayVal a) = array_serialSize a"
| "payload_serialSize (NodeStateVal _) = 0"
| "payload_serialSize (OutcomeVal _) = 0"
| "payload_serialSize (FailureVal _) = 0"

fun value_serialSize :: "pvalue \<Rightarrow> nat" where
  "value_serialSize (Unknown _) = 1"
| "value_serialSize (Known p) = payload_serialSize p"

definition value_deserialize :: "bool \<Rightarrow> byte list \<Rightarrow> (pvalue \<times> byte list) option result" where
  "value_deserialize schar buf =
     bindE (read_byte buf) (\<lambda>(c, rest).
       case value_type_of c of
         Some UNKNOWN_TYPE \<Rightarrow> Inr (Some (Unknown UNKNOWN_TYPE, rest))
       | Some BOOLEAN_TYPE \<Rightarrow> read_as (Known o BooleanVal) (deserialize_Boolean buf)
       | Some INTEGER_TYPE \<Rightarrow> read_as (Known o IntegerVal) (deserialize_Integer buf)
       | Some REAL_TYPE \<Rightarrow> read_as (Known o RealVal) (deserialize_Real buf)
       | Some STRING_TYPE \<Rightarrow> read_as (Known o StringVal) (deserialize_String buf)
       | Some COMMAND_HANDLE_TYPE \<Rightarrow> read_as (Known o CommandHandleVal) (deserialize_CommandHandle buf)
       | Some BOOLEAN_ARRAY_TYPE \<Rightarrow>
           read_as (Known o ArrayVal o BooleanArray) (deserialize_boolean_array schar buf)
       | Some INTEGER_ARRAY_TYPE \<Rightarrow>
           read_as (Known o ArrayVal o IntegerArray)
             (deserialize_array schar INTEGER_ARRAY_TYPE deserialize_integer buf)
       | Some REAL_ARRAY_TYPE \<Rightarrow>
           read_as (Known o ArrayVal o RealArray)
             (deserialize_array schar REAL_ARRAY_TYPE deserialize_real buf)
       | Some STRING_ARRAY_TYPE \<Rightarrow>
           read_as (Known o ArrayVal o StringArray)
             (deserialize_array schar STRING_ARRAY_TYPE deserialize_string buf)
       | _ \<Rightarrow> Inr None)"

fun value_fits :: "bool \<Rightarrow> pvalue \<Rightarrow> bool" where
  "value_fits schar (Known (ArrayVal (BooleanArray a))) = array_fits schar a"
| "value_fits schar (Known (ArrayVal (IntegerArray a))) = array_fits schar a"
| "value_fits schar (Known (ArrayVal (RealArray a))) = array_fits schar a"
| "value_fits schar (Known (ArrayVal (StringArray a))) = array_fits schar a"
| "value_fits schar _ = True"

text \<open>What remains of a value: an unknown value loses its type.\<close>

fun forget_type :: "pvalue \<Rightarrow> pvalue" where
  "forget_type (Unknown _) = Unknown UNKNOWN_TYPE"
| "forget_type (Known p) = Known p"

lemma value_type_of_written [simp]: "value_type_of (value_type_code t) = Some t"
  by (cases t) (simp_all add: value_type_of_def all_value_types_def)

lemma tagged_start:
  "serialize_tagged t ser x = Some bs \<Longrightarrow> \<exists>cs. bs = value_type_code t # cs"
  by (auto simp: serialize_tagged_def)

lemma array_start: "serialize_array t ser a = Some bs \<Longrightarrow> \<exists>cs. bs = value_type_code t # cs"
  by (auto simp: serialize_array_def Let_def split: if_splits)

lemma boolean_array_start:
  "serialize_boolean_array a = Some bs \<Longrightarrow> \<exists>cs. bs = value_type_code BOOLEAN_ARRAY_TYPE # cs"
  by (auto simp: serialize_boolean_array_def Let_def split: if_splits)

lemma payload_start:
  "payload_serialize p = Some bs \<Longrightarrow> \<exists>cs. bs = value_type_code (payload_type p) # cs"
proof (cases p)
  case (ArrayVal a)
  moreover assume "payload_serialize p = Some bs"
  ultimately show ?thesis by (cases a) (auto dest: array_start boolean_array_start)
qed (auto simp: serialize_Boolean_def serialize_Integer_def serialize_Real_def
      serialize_String_def serialize_CommandHandle_def dest: tagged_start)

lemmas scalar_defs = serialize_Boolean_def serialize_Integer_def serialize_Real_def
  serialize_String_def serialize_CommandHandle_def deserialize_Boolean_def deserialize_Integer_def
  deserialize_Real_def deserialize_String_def deserialize_CommandHandle_def
  serialSize_Boolean_def serialSize_Integer_def serialSize_Real_def serialSize_String_def
  serialSize_CommandHandle_def

lemmas whole_read_written =
  tagged_booleans.whole.read_written tagged_integers.whole.read_written tagged_reals.whole.read_written
  tagged_strings.whole.read_written tagged_handles.whole.read_written
  boolean_arrays.read_written integer_arrays.whole.read_written real_arrays.whole.read_written
  string_arrays.whole.read_written

lemmas whole_written_size =
  tagged_booleans.whole.written_size tagged_integers.whole.written_size tagged_reals.whole.written_size
  tagged_strings.whole.written_size tagged_handles.whole.written_size
  boolean_arrays.written_size integer_arrays.whole.written_size real_arrays.whole.written_size
  string_arrays.whole.written_size

lemma payload_read_written:
  assumes w: "payload_serialize p = Some bs" and f: "value_fits schar (Known p)"
  shows "value_deserialize schar (bs @ rest) = Inr (Some (Known p, rest))"
proof -
  obtain cs where "bs = value_type_code (payload_type p) # cs"
    using payload_start [OF w] by blast
  then have start: "read_byte (bs @ rest) = Inr (value_type_code (payload_type p), cs @ rest)"
    by simp
  show ?thesis
  proof (cases p)
    case (ArrayVal a)
    then show ?thesis
      using w f start whole_read_written [where bs = bs and rest = rest]
      by (cases a) (simp_all add: value_deserialize_def del: bindE_eq_Inr value_type_code.simps)
  qed (use w f start whole_read_written [where bs = bs and rest = rest] in
      \<open>simp_all add: value_deserialize_def scalar_defs del: bindE_eq_Inr value_type_code.simps\<close>)
qed

lemma payload_written_size:
  assumes w: "payload_serialize p = Some bs" and f: "value_fits schar (Known p)"
  shows "length bs = payload_serialSize p"
proof (cases p)
  case (ArrayVal a)
  then show ?thesis
    using w f whole_written_size [where bs = bs]
    by (cases a)
      (auto simp: serialSize_numeric_array_def serialSize_string_array_def sum_list_triv
        array_fits_def array_size_def)
qed (use w f whole_written_size [where bs = bs] in \<open>auto simp: scalar_defs\<close>)

lemma unknown_read_written:
  "value_deserialize schar (value_type_code UNKNOWN_TYPE # rest) = Inr (Some (Unknown UNKNOWN_TYPE, rest))"
  unfolding value_deserialize_def read_byte.simps bindE_simps prod.case value_type_of_written by simp

interpretation value_codec: codec value_serialize "value_deserialize schar" value_serialSize
  "value_fits schar" forget_type
  for schar
proof
  fix x bs rest
  assume w: "value_serialize x = Some bs" and f: "value_fits schar x"
  show "value_deserialize schar (bs @ rest) = Inr (Some (forget_type x, rest))"
    using w f payload_read_written unknown_read_written by (cases x) auto
  show "length bs = value_serialSize x"
    using w f by (cases x) (auto simp: payload_written_size)
qed

section \<open>States\<close>

text \<open>
  \<open>State::serialize\<close> goes on writing where \<open>m_name\<close> left off without looking whether it
  left off at all, and \<open>deserialize\<close> reads on likewise. Only the parameters are followed by
  a test for a null pointer.
\<close>

definition state_serialize :: "state \<Rightarrow> byte list option result" where
  "state_serialize st =
     (case serialize_String (st_name st) of
        None \<Rightarrow> Inl NullPointer
      | Some name \<Rightarrow>
          Inr (map_option (\<lambda>ps. value_type_code STATE_TYPE # name @ size_bytes (length (st_parameters st)) @ ps)
            (serialize_elements value_serialize (st_parameters st))))"

definition state_deserialize :: "bool \<Rightarrow> byte list \<Rightarrow> (state \<times> byte list) option result" where
  "state_deserialize schar buf =
     bindE (read_byte buf) (\<lambda>(c, buf).
       if value_type_code STATE_TYPE \<noteq> c then Inr None
       else bindE (deserialize_String buf) (\<lambda>r. case r of
              None \<Rightarrow> Inl NullPointer
            | Some (name, buf) \<Rightarrow>
                bindE (read_string_size buf) (\<lambda>(siz, buf).
                  read_as (\<lambda>ps. \<lparr>st_name = name, st_parameters = ps\<rparr>)
                    (deserialize_list (value_deserialize schar) siz buf))))"

definition state_serialSize :: "state \<Rightarrow> nat" where
  "state_serialSize st =
     4 + serialSize_String (st_name st) + sum_list (map value_serialSize (st_parameters st))"

section \<open>Properties\<close>

lemma string_read_written:
  "serialize_String name = Some bs \<Longrightarrow> deserialize_String (bs @ rest) = Inr (Some (name, rest))"
  "serialize_String name = Some bs \<Longrightarrow> length bs = serialSize_String name"
  using whole_read_written(4) whole_written_size(4) by (auto simp: scalar_defs)

lemma state_round_trip_lemma:
  assumes w: "state_serialize st = Inr (Some bs)"
    and n: "length (st_parameters st) \<le> size_limit"
    and f: "list_all (value_fits schar) (st_parameters st)"
  shows "state_deserialize schar (bs @ rest) =
      Inr (Some (st\<lparr>st_parameters := map forget_type (st_parameters st)\<rparr>, rest))
    \<and> length bs = state_serialSize st"
proof -
  from w obtain name ps where name: "serialize_String (st_name st) = Some name"
    and ps: "serialize_elements value_serialize (st_parameters st) = Some ps"
    and bs: "bs = value_type_code STATE_TYPE # name @ size_bytes (length (st_parameters st)) @ ps"
    by (auto simp: state_serialize_def split: option.splits)
  have "state_deserialize schar (bs @ rest) =
      Inr (Some (\<lparr>st_name = st_name st, st_parameters = map forget_type (st_parameters st)\<rparr>, rest))"
    using string_read_written(1) [OF name] value_codec.list_read_written [OF ps f] n
    by (simp add: state_deserialize_def bs del: bindE_eq_Inr)
  moreover have "length bs = state_serialSize st"
    using string_read_written(2) [OF name] value_codec.list_size [OF ps f]
    by (simp add: bs state_serialSize_def)
  ultimately show ?thesis by (cases st) simp
qed

text \<open>
  Property C29. A state that was serialized is read back from the buffer, whatever
  follows it: the same name and the same parameters, except that unknown parameters lose their
  type. It takes as many bytes as \<open>serialSize\<close> announced. The conditions: there are at most
  0xFFFFFF parameters, and every parameter fits: where \<open>char\<close> is signed, no byte of the size
  of an array is 128 or more.
\<close>

theorem state_round_trip:
  assumes w: "state_serialize st = Inr (Some bs)"
    and n: "length (st_parameters st) \<le> size_limit"
    and f: "list_all (value_fits schar) (st_parameters st)"
  shows "state_deserialize schar (bs @ rest) =
      Inr (Some (st\<lparr>st_parameters := map forget_type (st_parameters st)\<rparr>, rest))
    \<and> length bs = state_serialSize st"
  using assms by (rule state_round_trip_lemma)

lemmas serial_eval = state_serialize_def scalar_defs serialize_tagged_def serialize_string_def
  serialize_integer_def size_bytes_def size_limit_def Let_def serialize_array_def
  serialize_boolean_array_def array_size_def serializeBoolVector.simps byte_of_char_def

theorem state_round_trip_witness:
  "state_deserialize True
     ([32, 4, 0, 0, 2, 65, 116, 0, 0, 3, 2, 255, 255, 255, 254, 0, 17, 0, 0, 3, 160, 64] @ [7, 7]) =
   Inr (Some (\<lparr>st_name = ''At'', st_parameters =
     [Known (IntegerVal (- 2)), Unknown UNKNOWN_TYPE,
      Known (ArrayVal (BooleanArray \<lparr>ar_known = [True, False, True], ar_contents = [False, True, False]\<rparr>))]\<rparr>, [7, 7]))
   \<and> length ([32, 4, 0, 0, 2, 65, 116, 0, 0, 3, 2, 255, 255, 255, 254, 0, 17, 0, 0, 3, 160, 64] :: byte list) = 22"
  using state_round_trip [of "\<lparr>st_name = ''At'', st_parameters =
     [Known (IntegerVal (- 2)), Unknown INTEGER_TYPE,
      Known (ArrayVal (BooleanArray \<lparr>ar_known = [True, False, True], ar_contents = [False, True, False]\<rparr>))]\<rparr>"
    "[32, 4, 0, 0, 2, 65, 116, 0, 0, 3, 2, 255, 255, 255, 254, 0, 17, 0, 0, 3, 160, 64]" True "[7, 7]"]
  by (simp add: serial_eval array_fits_def size_readable_def)

lemma scast_char: "(scast b :: size_t) = ucast b - (if bit b 7 then 256 else 0)" for b :: byte
proof -
  have "sint b = uint b - (if bit b 7 then 256 else 0)"
    using signed_take_bit_eq_take_bit_minus [of 7 "uint b"] take_bit_int_eq_self [of "uint b" 8] uint_bounded [of b]
    by (simp add: sint_uint bit_uint_iff)
  then have "(word_of_int (sint b) :: size_t) = word_of_int (uint b) - (if bit b 7 then 256 else 0)"
    by (simp only: of_int_diff) simp
  then show ?thesis by (simp only: scast_eq ucast_eq)
qed

text \<open>What a signed \<open>char\<close> takes off the size that was written.\<close>

definition size_error :: "nat \<Rightarrow> nat" where
  "size_error n =
     (case size_bytes n of
        [b0, b1, b2] \<Rightarrow> (if bit b0 7 then 2 ^ 24 else 0) + (if bit b1 7 then 2 ^ 16 else 0)
          + (if bit b2 7 then 2 ^ 8 else 0)
      | _ \<Rightarrow> 0)"

lemma size_error_zero: "size_error n = 0 \<longleftrightarrow> size_readable True n"
  by (auto simp: size_error_def size_readable_def size_bytes_def Let_def)

lemma read_signed_size:
  assumes "n \<le> size_limit"
  shows "read_array_size True (size_bytes n @ rest) = Inr (unat (of_nat n - of_nat (size_error n) :: size_t), rest)"
proof -
  have n: "read_size_with size_of_uchar (size_bytes n @ rest) = Inr (n, rest)"
    using assms by (intro read_size_written) (auto simp: size_of_uchar_def)
  obtain b0 b1 b2 where b: "size_bytes n = [b0, b1, b2]" by (simp add: size_bytes_def Let_def)
  have "(of_nat n :: size_t) = push_bit 8 (push_bit 8 (ucast b0) + ucast b1) + ucast b2"
    using n by (auto simp: b read_size_with_def Let_def size_of_uchar_def)
  then show ?thesis
    by (simp add: read_array_size_def read_size_with_def Let_def b size_error_def size_of_char_def
      scast_char push_bit_eq_mult algebra_simps)
qed

lemma unreadable_size:
  assumes "n \<le> size_limit" and "\<not> size_readable True n"
  shows "unat (of_nat n - of_nat (size_error n) :: size_t) \<noteq> n"
proof
  assume "unat (of_nat n - of_nat (size_error n) :: size_t) = n"
  then have "of_nat (unat (of_nat n - of_nat (size_error n) :: size_t)) = (of_nat n :: size_t)"
    by (rule arg_cong)
  then have "(of_nat n - of_nat (size_error n) :: size_t) = of_nat n" by simp
  then have "(of_nat (size_error n) :: size_t) = 0" by simp
  moreover have "size_error n < 2 ^ 64" by (simp add: size_error_def split: list.splits)
  ultimately have "size_error n = 0"
    using nat_dvd_not_less [of "size_error n" "2 ^ 64"] by (auto simp: word_of_nat_eq_0_iff)
  then show False using assms(2) by (simp add: size_error_zero)
qed

lemma small_size_error:
  assumes "128 \<le> n" and "n < 256"
  shows "vector_max_size < unat (of_nat n - of_nat (size_error n) :: size_t)"
proof -
  have u: "unat (of_nat n :: size_t) = n" using assms by (simp add: unat_of_nat)
  have w: "size_bytes n = [0, 0, of_nat n]"
    using assms by (simp add: size_bytes_def Let_def low_byte word_unat_eq_iff unsigned_take_bit_eq u
        unat_of_nat unat_drop_bit_eq unsigned_ucast_eq drop_bit_eq_div [where 'a = nat]
        take_bit_eq_mod [where 'a = nat])
  have "n div 128 = 1" using assms by linarith
  then have "bit (of_nat n :: byte) 7" by (simp add: bit_of_nat_iff) (simp add: bit_iff_odd)
  then have "size_error n = 256" by (simp add: size_error_def w)
  then show ?thesis
    using assms by (simp add: vector_max_size_def unat_sub_if' unat_of_nat)
qed

lemma length_read_flags: "deserializeBoolVector n buf = Inr (vs, rest) \<Longrightarrow> length vs = n"
proof (induction n arbitrary: buf vs rest rule: less_induct)
  case (less n)
  show ?case
  proof (cases "n = 0")
    case True
    then show ?thesis using less.prems by (simp add: deserializeBoolVector.simps)
  next
    case False
    then obtain b buf' vs' where "deserializeBoolVector (n - 8) buf' = Inr (vs', rest)"
      and "vs = unpack_bits b 0x80 (min 8 n) @ vs'"
      using less.prems by (auto simp: deserializeBoolVector.simps [of n])
    then show ?thesis using less.IH [of "n - 8" buf' vs' rest] False by simp
  qed
qed

lemma read_signed_contents:
  assumes "n \<le> size_limit"
  shows "\<not> size_readable True n \<Longrightarrow>
      deserialize_contents True t rc (value_type_code t # size_bytes n @ cs) = Inr (Some (a, rest)) \<Longrightarrow>
      length (ar_known a) \<noteq> n"
    and "128 \<le> n \<Longrightarrow> n < 256 \<Longrightarrow>
      deserialize_contents True t rc (value_type_code t # size_bytes n @ cs) = Inl LengthError"
proof -
  define m where "m = unat (of_nat n - of_nat (size_error n) :: size_t)"
  have start: "deserialize_contents True t rc (value_type_code t # size_bytes n @ cs) =
      bindE (check LengthError (m \<le> vector_max_size)) (\<lambda>_.
      bindE (deserializeBoolVector m cs) (\<lambda>(known, buf).
      bindE (rc m buf) (\<lambda>(contents, buf).
        Inr (Some (\<lparr>ar_known = known, ar_contents = contents\<rparr>, buf)))))"
    unfolding deserialize_contents_def read_byte.simps bindE_simps prod.case
      read_signed_size [OF assms] m_def by simp
  show "length (ar_known a) \<noteq> n" if "\<not> size_readable True n"
    and "deserialize_contents True t rc (value_type_code t # size_bytes n @ cs) = Inr (Some (a, rest))"
    using unreadable_size [OF assms that(1)] that(2)
    by (auto simp: start m_def [symmetric] dest: length_read_flags)
  show "deserialize_contents True t rc (value_type_code t # size_bytes n @ cs) = Inl LengthError"
    if "128 \<le> n" "n < 256"
    using small_size_error [OF that] by (simp add: start m_def [symmetric] check_def)
qed

text \<open>The number of elements of an array, and the arrays that keep one flag per element.\<close>

fun array_length :: "array \<Rightarrow> nat" where
  "array_length (BooleanArray a) = array_size a"
| "array_length (IntegerArray a) = array_size a"
| "array_length (RealArray a) = array_size a"
| "array_length (StringArray a) = array_size a"

fun array_well_formed :: "array \<Rightarrow> bool" where
  "array_well_formed (BooleanArray a) \<longleftrightarrow> length (ar_contents a) = length (ar_known a)"
| "array_well_formed (IntegerArray a) \<longleftrightarrow> length (ar_contents a) = length (ar_known a)"
| "array_well_formed (RealArray a) \<longleftrightarrow> length (ar_contents a) = length (ar_known a)"
| "array_well_formed (StringArray a) \<longleftrightarrow> length (ar_contents a) = length (ar_known a)"

lemma array_fits:
  "value_fits schar (Known (ArrayVal a)) \<longleftrightarrow> array_well_formed a \<and> size_readable schar (array_length a)"
  by (cases a) (auto simp: array_fits_def)

lemma array_written:
  assumes "array_serialize a = Some bs"
  shows "array_length a \<le> size_limit"
    and "\<exists>cs. bs = value_type_code (array_type_of a) # size_bytes (array_length a) @ cs"
  using assms by (cases a; auto simp: serialize_array_def serialize_boolean_array_def Let_def split: if_splits)+

lemma read_as_eq:
  "read_as f r = Inr (Some (y, rest)) \<longleftrightarrow> (\<exists>x. r = Inr (Some (x, rest)) \<and> f x = y)"
  "read_as f r = Inl e \<longleftrightarrow> r = Inl e"
  by (cases r; auto simp: read_as_def)+

lemma array_read:
  assumes "buf = value_type_code (array_type_of a) # rest"
  shows "value_deserialize schar buf =
    (case a of
       BooleanArray _ \<Rightarrow>
         read_as (Known o ArrayVal o BooleanArray) (deserialize_contents schar BOOLEAN_ARRAY_TYPE deserializeBoolVector buf)
     | IntegerArray _ \<Rightarrow>
         read_as (Known o ArrayVal o IntegerArray)
           (deserialize_contents schar INTEGER_ARRAY_TYPE (deserialize_elements deserialize_integer) buf)
     | RealArray _ \<Rightarrow>
         read_as (Known o ArrayVal o RealArray)
           (deserialize_contents schar REAL_ARRAY_TYPE (deserialize_elements deserialize_real) buf)
     | StringArray _ \<Rightarrow>
         read_as (Known o ArrayVal o StringArray)
           (deserialize_contents schar STRING_ARRAY_TYPE (deserialize_elements deserialize_string) buf))"
proof -
  have "read_byte buf = Inr (value_type_code (array_type_of a), rest)" using assms by simp
  then show ?thesis
    by (cases a) (simp_all add: value_deserialize_def deserialize_boolean_array_def
      deserialize_array_def del: value_type_code.simps)
qed

lemma unreadable_array:
  assumes "array_length a \<le> size_limit" and "\<not> size_readable True (array_length a)"
  shows "value_deserialize True (value_type_code (array_type_of a) # size_bytes (array_length a) @ cs)
    \<noteq> Inr (Some (Known (ArrayVal a), rest))"
  using assms unfolding array_read [OF refl]
  by (cases a) (auto simp: read_as_eq simp del: value_type_code.simps
    dest!: read_signed_contents(1) simp flip: array_size_def)

text \<open>
  Property C30. Where \<open>char\<close> is unsigned every array that can be written is read back. Where
  it is signed, reading back an array gives it exactly if no byte of its size is 128 or more:
  the size bytes are read without the cast to \<open>unsigned char\<close> that strings and numbers have.
  In particular \<open>resize\<close> throws for every array of 128 to 255 elements.
\<close>

theorem signed_char_sizes:
  assumes w: "array_serialize a = Some bs" and wf: "array_well_formed a"
  shows "value_deserialize False (bs @ rest) = Inr (Some (Known (ArrayVal a), rest))
    \<and> (value_deserialize True (bs @ rest) = Inr (Some (Known (ArrayVal a), rest))
         \<longleftrightarrow> size_readable True (array_length a))
    \<and> (128 \<le> array_length a \<and> array_length a < 256 \<longrightarrow>
         value_deserialize True (bs @ rest) = Inl LengthError)"
proof -
  have p: "payload_serialize (ArrayVal a) = Some bs" using w by simp
  obtain cs where bs: "bs = value_type_code (array_type_of a) # size_bytes (array_length a) @ cs"
    using array_written(2) [OF w] by blast
  note signed = read_signed_contents [OF array_written(1) [OF w], where cs = "cs @ rest"]
  have buf: "bs @ rest = value_type_code (array_type_of a) # size_bytes (array_length a) @ cs @ rest"
    by (simp add: bs)
  have "value_deserialize False (bs @ rest) = Inr (Some (Known (ArrayVal a), rest))"
    using p wf by (intro payload_read_written) (simp_all add: array_fits size_readable_def del: value_fits.simps)
  moreover have "value_deserialize True (bs @ rest) = Inr (Some (Known (ArrayVal a), rest))"
    if "size_readable True (array_length a)"
    using p wf that by (intro payload_read_written) (simp_all add: array_fits del: value_fits.simps)
  moreover have "value_deserialize True (bs @ rest) \<noteq> Inr (Some (Known (ArrayVal a), rest))"
    if "\<not> size_readable True (array_length a)"
    unfolding buf using array_written(1) [OF w] that by (rule unreadable_array)
  moreover have "value_deserialize True (bs @ rest) = Inl LengthError"
    if "128 \<le> array_length a" "array_length a < 256"
    unfolding buf array_read [OF refl]
    using signed(2) [OF that, of BOOLEAN_ARRAY_TYPE] signed(2) [OF that, of INTEGER_ARRAY_TYPE]
      signed(2) [OF that, of REAL_ARRAY_TYPE] signed(2) [OF that, of STRING_ARRAY_TYPE]
    by (cases a) (simp_all add: read_as_eq del: value_type_code.simps)
  ultimately show ?thesis by blast
qed

lemma serialize_unset_flags:
  "serializeBoolVector (replicate n False) = replicate (bitVectorSize n) 0"
proof (induction n rule: less_induct)
  case (less n)
  have p: "pack_bits 0 m (replicate k False) = 0" for m k by (induction k arbitrary: m) simp_all
  show ?case
  proof (cases "n = 0")
    case True
    then show ?thesis by (simp add: serializeBoolVector.simps bitVectorSize_def)
  next
    case False
    have b: "bitVectorSize n = Suc (bitVectorSize (n - 8))"
      using False flags_size [of "replicate n False"] flags_size [of "replicate (n - 8) False"]
      by (simp add: serializeBoolVector.simps [of "replicate n False"])
    show ?thesis
      using False less.IH [of "n - 8"] unfolding b
      by (subst serializeBoolVector.simps) (simp add: p)
  qed
qed

theorem signed_char_sizes_witness:
  "value_deserialize False ([17, 0, 0, 130] @ replicate 34 0) =
     Inr (Some (Known (ArrayVal (BooleanArray (new_array 130 False))), []))
   \<and> value_deserialize True ([17, 0, 0, 130] @ replicate 34 0) = Inl LengthError"
proof -
  have w: "array_serialize (BooleanArray (new_array 130 False)) = Some ([17, 0, 0, 130] @ replicate 34 0)"
    by (simp add: serialize_boolean_array_def array_size_def size_bytes_def size_limit_def Let_def
      new_array_def serialize_unset_flags bitVectorSize_def flip: replicate_add)
  show ?thesis
    using signed_char_sizes [OF w, of "[]"] by (simp add: new_array_def array_size_def)
qed

section \<open>Truncated messages\<close>

lemma streaming_some [streaming_intros]:
  "streaming app_rest des \<Longrightarrow> streaming app_opt (\<lambda>buf. bindE (des buf) (\<lambda>r. Inr (Some r)))"
  using streaming_bind [of des app_opt "\<lambda>x buf. Inr (Some (x, buf))"]
  by (simp add: streaming_return case_prod_unfold)

lemma streaming_tagged [streaming_intros]:
  "streaming app_rest des \<Longrightarrow> streaming app_opt (deserialize_tagged t des)"
  unfolding deserialize_tagged_def
  by (intro streaming_intros)

lemma streaming_contents [streaming_intros]:
  "(\<And>n. streaming app_rest (rc n)) \<Longrightarrow> streaming app_opt (deserialize_contents schar t rc)"
  unfolding deserialize_contents_def read_array_size_def
  by (intro streaming_intros)

lemma streaming_list [streaming_intros]:
  "streaming app_opt des \<Longrightarrow> streaming app_opt (deserialize_list des n)"
proof (induction n)
  case 0
  then show ?case unfolding deserialize_list.simps by (intro streaming_intros)
next
  case (Suc n)
  then show ?case unfolding deserialize_list.simps by (intro streaming_intros)
qed

lemma streaming_read_as [streaming_intros]:
  "streaming app_opt r \<Longrightarrow> streaming app_opt (\<lambda>buf. read_as f (r buf))"
  unfolding read_as_def
  using streaming_bind_opt [of r "\<lambda>x buf. Inr (Some (f x, buf))"]
  by (simp add: streaming_return case_prod_unfold map_option_case if_distrib
    option.case_distrib [where h = Inr])

lemma streaming_value [streaming_intros]: "streaming app_opt (value_deserialize schar)"
proof -
  have scalars: "streaming app_opt deserialize_Boolean" "streaming app_opt deserialize_Integer"
    "streaming app_opt deserialize_Real" "streaming app_opt deserialize_String"
    "streaming app_opt deserialize_CommandHandle"
    unfolding scalar_defs by (intro streaming_intros)+
  have arrays: "streaming app_opt (deserialize_boolean_array schar)"
    unfolding deserialize_boolean_array_def by (intro streaming_intros)
  have others: "streaming app_rest des \<Longrightarrow> streaming app_opt (deserialize_array schar t des)"
    for t and des :: "byte list \<Rightarrow> ('a \<times> byte list) result"
    unfolding deserialize_array_def by (intro streaming_intros)
  define branch :: "value_type option \<Rightarrow> byte list \<Rightarrow> (pvalue \<times> byte list) option result" where
    "branch t = (\<lambda>buf. case t of
         Some UNKNOWN_TYPE \<Rightarrow> bindE (read_byte buf) (\<lambda>(c, rest). Inr (Some (Unknown UNKNOWN_TYPE, rest)))
       | Some BOOLEAN_TYPE \<Rightarrow> read_as (Known o BooleanVal) (deserialize_Boolean buf)
       | Some INTEGER_TYPE \<Rightarrow> read_as (Known o IntegerVal) (deserialize_Integer buf)
       | Some REAL_TYPE \<Rightarrow> read_as (Known o RealVal) (deserialize_Real buf)
       | Some STRING_TYPE \<Rightarrow> read_as (Known o StringVal) (deserialize_String buf)
       | Some COMMAND_HANDLE_TYPE \<Rightarrow> read_as (Known o CommandHandleVal) (deserialize_CommandHandle buf)
       | Some BOOLEAN_ARRAY_TYPE \<Rightarrow> read_as (Known o ArrayVal o BooleanArray) (deserialize_boolean_array schar buf)
       | Some INTEGER_ARRAY_TYPE \<Rightarrow>
           read_as (Known o ArrayVal o IntegerArray) (deserialize_array schar INTEGER_ARRAY_TYPE deserialize_integer buf)
       | Some REAL_ARRAY_TYPE \<Rightarrow>
           read_as (Known o ArrayVal o RealArray) (deserialize_array schar REAL_ARRAY_TYPE deserialize_real buf)
       | Some STRING_ARRAY_TYPE \<Rightarrow>
           read_as (Known o ArrayVal o StringArray) (deserialize_array schar STRING_ARRAY_TYPE deserialize_string buf)
       | _ \<Rightarrow> Inr None)" for t
  have "streaming app_opt (branch t)" for t
    unfolding branch_def
    by (cases t; simp; cases "the t"; simp)
      (intro streaming_intros scalars arrays others)+
  moreover have "value_deserialize schar (c # rest) = branch (value_type_of c) (c # rest)" for c rest
    by (simp add: value_deserialize_def branch_def split: option.split value_type.split)
  moreover have "value_deserialize schar [] = Inl BufferOverrun"
    by (simp add: value_deserialize_def)
  ultimately show ?thesis
    unfolding streaming_def by (metis append_Cons list.exhaust)
qed

lemma streaming_state: "streaming app_opt (state_deserialize schar)"
proof -
  have "streaming app_opt deserialize_String"
    unfolding scalar_defs by (intro streaming_intros)
  then show ?thesis
    unfolding state_deserialize_def read_string_size_def by (intro streaming_intros)
qed

text \<open>
  Property C31. \<open>deserialize\<close> is not told how long the buffer is. Of the bytes of a state that
  meets the conditions of the round trip (at most 0xFFFFFF parameters, and sizes of arrays
  that are read back as written) it reads all and no more: whatever follows them does not
  matter, and if even one is missing it reads past the end of the buffer. On any buffer,
  what follows the bytes consumed changes nothing in a result.
\<close>

theorem reads_what_was_written:
  assumes w: "state_serialize st = Inr (Some bs)"
    and n: "length (st_parameters st) \<le> size_limit"
    and f: "list_all (value_fits schar) (st_parameters st)"
  shows "(k < length bs \<longrightarrow> state_deserialize schar (take k bs) = Inl BufferOverrun)
    \<and> length bs \<le> state_serialSize st
    \<and> (state_deserialize schar buf = Inr (Some (st', rest)) \<longrightarrow>
         state_deserialize schar (buf @ extra) = Inr (Some (st', rest @ extra)))"
proof -
  note again = state_round_trip_lemma [OF w n f]
  have "k < length bs \<longrightarrow> state_deserialize schar (take k bs) = Inl BufferOverrun"
    using truncated [OF streaming_state, of schar bs] again by blast
  then show ?thesis
    using again streamingD [OF streaming_state, of schar buf extra] by (auto simp: app_opt_some)
qed

theorem reads_what_was_written_witness:
  "state_deserialize True (take 7 [32, 4, 0, 0, 2, 65, 116, 0, 0, 1, 0]) = Inl BufferOverrun"
  using reads_what_was_written [of "\<lparr>st_name = ''At'', st_parameters = [Unknown INTEGER_TYPE]\<rparr>"
    "[32, 4, 0, 0, 2, 65, 116, 0, 0, 1, 0]" True 7]
  by (simp add: serial_eval)

end
