(* ===== verification/Real_Arithmetic.thy ===== *)
theory Real_Arithmetic
  imports Plexil_Value
begin

text \<open>
  The arithmetic of \<open>Real\<close>, that is of IEEE 754 doubles rounded to nearest with ties to even,
  as the operators and the thresholds of lookups use it. A finite double is an integer number
  of units (\<open>r_units\<close>), so the exact result is a fraction of integers, and \<open>r_round\<close> finds
  the double next to it. A result that is not a number is one fixed NaN.
\<close>

section \<open>Rounding\<close>

definition isinf :: "real_bits \<Rightarrow> bool" where
  "isinf x \<longleftrightarrow> r_exponent x = 2047 \<and> r_mantissa x = 0"

definition r_signed :: "bool \<Rightarrow> nat \<Rightarrow> real_bits" where
  "r_signed neg b = of_nat ((if neg then 2 ^ 63 else 0) + b)"

definition infinity_bits :: nat where
  "infinity_bits = 2047 * 2 ^ 52"

definition r_nan :: real_bits where
  "r_nan = of_nat (2047 * 2 ^ 52 + 2 ^ 51)"

text \<open>
  The fraction \<open>p / q\<close> in units: \<open>2 ^ k\<close> is the distance of the doubles around it, \<open>m\<close> how
  often it fits. Where \<open>m\<close> is rounded up to \<open>2 ^ 53\<close> the carry runs into the exponent.
\<close>

definition round_shift :: "nat \<Rightarrow> nat \<Rightarrow> nat" where
  "round_shift p q = ilog2 (p div q) - 52"

definition round_multiple :: "nat \<Rightarrow> nat \<Rightarrow> nat" where
  "round_multiple p d =
     (let m = p div d; r = p mod d
      in if 2 * r > d \<or> 2 * r = d \<and> odd m then m + 1 else m)"

definition r_round :: "bool \<Rightarrow> nat \<Rightarrow> nat \<Rightarrow> real_bits" where
  "r_round neg p q =
     (let k = round_shift p q
      in r_signed neg (min (k * 2 ^ 52 + round_multiple p (q * 2 ^ k)) infinity_bits))"

lemma round_multiple_error:
  assumes "0 < d"
  shows "2 * \<bar>int p - int (round_multiple p d) * int d\<bar> \<le> int d"
proof -
  have p: "p = p div d * d + p mod d" by simp
  have "int p = int (p div d) * int d + int (p mod d)" by (subst p) (simp only: of_nat_add of_nat_mult)
  moreover have "p mod d < d" using assms by simp
  ultimately show ?thesis
    by (auto simp: round_multiple_def Let_def algebra_simps abs_if)
qed

lemma round_multiple_exact: "d dvd p \<Longrightarrow> round_multiple p d = p div d"
  by (cases "d = 0") (auto simp: round_multiple_def Let_def)

lemma round_multiple_bounds:
  "p div d \<le> round_multiple p d" "round_multiple p d \<le> Suc (p div d)"
  by (simp_all add: round_multiple_def Let_def)

lemma round_multiple_mono:
  assumes "0 < d" and "p \<le> p'"
  shows "round_multiple p d \<le> round_multiple p' d"
proof (cases "p div d = p' div d")
  case True
  moreover have "p mod d \<le> p' mod d"
    using assms(2) True by (metis add_le_cancel_left div_mult_mod_eq)
  ultimately show ?thesis by (auto simp: round_multiple_def Let_def)
next
  case False
  then have "p div d < p' div d" using assms(2) div_le_mono le_neq_implies_less by blast
  then show ?thesis
    using round_multiple_bounds(2) [of p d] round_multiple_bounds(1) [of p' d] by linarith
qed

lemma round_range:
  assumes "0 < q"
  shows "round_multiple p (q * 2 ^ round_shift p q) \<le> 2 ^ 53"
    and "0 < round_shift p q \<Longrightarrow> 2 ^ 52 \<le> round_multiple p (q * 2 ^ round_shift p q)"
proof -
  define n where "n = p div q"
  define k where "k = round_shift p q"
  have div: "p div (q * 2 ^ k) = n div 2 ^ k" by (simp add: n_def div_mult2_eq)
  have "n div 2 ^ k < 2 ^ 53"
  proof (cases "n = 0")
    case False
    then have "n < 2 ^ Suc (ilog2 n)" using ilog2_bounds [of n] by simp
    also have "\<dots> \<le> 2 ^ (53 + k)"
      by (rule power_increasing) (simp_all add: k_def round_shift_def n_def)
    finally have "n < 2 ^ 53 * 2 ^ k" by (simp only: power_add)
    then show ?thesis by (rule less_mult_imp_div_less)
  qed simp
  then show "round_multiple p (q * 2 ^ round_shift p q) \<le> 2 ^ 53"
    using round_multiple_bounds(2) [of p "q * 2 ^ k"] by (simp add: div flip: k_def)
  assume "0 < round_shift p q"
  then have k: "ilog2 n = 52 + k" by (simp add: k_def round_shift_def n_def)
  have "ilog2 0 = 0" by (subst ilog2.simps) simp
  then have "n \<noteq> 0" using k by (metis add_is_0 zero_neq_numeral)
  with k have "2 ^ (52 + k) \<le> n" using ilog2_bounds [of n] by simp
  then have "2 ^ 52 * 2 ^ k \<le> n" by (simp only: power_add)
  then have "2 ^ 52 \<le> n div 2 ^ k"
    using less_eq_div_iff_mult_less_eq [of "2 ^ k" "2 ^ 52" n] by simp
  then show "2 ^ 52 \<le> round_multiple p (q * 2 ^ round_shift p q)"
    using round_multiple_bounds(1) [of p "q * 2 ^ k"] by (simp add: div flip: k_def)
qed

lemma div_mod_parts:
  "f < d \<Longrightarrow> (e * d + f) div d = e" "f < d \<Longrightarrow> (e * d + f) mod d = f" for e :: nat
  by simp_all

lemma signed_units:
  assumes b: "b = k * 2 ^ 52 + m" and m: "m \<le> 2 ^ 53" "0 < k \<Longrightarrow> 2 ^ 52 \<le> m" and fin: "b < infinity_bits"
  shows "r_units (r_signed neg b) = (if neg then - 1 else 1) * (int m * 2 ^ k)"
    and "\<not> isnan (r_signed neg b)" and "\<not> isinf (r_signed neg b)"
proof -
  define e where "e = b div 2 ^ 52"
  define f where "f = b mod 2 ^ 52"
  have "e < 2047" using fin by (simp add: e_def infinity_bits_def less_mult_imp_div_less)
  then have e: "e < 2 ^ 11" "e \<noteq> 2047" by simp_all
  have f: "f < 2 ^ 52" by (simp add: f_def)
  let ?s = "if neg then 1 else 0 :: nat"
  have x: "r_signed neg b = of_nat (?s * 2 ^ 63 + e * 2 ^ 52 + f)"
    by (simp add: r_signed_def e_def f_def)
  have s: "?s < 2" by simp
  note fields = r_fields [OF s e(1) f x]
  show "\<not> isnan (r_signed neg b)" "\<not> isinf (r_signed neg b)"
    using fields(2) e(2) by (simp_all add: isnan_def isinf_def)
  have "(if e = 0 then int f else int (2 ^ 52 + f) * 2 ^ (e - 1)) = int m * 2 ^ k"
  proof -
    consider "m < 2 ^ 52" | "2 ^ 52 \<le> m" "m < 2 ^ 53" | "m = 2 ^ 53" using m(1) by linarith
    then show ?thesis
    proof cases
      case 1
      then have "k = 0" using m(2) by (cases k) auto
      then have "e = 0" and "f = m" using 1 b by (simp_all add: e_def f_def)
      then show ?thesis using \<open>k = 0\<close> by simp
    next
      case 2
      then have "b = Suc k * 2 ^ 52 + (m - 2 ^ 52)" and "m - 2 ^ 52 < 2 ^ 52" using b by simp_all
      then have "e = Suc k" and "f = m - 2 ^ 52"
        using div_mod_parts [of "m - 2 ^ 52" "2 ^ 52" "Suc k"] by (simp_all only: e_def f_def)
      then show ?thesis using 2 by simp
    next
      case 3
      then have "b = (k + 2) * 2 ^ 52" using b by simp
      then have "e = k + 2" and "f = 0"
        using div_mod_parts [of 0 "2 ^ 52" "k + 2"] by (simp_all add: e_def f_def)
      then show ?thesis using 3 by simp
    qed
  qed
  then have "r_units (r_signed neg b) = (if ?s = 1 then - (int m * 2 ^ k) else int m * 2 ^ k)"
    unfolding r_units_def Let_def fields by (simp only:)
  then show "r_units (r_signed neg b) = (if neg then - 1 else 1) * (int m * 2 ^ k)" by simp
qed

lemma r_round_units:
  assumes "0 < q"
    and "round_shift p q * 2 ^ 52 + round_multiple p (q * 2 ^ round_shift p q) < infinity_bits"
  shows "r_units (r_round neg p q) =
      (if neg then - 1 else 1) * (int (round_multiple p (q * 2 ^ round_shift p q)) * 2 ^ round_shift p q)"
    and "\<not> isnan (r_round neg p q)" and "\<not> isinf (r_round neg p q)"
  using signed_units [OF refl round_range [OF assms(1)] assms(2)] assms(2)
  by (simp_all add: r_round_def Let_def min_def)

lemma r_round_overflow:
  assumes "infinity_bits \<le> round_shift p q * 2 ^ 52 + round_multiple p (q * 2 ^ round_shift p q)"
  shows "isinf (r_round neg p q)" and "\<not> isnan (r_round neg p q)"
proof -
  let ?s = "if neg then 1 else 0 :: nat"
  have "r_round neg p q = of_nat (?s * 2 ^ 63 + 2047 * 2 ^ 52 + 0)"
    unfolding r_round_def Let_def min_absorb2 [OF assms] r_signed_def
    by (cases neg) (simp_all only: if_True if_False infinity_bits_def mult_1 mult_0 add_0_left add_0_right)
  note fields = r_fields [OF _ _ _ this]
  have "r_exponent (r_round neg p q) = 2047" by (rule fields(2)) simp_all
  moreover have "r_mantissa (r_round neg p q) = 0" by (rule fields(3)) simp_all
  ultimately show "isinf (r_round neg p q)" and "\<not> isnan (r_round neg p q)"
    by (simp_all add: isinf_def isnan_def)
qed

text \<open>The result is finite and no further from the fraction than half the distance of the doubles there, or infinite.\<close>

lemma r_round_error:
  assumes "0 < q" and "\<not> isinf (r_round neg p q)"
  shows "\<not> isnan (r_round neg p q)
    \<and> 2 * \<bar>(if neg then - int p else int p) - r_units (r_round neg p q) * int q\<bar> \<le> int q * 2 ^ round_shift p q"
proof -
  define k where "k = round_shift p q"
  define m where "m = round_multiple p (q * 2 ^ k)"
  have fin: "k * 2 ^ 52 + m < infinity_bits"
    using r_round_overflow(1) [of p q neg] assms(2) by (auto simp: k_def m_def not_le [symmetric])
  have u: "r_units (r_round neg p q) = (if neg then - 1 else 1) * (int m * 2 ^ k)"
    and n: "\<not> isnan (r_round neg p q)"
    using r_round_units [OF assms(1)] fin by (simp_all add: k_def m_def)
  define A where "A = int m * (int q * 2 ^ k)"
  have "2 * \<bar>int p - A\<bar> \<le> int q * 2 ^ k"
    using round_multiple_error [of "q * 2 ^ k" p] assms(1) by (simp add: A_def m_def)
  moreover have "(if neg then - int p else int p) - r_units (r_round neg p q) * int q =
      (if neg then - (int p - A) else int p - A)"
    unfolding u A_def by (cases neg) (simp_all add: mult.assoc mult.commute)
  ultimately show ?thesis using n unfolding k_def [symmetric] 
    by (cases neg) (simp_all only: if_True if_False abs_minus_cancel simp_thms)
qed

lemma r_round_exact:
  assumes "2 ^ j dvd p" and "p < 2 ^ (53 + j)" and "j \<le> 2045"
  shows "r_units (r_round neg p 1) = (if neg then - int p else int p)"
    and "\<not> isnan (r_round neg p 1)" and "\<not> isinf (r_round neg p 1)"
proof -
  define k where "k = round_shift p 1"
  have k: "k \<le> j"
  proof (cases "p = 0")
    case True
    have "ilog2 0 = 0" by (subst ilog2.simps) simp
    then show ?thesis using True by (simp add: k_def round_shift_def)
  next
    case False
    then have "2 ^ ilog2 p \<le> p" using ilog2_bounds [of p] by simp
    then have "(2 :: nat) ^ ilog2 p < 2 ^ (53 + j)" using assms(2) by linarith
    then have "ilog2 p < 53 + j" by (rule power_less_imp_less_exp [rotated]) simp
    then show ?thesis by (simp add: k_def round_shift_def)
  qed
  then have "2 ^ k dvd p" using assms(1) le_imp_power_dvd dvd_trans by blast
  then have m: "round_multiple p (1 * 2 ^ k) = p div 2 ^ k" by (simp add: round_multiple_exact)
  have m53: "round_multiple p (1 * 2 ^ k) \<le> 2 ^ 53" unfolding k_def by (rule round_range) simp
  have fin: "k * 2 ^ 52 + round_multiple p (1 * 2 ^ k) < infinity_bits"
  proof (cases "k = 2045")
    case True
    then have "j = k" using k assms(3) by simp
    then have "p div 2 ^ k < 2 ^ 53"
      using assms(2) by (intro less_mult_imp_div_less) (simp only: power_add)
    then have "round_multiple p (1 * 2 ^ k) < 2 ^ 53" unfolding m .
    moreover have "k * 2 ^ 52 \<le> 2045 * 2 ^ 52" using k assms(3) by simp
    moreover have "a < 2 ^ 53 \<Longrightarrow> b \<le> 2045 * 2 ^ 52 \<Longrightarrow> b + a < 2047 * 2 ^ 52" for a b :: nat by simp
    ultimately show ?thesis unfolding infinity_bits_def by blast
  next
    case False
    then show ?thesis using k m53 assms(3) by (simp add: infinity_bits_def)
  qed
  note round = r_round_units [OF zero_less_one, of p, folded k_def, OF fin]
  have "r_units (r_round neg p 1) = (if neg then - 1 else 1) * (int (p div 2 ^ k) * 2 ^ k)"
    using round(1) unfolding m .
  moreover have "int (p div 2 ^ k) * 2 ^ k = int p"
    using \<open>2 ^ k dvd p\<close> by (metis dvd_div_mult_self of_nat_mult of_nat_numeral of_nat_power)
  ultimately show "r_units (r_round neg p 1) = (if neg then - int p else int p)" by simp
  show "\<not> isnan (r_round neg p 1)" "\<not> isinf (r_round neg p 1)"
    using round(2,3) .
qed

section \<open>Operations\<close>

definition r_zero :: real_bits where "r_zero = 0"

definition r_is_zero :: "real_bits \<Rightarrow> bool" where
  "r_is_zero x \<longleftrightarrow> \<not> isnan x \<and> r_units x = 0"

definition r_infinity :: "bool \<Rightarrow> real_bits" where
  "r_infinity neg = r_signed neg infinity_bits"

definition r_neg :: "real_bits \<Rightarrow> real_bits" where
  "r_neg x = r_signed (\<not> r_sign x) (unat x mod 2 ^ 63)"

text \<open>\<open>fabs\<close>.\<close>

definition r_abs :: "real_bits \<Rightarrow> real_bits" where
  "r_abs x = r_signed False (unat x mod 2 ^ 63)"

definition r_add :: "real_bits \<Rightarrow> real_bits \<Rightarrow> real_bits" where
  "r_add x y =
     (if isnan x \<or> isnan y then r_nan
      else if isinf x then (if isinf y \<and> r_sign x \<noteq> r_sign y then r_nan else x)
      else if isinf y then y
      else let s = r_units x + r_units y
           in if s = 0 then r_signed (r_sign x \<and> r_sign y) 0
              else r_round (s < 0) (nat \<bar>s\<bar>) 1)"

definition r_sub :: "real_bits \<Rightarrow> real_bits \<Rightarrow> real_bits" where
  "r_sub x y = r_add x (r_neg y)"

definition r_mul :: "real_bits \<Rightarrow> real_bits \<Rightarrow> real_bits" where
  "r_mul x y =
     (let neg = (r_sign x \<noteq> r_sign y)
      in if isnan x \<or> isnan y then r_nan
         else if isinf x \<or> isinf y
           then (if r_units x = 0 \<or> r_units y = 0 then r_nan else r_infinity neg)
         else r_round neg (nat \<bar>r_units x * r_units y\<bar>) (nat one_in_units))"

definition r_div :: "real_bits \<Rightarrow> real_bits \<Rightarrow> real_bits" where
  "r_div x y =
     (let neg = (r_sign x \<noteq> r_sign y)
      in if isnan x \<or> isnan y then r_nan
         else if isinf x then (if isinf y then r_nan else r_infinity neg)
         else if isinf y then r_signed neg 0
         else if r_units y = 0 then (if r_units x = 0 then r_nan else r_infinity neg)
         else r_round neg (nat \<bar>r_units x * one_in_units\<bar>) (nat \<bar>r_units y\<bar>))"

text \<open>\<open>fmod\<close>: the remainder of the division rounded to zero, exact, with the sign of \<open>x\<close>.\<close>

definition r_fmod :: "real_bits \<Rightarrow> real_bits \<Rightarrow> real_bits" where
  "r_fmod x y =
     (if isnan x \<or> isnan y \<or> isinf x \<or> r_units y = 0 then r_nan
      else if isinf y then x
      else r_round (r_sign x) (nat \<bar>r_units x\<bar> mod nat \<bar>r_units y\<bar>) 1)"

text \<open>
  \<open>sqrt\<close>: of a number of units the root has at least 537 bits before the point, so one more
  bit that tells whether it is exact is enough to round it.
\<close>

fun isqrt :: "nat \<Rightarrow> nat" where
  "isqrt n = (if n = 0 then 0 else let r = 2 * isqrt (n div 4) in if (r + 1) * (r + 1) \<le> n then r + 1 else r)"

declare isqrt.simps [simp del]

definition r_sqrt :: "real_bits \<Rightarrow> real_bits" where
  "r_sqrt x =
     (if isnan x \<or> r_units x = 0 then x
      else if r_sign x then r_nan
      else if isinf x then x
      else let p = nat (r_units x * one_in_units); r = isqrt p
           in r_round False (2 * r + (if r * r = p then 0 else 1)) 2)"

section \<open>Facts\<close>

lemma bit_fields:
  fixes x :: real_bits
  obtains s e m where "s < 2" and "e < 2 ^ 11" and "m < 2 ^ 52" and "unat x = s * 2 ^ 63 + e * 2 ^ 52 + m"
    and "r_sign x \<longleftrightarrow> s = 1" and "r_exponent x = e" and "r_mantissa x = m"
proof -
  define a where "a = unat x div 2 ^ 52"
  define m where "m = unat x mod 2 ^ 52"
  define s where "s = a div 2 ^ 11"
  define e where "e = a mod 2 ^ 11"
  have "unat x < 2 ^ 64" using unsigned_less [of x] by simp
  then have "a < 2 ^ 12" unfolding a_def by (intro less_mult_imp_div_less) simp
  then have s: "s < 2" unfolding s_def by (intro less_mult_imp_div_less) simp
  have "unat x = a * 2 ^ 52 + m" and "a = s * 2 ^ 11 + e" by (simp_all add: a_def m_def s_def e_def)
  then have x: "unat x = s * 2 ^ 63 + e * 2 ^ 52 + m" by simp
  have e: "e < 2 ^ 11" and m: "m < 2 ^ 52" by (simp_all add: e_def m_def)
  have "of_nat (unat x) = x" by simp
  then have w: "x = of_nat (s * 2 ^ 63 + e * 2 ^ 52 + m)" by (simp only: x)
  show ?thesis by (rule that [OF s e m x]) (rule r_fields [OF s e m w])+
qed

lemma r_neg_fields:
  "r_sign (r_neg x) \<longleftrightarrow> \<not> r_sign x" "r_exponent (r_neg x) = r_exponent x" "r_mantissa (r_neg x) = r_mantissa x"
  "r_sign (r_abs x) \<longleftrightarrow> False" "r_exponent (r_abs x) = r_exponent x" "r_mantissa (r_abs x) = r_mantissa x"
proof -
  obtain s e m where f: "s < 2" "e < 2 ^ 11" "m < 2 ^ 52" and u: "unat x = s * 2 ^ 63 + e * 2 ^ 52 + m"
    and x: "r_sign x \<longleftrightarrow> s = 1" "r_exponent x = e" "r_mantissa x = m"
    by (rule bit_fields [of x])
  have "e * 2 ^ 52 + m < 2 ^ 63" using f by (simp; linarith)
  then have low: "unat x mod 2 ^ 63 = e * 2 ^ 52 + m"
    unfolding u add.assoc by (subst mod_mult_self3) (rule mod_less)
  let ?t = "if r_sign x then 0 else 1 :: nat"
  have n: "r_neg x = of_nat (?t * 2 ^ 63 + e * 2 ^ 52 + m)" and a: "r_abs x = of_nat (0 * 2 ^ 63 + e * 2 ^ 52 + m)"
    unfolding r_neg_def r_abs_def r_signed_def low by (cases "r_sign x"; simp)+
  have t: "?t < 2" and z: "(0 :: nat) < 2" by simp_all
  show "r_sign (r_neg x) \<longleftrightarrow> \<not> r_sign x" using r_fields(1) [OF t f(2,3) n] by simp
  show "r_sign (r_abs x) \<longleftrightarrow> False" using r_fields(1) [OF z f(2,3) a] by simp
  show "r_exponent (r_neg x) = r_exponent x" "r_mantissa (r_neg x) = r_mantissa x"
    "r_exponent (r_abs x) = r_exponent x" "r_mantissa (r_abs x) = r_mantissa x"
    unfolding x(2,3) by (rule r_fields [OF t f(2,3) n] r_fields [OF z f(2,3) a])+
qed

lemma r_neg_simps [simp]:
  "r_units (r_neg x) = - r_units x" "isnan (r_neg x) = isnan x" "isinf (r_neg x) = isinf x"
  by (simp_all add: r_units_def isnan_def isinf_def r_neg_fields Let_def)

lemma r_abs_simps [simp]:
  "r_units (r_abs x) = \<bar>r_units x\<bar>" "isnan (r_abs x) = isnan x" "isinf (r_abs x) = isinf x"
  by (simp_all add: r_units_def isnan_def isinf_def r_neg_fields Let_def)

lemma r_signed_zero [simp]:
  "r_units (r_signed neg 0) = 0" "\<not> isnan (r_signed neg 0)" "\<not> isinf (r_signed neg 0)"
  using signed_units [of 0 0 0 neg] by (simp_all add: infinity_bits_def)

lemma isinf_infinity [simp]: "isinf (r_infinity neg)" "\<not> isnan (r_infinity neg)"
proof -
  have "r_infinity neg = of_nat ((if neg then 1 else 0) * 2 ^ 63 + 2047 * 2 ^ 52 + 0)"
    unfolding r_infinity_def r_signed_def infinity_bits_def by (cases neg; simp)
  note fields = r_fields [OF _ _ _ this]
  have "r_exponent (r_infinity neg) = 2047" by (rule fields(2)) simp_all
  moreover have "r_mantissa (r_infinity neg) = 0" by (rule fields(3)) simp_all
  ultimately show "isinf (r_infinity neg)" "\<not> isnan (r_infinity neg)"
    by (simp_all add: isinf_def isnan_def)
qed

lemma isnan_r_nan [simp]: "isnan r_nan"
proof -
  have "r_nan = of_nat (0 * 2 ^ 63 + 2047 * 2 ^ 52 + 2 ^ 51)" unfolding r_nan_def by simp
  note fields = r_fields [OF _ _ _ this]
  have "r_exponent r_nan = 2047" by (rule fields(2)) simp_all
  moreover have "r_mantissa r_nan = 2 ^ 51" by (rule fields(3)) simp_all
  ultimately show ?thesis by (simp add: isnan_def)
qed

lemma isinf_not_nan: "isinf x \<Longrightarrow> \<not> isnan x"
  by (simp add: isinf_def isnan_def)

lemma isinf_of_integer [simp]: "\<not> isinf (real_of_integer i)"
proof
  assume "isinf (real_of_integer i)"
  then have e: "r_exponent (real_of_integer i) = 2047" "r_mantissa (real_of_integer i) = 0"
    by (simp_all add: isinf_def)
  have "\<bar>r_units (real_of_integer i)\<bar> = 2 ^ 52 * 2 ^ 2046" by (simp add: r_units_def e Let_def)
  also have "(2 :: int) ^ 52 * 2 ^ 2046 = 2 ^ 1024 * one_in_units" by (simp add: one_in_units_def)
  finally have "\<bar>sint i\<bar> * one_in_units = 2 ^ 1024 * one_in_units"
    unfolding r_units_of_integer abs_mult abs_of_pos [OF one_in_units_pos] .
  then have "\<bar>sint i\<bar> = 2 ^ 1024"
    by (rule mult_right_cancel [OF one_in_units_nonzero, THEN iffD1])
  moreover have "\<bar>sint i\<bar> \<le> 2 ^ 31" using sint_ge [of i] sint_lt [of i] by (simp add: abs_le_iff)
  ultimately show False by simp
qed

text \<open>The sum of two finite numbers is as near as a double can be, or infinite.\<close>

lemma r_add_error:
  assumes "\<not> isnan x" and "\<not> isnan y" and "\<not> isinf x" and "\<not> isinf y"
  shows "isinf (r_add x y) \<or>
    \<not> isnan (r_add x y) \<and>
    2 * \<bar>r_units x + r_units y - r_units (r_add x y)\<bar> \<le> 2 ^ round_shift (nat \<bar>r_units x + r_units y\<bar>) 1"
proof -
  define s where "s = r_units x + r_units y"
  show ?thesis
  proof (cases "s = 0")
    case True
    then show ?thesis using assms unfolding r_add_def Let_def s_def [symmetric] by simp
  next
    case False
    then have a: "r_add x y = r_round (s < 0) (nat \<bar>s\<bar>) 1"
      using assms unfolding r_add_def Let_def s_def [symmetric] by simp
    have "(if s < 0 then - int (nat \<bar>s\<bar>) else int (nat \<bar>s\<bar>)) = s" by simp
    then show ?thesis
      using r_round_error [of 1 "s < 0" "nat \<bar>s\<bar>"] unfolding a s_def [symmetric]
      by (cases "isinf (r_round (s < 0) (nat \<bar>s\<bar>) 1)") simp_all
  qed
qed

lemma r_add_integers:
  "r_units (r_add (real_of_integer i) (real_of_integer j)) = (sint i + sint j) * one_in_units"
  "\<not> isnan (r_add (real_of_integer i) (real_of_integer j))"
  "\<not> isinf (r_add (real_of_integer i) (real_of_integer j))"
proof -
  let ?x = "real_of_integer i" and ?y = "real_of_integer j"
  define a where "a = sint i + sint j"
  have s: "r_units ?x + r_units ?y = a * one_in_units" by (simp add: a_def distrib_right)
  have "\<bar>a\<bar> < 2 ^ 53"
    using sint_ge [of i] sint_lt [of i] sint_ge [of j] sint_lt [of j] by (simp add: a_def)
  then have small: "nat \<bar>a\<bar> < 2 ^ 53" by simp
  have p: "nat \<bar>a * one_in_units\<bar> = nat \<bar>a\<bar> * 2 ^ 1074"
    by (simp add: abs_mult nat_mult_distrib one_in_units_def)
  have d: "(2 :: nat) ^ 1074 dvd nat \<bar>a * one_in_units\<bar>" unfolding p by (rule dvd_triv_right)
  have "nat \<bar>a\<bar> * 2 ^ 1074 < 2 ^ 53 * 2 ^ 1074" using small by (rule mult_strict_right_mono) simp
  then have l: "nat \<bar>a * one_in_units\<bar> < 2 ^ (53 + 1074)" unfolding p power_add .
  have "(1074 :: nat) \<le> 2045" by simp
  note round = r_round_exact [OF d l this, of "a * one_in_units < 0"]
  have "r_add ?x ?y =
      (if a * one_in_units = 0 then r_signed (r_sign ?x \<and> r_sign ?y) 0
       else r_round (a * one_in_units < 0) (nat \<bar>a * one_in_units\<bar>) 1)"
    unfolding r_add_def Let_def s by simp
  then show "r_units (r_add ?x ?y) = (sint i + sint j) * one_in_units"
    "\<not> isnan (r_add ?x ?y)" "\<not> isinf (r_add ?x ?y)"
    using round unfolding a_def [symmetric] by (auto split: if_splits)
qed

lemma isqrt_bounds: "isqrt n * isqrt n \<le> n \<and> n < (isqrt n + 1) * (isqrt n + 1)"
proof (induction n rule: isqrt.induct)
  case (1 n)
  show ?case
  proof (cases "n = 0")
    case True
    then show ?thesis by (simp add: isqrt.simps)
  next
    case False
    define s where "s = isqrt (n div 4)"
    have s: "s * s \<le> n div 4" "n div 4 < (s + 1) * (s + 1)" using 1 False by (simp_all add: s_def)
    have "4 * (s * s) \<le> n" using s(1) by linarith
    moreover have "n < (s + 1) * (s + 1) * 4"
      using s(2) by (subst (asm) div_less_iff_less_mult) simp_all
    moreover have "isqrt n = (if (2 * s + 1) * (2 * s + 1) \<le> n then 2 * s + 1 else 2 * s)"
      using False by (simp add: isqrt.simps [of n] s_def Let_def)
    ultimately show ?thesis by (auto simp: algebra_simps)
  qed
qed

end
