(* ===== verification/Doubles.thy ===== *)
theory Doubles
  imports Real_Arithmetic
begin

text \<open>
  The type \<open>double\<close>: the patterns of Real_Arithmetic with the operators of C++, so that code
  that computes with doubles can be written with \<open>+\<close>, \<open>-\<close>, \<open><\<close> and \<open>\<le>\<close>. The comparisons are those
  of IEEE 754 (false for a NaN, and the zeros are equal), so \<open>x == y\<close> of C++ is \<open>x \<le> y \<and> y \<le> x\<close>;
  the equality of the logic is that of patterns. The lemmas are the two facts about rounded
  sums that code can rely on: rounding keeps the order, and sums that fit are exact.
\<close>

section \<open>The type\<close>

datatype double = Double (pattern: real_bits)

abbreviation d_units :: "double \<Rightarrow> int" where
  "d_units x \<equiv> r_units (pattern x)"

abbreviation d_nan :: "double \<Rightarrow> bool" where
  "d_nan x \<equiv> isnan (pattern x)"

definition d_finite :: "double \<Rightarrow> bool" where
  "d_finite x \<longleftrightarrow> \<not> isnan (pattern x) \<and> \<not> isinf (pattern x)"

instantiation double :: "{zero, one, plus, minus, ord}"
begin

definition zero_double :: double where
  "0 = Double r_zero"

definition one_double :: double where
  "1 = Double (real_of_integer 1)"

definition plus_double :: "double \<Rightarrow> double \<Rightarrow> double" where
  "x + y = Double (r_add (pattern x) (pattern y))"

definition minus_double :: "double \<Rightarrow> double \<Rightarrow> double" where
  "x - y = Double (r_sub (pattern x) (pattern y))"

definition less_double :: "double \<Rightarrow> double \<Rightarrow> bool" where
  "x < y \<longleftrightarrow> r_less (pattern x) (pattern y)"

definition less_eq_double :: "double \<Rightarrow> double \<Rightarrow> bool" where
  "x \<le> y \<longleftrightarrow> r_less (pattern x) (pattern y) \<or> r_equal (pattern x) (pattern y)"

instance ..

end

lemma r_zero_simps [simp]: "r_units r_zero = 0" "\<not> isnan r_zero" "\<not> isinf r_zero"
  using r_signed_zero [of False] by (simp_all add: r_zero_def r_signed_def)

lemma d_le: "x \<le> y \<longleftrightarrow> \<not> d_nan x \<and> \<not> d_nan y \<and> d_units x \<le> d_units y" for x y :: double
  by (auto simp: less_eq_double_def r_less_def r_equal_def)

lemma d_less: "x < y \<longleftrightarrow> \<not> d_nan x \<and> \<not> d_nan y \<and> d_units x < d_units y" for x y :: double
  by (simp add: less_double_def r_less_def)

lemma d_zero [simp]: "d_units 0 = 0" "\<not> d_nan 0" "d_finite 0"
  by (simp_all add: zero_double_def d_finite_def)

lemma d_one [simp]: "d_units 1 = one_in_units" "\<not> d_nan 1" "d_finite 1"
proof -
  show "d_units 1 = one_in_units" by (simp add: one_double_def)
  show "\<not> d_nan 1" "d_finite 1" by (simp_all add: one_double_def d_finite_def)
qed

section \<open>Rounding keeps the order\<close>

text \<open>What an integer number of units is rounded to, in units; infinities count as \<open>max_units\<close>.\<close>

definition max_units :: int where
  "max_units = 2 ^ 52 * 2 ^ 2046"

definition rounded :: "int \<Rightarrow> int" where
  "rounded s = r_units (r_round (s < 0) (nat \<bar>s\<bar>) 1)"

lemma r_units_infinity: "r_units (r_signed neg infinity_bits) = (if neg then - max_units else max_units)"
proof -
  let ?s = "if neg then 1 else 0 :: nat"
  have "r_signed neg infinity_bits = of_nat (?s * 2 ^ 63 + 2047 * 2 ^ 52 + 0)"
    unfolding r_signed_def infinity_bits_def by (cases neg; simp)
  note fields = r_fields [OF _ _ _ this]
  have "r_sign (r_signed neg infinity_bits) \<longleftrightarrow> ?s = 1" by (rule fields(1)) simp_all
  moreover have "r_exponent (r_signed neg infinity_bits) = 2047" by (rule fields(2)) simp_all
  moreover have "r_mantissa (r_signed neg infinity_bits) = 0" by (rule fields(3)) simp_all
  ultimately show ?thesis by (simp add: r_units_def max_units_def Let_def)
qed

definition magnitude :: "nat \<Rightarrow> int" where
  "magnitude p =
     (let k = round_shift p 1; m = round_multiple p (2 ^ k)
      in if k * 2 ^ 52 + m < infinity_bits then int m * 2 ^ k else max_units)"

lemma r_round_magnitude: "r_units (r_round neg p 1) = (if neg then - magnitude p else magnitude p)"
proof (cases "round_shift p 1 * 2 ^ 52 + round_multiple p (2 ^ round_shift p 1) < infinity_bits")
  case True
  then show ?thesis
    using r_round_units(1) [of 1 p neg] by (simp add: magnitude_def Let_def)
next
  case False
  then have "r_round neg p 1 = r_signed neg infinity_bits"
    by (simp add: r_round_def Let_def min_absorb2 not_less)
  with False show ?thesis by (simp add: r_units_infinity magnitude_def Let_def)
qed

lemma magnitude_parts:
  fixes p :: nat
  defines "k \<equiv> round_shift p 1" and "m \<equiv> round_multiple p (2 ^ round_shift p 1)"
  shows "m \<le> 2 ^ 53" and "0 < k \<Longrightarrow> 2 ^ 52 \<le> m"
    and "magnitude p = (if k * 2 ^ 52 + m < infinity_bits then int m * 2 ^ k else max_units)"
  using round_range [of 1 p] by (simp_all add: magnitude_def Let_def k_def m_def)

lemma ilog2_mono: "0 < n \<Longrightarrow> n \<le> n' \<Longrightarrow> ilog2 n \<le> ilog2 n'"
proof -
  assume "0 < n" "n \<le> n'"
  then have "2 ^ ilog2 n \<le> n" "n' < 2 ^ Suc (ilog2 n')" using ilog2_bounds by auto
  with \<open>n \<le> n'\<close> have "(2 :: nat) ^ ilog2 n < 2 ^ Suc (ilog2 n')" by linarith
  then show ?thesis by (metis less_Suc_eq_le one_less_numeral_iff power_less_imp_less_exp semiring_norm(76))
qed

lemma round_shift_mono: "p \<le> p' \<Longrightarrow> round_shift p 1 \<le> round_shift p' 1"
proof (cases "p = 0")
  case True
  have "ilog2 0 = 0" by (subst ilog2.simps) simp
  then show ?thesis using True by (simp add: round_shift_def)
next
  case False
  assume "p \<le> p'"
  with False ilog2_mono [of p p'] show ?thesis by (simp add: round_shift_def diff_le_mono)
qed

text \<open>\<open>k * 2 ^ 52 + m\<close> is the pattern of the rounded number.\<close>

lemma shifted_mono:
  fixes k m :: nat
  assumes "k < k'" and "m \<le> 2 ^ 53" and "2 ^ 52 \<le> m'"
  shows "m * 2 ^ k \<le> m' * 2 ^ k'" and "k * 2 ^ 52 + m \<le> k' * 2 ^ 52 + m'"
proof -
  have "m * 2 ^ k \<le> 2 ^ 52 * 2 ^ Suc k" using mult_right_mono [OF assms(2), of "2 ^ k"] by simp
  also have "\<dots> \<le> 2 ^ 52 * 2 ^ k'" using assms(1) by (intro mult_left_mono power_increasing) simp_all
  also have "\<dots> \<le> m' * 2 ^ k'" using assms(3) by (intro mult_right_mono) simp_all
  finally show "m * 2 ^ k \<le> m' * 2 ^ k'" .
  have "Suc k * 2 ^ 52 \<le> k' * 2 ^ 52" using assms(1) by (intro mult_right_mono) simp_all
  then show "k * 2 ^ 52 + m \<le> k' * 2 ^ 52 + m'" using assms(2,3) by simp
qed

lemma finite_magnitude:
  assumes "k * 2 ^ 52 + m < infinity_bits" and "m \<le> 2 ^ 53" and "0 < k \<Longrightarrow> 2 ^ 52 \<le> m"
  shows "int m * 2 ^ k \<le> max_units"
proof -
  have "k \<le> 2045"
  proof (rule ccontr)
    assume "\<not> k \<le> 2045"
    then have "2046 * 2 ^ 52 \<le> k * 2 ^ 52" "2 ^ 52 \<le> m" using assms(3) by auto
    then show False using assms(1) by (simp add: infinity_bits_def)
  qed
  then have "m * 2 ^ k \<le> 2 ^ 53 * 2 ^ 2045"
    using assms(2) by (intro mult_mono power_increasing) simp_all
  then have "int (m * 2 ^ k) \<le> int (2 ^ 53 * 2 ^ 2045)" by (rule zle_int [THEN iffD2])
  also have "int (2 ^ 53 * 2 ^ 2045) = max_units"
    unfolding max_units_def by (simp only: of_nat_mult of_nat_power of_nat_numeral)
      (simp only: mult.commute flip: power_add add_num_simps, simp)
  finally show ?thesis by simp
qed

lemma magnitude_mono:
  assumes "p \<le> p'"
  shows "magnitude p \<le> magnitude p'"
proof -
  define k m where k: "k = round_shift p 1" and m: "m = round_multiple p (2 ^ round_shift p 1)"
  define k' m' where k': "k' = round_shift p' 1" and m': "m' = round_multiple p' (2 ^ round_shift p' 1)"
  note p = magnitude_parts [of p, folded k m [unfolded k], folded k]
    and p' = magnitude_parts [of p', folded k' m' [unfolded k'], folded k']
  have mono: "m * 2 ^ k \<le> m' * 2 ^ k' \<and> k * 2 ^ 52 + m \<le> k' * 2 ^ 52 + m'"
  proof (cases "k = k'")
    case True
    then have "round_shift p' 1 = round_shift p 1" by (simp add: k k')
    then have "m \<le> m'" unfolding m m' by (simp only:) (rule round_multiple_mono [OF _ assms], simp)
    then show ?thesis using True by simp
  next
    case False
    then have "k < k'" using round_shift_mono [OF assms] k k' by simp
    then show ?thesis using shifted_mono [of k k' m m'] p(1) p'(2) by simp
  qed
  show ?thesis
  proof (cases "k' * 2 ^ 52 + m' < infinity_bits")
    case True
    moreover from True mono have "k * 2 ^ 52 + m < infinity_bits" by linarith
    moreover have "int (m * 2 ^ k) \<le> int (m' * 2 ^ k')" using mono by (simp only: zle_int)
    ultimately show ?thesis unfolding p(3) p'(3) by simp
  next
    case False
    then show ?thesis unfolding p(3) p'(3) using finite_magnitude [OF _ p(1,2)] by simp
  qed
qed

lemma magnitude_nonneg: "0 \<le> magnitude p"
  by (simp add: magnitude_def max_units_def Let_def)

lemma magnitude_le: "magnitude p \<le> max_units"
  using magnitude_parts [of p] finite_magnitude by auto

lemma rounded_eq: "rounded s = (if s < 0 then - magnitude (nat (- s)) else magnitude (nat s))"
  unfolding rounded_def r_round_magnitude by simp

lemma rounded_mono:
  assumes "s \<le> t"
  shows "rounded s \<le> rounded t"
  using assms magnitude_mono [of "nat (- t)" "nat (- s)"] magnitude_mono [of "nat s" "nat t"]
    magnitude_nonneg [of "nat (- s)"] magnitude_nonneg [of "nat t"]
  by (auto simp: rounded_eq)

lemma rounded_le: "\<bar>rounded s\<bar> \<le> max_units"
  using magnitude_le [of "nat s"] magnitude_le [of "nat (- s)"]
    magnitude_nonneg [of "nat s"] magnitude_nonneg [of "nat (- s)"]
  by (simp add: rounded_eq)

section \<open>Sums\<close>

lemma infinite_units: "isinf x \<Longrightarrow> \<bar>r_units x\<bar> = max_units"
  by (simp add: isinf_def r_units_def max_units_def Let_def)

text \<open>A finite double is a multiple of a power of two that 53 bits are enough for.\<close>

lemma finite_parts:
  assumes "\<not> isnan x" and "\<not> isinf x"
  obtains j where "j \<le> 2045" and "2 ^ j dvd nat \<bar>r_units x\<bar>" and "nat \<bar>r_units x\<bar> < 2 ^ (53 + j)"
proof -
  obtain s e m where "s < 2" and e: "e < 2 ^ 11" and m: "m < 2 ^ 52"
    and "unat x = s * 2 ^ 63 + e * 2 ^ 52 + m" and "r_sign x \<longleftrightarrow> s = 1"
    and x: "r_exponent x = e" "r_mantissa x = m"
    by (rule bit_fields [of x])
  have "e \<noteq> 2047" using assms x by (auto simp: isnan_def isinf_def)
  with e have e: "e - 1 \<le> 2045" by simp
  have u: "nat \<bar>r_units x\<bar> = (if e = 0 then m else (2 ^ 52 + m) * 2 ^ (e - 1))"
    by (simp add: r_units_def x Let_def nat_mult_distrib abs_mult nat_add_distrib nat_power_eq)
  have "(2 ^ 52 + m) * 2 ^ (e - 1) < 2 ^ 53 * 2 ^ (e - 1)"
    using m by (intro mult_strict_right_mono) simp_all
  then have "nat \<bar>r_units x\<bar> < 2 ^ (53 + (e - 1))"
    using m unfolding u power_add by (cases "e = 0") simp_all
  then show ?thesis using that [OF e] by (simp add: u)
qed

lemma rounded_exact:
  assumes "2 ^ j dvd s" and "\<bar>s\<bar> < 2 ^ (53 + j)" and "j \<le> 2045"
  shows "rounded s = s" and "\<not> isinf (r_round (s < 0) (nat \<bar>s\<bar>) 1)"
proof -
  have "2 ^ j dvd nat \<bar>s\<bar>"
    using assms(1) by (simp add: dvd_nat_abs_iff)
  moreover have "nat \<bar>s\<bar> < 2 ^ (53 + j)"
    using assms(2) by (simp only: nat_less_iff [OF abs_ge_zero] of_nat_power of_nat_numeral)
  moreover note assms(3)
  note r_round_exact [OF calculation this]
  from this(1,3) show "rounded s = s" "\<not> isinf (r_round (s < 0) (nat \<bar>s\<bar>) 1)"
    by (auto simp: rounded_def simp del: One_nat_def)
qed

lemma rounded_units: "d_finite x \<Longrightarrow> rounded (d_units x) = d_units x"
proof -
  assume "d_finite x"
  then obtain j where "j \<le> 2045" and "2 ^ j dvd nat \<bar>d_units x\<bar>" and "nat \<bar>d_units x\<bar> < 2 ^ (53 + j)"
    by (auto simp: d_finite_def elim: finite_parts)
  moreover from this(2) have "2 ^ j dvd d_units x"
    by (simp add: dvd_nat_abs_iff)
  moreover from calculation(3) have "\<bar>d_units x\<bar> < 2 ^ (53 + j)"
    by (simp only: nat_less_iff [OF abs_ge_zero] of_nat_power of_nat_numeral)
  ultimately show ?thesis using rounded_exact by blast
qed

lemma units_le: "\<bar>d_units x\<bar> \<le> max_units" if "\<not> d_nan x"
  using that rounded_units [of x] rounded_le [of "d_units x"] infinite_units [of "pattern x"]
  by (cases "isinf (pattern x)") (simp_all add: d_finite_def)

lemma finite_units:
  assumes "d_finite x"
  shows "\<bar>d_units x\<bar> < max_units"
proof -
  have fin: "\<not> d_nan x" "\<not> isinf (pattern x)" using assms by (simp_all add: d_finite_def)
  obtain j where j: "j \<le> 2045" and u: "nat \<bar>d_units x\<bar> < 2 ^ (53 + j)"
    by (rule finite_parts [OF fin])
  have "\<bar>d_units x\<bar> < 2 ^ (53 + j)"
    using u by (simp only: nat_less_iff [OF abs_ge_zero] of_nat_power of_nat_numeral)
  also have "(2 :: int) ^ (53 + j) \<le> 2 ^ (52 + 2046)"
    using j by (intro power_increasing) simp_all
  finally show ?thesis unfolding max_units_def power_add .
qed

lemma finite_iff: "d_finite x \<longleftrightarrow> \<not> d_nan x \<and> \<bar>d_units x\<bar> < max_units"
proof
  assume "d_finite x"
  then show "\<not> d_nan x \<and> \<bar>d_units x\<bar> < max_units" using finite_units by (simp add: d_finite_def)
next
  assume x: "\<not> d_nan x \<and> \<bar>d_units x\<bar> < max_units"
  then have "\<not> isinf (pattern x)" using infinite_units [of "pattern x"] by auto
  with x show "d_finite x" by (simp add: d_finite_def)
qed

lemma rounded_0 [simp]: "rounded 0 = 0"
  using rounded_units [of 0] by simp

lemma d_add_finite:
  assumes "d_finite x" and "d_finite y"
  shows "d_units (x + y) = rounded (d_units x + d_units y)" and "\<not> d_nan (x + y)"
    and "isinf (pattern (x + y)) \<longleftrightarrow>
      isinf (r_round (d_units x + d_units y < 0) (nat \<bar>d_units x + d_units y\<bar>) 1)"
proof -
  define s where "s = d_units x + d_units y"
  have eq: "pattern (x + y) = (if s = 0 then r_signed (r_sign (pattern x) \<and> r_sign (pattern y)) 0
      else r_round (s < 0) (nat \<bar>s\<bar>) 1)"
    using assms by (simp add: plus_double_def r_add_def d_finite_def s_def Let_def del: One_nat_def)
  have zero: "\<not> isinf (r_round (s < 0) (nat \<bar>s\<bar>) 1)" if "s = 0"
    using rounded_exact(2) [of 0 s] that by simp
  have "rounded s = 0" if "s = 0" using that by simp
  then show "d_units (x + y) = rounded (d_units x + d_units y)"
    by (cases "s = 0") (simp_all add: eq rounded_def flip: s_def del: One_nat_def)
  show "\<not> d_nan (x + y)"
    using r_round_error [of 1 "s < 0" "nat \<bar>s\<bar>"] isinf_not_nan by (auto simp: eq)
  show "isinf (pattern (x + y)) \<longleftrightarrow>
      isinf (r_round (d_units x + d_units y < 0) (nat \<bar>d_units x + d_units y\<bar>) 1)"
    using zero by (simp add: eq flip: s_def del: One_nat_def)
qed

lemma d_add_infinite: "isinf (pattern x) \<Longrightarrow> d_finite w \<Longrightarrow> x + w = x"
  by (cases x) (simp add: plus_double_def r_add_def d_finite_def isinf_not_nan)

text \<open>Sums of finite doubles that are multiples of a power of two and not too large are exact.\<close>

definition fits_in :: "nat \<Rightarrow> int \<Rightarrow> bool" where
  "fits_in j s \<longleftrightarrow> 2 ^ j dvd s \<and> \<bar>s\<bar> < 2 ^ (53 + j) \<and> j \<le> 2045"

lemma d_add_exact:
  assumes "d_finite x" and "d_finite y" and "fits_in j (d_units x + d_units y)"
  shows "d_finite (x + y)" and "d_units (x + y) = d_units x + d_units y"
  using assms d_add_finite [OF assms(1,2)] rounded_exact [of j "d_units x + d_units y"]
  by (simp_all add: fits_in_def d_finite_def)

lemma d_minus: "x - y = x + Double (r_neg (pattern y))"
  by (simp add: minus_double_def plus_double_def r_sub_def)

lemma d_minus_finite:
  assumes "d_finite x" and "d_finite y"
  shows "d_units (x - y) = rounded (d_units x - d_units y)" and "\<not> d_nan (x - y)"
  using d_add_finite [of x "Double (r_neg (pattern y))"] assms by (simp_all add: d_minus d_finite_def)

lemma d_minus_exact:
  assumes "d_finite x" and "d_finite y" and "fits_in j (d_units x - d_units y)"
  shows "d_finite (x - y)" and "d_units (x - y) = d_units x - d_units y"
  using d_add_exact [of x "Double (r_neg (pattern y))" j] assms
  by (simp_all add: d_minus d_finite_def)

section \<open>Rounded sums keep the order\<close>

lemma d_add_number:
  assumes "0 \<le> x" and "d_finite w"
  shows "\<not> d_nan (x + w)"
proof (cases "isinf (pattern x)")
  case True
  then show ?thesis using assms by (simp add: d_add_infinite isinf_not_nan)
next
  case False
  then have "d_finite x" using assms(1) by (simp add: d_le d_finite_def)
  then show ?thesis using assms(2) by (rule d_add_finite)
qed

lemma d_add_mono:
  fixes l x w :: double
  assumes "d_finite w" and "0 \<le> l" and "l \<le> x"
  shows "l + w \<le> x + w"
proof -
  have n: "\<not> d_nan l" "\<not> d_nan x" "d_units l \<le> d_units x" "0 \<le> d_units l" using assms by (simp_all add: d_le)
  have "\<not> d_nan (l + w)" "\<not> d_nan (x + w)"
    using d_add_number assms n by (auto simp: d_le)
  moreover have "d_units (l + w) \<le> d_units (x + w)"
  proof (cases "isinf (pattern x)")
    case True
    then have "d_units (x + w) = max_units"
      using n infinite_units [of "pattern x"] assms(1) by (simp add: d_add_infinite)
    then show ?thesis using units_le [of "l + w"] calculation(1) by linarith
  next
    case False
    then have x: "d_finite x" using n by (simp add: d_finite_def)
    show ?thesis
    proof (cases "isinf (pattern l)")
      case True
      then have "d_units l = max_units" using infinite_units [of "pattern l"] n by simp
      then show ?thesis using n(3) finite_units [OF x] by simp
    next
      case False
      then have "d_finite l" using n by (simp add: d_finite_def)
      then show ?thesis using x assms(1) n by (simp add: d_add_finite rounded_mono)
    qed
  qed
  ultimately show ?thesis by (simp add: d_le)
qed

lemma d_add_increasing:
  fixes x w :: double
  assumes "d_finite w" and "0 \<le> w" and "0 \<le> x"
  shows "x \<le> x + w"
proof (cases "isinf (pattern x)")
  case True
  then show ?thesis using assms by (simp add: d_add_infinite d_le)
next
  case False
  then have x: "d_finite x" using assms(3) by (simp add: d_le d_finite_def)
  have "d_units x = rounded (d_units x)" using rounded_units [OF x] by simp
  also have "\<dots> \<le> rounded (d_units x + d_units w)" using assms(2) by (intro rounded_mono) (simp add: d_le)
  finally show ?thesis using d_add_finite [OF x assms(1)] x by (simp add: d_le d_finite_def)
qed

lemma d_add_decreasing:
  fixes x w :: double
  assumes "d_finite w" and "w \<le> 0" and "0 \<le> x"
  shows "x + w \<le> x"
proof (cases "isinf (pattern x)")
  case True
  then show ?thesis using assms by (simp add: d_add_infinite d_le)
next
  case False
  then have x: "d_finite x" using assms(3) by (simp add: d_le d_finite_def)
  have "rounded (d_units x + d_units w) \<le> rounded (d_units x)" using assms(2) by (intro rounded_mono) (simp add: d_le)
  also have "\<dots> = d_units x" by (rule rounded_units [OF x])
  finally show ?thesis using d_add_finite [OF x assms(1)] x by (simp add: d_le d_finite_def)
qed

end
