(* ===== verification/Arithmetic.thy ===== *)
theory Arithmetic
  imports Real_Arithmetic "HOL-Library.Signed_Division"
begin

text \<open>
  The arithmetic operators of plans (src/src/expr/ArithmeticOperators.cc) and the conversions
  from reals to integers (src/src/expr/ConversionOperators.cc). The templates over the number
  type take the operations of the type as a record; a 32 bit operation out of range is
  undefined in C++ and gives \<open>SignedOverflow\<close>.

  An argument is what its \<open>getValue\<close> gives: a number, nothing if it is unknown, or an error.
\<close>

section \<open>Numbers\<close>

record 'n number_ops =
  n_zero :: 'n
  n_add :: "'n \<Rightarrow> 'n \<Rightarrow> 'n result"
  n_sub :: "'n \<Rightarrow> 'n \<Rightarrow> 'n result"
  n_mul :: "'n \<Rightarrow> 'n \<Rightarrow> 'n result"
  n_div :: "'n \<Rightarrow> 'n \<Rightarrow> 'n result"
  n_mod :: "'n \<Rightarrow> 'n \<Rightarrow> 'n result"
  n_neg :: "'n \<Rightarrow> 'n result"
  n_less :: "'n \<Rightarrow> 'n \<Rightarrow> bool"
  n_is_zero :: "'n \<Rightarrow> bool"

definition in_range :: "int \<Rightarrow> bool" where
  "in_range z \<longleftrightarrow> - (2 ^ 31) \<le> z \<and> z < 2 ^ 31"

definition checked :: "int \<Rightarrow> integer result" where
  "checked z = (if in_range z then Inr (word_of_int z) else Inl SignedOverflow)"

definition integer_ops :: "integer number_ops" where
  "integer_ops =
     \<lparr>n_zero = 0,
      n_add = \<lambda>x y. checked (sint x + sint y),
      n_sub = \<lambda>x y. checked (sint x - sint y),
      n_mul = \<lambda>x y. checked (sint x * sint y),
      n_div = \<lambda>x y. checked (sint x sdiv sint y),
      n_mod = \<lambda>x y. bindE (checked (sint x sdiv sint y)) (\<lambda>_. checked (sint x smod sint y)),
      n_neg = \<lambda>x. checked (- sint x),
      n_less = \<lambda>x y. sint x < sint y,
      n_is_zero = \<lambda>x. x = 0\<rparr>"

definition real_ops :: "real_bits number_ops" where
  "real_ops =
     \<lparr>n_zero = r_zero,
      n_add = \<lambda>x y. Inr (r_add x y),
      n_sub = \<lambda>x y. Inr (r_sub x y),
      n_mul = \<lambda>x y. Inr (r_mul x y),
      n_div = \<lambda>x y. Inr (r_div x y),
      n_mod = \<lambda>x y. Inr (r_fmod x y),
      n_neg = \<lambda>x. Inr (r_neg x),
      n_less = r_less,
      n_is_zero = r_is_zero\<rparr>"

section \<open>Operators\<close>

definition known :: "'a option result \<Rightarrow> ('a \<Rightarrow> 'b option result) \<Rightarrow> 'b option result" where
  "known arg f = bindE arg (\<lambda>t. case t of None \<Rightarrow> Inr None | Some x \<Rightarrow> f x)"

definition some_result :: "'a result \<Rightarrow> 'a option result" where
  "some_result r = bindE r (\<lambda>x. Inr (Some x))"

lemma known_simps [simp]:
  "known (Inl e) f = Inl e" "known (Inr None) f = Inr None" "known (Inr (Some x)) f = f x"
  by (simp_all add: known_def)

lemma some_result_simps [simp]: "some_result (Inl e) = Inl e" "some_result (Inr x) = Inr (Some x)"
  by (simp_all add: some_result_def)

text \<open>The loop over the arguments of a function with a working result.\<close>

fun arith_loop :: "('n \<Rightarrow> 'n \<Rightarrow> 'n result) \<Rightarrow> 'n \<Rightarrow> 'n option result list \<Rightarrow> 'n option result" where
  "arith_loop oper workingResult [] = Inr (Some workingResult)"
| "arith_loop oper workingResult (arg # args) =
     known arg (\<lambda>temp. bindE (oper workingResult temp) (\<lambda>workingResult. arith_loop oper workingResult args))"

definition addition1 :: "'n option result \<Rightarrow> 'n option result" where
  "addition1 arg = arg"

definition addition2 :: "('n, 'm) number_ops_scheme \<Rightarrow> 'n option result \<Rightarrow> 'n option result \<Rightarrow> 'n option result" where
  "addition2 ops arg0 arg1 = known arg0 (\<lambda>x. known arg1 (\<lambda>y. some_result (n_add ops x y)))"

definition additionN :: "('n, 'm) number_ops_scheme \<Rightarrow> 'n option result list \<Rightarrow> 'n option result" where
  "additionN ops args = arith_loop (n_add ops) (n_zero ops) args"

definition subtraction1 :: "('n, 'm) number_ops_scheme \<Rightarrow> 'n option result \<Rightarrow> 'n option result" where
  "subtraction1 ops arg = known arg (\<lambda>x. some_result (n_neg ops x))"

definition subtraction2 :: "('n, 'm) number_ops_scheme \<Rightarrow> 'n option result \<Rightarrow> 'n option result \<Rightarrow> 'n option result" where
  "subtraction2 ops arg0 arg1 = known arg0 (\<lambda>x. known arg1 (\<lambda>y. some_result (n_sub ops x y)))"

definition subtractionN :: "('n, 'm) number_ops_scheme \<Rightarrow> 'n option result list \<Rightarrow> 'n option result" where
  "subtractionN ops args =
     (case args of
        [] \<Rightarrow> Inl PlanError
      | arg # args \<Rightarrow>
          known arg (\<lambda>temp.
            if args = [] then some_result (n_neg ops temp)
            else arith_loop (n_sub ops) temp args))"

text \<open>The first argument of none is read past the end of the arguments.\<close>

definition multiplication1 :: "'n option result \<Rightarrow> 'n option result" where
  "multiplication1 arg = arg"

definition multiplication2 :: "('n, 'm) number_ops_scheme \<Rightarrow> 'n option result \<Rightarrow> 'n option result \<Rightarrow> 'n option result" where
  "multiplication2 ops arg0 arg1 = known arg0 (\<lambda>x. known arg1 (\<lambda>y. some_result (n_mul ops x y)))"

definition multiplicationN :: "('n, 'm) number_ops_scheme \<Rightarrow> 'n option result list \<Rightarrow> 'n option result" where
  "multiplicationN ops args =
     (case args of
        [] \<Rightarrow> Inl BufferOverrun
      | arg # args \<Rightarrow> known arg (\<lambda>workingResult. arith_loop (n_mul ops) workingResult args))"

definition division2 :: "('n, 'm) number_ops_scheme \<Rightarrow> 'n option result \<Rightarrow> 'n option result \<Rightarrow> 'n option result" where
  "division2 ops arg0 arg1 =
     known arg0 (\<lambda>x. known arg1 (\<lambda>y.
       if n_is_zero ops y then Inr None else some_result (n_div ops x y)))"

definition modulo2 :: "('n, 'm) number_ops_scheme \<Rightarrow> 'n option result \<Rightarrow> 'n option result \<Rightarrow> 'n option result" where
  "modulo2 ops arg0 arg1 =
     known arg0 (\<lambda>x. known arg1 (\<lambda>y.
       if n_is_zero ops y then Inr None else some_result (n_mod ops x y)))"

definition minimum1 :: "'n option result \<Rightarrow> 'n option result" where
  "minimum1 arg = arg"

definition minimum2 :: "('n, 'm) number_ops_scheme \<Rightarrow> 'n option result \<Rightarrow> 'n option result \<Rightarrow> 'n option result" where
  "minimum2 ops arg0 arg1 =
     known arg0 (\<lambda>x. known arg1 (\<lambda>y. Inr (Some (if n_less ops x y then x else y))))"

definition minimumN :: "('n, 'm) number_ops_scheme \<Rightarrow> 'n option result list \<Rightarrow> 'n option result" where
  "minimumN ops args =
     (case args of
        [] \<Rightarrow> Inl BufferOverrun
      | arg # args \<Rightarrow>
          known arg (\<lambda>workingResult.
            arith_loop (\<lambda>w temp. Inr (if n_less ops temp w then temp else w)) workingResult args))"

definition maximum1 :: "'n option result \<Rightarrow> 'n option result" where
  "maximum1 arg = arg"

definition maximum2 :: "('n, 'm) number_ops_scheme \<Rightarrow> 'n option result \<Rightarrow> 'n option result \<Rightarrow> 'n option result" where
  "maximum2 ops arg0 arg1 =
     known arg0 (\<lambda>x. known arg1 (\<lambda>y. Inr (Some (if n_less ops y x then x else y))))"

definition maximumN :: "('n, 'm) number_ops_scheme \<Rightarrow> 'n option result list \<Rightarrow> 'n option result" where
  "maximumN ops args =
     (case args of
        [] \<Rightarrow> Inl BufferOverrun
      | arg # args \<Rightarrow>
          known arg (\<lambda>workingResult.
            arith_loop (\<lambda>w temp. Inr (if n_less ops w temp then temp else w)) workingResult args))"

definition absoluteValue :: "('n, 'm) number_ops_scheme \<Rightarrow> 'n option result \<Rightarrow> 'n option result" where
  "absoluteValue ops arg =
     known arg (\<lambda>temp. some_result (if n_less ops temp (n_zero ops) then n_neg ops temp else Inr temp))"

definition squareRoot :: "real_bits option result \<Rightarrow> real_bits option result" where
  "squareRoot arg =
     known arg (\<lambda>temp. if r_less temp r_zero then Inr None else Inr (Some (r_sqrt temp)))"

text \<open>The result of an integer operator asked for as a real.\<close>

definition as_real :: "integer option result \<Rightarrow> real_bits option result" where
  "as_real r = known r (\<lambda>temp. Inr (Some (real_of_integer temp)))"

section \<open>Conversions\<close>

text \<open>
  The cast of a real to an integer drops the fraction; of a real that is no number, or out
  of range, it is undefined.
\<close>

definition integer_of_real :: "real_bits \<Rightarrow> integer result" where
  "integer_of_real r =
     (if isnan r \<or> isinf r then Inl SignedOverflow else checked (r_units r sdiv one_in_units))"

definition RealToInt :: "real_bits \<Rightarrow> integer option result" where
  "RealToInt reel =
     (if r_less reel (real_of_integer (- (2 ^ 31))) \<or> r_less (real_of_integer (2 ^ 31 - 1)) reel then Inr None
      else bindE (integer_of_real reel) (\<lambda>tempResult.
           let fraction = r_sub reel (real_of_integer tempResult)
           in if \<not> r_equal fraction r_zero then Inr None else Inr (Some tempResult)))"

text \<open>\<open>ceil\<close>, \<open>floor\<close>, \<open>round\<close> and \<open>trunc\<close>: a multiple of 1 with the sign of the argument.\<close>

definition to_integral :: "(int \<Rightarrow> int) \<Rightarrow> real_bits \<Rightarrow> real_bits" where
  "to_integral f r =
     (if isnan r \<or> isinf r then r
      else r_round (r_sign r) (nat \<bar>f (r_units r) * one_in_units\<bar>) 1)"

definition units_floor :: "int \<Rightarrow> int" where
  "units_floor u = u div one_in_units"

definition units_ceil :: "int \<Rightarrow> int" where
  "units_ceil u = - (- u div one_in_units)"

definition units_round :: "int \<Rightarrow> int" where
  "units_round u = sgn u * ((2 * \<bar>u\<bar> + one_in_units) div (2 * one_in_units))"

definition units_trunc :: "int \<Rightarrow> int" where
  "units_trunc u = u sdiv one_in_units"

text \<open>
  The conversion operators first ask whether the argument is known, and do not look at what
  \<open>getValue\<close> returns. \<open>arg\<close> is the argument as a real.
\<close>

definition conversion_real :: "(int \<Rightarrow> int) \<Rightarrow> bool \<Rightarrow> real_bits option result \<Rightarrow> real_bits option result" where
  "conversion_real f is_known arg =
     (if \<not> is_known then Inr None
      else bindE arg (\<lambda>temp. case temp of
             None \<Rightarrow> Inl UninitializedRead
           | Some temp \<Rightarrow> Inr (Some (to_integral f temp))))"

definition conversion_integer :: "(int \<Rightarrow> int) \<Rightarrow> bool \<Rightarrow> real_bits option result \<Rightarrow> integer option result" where
  "conversion_integer f is_known arg = known (conversion_real f is_known arg) RealToInt"

definition realToInteger :: "real_bits option result \<Rightarrow> integer option result" where
  "realToInteger arg = known arg RealToInt"

section \<open>Integers\<close>

lemma sint_in_range [simp]: "in_range (sint i)" for i :: integer
  using sint_ge [of i] sint_lt [of i] by (simp add: in_range_def)

lemma sint_inj: "sint i = sint j \<Longrightarrow> i = j" for i j :: integer
  by (rule signed_word_eqI)

lemma checked_eq [simp]: "checked z = Inr i \<longleftrightarrow> sint i = z" for i :: integer
proof
  assume "checked z = Inr i"
  then have "in_range z" and "i = word_of_int z" by (auto simp: checked_def split: if_splits)
  then show "sint i = z" by (simp add: in_range_def signed_of_int signed_take_bit_int_eq_self)
next
  assume "sint i = z"
  then show "checked z = Inr i" using sint_in_range [of i] by (auto simp: checked_def)
qed

lemma checked_range: "(\<exists>i. checked z = Inr i) \<longleftrightarrow> in_range z"
  by (auto simp: checked_def)

lemma checked_error: "checked z = Inl e \<longleftrightarrow> \<not> in_range z \<and> e = SignedOverflow"
  by (auto simp: checked_def)


section \<open>Exact conversions\<close>

lemma isinf_units:
  assumes "isinf x"
  shows "r_units x = (if r_sign x then - (2 ^ 1024 * one_in_units) else 2 ^ 1024 * one_in_units)"
proof -
  have e: "r_exponent x = 2047" "r_mantissa x = 0" using assms by (simp_all add: isinf_def)
  have "(2 :: int) ^ 52 * 2 ^ 2046 = 2 ^ 1024 * one_in_units" by (simp add: one_in_units_def)
  then show ?thesis by (simp add: r_units_def e Let_def)
qed

lemma r_round_nonzero:
  assumes "0 < p"
  shows "r_units (r_round neg p 1) \<noteq> 0"
proof (cases "isinf (r_round neg p 1)")
  case True
  then show ?thesis by (simp add: isinf_units)
next
  case False
  define k where "k = round_shift p 1"
  define m where "m = round_multiple p (1 * 2 ^ k)"
  have fin: "k * 2 ^ 52 + m < infinity_bits"
    using r_round_overflow(1) [of p 1 neg] False by (auto simp: k_def m_def not_le [symmetric])
  have "m \<noteq> 0"
  proof (cases "0 < k")
    case True
    then show ?thesis using round_range(2) [of 1 p] by (simp add: m_def k_def)
  next
    case False
    then show ?thesis using assms by (simp add: m_def round_multiple_exact)
  qed
  then show ?thesis
    using r_round_units(1) [of 1 p neg, folded k_def, folded m_def] fin by (cases neg) simp_all
qed

lemma r_sub_zero:
  assumes "\<not> isnan x" and "\<not> isinf x" and "\<not> isnan y" and "\<not> isinf y"
  shows "r_equal (r_sub x y) r_zero \<longleftrightarrow> r_units x = r_units y"
proof -
  have z: "\<not> isnan r_zero" "r_units r_zero = 0"
    using r_units_of_integer [of 0] isnan_of_integer [of 0] by (simp_all add: r_zero_def real_of_integer_def)
  define s where "s = r_units x - r_units y"
  have sub: "r_sub x y = (if s = 0 then r_signed (r_sign x \<and> r_sign (r_neg y)) 0 else r_round (s < 0) (nat \<bar>s\<bar>) 1)"
    using assms by (simp add: r_sub_def r_add_def Let_def s_def)
  show ?thesis
  proof (cases "s = 0")
    case True
    then show ?thesis unfolding sub by (simp add: r_equal_def z s_def)
  next
    case False
    then have "r_units (r_round (s < 0) (nat \<bar>s\<bar>) 1) \<noteq> 0" by (intro r_round_nonzero) simp
    then show ?thesis using False unfolding sub by (simp add: r_equal_def z s_def)
  qed
qed

lemma abs_one_in_units [simp]: "\<bar>one_in_units\<bar> = one_in_units" "sgn one_in_units = 1"
  using one_in_units_pos by (simp_all only: abs_of_pos sgn_pos)

lemma trunc_exact: "a * one_in_units sdiv one_in_units = a"
  by (simp add: signed_divide_int_def abs_mult sgn_mult sgn_mult_abs)

lemma trunc_bounds:
  assumes "u \<le> a * one_in_units" and "- b * one_in_units \<le> u" and "0 \<le> a" and "0 \<le> b"
  shows "u sdiv one_in_units \<le> a" and "- b \<le> u sdiv one_in_units"
proof -
  have up: "v div one_in_units \<le> c" if "v \<le> c * one_in_units" for v c
    using zdiv_mono1 [OF that one_in_units_pos] by simp
  have pos: "0 \<le> \<bar>u\<bar> div one_in_units" by (simp add: pos_imp_zdiv_nonneg_iff)
  have "u sdiv one_in_units = sgn u * (\<bar>u\<bar> div one_in_units)" by (simp add: signed_divide_int_def)
  then show "u sdiv one_in_units \<le> a" and "- b \<le> u sdiv one_in_units"
    using up [of "\<bar>u\<bar>" "if 0 \<le> u then a else b"] assms pos by (auto simp: sgn_if split: if_splits)
qed

lemma RealToInt_eq:
  "RealToInt r =
     (if isnan r then Inl SignedOverflow
      else if \<exists>i :: integer. r_units r = sint i * one_in_units
        then Inr (Some (word_of_int (r_units r div one_in_units)))
      else Inr None)"
proof (cases "isnan r")
  case True
  then show ?thesis by (simp add: RealToInt_def r_less_def integer_of_real_def)
next
  case False
  define u where "u = r_units r"
  have bounds: "r_less r (real_of_integer (- (2 ^ 31))) \<longleftrightarrow> u < - (2 ^ 31) * one_in_units"
    "r_less (real_of_integer (2 ^ 31 - 1)) r \<longleftrightarrow> (2 ^ 31 - 1) * one_in_units < u"
    using False by (simp_all add: r_less_def u_def)
  show ?thesis
  proof (cases "u < - (2 ^ 31) * one_in_units \<or> (2 ^ 31 - 1) * one_in_units < u")
    case True
    have "u \<noteq> sint i * one_in_units" for i :: integer
    proof
      assume "u = sint i * one_in_units"
      then have "sint i < - (2 ^ 31) \<or> 2 ^ 31 - 1 < sint i"
        using True by (simp only: mult_less_cancel_right_pos [OF one_in_units_pos])
      then show False using sint_in_range [of i] by (auto simp: in_range_def)
    qed
    then show ?thesis using True False unfolding RealToInt_def bounds u_def [symmetric] by simp
  next
    case in_bounds: False
    have inf: "\<not> isinf r"
    proof
      assume "isinf r"
      then have "\<bar>u\<bar> = 2 ^ 1024 * one_in_units" unfolding u_def by (auto simp: isinf_units abs_mult)
      moreover have "\<bar>u\<bar> \<le> 2 ^ 31 * one_in_units" using in_bounds one_in_units_pos by (simp add: abs_le_iff)
      ultimately have "(2 :: int) ^ 1024 \<le> 2 ^ 31" by simp
      then show False by simp
    qed
    define q where "q = u sdiv one_in_units"
    have "in_range q"
      using in_bounds trunc_bounds [of u "2 ^ 31 - 1" "2 ^ 31"] by (simp add: q_def in_range_def)
    then obtain t where "checked q = Inr t" using checked_range by blast
    then have t: "integer_of_real r = Inr t" "sint t = q"
      using False inf by (simp_all add: integer_of_real_def q_def u_def)
    have "RealToInt r = (if u = sint t * one_in_units then Inr (Some t) else Inr None)"
      using in_bounds False inf t(1) r_sub_zero [OF False inf, of "real_of_integer t"]
      unfolding RealToInt_def bounds u_def [symmetric] by simp
    moreover have "sint i = q" if "u = sint i * one_in_units" for i :: integer
      using that by (simp add: q_def trunc_exact)
    ultimately show ?thesis
      using False t(2) trunc_exact unfolding u_def [symmetric]
      by (auto simp: signed_word_eqI)
  qed
qed


section \<open>Properties\<close>

lemma foldl_min_max:
  "foldl (\<lambda>a x. min a (f x)) a xs = Min (insert a (f ` set xs))"
  "foldl (\<lambda>a x. max a (f x)) a xs = Max (insert a (f ` set xs))" for a :: int
proof (atomize (full), induction xs rule: rev_induct)
  case (snoc x xs)
  have "insert a (f ` set (xs @ [x])) = insert (f x) (insert a (f ` set xs))" by auto
  then show ?case using snoc by (simp only: foldl_append foldl.simps Min_insert Max_insert finite_insert
    finite_imageI finite_set insert_not_empty not_False_eq_True min.commute max.commute simp_thms)
qed simp

text \<open>Arguments that are all known.\<close>

definition all_known :: "'a list \<Rightarrow> 'a option result list" where
  "all_known xs = map (\<lambda>x. Inr (Some x)) xs"

lemma all_known_simps [simp]: "all_known [] = []" "all_known (x # xs) = Inr (Some x) # all_known xs"
  by (simp_all add: all_known_def)

text \<open>The results on the way to the result of a loop, and the result if they all fit.\<close>

fun partial_results :: "(int \<Rightarrow> int \<Rightarrow> int) \<Rightarrow> int \<Rightarrow> int list \<Rightarrow> int list" where
  "partial_results f w [] = []"
| "partial_results f w (z # zs) = f w z # partial_results f (f w z) zs"

definition exact_or_overflow :: "int \<Rightarrow> int list \<Rightarrow> integer option result" where
  "exact_or_overflow z steps = (if list_all in_range steps then Inr (Some (word_of_int z)) else Inl SignedOverflow)"

lemma integer_loop:
  "arith_loop (\<lambda>x y. checked (f (sint x) (sint y))) w (all_known xs) =
     exact_or_overflow (foldl f (sint w) (map sint xs)) (partial_results f (sint w) (map sint xs))"
proof (induction xs arbitrary: w)
  case Nil
  then show ?case by (simp add: exact_or_overflow_def)
next
  case (Cons x xs)
  show ?case
  proof (cases "in_range (f (sint w) (sint x))")
    case True
    then obtain w' where w': "checked (f (sint w) (sint x)) = Inr w'" using checked_range by blast
    then have "sint w' = f (sint w) (sint x)" by simp
    then show ?thesis using Cons.IH [of w'] True by (simp add: exact_or_overflow_def w' del: checked_eq)
  next
    case False
    then show ?thesis by (simp add: checked_def exact_or_overflow_def)
  qed
qed

lemma integer_foldl:
  "foldl (+) w zs = w + sum_list zs" "foldl (-) w zs = w - sum_list zs" "foldl (*) w zs = w * prod_list zs" for w :: int
  by (induction zs arbitrary: w) (simp_all add: algebra_simps)

lemma integer_extremes:
  "\<exists>m. arith_loop (\<lambda>w temp. Inr (if n_less integer_ops temp w then temp else w)) w (all_known xs) = Inr (Some m)
    \<and> sint m = foldl (\<lambda>a x. min a (sint x)) (sint w) xs"
  "\<exists>m. arith_loop (\<lambda>w temp. Inr (if n_less integer_ops w temp then temp else w)) w (all_known xs) = Inr (Some m)
    \<and> sint m = foldl (\<lambda>a x. max a (sint x)) (sint w) xs"
proof (induction xs arbitrary: w)
  case (Cons x xs)
  case 1
  show ?case
    using Cons(1) [of x] Cons(1) [of w]
    by (cases "sint x < sint w") (simp_all add: integer_ops_def min_absorb1 min_absorb2)
  case 2
  show ?case
    using Cons(2) [of x] Cons(2) [of w]
    by (cases "sint w < sint x") (simp_all add: integer_ops_def max_absorb1 max_absorb2)
qed simp_all

lemma sdiv_overflow:
  fixes x y :: integer
  assumes "y \<noteq> 0"
  shows "in_range (sint x sdiv sint y) \<longleftrightarrow> \<not> (sint x = - (2 ^ 31) \<and> y = - 1)"
proof (cases "\<bar>sint y\<bar> = 1")
  case True
  then have "sint y = 1 \<or> sint y = sint (- 1 :: integer)" by auto
  then have "sint y = 1 \<or> y = - 1" using sint_inj by blast
  then show ?thesis
    using sint_in_range [of x] by (auto simp: signed_divide_int_def in_range_def sgn_if)
next
  case False
  have "sint y \<noteq> 0" using assms sint_inj [of y 0] by auto
  then have y: "2 \<le> \<bar>sint y\<bar>" using False by linarith
  have x: "\<bar>sint x\<bar> \<le> 2 ^ 31" using sint_in_range [of x] by (auto simp: in_range_def)
  have "\<bar>sint x\<bar> div \<bar>sint y\<bar> \<le> \<bar>sint x\<bar> div 2" using y by (intro zdiv_mono2) simp_all
  then have "\<bar>sint x\<bar> div \<bar>sint y\<bar> < 2 ^ 31" "0 \<le> \<bar>sint x\<bar> div \<bar>sint y\<bar>" using x y by (simp_all add: pos_imp_zdiv_nonneg_iff)
  then have "in_range (sint x sdiv sint y)"
    by (auto simp: signed_divide_int_def in_range_def sgn_if)
  moreover have "y \<noteq> - 1" using False by auto
  ultimately show ?thesis by simp
qed

lemma division_exact:
  fixes x y :: integer
  assumes "y \<noteq> 0"
  shows "if sint x = - (2 ^ 31) \<and> y = - 1
    then division2 integer_ops (Inr (Some x)) (Inr (Some y)) = Inl SignedOverflow
      \<and> modulo2 integer_ops (Inr (Some x)) (Inr (Some y)) = Inl SignedOverflow
    else \<exists>q r. division2 integer_ops (Inr (Some x)) (Inr (Some y)) = Inr (Some q)
      \<and> modulo2 integer_ops (Inr (Some x)) (Inr (Some y)) = Inr (Some r)
      \<and> sint x = sint q * sint y + sint r \<and> \<bar>sint r\<bar> < \<bar>sint y\<bar> \<and> (sint r = 0 \<or> sgn (sint r) = sgn (sint x))"
proof (cases "sint x = - (2 ^ 31) \<and> y = - 1")
  case True
  then have "\<not> in_range (sint x sdiv sint y)" using sdiv_overflow [OF assms, of x] by simp
  then show ?thesis
    using True assms by (simp add: division2_def modulo2_def integer_ops_def checked_def)
next
  case False
  have y: "sint y \<noteq> 0" using assms sint_inj [of y 0] by auto
  have "in_range (sint x sdiv sint y)" using sdiv_overflow [OF assms, of x] False by blast
  then obtain q where q: "checked (sint x sdiv sint y) = Inr q" using checked_range by blast
  have small: "\<bar>sint x smod sint y\<bar> < \<bar>sint y\<bar>"
    using smod_int_range [where a = "sint x" and b = "sint y"] y by auto
  then have "in_range (sint x smod sint y)" using sint_in_range [of y] by (auto simp: in_range_def)
  then obtain r where r: "checked (sint x smod sint y) = Inr r" using checked_range by blast
  have "division2 integer_ops (Inr (Some x)) (Inr (Some y)) = Inr (Some q)"
    "modulo2 integer_ops (Inr (Some x)) (Inr (Some y)) = Inr (Some r)"
    using assms by (simp_all add: division2_def modulo2_def integer_ops_def q r del: checked_eq)
  moreover have "sint x = sint q * sint y + sint r"
    using q r by (simp add: sdiv_mult_smod_eq)
  moreover have "sint r = 0 \<or> sgn (sint r) = sgn (sint x)"
  proof -
    have "0 \<le> \<bar>sint x\<bar> mod \<bar>sint y\<bar>" using y by simp
    moreover have "sint r = sint x smod sint y" using r by simp
    ultimately show ?thesis by (auto simp: smod_int_alt_def sgn_mult sgn_if)
  qed
  ultimately show ?thesis using False small r by auto
qed

lemma integer_unary_binary:
  "division2 integer_ops (Inr (Some x)) (Inr (Some 0)) = Inr None"
  "modulo2 integer_ops (Inr (Some x)) (Inr (Some 0)) = Inr None"
  "\<forall>f \<in> {addition1, multiplication1, minimum1, maximum1}. f (Inr (Some x)) = Inr (Some x)"
  "subtraction1 integer_ops (Inr (Some x)) = exact_or_overflow (- sint x) [- sint x]"
  "addition2 integer_ops (Inr (Some x)) (Inr (Some y)) = exact_or_overflow (sint x + sint y) [sint x + sint y]"
  "subtraction2 integer_ops (Inr (Some x)) (Inr (Some y)) = exact_or_overflow (sint x - sint y) [sint x - sint y]"
  "multiplication2 integer_ops (Inr (Some x)) (Inr (Some y)) = exact_or_overflow (sint x * sint y) [sint x * sint y]"
  "\<exists>m. minimum2 integer_ops (Inr (Some x)) (Inr (Some y)) = Inr (Some m) \<and> sint m = min (sint x) (sint y)"
  "\<exists>m. maximum2 integer_ops (Inr (Some x)) (Inr (Some y)) = Inr (Some m) \<and> sint m = max (sint x) (sint y)"
  "absoluteValue integer_ops (Inr (Some x)) = exact_or_overflow \<bar>sint x\<bar> [\<bar>sint x\<bar>]"
  by (simp_all add: integer_ops_def division2_def modulo2_def addition1_def multiplication1_def minimum1_def
      maximum1_def subtraction1_def addition2_def subtraction2_def multiplication2_def minimum2_def maximum2_def
      absoluteValue_def exact_or_overflow_def checked_def)

text \<open>
  Property C37. Where every argument of an integer operator is known, the result is the sum,
  the difference of the first and the others, the product, the least or the greatest of the
  numbers that the arguments stand for, whether the operator has one, two or any number of
  them. It is never wrapped around: an intermediate result that does not fit 32 bits is an
  overflow, and only that. Quotient and remainder are those of the division rounded to zero;
  the division of the least integer by -1 is the only one that overflows, and by 0 they are
  unknown.
\<close>

theorem integer_operators_exact:
  "additionN integer_ops (all_known xs) = exact_or_overflow (sum_list (map sint xs)) (partial_results (+) 0 (map sint xs))
    \<and> subtractionN integer_ops (all_known [x]) = exact_or_overflow (- sint x) [- sint x]
    \<and> subtractionN integer_ops (all_known (x # y # ys)) = exact_or_overflow (sint x - sint y - sum_list (map sint ys))
         (partial_results (-) (sint x) (map sint (y # ys)))
    \<and> multiplicationN integer_ops (all_known (x # xs)) =
         exact_or_overflow (sint x * prod_list (map sint xs)) (partial_results (*) (sint x) (map sint xs))
    \<and> (\<exists>m. minimumN integer_ops (all_known (x # xs)) = Inr (Some m) \<and> sint m = Min (sint ` set (x # xs)))
    \<and> (\<exists>m. maximumN integer_ops (all_known (x # xs)) = Inr (Some m) \<and> sint m = Max (sint ` set (x # xs)))
    \<and> (y \<noteq> 0 \<longrightarrow> (if sint x = - (2 ^ 31) \<and> y = - 1
         then division2 integer_ops (Inr (Some x)) (Inr (Some y)) = Inl SignedOverflow
           \<and> modulo2 integer_ops (Inr (Some x)) (Inr (Some y)) = Inl SignedOverflow
         else \<exists>q r. division2 integer_ops (Inr (Some x)) (Inr (Some y)) = Inr (Some q)
           \<and> modulo2 integer_ops (Inr (Some x)) (Inr (Some y)) = Inr (Some r)
           \<and> sint x = sint q * sint y + sint r \<and> \<bar>sint r\<bar> < \<bar>sint y\<bar> \<and> (sint r = 0 \<or> sgn (sint r) = sgn (sint x))))
    \<and> (division2 integer_ops (Inr (Some x)) (Inr (Some 0)) = Inr None
         \<and> modulo2 integer_ops (Inr (Some x)) (Inr (Some 0)) = Inr None)
    \<and> (\<forall>f \<in> {addition1, multiplication1, minimum1, maximum1}. f (Inr (Some x)) = Inr (Some x))
    \<and> subtraction1 integer_ops (Inr (Some x)) = exact_or_overflow (- sint x) [- sint x]
    \<and> addition2 integer_ops (Inr (Some x)) (Inr (Some y)) = exact_or_overflow (sint x + sint y) [sint x + sint y]
    \<and> subtraction2 integer_ops (Inr (Some x)) (Inr (Some y)) = exact_or_overflow (sint x - sint y) [sint x - sint y]
    \<and> multiplication2 integer_ops (Inr (Some x)) (Inr (Some y)) = exact_or_overflow (sint x * sint y) [sint x * sint y]
    \<and> (\<exists>m. minimum2 integer_ops (Inr (Some x)) (Inr (Some y)) = Inr (Some m) \<and> sint m = min (sint x) (sint y))
    \<and> (\<exists>m. maximum2 integer_ops (Inr (Some x)) (Inr (Some y)) = Inr (Some m) \<and> sint m = max (sint x) (sint y))
    \<and> absoluteValue integer_ops (Inr (Some x)) = exact_or_overflow \<bar>sint x\<bar> [\<bar>sint x\<bar>]"
proof (intro conjI impI)
  show "additionN integer_ops (all_known xs) = exact_or_overflow (sum_list (map sint xs)) (partial_results (+) 0 (map sint xs))"
    using integer_loop [of "(+)" 0 xs] by (simp add: additionN_def integer_ops_def integer_foldl)
  show "subtractionN integer_ops (all_known [x]) = exact_or_overflow (- sint x) [- sint x]"
    by (simp add: subtractionN_def integer_ops_def checked_def exact_or_overflow_def)
  show "subtractionN integer_ops (all_known (x # y # ys)) = exact_or_overflow (sint x - sint y - sum_list (map sint ys))
         (partial_results (-) (sint x) (map sint (y # ys)))"
    using integer_loop [of "(-)" x "y # ys"] by (simp add: subtractionN_def integer_ops_def integer_foldl)
  show "multiplicationN integer_ops (all_known (x # xs)) =
         exact_or_overflow (sint x * prod_list (map sint xs)) (partial_results (*) (sint x) (map sint xs))"
    using integer_loop [of "(*)" x xs] by (simp add: multiplicationN_def integer_ops_def integer_foldl)
  show "\<exists>m. minimumN integer_ops (all_known (x # xs)) = Inr (Some m) \<and> sint m = Min (sint ` set (x # xs))"
    using integer_extremes(1) [of x xs] by (simp add: minimumN_def foldl_min_max)
  show "\<exists>m. maximumN integer_ops (all_known (x # xs)) = Inr (Some m) \<and> sint m = Max (sint ` set (x # xs))"
    using integer_extremes(2) [of x xs] by (simp add: maximumN_def foldl_min_max)
qed (rule division_exact; assumption | rule integer_unary_binary)+

theorem integer_operators_exact_witness:
  "additionN integer_ops (all_known [7, 5, - 20]) = Inr (Some (- 8))
   \<and> additionN integer_ops (all_known [2000000000, 2000000000, - 2000000000]) = Inl SignedOverflow
   \<and> (\<exists>q r. division2 integer_ops (Inr (Some (- 7))) (Inr (Some 2)) = Inr (Some q)
        \<and> modulo2 integer_ops (Inr (Some (- 7))) (Inr (Some 2)) = Inr (Some r)
        \<and> - 7 = sint q * 2 + sint r \<and> \<bar>sint r\<bar> < 2)"
proof -
  have 1: "additionN integer_ops (all_known [7, 5, - 20]) = Inr (Some (- 8))"
    using integer_operators_exact [of "[7, 5, - 20]"] by (simp add: exact_or_overflow_def in_range_def)
  have 2: "additionN integer_ops (all_known [2000000000, 2000000000, - 2000000000]) = Inl SignedOverflow"
    using integer_operators_exact [of "[2000000000, 2000000000, - 2000000000]"]
    by (simp add: exact_or_overflow_def in_range_def)
  have "(2 :: integer) \<noteq> 0" "\<not> (sint (- 7 :: integer) = - (2 ^ 31) \<and> (2 :: integer) = - 1)" by simp_all
  then have "\<exists>q r. division2 integer_ops (Inr (Some (- 7))) (Inr (Some 2)) = Inr (Some q)
      \<and> modulo2 integer_ops (Inr (Some (- 7))) (Inr (Some 2)) = Inr (Some r)
      \<and> sint (- 7 :: integer) = sint q * sint (2 :: integer) + sint r \<and> \<bar>sint r\<bar> < \<bar>sint (2 :: integer)\<bar>"
    using integer_operators_exact [of "[]" "- 7" 2 "[]"] by (auto split: if_splits)
  then show ?thesis using 1 2 by simp
qed

text \<open>
  Property C38. A real becomes an integer exactly if it is the value of one of 32 bits, and then
  that one; other reals give an unknown value, except that converting a NaN is undefined: both
  range tests fail on it. So an integer taken for a real comes back.
\<close>

theorem real_to_integer_exact:
  "(realToInteger (Inr (Some r)) = Inr (Some i) \<longleftrightarrow> \<not> isnan r \<and> r_units r = sint i * one_in_units)
    \<and> (realToInteger (Inr (Some r)) = Inl SignedOverflow \<longleftrightarrow> isnan r)
    \<and> realToInteger (as_real (Inr (Some i))) = Inr (Some i)"
proof -
  have i: "word_of_int (sint i * one_in_units div one_in_units) = i" by simp
  then show ?thesis by (auto simp: realToInteger_def RealToInt_eq as_real_def dest: sint_inj)
qed

end
