(* ===== verification/Arbiter_Levels.thy ===== *)
theory Arbiter_Levels
  imports Resource_Arbiter Doubles
begin

text \<open>
  The resource arbiter on doubles: the levels stay within their limits although sums are
  rounded, and releasing what was allocated restores them where the sums are exact.
\<close>

section \<open>Doubles are rounded sums\<close>

interpretation doubles: rounded_sums d_finite
proof
  show "x \<le> y \<Longrightarrow> x \<le> x \<and> y \<le> y" for x y :: double by (simp add: d_le)
  show "x \<le> y \<Longrightarrow> y \<le> z \<Longrightarrow> x \<le> z" for x y z :: double by (auto simp: d_le)
  show "x \<le> x \<Longrightarrow> y \<le> y \<Longrightarrow> \<not> y < x \<Longrightarrow> x \<le> y" for x y :: double by (auto simp: d_le d_less)
  show "x < y \<Longrightarrow> x \<le> y" for x y :: double by (simp add: d_le d_less)
  show "d_finite w \<Longrightarrow> w \<le> w" for w by (simp add: d_le d_finite_def)
  show "d_finite w \<Longrightarrow> 0 \<le> x \<Longrightarrow> x + w \<le> x + w" for w x using d_add_number by (simp add: d_le)
qed (rule d_add_mono d_add_increasing d_add_decreasing; assumption)+

text \<open>Exact arithmetic is the case of an ordered ring, where every number is an amount.\<close>

interpretation exact_sums: rounded_sums "\<lambda>_ :: 'w::linordered_idom. True"
  by unfold_locales auto

section \<open>Exact sums\<close>

text \<open>
  The units of the amounts are multiples of a power of two, and all of them together still
  fit 53 bits: so it is with integers the absolute values of which add up to less than \<open>2 ^ 53\<close>,
  with multiples of 0.25, and so on.
\<close>

definition exact_amounts :: "nat \<Rightarrow> double \<Rightarrow> double list \<Rightarrow> bool" where
  "exact_amounts j x ws \<longleftrightarrow> j \<le> 2045 \<and> (\<forall>w \<in> set (x # ws). d_finite w \<and> 2 ^ j dvd d_units w) \<and>
     \<bar>d_units x\<bar> + (\<Sum>w \<leftarrow> ws. \<bar>d_units w\<bar>) < 2 ^ (53 + j)"

abbreviation total_units :: "double list \<Rightarrow> int" where
  "total_units ws \<equiv> (\<Sum>w \<leftarrow> ws. d_units w)"

lemma foldl_exact:
  "exact_amounts j x ws \<Longrightarrow>
   d_finite (foldl (+) x ws) \<and> d_units (foldl (+) x ws) = d_units x + total_units ws"
proof (induction ws arbitrary: x)
  case Nil
  then show ?case by (simp add: exact_amounts_def)
next
  case (Cons w ws)
  have s: "0 \<le> (\<Sum>w \<leftarrow> ws. \<bar>d_units w\<bar>)" by (intro sum_list_nonneg) auto
  have "fits_in j (d_units x + d_units w)"
    using Cons.prems s abs_triangle_ineq [of "d_units x" "d_units w"]
    by (auto simp: exact_amounts_def fits_in_def)
  note add = d_add_exact [OF _ _ this]
  then have xw: "d_finite (x + w)" "d_units (x + w) = d_units x + d_units w"
    using Cons.prems by (simp_all add: exact_amounts_def)
  then have "exact_amounts j (x + w) ws"
    using Cons.prems abs_triangle_ineq [of "d_units x" "d_units w"] by (auto simp: exact_amounts_def)
  from Cons.IH [OF this] xw(2) show ?case by simp
qed

lemma cleared_simps [simp]: "d_units (cleared v) = d_units v" "d_finite (cleared v) \<longleftrightarrow> d_finite v"
  if "d_finite v" for v
  using that by (auto simp: cleared_def d_le)

lemma sum_list_same: "mset xs = mset ys \<Longrightarrow> (\<Sum>x \<leftarrow> xs. f x) = (\<Sum>x \<leftarrow> ys. f x :: int)"
  by (metis mset_map sum_mset_sum_list)

lemma sum_list_dvd: "\<forall>x \<in> set xs. d dvd f x \<Longrightarrow> d dvd (\<Sum>x \<leftarrow> xs. f x :: int)"
  by (induction xs) auto

lemma asks_split:
  "(\<Sum>w \<leftarrow> asks [r \<leftarrow> rs. P r] n. f w) + (\<Sum>w \<leftarrow> asks [r \<leftarrow> rs. \<not> P r] n. f w) = (\<Sum>w \<leftarrow> asks rs n. f w :: int)"
  if "distinct (names rs)"
  using that
proof (induction rs)
  case (Cons r rs)
  have "asks [r \<leftarrow> rs. Q r] (cr_name r) = []" for Q
    using Cons.prems set_names_filter [of Q rs] by (intro asks_absent) auto
  then show ?case using Cons by (auto simp: asks_Cons)
qed (simp add: asks_def)

lemma asks_filter: "set (asks [r \<leftarrow> rs. P r] n) \<subseteq> set (asks rs n)" if "distinct (names rs)"
  using that
proof (induction rs)
  case (Cons r rs)
  have "asks [r \<leftarrow> rs. P r] (cr_name r) = []"
    using Cons.prems set_names_filter [of P rs] by (intro asks_absent) auto
  then show ?case using Cons by (auto simp: asks_Cons)
qed (simp add: asks_def)

lemma asks_cases: "asks rs n = [] \<or> (\<exists>w. asks rs n = [w])"
  by (simp add: asks_def split: option.split)

lemma given_back_cases: "given_back a n c = [] \<or> (\<exists>w. given_back a n c = [w])"
  by (cases "m_cmdResMap a c") (simp_all add: given_back_def asks_cases)

lemma fold_release_cmdResMap:
  "m_cmdResMap (fold releaseResourcesForCommand cs a) = (m_cmdResMap a) |` (- set cs)"
proof (induction cs arbitrary: a)
  case (Cons c cs)
  have "m_cmdResMap (releaseResourcesForCommand c a) = (m_cmdResMap a)(c := None)"
    by (auto simp: releaseResourcesForCommand_def fun_upd_idem split: option.split)
  then show ?case by (auto simp: Cons restrict_map_def fun_eq_iff)
qed (simp add: restrict_map_def)

text \<open>Releasing commands whose amounts are exact, in any order.\<close>

lemma fold_release_exact:
  assumes "d_finite (allocated a n)"
    and "d_units (allocated a n) = s + (\<Sum>c \<leftarrow> cs. total_units (given_back a n c))"
    and "\<forall>c \<in> set cs. \<forall>rs. m_cmdResMap a c = Some rs \<longrightarrow> distinct (names rs)" and "distinct cs"
    and "j \<le> 2045" and "2 ^ j dvd s"
    and "\<forall>c \<in> set cs. \<forall>w \<in> set (given_back a n c). d_finite w \<and> 2 ^ j dvd d_units w"
    and "\<bar>s\<bar> + (\<Sum>c \<leftarrow> cs. \<bar>total_units (given_back a n c)\<bar>) < 2 ^ (53 + j)"
  shows "d_finite (allocated (fold releaseResourcesForCommand cs a) n)
    \<and> d_units (allocated (fold releaseResourcesForCommand cs a) n) = s"
  using assms
proof (induction cs arbitrary: a)
  case Nil
  then show ?case by simp
next
  case (Cons c cs)
  let ?b = "releaseResourcesForCommand c a"
  have one: "\<forall>rs. m_cmdResMap a c = Some rs \<longrightarrow> distinct (names rs)"
    using Cons.prems(3) by simp
  note b = releaseResourcesForCommand_spec [OF one]
  have same: "given_back ?b n x = given_back a n x" if "x \<in> set cs" for x
    using that Cons.prems(4) by (auto simp: given_back_def b(2))
  define t where "t = (\<Sum>c \<leftarrow> cs. total_units (given_back a n c))"
  have "\<bar>t\<bar> \<le> (\<Sum>c \<leftarrow> cs. \<bar>total_units (given_back a n c)\<bar>)"
    unfolding t_def by (induction cs) auto
  then have small: "\<bar>s + t\<bar> < 2 ^ (53 + j)"
    using Cons.prems(8) by (simp add: abs_le_iff) linarith
  have dvd: "2 ^ j dvd total_units (given_back a n x)" if "x \<in> set (c # cs)" for x
    using Cons.prems(7) that by (intro sum_list_dvd) auto
  then have "2 ^ j dvd t" unfolding t_def by (intro sum_list_dvd) auto
  have level: "d_finite (allocated ?b n) \<and> d_units (allocated ?b n) = s + t"
  proof (cases "given_back a n c")
    case Nil
    then show ?thesis using Cons.prems(1,2) by (simp add: b(1) t_def)
  next
    case (Cons w ws)
    then have w: "given_back a n c = [w]" using given_back_cases [of a n c] by auto
    have "fits_in j (d_units (allocated a n) - d_units w)"
      using Cons.prems(2,5,6) \<open>2 ^ j dvd t\<close> small by (simp add: w fits_in_def t_def)
    from d_minus_exact [OF Cons.prems(1) _ this] Cons.prems(2,7) show ?thesis
      by (simp add: b(1) w t_def)
  qed
  have sums: "(\<Sum>x \<leftarrow> cs. f (given_back ?b n x)) = (\<Sum>x \<leftarrow> cs. f (given_back a n x) :: int)" for f
    using same by (simp cong: map_cong)
  have "d_finite (allocated (fold releaseResourcesForCommand cs ?b) n)
    \<and> d_units (allocated (fold releaseResourcesForCommand cs ?b) n) = s"
  proof (rule Cons.IH)
    show "\<forall>x \<in> set cs. \<forall>rs. m_cmdResMap ?b x = Some rs \<longrightarrow> distinct (names rs)"
      using Cons.prems(3) by (simp add: b(2))
    show "\<forall>x \<in> set cs. \<forall>w \<in> set (given_back ?b n x). d_finite w \<and> 2 ^ j dvd d_units w"
      using Cons.prems(7) same by simp
    show "\<bar>s\<bar> + (\<Sum>x \<leftarrow> cs. \<bar>total_units (given_back ?b n x)\<bar>) < 2 ^ (53 + j)"
      using Cons.prems(8) sums [of "\<lambda>ws. \<bar>total_units ws\<bar>"] by simp
    show "d_units (allocated ?b n) = s + (\<Sum>x \<leftarrow> cs. total_units (given_back ?b n x))"
      using level sums [of total_units] by (simp add: t_def)
  qed (use level Cons.prems in simp_all)
  then show ?case by simp
qed

section \<open>Properties\<close>

text \<open>
  Property C21. The levels are doubles and their sums are rounded, and yet, where they are within
  their limits and no request or weight in the hierarchy is infinite or a NaN: after
  arbitration the level of each resource is the level before with the amounts of the accepted
  commands added in the order of acceptance, and whatever part of these commands is counted,
  in that order, the level is not below 0 and not above the maximum of the resource. So
  the levels are within their limits again.
\<close>

theorem arbitration_within_limits:
  fixes a :: "double arbiter"
  assumes "in_limits a" and "amounts_ok d_finite (m_resourceHierarchy a) cmds"
    and "arbitrateCommands depth cmds a = Inr (acc, rej, a')"
    and "distinct (map fst cmds)" and "\<forall>c \<in> fst ` set cmds. m_cmdResMap a c = None"
  shows "in_limits a'
    \<and> (\<forall>n. allocated a' n = foldl (+) (allocated a n) (taken a' n acc))
    \<and> (\<forall>n cs. subseq cs acc \<longrightarrow> 0 \<le> foldl (+) (allocated a n) (taken a' n cs)
               \<and> foldl (+) (allocated a n) (taken a' n cs) \<le> maxConsumableResourceValue a n)"
  using doubles.arbitrated_levels [OF assms] by blast

text \<open>
  Property C23. Releasing the accepted commands, in any order, gives back what they were
  allocated of a resource, apart from the requests that are not released at termination, if
  the sums of its amounts are exact (multiples of a power of two that together fit 53 bits, for
  example integers); and in any case it forgets their requirements. Where sums are rounded the
  level need not come back: see \<open>release_leaves_residue\<close>.
\<close>

theorem release_restores:
  fixes a :: "double arbiter"
  assumes arb: "arbitrateCommands depth cmds a = Inr (acc, rej, a')"
    and dist: "distinct (map fst cmds)" and new: "\<forall>c \<in> fst ` set cmds. m_cmdResMap a c = None"
    and perm: "mset order = mset acc"
  shows "m_cmdResMap (fold releaseResourcesForCommand order a') = m_cmdResMap a
    \<and> (\<forall>n j. exact_amounts j (allocated a n) (taken a' n acc) \<longrightarrow>
         d_finite (allocated (fold releaseResourcesForCommand order a') n) \<and>
         d_units (allocated (fold releaseResourcesForCommand order a') n) =
           d_units (allocated a n) + (\<Sum>c \<leftarrow> acc. total_units (kept a' n c)))"
proof -
  obtain entries gacc grej where ref: "greedy a [] entries = (gacc, grej)"
    and res: "m_cmdResMap a' = fold record_resources gacc (m_cmdResMap a)"
    and dg: "distinct (map ce_command gacc)" and da: "distinct acc"
    and sub: "set (map ce_command gacc) \<subseteq> set acc" "set acc \<subseteq> fst ` set cmds"
    and none: "\<forall>c \<in> set acc - ce_command ` set gacc. m_cmdResMap a' c = None"
    and taken: "\<forall>n. taken a' n acc = asked n gacc"
    and alloc: "\<forall>n. allocated a' n = foldl (+) (allocated a n) (asked n gacc)"
    and ord: "\<forall>e \<in> set gacc. ordered (ce_resources e)"
    by (rule arbitrateCommands_levels [OF arb dist new]) (rule that; assumption)
  have order: "set order = set acc" "distinct order"
    using perm da by (metis set_mset_mset, metis mset_eq_imp_distinct_iff)
  have names: "distinct (names rs)" if c: "c \<in> set acc" and some: "m_cmdResMap a' c = Some rs" for c rs
  proof -
    have "c \<in> ce_command ` set gacc" using c some none by force
    then obtain e where "e \<in> set gacc" "rs = ce_resources e"
      using some dg by (auto simp: res fold_record_resources_mem)
    then show ?thesis using ord by (auto intro: ordered_distinct)
  qed
  have "m_cmdResMap a' c = m_cmdResMap a c" if "c \<notin> set acc" for c
    using that sub(1) by (auto simp: res intro!: fold_record_resources_other)
  moreover have "m_cmdResMap a c = None" if "c \<in> set acc" for c
    by (rule new [rule_format, OF subsetD [OF sub(2) that]])
  ultimately have "(m_cmdResMap a') |` (- set acc) = m_cmdResMap a"
    by (auto simp: restrict_map_def fun_eq_iff)
  then have forgets: "m_cmdResMap (fold releaseResourcesForCommand order a') = m_cmdResMap a"
    by (simp add: fold_release_cmdResMap order(1))
  have "d_finite (allocated (fold releaseResourcesForCommand order a') n) \<and>
         d_units (allocated (fold releaseResourcesForCommand order a') n) =
           d_units (allocated a n) + (\<Sum>c \<leftarrow> acc. total_units (kept a' n c))"
    if exact: "exact_amounts j (allocated a n) (taken a' n acc)" for n j
  proof -
    let ?x = "d_units (allocated a n)" and ?k = "\<Sum>c \<leftarrow> acc. total_units (kept a' n c)"
    have split: "(\<Sum>w \<leftarrow> taken a' n cs. f w) =
        (\<Sum>c \<leftarrow> cs. (\<Sum>w \<leftarrow> given_back a' n c. f w) + (\<Sum>w \<leftarrow> kept a' n c. f w))"
      if "set cs \<subseteq> set acc" for cs and f :: "double \<Rightarrow> int"
      using that
    proof (induction cs)
      case (Cons c cs)
      then show ?case using names asks_split [where P = cr_release and f = f]
        by (auto simp: given_back_def kept_def split: option.split)
    qed simp
    have parts: "w \<in> set (taken a' n acc)" if c: "c \<in> set acc" and w: "w \<in> set (given_back a' n c) \<union> set (kept a' n c)" for c w
    proof -
      obtain rs where rs: "m_cmdResMap a' c = Some rs"
        using w by (cases "m_cmdResMap a' c") (simp_all add: given_back_def kept_def)
      then have "w \<in> set (asks rs n)"
        using w asks_filter [OF names [OF c rs]] by (auto simp: given_back_def kept_def)
      then show ?thesis using c rs by (force simp: taken_def)
    qed
    have fin: "d_finite w \<and> 2 ^ j dvd d_units w" if "w \<in> set (taken a' n acc)" for w
      using exact that by (simp add: exact_amounts_def)
    have sums: "(\<Sum>c \<leftarrow> order. f c) = (\<Sum>c \<leftarrow> acc. f c)" for f :: "cmd \<Rightarrow> int"
      by (rule sum_list_same [OF perm])
    show ?thesis
    proof (rule fold_release_exact [where j = j])
      have "d_units (allocated a' n) = ?x + total_units (taken a' n acc)"
        and "d_finite (allocated a' n)"
        using foldl_exact [OF exact] alloc taken by simp_all
      then show "d_units (allocated a' n) = ?x + ?k + (\<Sum>c \<leftarrow> order. total_units (given_back a' n c))"
        and "d_finite (allocated a' n)"
        using split [of acc d_units] by (simp_all add: sums sum_list_addf)
      show "\<bar>?x + ?k\<bar> + (\<Sum>c \<leftarrow> order. \<bar>total_units (given_back a' n c)\<bar>) < 2 ^ (53 + j)"
      proof -
        have total: "\<bar>total_units ws\<bar> \<le> (\<Sum>w \<leftarrow> ws. \<bar>d_units w\<bar>)" for ws
          by (induction ws) auto
        have "\<bar>?k\<bar> \<le> (\<Sum>c \<leftarrow> acc. \<bar>total_units (kept a' n c)\<bar>)" by (induction acc) auto
        also have "\<dots> \<le> (\<Sum>c \<leftarrow> acc. \<Sum>w \<leftarrow> kept a' n c. \<bar>d_units w\<bar>)"
          by (intro sum_list_mono total)
        finally have "\<bar>?k\<bar> \<le> (\<Sum>c \<leftarrow> acc. \<Sum>w \<leftarrow> kept a' n c. \<bar>d_units w\<bar>)" .
        moreover have "(\<Sum>c \<leftarrow> acc. \<bar>total_units (given_back a' n c)\<bar>) \<le>
            (\<Sum>c \<leftarrow> acc. \<Sum>w \<leftarrow> given_back a' n c. \<bar>d_units w\<bar>)"
          by (intro sum_list_mono total)
        moreover have "\<bar>?x\<bar> + (\<Sum>w \<leftarrow> taken a' n acc. \<bar>d_units w\<bar>) < 2 ^ (53 + j)"
          using exact by (simp add: exact_amounts_def)
        ultimately show ?thesis
          using split [of acc "\<lambda>w. \<bar>d_units w\<bar>"] abs_triangle_ineq [of ?x ?k]
          by (simp add: sums sum_list_addf)
      qed
      show "2 ^ j dvd ?x + ?k"
        using exact parts fin by (intro dvd_add sum_list_dvd) (auto simp: exact_amounts_def intro!: sum_list_dvd)
    qed (use exact names order parts fin in \<open>auto simp: exact_amounts_def\<close>)
  qed
  with forgets show ?thesis by blast
qed

section \<open>Where sums are rounded\<close>

lemma round_multiple_scale: "0 < c \<Longrightarrow> round_multiple (n * c) (d * c) = round_multiple n d"
  by (simp add: round_multiple_def Let_def mult.assoc flip: mult_mod_left)

lemma rounded_one_bit:
  assumes "2 ^ 53 \<le> n" and "n < 2 ^ 54" and "k \<le> 2000"
  shows "rounded (int n * 2 ^ k) = int (round_multiple n 2) * 2 ^ Suc k"
    and "rounded (- (int n * 2 ^ k)) = - (int (round_multiple n 2) * 2 ^ Suc k)"
proof -
  have pos: "0 < n * 2 ^ k" using assms(1) by (cases n) auto
  have "2 ^ (53 + k) \<le> n * 2 ^ k" "n * 2 ^ k < 2 ^ (54 + k)"
    using assms(1,2) unfolding power_add by (intro mult_right_mono mult_strict_right_mono; simp)+
  with ilog2_bounds [OF pos] have "(2 :: nat) ^ ilog2 (n * 2 ^ k) < 2 ^ (54 + k)" "(2 :: nat) ^ (53 + k) < 2 ^ Suc (ilog2 (n * 2 ^ k))"
    by linarith+
  moreover have "(2 :: nat) ^ i < 2 ^ j \<Longrightarrow> i < j" for i j by simp
  ultimately have "ilog2 (n * 2 ^ k) < 54 + k" and "53 + k < Suc (ilog2 (n * 2 ^ k))" by blast+
  then have shift: "round_shift (n * 2 ^ k) 1 = Suc k" by (simp add: round_shift_def)
  have mult: "round_multiple (n * 2 ^ k) (2 ^ Suc k) = round_multiple n 2"
    using round_multiple_scale [of "2 ^ k" n 2] by simp
  have "round_multiple n 2 \<le> 2 ^ 53"
    using magnitude_parts(1) [of "n * 2 ^ k"] shift mult by simp
  then have "Suc k * 2 ^ 52 + round_multiple n 2 < infinity_bits"
    using assms(3) by (simp add: infinity_bits_def)
  then have "magnitude (n * 2 ^ k) = int (round_multiple n 2) * 2 ^ Suc k"
    using magnitude_parts(3) [of "n * 2 ^ k"] shift mult by simp
  moreover have "nat (int n * 2 ^ k) = n * 2 ^ k" by (simp add: nat_mult_distrib nat_power_eq)
  moreover have "0 < int n * 2 ^ k" using pos by (simp add: zero_less_mult_iff)
  ultimately show "rounded (int n * 2 ^ k) = int (round_multiple n 2) * 2 ^ Suc k"
    "rounded (- (int n * 2 ^ k)) = - (int (round_multiple n 2) * 2 ^ Suc k)"
    by (simp_all add: rounded_eq)
qed

text \<open>0.3 and 0.6.\<close>

definition three_tenths :: double where
  "three_tenths = Double 0x3FD3333333333333"

definition six_tenths :: double where
  "six_tenths = Double 0x3FE3333333333333"

lemma tenths_fields:
  "r_sign (pattern three_tenths) = False" "r_exponent (pattern three_tenths) = 1021"
  "r_mantissa (pattern three_tenths) = 900719925474099"
  "r_sign (pattern six_tenths) = False" "r_exponent (pattern six_tenths) = 1022"
  "r_mantissa (pattern six_tenths) = 900719925474099"
proof -
  have x: "pattern three_tenths = of_nat (0 * 2 ^ 63 + 1021 * 2 ^ 52 + 900719925474099)"
    and y: "pattern six_tenths = of_nat (0 * 2 ^ 63 + 1022 * 2 ^ 52 + 900719925474099)"
    by (simp_all add: three_tenths_def six_tenths_def)
  note fx = r_fields [OF _ _ _ x] and fy = r_fields [OF _ _ _ y]
  show "r_sign (pattern three_tenths) = False" using fx(1) by simp
  show "r_sign (pattern six_tenths) = False" using fy(1) by simp
  show "r_exponent (pattern three_tenths) = 1021" by (rule fx(2)) simp_all
  show "r_exponent (pattern six_tenths) = 1022" by (rule fy(2)) simp_all
  show "r_mantissa (pattern three_tenths) = 900719925474099" by (rule fx(3)) simp_all
  show "r_mantissa (pattern six_tenths) = 900719925474099" by (rule fy(3)) simp_all
qed

lemma tenths:
  "d_units three_tenths = 5404319552844595 * 2 ^ 1020" "d_finite three_tenths"
  "d_units six_tenths = 10808639105689190 * 2 ^ 1020" "d_finite six_tenths"
  by (simp_all add: r_units_def tenths_fields Let_def d_finite_def isnan_def isinf_def)

lemma tenths_sums:
  defines "u \<equiv> 2 ^ 1020 :: int"
  defines "l \<equiv> 0 + three_tenths + six_tenths"
  shows "d_finite (0 + three_tenths)" and "d_units (0 + three_tenths) = 5404319552844595 * u"
    and "d_finite l" and "d_units l = 16212958658533784 * u"
    and "d_finite (l - three_tenths)" and "d_units (l - three_tenths) = 10808639105689188 * u"
    and "d_finite (l - six_tenths)" and "d_units (l - six_tenths) = 5404319552844594 * u"
    and "d_finite (l - three_tenths - six_tenths)" and "d_units (l - three_tenths - six_tenths) = - 2 * u"
    and "d_finite (l - six_tenths - three_tenths)" and "d_units (l - six_tenths - three_tenths) = - u"
proof -
  note t = tenths [folded u_def]
  have small: "d_finite x" if "d_units x = z * u" "\<not> d_nan x" "\<bar>z\<bar> \<le> 2 ^ 60" for x z
  proof -
    have "\<bar>z * u\<bar> \<le> 2 ^ 60 * u" using that(3) by (simp add: abs_mult u_def)
    also have "\<dots> < max_units" by (simp add: u_def max_units_def)
    finally show ?thesis using that(1,2) by (simp add: finite_iff)
  qed
  have exact: "rounded (z * u) = z * u" if "\<bar>z\<bar> < 2 ^ 53" for z
  proof (rule rounded_exact(1) [of 1020])
    show "\<bar>z * u\<bar> < 2 ^ (53 + 1020)" using that unfolding power_add by (simp add: abs_mult u_def)
  qed (simp_all add: u_def)
  have half: "rounded (int n * u) = int (round_multiple n 2) * 2 * u" if "2 ^ 53 \<le> n" "n < 2 ^ 54" for n
    using rounded_one_bit(1) [OF that, of 1020] by (simp add: u_def)
  have zero: "d_finite 0" by simp
  note s1 = d_add_finite [OF zero t(2)]
  show 1: "d_units (0 + three_tenths) = 5404319552844595 * u"
    using s1(1) t exact [of 5404319552844595] by simp
  show f1: "d_finite (0 + three_tenths)" by (rule small [OF 1 s1(2)]) simp
  note s2 = d_add_finite [OF f1 t(4), folded l_def]
  have "rounded (16212958658533785 * u) = 16212958658533784 * u"
    using half [of 16212958658533785] by (simp add: round_multiple_def)
  then show 2: "d_units l = 16212958658533784 * u" using s2(1) t 1 by simp
  show f2: "d_finite l" by (rule small [OF 2 s2(2)]) simp
  note s3 = d_minus_finite [OF f2 t(2)]
  have "rounded (10808639105689189 * u) = 10808639105689188 * u"
    using half [of 10808639105689189] by (simp add: round_multiple_def)
  then show 3: "d_units (l - three_tenths) = 10808639105689188 * u" using s3(1) t 2 by simp
  show f3: "d_finite (l - three_tenths)" by (rule small [OF 3 s3(2)]) simp
  note s4 = d_minus_finite [OF f2 t(4)]
  show 4: "d_units (l - six_tenths) = 5404319552844594 * u"
    using s4(1) t 2 exact [of 5404319552844594] by simp
  show f4: "d_finite (l - six_tenths)" by (rule small [OF 4 s4(2)]) simp
  note s5 = d_minus_finite [OF f3 t(4)]
  show 5: "d_units (l - three_tenths - six_tenths) = - 2 * u" using s5(1) t 3 exact [of "- 2"] by simp
  show "d_finite (l - three_tenths - six_tenths)" by (rule small [OF 5 s5(2)]) simp
  note s6 = d_minus_finite [OF f4 t(2)]
  show 6: "d_units (l - six_tenths - three_tenths) = - u" using s6(1) t 4 exact [of "- 1"] by simp
  show "d_finite (l - six_tenths - three_tenths)" by (rule small [of _ "- 1"]) (use 6 s6(2) in simp_all)
qed

text \<open>
  A level below 0 is never left: no command that requires the resource is accepted any more,
  whatever amount it asks for, and even if it would add to the level (a negative request).
\<close>

lemma below_zero:
  assumes "d_finite x" and "x < 0" and less: "w < 0"
  shows "x + w < 0"
proof (cases "isinf (pattern w)")
  case True
  then have "x + w = w"
    using assms by (cases w) (simp add: plus_double_def r_add_def d_finite_def isinf_not_nan)
  then show ?thesis using less by simp
next
  case False
  then have w: "d_finite w" using less by (simp add: d_finite_def d_less)
  have "rounded (d_units x + d_units w) \<le> rounded (d_units x)"
    using less by (intro rounded_mono) (simp add: d_less)
  then show ?thesis
    using d_add_finite [OF assms(1) w] rounded_units [OF assms(1)] assms(2) by (simp add: d_less)
qed

lemma greedy_below_zero:
  fixes a :: "double arbiter"
  assumes "d_finite (allocated a n)" and "allocated a n < 0"
  shows "greedy a acc0 es = (acc, rej) \<Longrightarrow> asked n acc0 = [] \<Longrightarrow>
    \<forall>e \<in> set acc. n \<notin> set (names (ce_resources e))"
proof (induction es arbitrary: acc0 acc rej)
  case (Cons e es)
  show ?case
  proof (cases "fits a acc0 e")
    case True
    have "n \<notin> set (names (ce_resources e))"
    proof
      assume n: "n \<in> set (names (ce_resources e))"
      then obtain r where r: "lookup (ce_resources e) n = Some r"
        using lookup_None [of "ce_resources e" n] by (cases "lookup (ce_resources e) n") auto
      then have "lowest a (acc0 @ [e]) n = (if cr_weight r < 0 then allocated a n + cr_weight r else allocated a n)"
        using Cons.prems(2) by (simp add: lowest_def asks_def)
      then have "lowest a (acc0 @ [e]) n < 0" using below_zero [OF assms] assms(2) by simp
      then show False using True n by (simp add: fits_def)
    qed
    then show ?thesis
      using Cons.IH [of "acc0 @ [e]"] Cons.prems True by (auto split: prod.splits)
  next
    case False
    then show ?thesis using Cons.IH Cons.prems by (auto split: prod.splits)
  qed
qed simp

theorem below_zero_locks:
  fixes a :: "double arbiter"
  assumes level: "d_finite (allocated a n)" "allocated a n < 0"
    and arb: "arbitrateCommands depth cmds a = Inr (acc, rej, a')"
    and dist: "distinct (map fst cmds)" and new: "\<forall>c \<in> fst ` set cmds. m_cmdResMap a c = None"
    and "c \<in> set acc" and "m_cmdResMap a' c = Some rs"
  shows "n \<notin> set (names rs)"
proof -
  obtain entries gacc grej where ref: "greedy a [] entries = (gacc, grej)"
    and res: "m_cmdResMap a' = fold record_resources gacc (m_cmdResMap a)"
    and dg: "distinct (map ce_command gacc)"
    and none: "\<forall>c \<in> set acc - ce_command ` set gacc. m_cmdResMap a' c = None"
    by (rule arbitrateCommands_levels [OF arb dist new]) (rule that; assumption)
  have "c \<in> ce_command ` set gacc" using assms(6,7) none by force
  then obtain e where "e \<in> set gacc" "rs = ce_resources e"
    using assms(7) dg by (auto simp: res fold_record_resources_mem)
  then show ?thesis using greedy_below_zero [OF level ref] by simp
qed

text \<open>
  Two commands ask for 0.3 and 0.6 of a resource that is in no hierarchy. Both are accepted;
  when both have been released, in whatever order, its level is below 0 and not erased, and so no
  command can use the resource any more.
\<close>

definition tenth_request :: "double \<Rightarrow> double resource_value" where
  "tenth_request w = \<lparr>rv_name = ''mem'', rv_upperBound = w, rv_priority = 0, rv_releaseAtTermination = True\<rparr>"

definition tenth_commands :: "(cmd \<times> double resource_value list) list" where
  "tenth_commands = [(1, [tenth_request three_tenths]), (2, [tenth_request six_tenths])]"

definition empty_arbiter :: "double arbiter" where
  "empty_arbiter = \<lparr>m_resourceHierarchy = Map.empty, m_allocated = Map.empty, m_cmdResMap = Map.empty\<rparr>"

lemma tenths_in_limits:
  "\<not> three_tenths < 0" "\<not> six_tenths < 0" "\<not> 0 < (0 :: double)" "\<not> 1 < (0 :: double)"
  "\<not> 0 + three_tenths < 0" "\<not> 1 < 0 + three_tenths"
  "\<not> 0 + three_tenths + six_tenths < 0" "\<not> 1 < 0 + three_tenths + six_tenths"
  by (simp_all add: d_less tenths tenths_sums one_in_units_def)

definition tenth_child :: "double \<Rightarrow> double child_resource" where
  "tenth_child w = \<lparr>cr_name = ''mem'', cr_weight = w, cr_release = True\<rparr>"

lemmas tenth_run = arbitrateCommands_def partitionCommands_def tenth_commands_def tenth_request_def empty_arbiter_def
  determineAllChildResources_def set_find_def optimalResourceArbitration_def prepare_def prepare_one_def
  allocated_def estimate_of_def maxConsumableResourceValue_def allocate_def tenth_child_def

lemma tenths_arbitrated:
  "\<exists>a'. arbitrateCommands 1 tenth_commands empty_arbiter = Inr ([1, 2], [], a') \<and>
     allocated a' ''mem'' = 0 + three_tenths + six_tenths \<and>
     m_cmdResMap a' = [1 \<mapsto> [tenth_child three_tenths], 2 \<mapsto> [tenth_child six_tenths]]"
  by (simp add: tenth_run tenths_in_limits Let_def)

lemma tenths_setting:
  "in_limits empty_arbiter" "amounts_ok d_finite (m_resourceHierarchy empty_arbiter) tenth_commands"
  "distinct (map fst tenth_commands)" "\<forall>c \<in> fst ` set tenth_commands. m_cmdResMap empty_arbiter c = None"
proof -
  have "0 \<le> (0 :: double)" "0 \<le> (1 :: double)" by (simp_all add: d_le one_in_units_def)
  then show "in_limits empty_arbiter"
    by (simp add: in_limits_def empty_arbiter_def allocated_def maxConsumableResourceValue_def)
qed (simp_all add: empty_arbiter_def amounts_ok_def tenth_commands_def tenth_request_def tenths)

theorem arbitration_within_limits_witness:
  "0 \<le> 0 + six_tenths \<and> 0 + six_tenths \<le> 1 \<and> 0 + three_tenths + six_tenths \<le> 1"
proof -
  obtain a' where arb: "arbitrateCommands 1 tenth_commands empty_arbiter = Inr ([1, 2], [], a')"
    and res: "m_cmdResMap a' = [1 \<mapsto> [tenth_child three_tenths], 2 \<mapsto> [tenth_child six_tenths]]"
    using tenths_arbitrated by blast
  note lim = arbitration_within_limits [OF tenths_setting(1,2) arb tenths_setting(3,4)]
  have taken: "taken a' ''mem'' [1, 2] = [three_tenths, six_tenths]" "taken a' ''mem'' [2] = [six_tenths]"
    by (simp_all add: res asks_def tenth_child_def)
  have start: "allocated empty_arbiter ''mem'' = 0" "maxConsumableResourceValue empty_arbiter ''mem'' = 1"
    by (simp_all add: empty_arbiter_def allocated_def maxConsumableResourceValue_def)
  have "subseq [1, 2] [1, 2 :: cmd]" "subseq [2] [1, 2 :: cmd]" by simp_all
  with lim show ?thesis using taken start by (metis foldl_Cons foldl_Nil)
qed

theorem release_leaves_residue:
  "\<exists>a'. arbitrateCommands 1 tenth_commands empty_arbiter = Inr ([1, 2], [], a') \<and>
     (\<forall>order \<in> {[1, 2], [2, 1]}. d_finite (allocated (fold releaseResourcesForCommand order a') ''mem'') \<and>
        allocated (fold releaseResourcesForCommand order a') ''mem'' < 0)"
proof -
  let ?l = "0 + three_tenths + six_tenths"
  obtain a' where arb: "arbitrateCommands 1 tenth_commands empty_arbiter = Inr ([1, 2], [], a')"
    and level: "allocated a' ''mem'' = ?l"
    and res: "m_cmdResMap a' = [1 \<mapsto> [tenth_child three_tenths], 2 \<mapsto> [tenth_child six_tenths]]"
    using tenths_arbitrated by blast
  have kept: "cleared (?l - three_tenths) = ?l - three_tenths" "cleared (?l - six_tenths) = ?l - six_tenths"
    "cleared (?l - three_tenths - six_tenths) = ?l - three_tenths - six_tenths"
    "cleared (?l - six_tenths - three_tenths) = ?l - six_tenths - three_tenths"
    by (simp_all add: cleared_def d_le tenths_sums)
  have names: "\<forall>rs. m_cmdResMap b c = Some rs \<longrightarrow> distinct (names rs)"
    if "m_cmdResMap b \<subseteq>\<^sub>m m_cmdResMap a'" for b :: "double arbiter" and c
  proof (intro allI impI)
    fix rs assume "m_cmdResMap b c = Some rs"
    with that have "m_cmdResMap a' c = Some rs" by (auto simp: map_le_def dom_def)
    then show "distinct (names rs)" by (auto simp: res tenth_child_def split: if_splits)
  qed
  note one = releaseResourcesForCommand_spec [OF names [of a']]
  have sub: "m_cmdResMap (releaseResourcesForCommand c a') \<subseteq>\<^sub>m m_cmdResMap a'" for c
    by (simp add: one(2) map_le_def)
  note two = releaseResourcesForCommand_spec [OF names [OF sub]]
  have "allocated (fold releaseResourcesForCommand [1, 2] a') ''mem'' = ?l - three_tenths - six_tenths"
    "allocated (fold releaseResourcesForCommand [2, 1] a') ''mem'' = ?l - six_tenths - three_tenths"
    using level kept
    by (simp_all add: two(1) one given_back_def res asks_def tenth_child_def)
  moreover have "\<not> d_nan (?l - three_tenths - six_tenths)" "\<not> d_nan (?l - six_tenths - three_tenths)"
    using tenths_sums(9,11) by (simp_all add: d_finite_def)
  ultimately show ?thesis using arb by (simp add: d_less tenths_sums)
qed

text \<open>Two commands that ask for all of a resource: the second is refused.\<close>

definition whole_commands :: "(cmd \<times> double resource_value list) list" where
  "whole_commands = [(1, [tenth_request 1]), (2, [tenth_request 1])]"

lemma whole_sums:
  "d_finite (0 + 1)" "d_units (0 + 1) = one_in_units" "\<not> d_nan (0 + 1 + 1)" "d_units (0 + 1 + 1) = 2 * one_in_units"
proof -
  have "fits_in 1074 (d_units 0 + d_units 1)"
    by (simp add: fits_in_def one_in_units_def)
  from d_add_exact [OF _ _ this] show one: "d_finite (0 + 1)" "d_units (0 + 1) = one_in_units" by simp_all
  then have "fits_in 1074 (d_units (0 + 1) + d_units 1)"
    by (simp add: fits_in_def one_in_units_def)
  from d_add_exact [OF one(1) d_one(3) this] one(2)
  show "\<not> d_nan (0 + 1 + 1)" "d_units (0 + 1 + 1) = 2 * one_in_units"
    by (simp_all add: d_finite_def)
qed

lemma whole_arbitrated:
  "\<exists>a'. arbitrateCommands 1 whole_commands empty_arbiter = Inr ([1], [2], a') \<and>
     m_cmdResMap a' = [1 \<mapsto> [tenth_child 1]]"
proof -
  have "\<not> 1 < (0 :: double)" "\<not> 0 < (0 :: double)" "\<not> 0 + 1 < (0 :: double)" "\<not> 1 < 0 + (1 :: double)" "1 < 0 + 1 + (1 :: double)"
    by (simp_all add: d_less whole_sums one_in_units_def)
  then show ?thesis by (simp add: tenth_run whole_commands_def Let_def)
qed

theorem release_restores_witness:
  "\<exists>a'. arbitrateCommands 1 whole_commands empty_arbiter = Inr ([1], [2], a') \<and>
     d_units (allocated (fold releaseResourcesForCommand [1] a') ''mem'') = 0 \<and>
     m_cmdResMap (fold releaseResourcesForCommand [1] a') = Map.empty"
proof -
  obtain a' where arb: "arbitrateCommands 1 whole_commands empty_arbiter = Inr ([1], [2], a')"
    and res: "m_cmdResMap a' = [1 \<mapsto> [tenth_child 1]]"
    using whole_arbitrated by blast
  have "distinct (map fst whole_commands)" "\<forall>c \<in> fst ` set whole_commands. m_cmdResMap empty_arbiter c = None"
    by (simp_all add: whole_commands_def empty_arbiter_def)
  note rel = release_restores [OF arb this refl]
  have "exact_amounts 1074 (allocated empty_arbiter ''mem'') (taken a' ''mem'' [1])"
    by (simp add: exact_amounts_def empty_arbiter_def allocated_def res asks_def tenth_child_def one_in_units_def)
  with rel have "d_units (allocated (fold releaseResourcesForCommand [1] a') ''mem'') =
      d_units (allocated empty_arbiter ''mem'') + (\<Sum>c \<leftarrow> [1]. total_units (kept a' ''mem'' c))" by blast
  also have "\<dots> = 0" by (simp add: empty_arbiter_def allocated_def kept_def res tenth_child_def asks_def)
  finally show ?thesis using arb rel by (simp add: empty_arbiter_def del: fold_simps)
qed

end
