(* ===== verification/Cached_Value.thy ===== *)
theory Cached_Value
  imports Plexil_Value
begin

text \<open>
  The cached values behind lookups (src/src/intfc/CachedValue.cc, CachedValueImpl.cc).

  A cached value has the type of the class it is made of: \<open>CachedValueImpl<T>\<close>, or
  \<open>VoidCachedValue\<close> for \<open>UNKNOWN_TYPE\<close>. Dates and durations are reals. The stored value is
  kept when the cached value becomes unknown; \<open>None\<close> is the member before it is assigned.
\<close>

section \<open>Cached values\<close>

type_synonym timestamp = "32 word"

record cached_value =
  cv_type :: value_type
  cv_known :: bool
  cv_value :: "payload option"
  cv_timestamp :: timestamp

definition new_cached :: "value_type \<Rightarrow> cached_value" where
  "new_cached t = \<lparr>cv_type = t, cv_known = False, cv_value = None, cv_timestamp = 0\<rparr>"

definition cachedValueFactory :: "value_type \<Rightarrow> cached_value result" where
  "cachedValueFactory vtype =
     (case vtype of
        BOOLEAN_TYPE \<Rightarrow> Inr (new_cached BOOLEAN_TYPE)
      | INTEGER_TYPE \<Rightarrow> Inr (new_cached INTEGER_TYPE)
      | DATE_TYPE \<Rightarrow> Inr (new_cached REAL_TYPE)
      | DURATION_TYPE \<Rightarrow> Inr (new_cached REAL_TYPE)
      | REAL_TYPE \<Rightarrow> Inr (new_cached REAL_TYPE)
      | STRING_TYPE \<Rightarrow> Inr (new_cached STRING_TYPE)
      | BOOLEAN_ARRAY_TYPE \<Rightarrow> Inr (new_cached BOOLEAN_ARRAY_TYPE)
      | INTEGER_ARRAY_TYPE \<Rightarrow> Inr (new_cached INTEGER_ARRAY_TYPE)
      | REAL_ARRAY_TYPE \<Rightarrow> Inr (new_cached REAL_ARRAY_TYPE)
      | STRING_ARRAY_TYPE \<Rightarrow> Inr (new_cached STRING_ARRAY_TYPE)
      | UNKNOWN_TYPE \<Rightarrow> Inr (new_cached UNKNOWN_TYPE)
      | _ \<Rightarrow> Inl ErrorMsg)"

section \<open>Reading\<close>

definition cv_toValue :: "cached_value \<Rightarrow> pvalue" where
  "cv_toValue cv =
     (case cv_value cv of
        Some p \<Rightarrow> if cv_known cv then Known p else Unknown (cv_type cv)
      | None \<Rightarrow> Unknown (cv_type cv))"

text \<open>
  \<open>getValue\<close> for a type the class does not have is an internal error, known or not, except
  that an integer can be read as a real, and a void value is unknown in every type.
\<close>

definition cv_getInteger :: "cached_value \<Rightarrow> integer option result" where
  "cv_getInteger cv =
     (if cv_type cv = UNKNOWN_TYPE then Inr None
      else if cv_type cv = INTEGER_TYPE then
        (case cv_toValue cv of Known (IntegerVal i) \<Rightarrow> Inr (Some i) | _ \<Rightarrow> Inr None)
      else Inl ErrorMsg)"

definition cv_getReal :: "cached_value \<Rightarrow> real_bits option result" where
  "cv_getReal cv =
     (if cv_type cv = UNKNOWN_TYPE then Inr None
      else if cv_type cv = REAL_TYPE then
        (case cv_toValue cv of Known (RealVal r) \<Rightarrow> Inr (Some r) | _ \<Rightarrow> Inr None)
      else if cv_type cv = INTEGER_TYPE then
        (case cv_toValue cv of Known (IntegerVal i) \<Rightarrow> Inr (Some (real_of_integer i)) | _ \<Rightarrow> Inr None)
      else Inl ErrorMsg)"

section \<open>Writing\<close>

text \<open>Each update says whether the value changed; only then does it take the new timestamp.\<close>

definition cv_setUnknown :: "timestamp \<Rightarrow> cached_value \<Rightarrow> bool \<times> cached_value" where
  "cv_setUnknown ts cv =
     (if cv_type cv = UNKNOWN_TYPE then (False, cv)
      else (cv_known cv, cv\<lparr>cv_known := False, cv_timestamp := ts\<rparr>))"

definition cv_store :: "timestamp \<Rightarrow> payload \<Rightarrow> cached_value \<Rightarrow> bool \<times> cached_value" where
  "cv_store ts p cv =
     (if \<not> cv_known cv \<or> (case cv_value cv of None \<Rightarrow> True | Some v \<Rightarrow> \<not> payload_equal v p)
      then (True, cv\<lparr>cv_value := Some p, cv_known := True, cv_timestamp := ts\<rparr>)
      else (False, cv))"

text \<open>\<open>update\<close> and \<open>updatePtr\<close> with a native value: the class must fit.\<close>

definition cv_update_native :: "timestamp \<Rightarrow> payload \<Rightarrow> cached_value \<Rightarrow> (bool \<times> cached_value) result" where
  "cv_update_native ts p cv =
     (if cv_type cv = REAL_TYPE \<and> payload_type p = INTEGER_TYPE then
        (case p of
           IntegerVal i \<Rightarrow> Inr (cv_store ts (RealVal (real_of_integer i)) cv)
         | _ \<Rightarrow> Inl InterfaceError)
      else if payload_type p = cv_type cv then Inr (cv_store ts p cv)
      else Inl InterfaceError)"

text \<open>
  What \<open>val.getValue\<close> or \<open>val.getValuePointer\<close> gives for the type of the class: nothing for
  an unknown value, an error of the plan for a value of another type.
\<close>

definition native_value :: "value_type \<Rightarrow> pvalue \<Rightarrow> payload option result" where
  "native_value t val =
     (case val of
        Unknown _ \<Rightarrow> Inr None
      | Known p \<Rightarrow>
          if payload_type p = t then Inr (Some p)
          else (case p of
                  IntegerVal i \<Rightarrow> if t = REAL_TYPE then Inr (Some (RealVal (real_of_integer i))) else Inl PlanError
                | _ \<Rightarrow> Inl PlanError))"

definition cv_update_value :: "timestamp \<Rightarrow> pvalue \<Rightarrow> cached_value \<Rightarrow> (bool \<times> cached_value) result" where
  "cv_update_value ts val cv =
     (if cv_type cv = UNKNOWN_TYPE then
        (if isKnown val then Inl ErrorMsg else Inr (True, cv\<lparr>cv_timestamp := ts\<rparr>))
      else bindE (native_value (cv_type cv) val) (\<lambda>v. case v of
             Some p \<Rightarrow> Inr (cv_store ts p cv)
           | None \<Rightarrow> Inr (cv_setUnknown ts cv)))"

section \<open>Copies and comparison\<close>

definition cv_assign :: "cached_value \<Rightarrow> cached_value \<Rightarrow> cached_value result" where
  "cv_assign cv other =
     (if cv_type cv = UNKNOWN_TYPE then
        (if cv_known other then Inl ErrorMsg else Inr (cv\<lparr>cv_timestamp := cv_timestamp other\<rparr>))
      else if cv_type cv \<noteq> cv_type other then Inl ErrorMsg
      else Inr other)"

definition cv_clone :: "cached_value \<Rightarrow> cached_value" where
  "cv_clone cv = (if cv_type cv = UNKNOWN_TYPE then new_cached UNKNOWN_TYPE else cv)"

text \<open>
  \<open>operator==\<close> as it stands: an unknown value of the left side equals every known one. The
  stored values are compared even where both sides are unknown; two members that were never
  assigned are taken for different.
\<close>

definition cv_equal :: "cached_value \<Rightarrow> cached_value \<Rightarrow> bool" where
  "cv_equal cv other \<longleftrightarrow>
     (if cv_type cv = UNKNOWN_TYPE then \<not> cv_known other
      else if \<not> cv_known cv \<and> cv_known other then True
      else if cv_type cv \<noteq> cv_type other then False
      else if cv_known cv \<noteq> cv_known other then False
      else (case (cv_value cv, cv_value other) of
              (Some v, Some w) \<Rightarrow> payload_equal v w
            | _ \<Rightarrow> False))"

section \<open>The type of a cached value\<close>

text \<open>A known value is there and has the type of the class; a void value is never known.\<close>

definition cached_ok :: "cached_value \<Rightarrow> bool" where
  "cached_ok cv \<longleftrightarrow> cv_type cv \<in> {UNKNOWN_TYPE, BOOLEAN_TYPE, INTEGER_TYPE, REAL_TYPE, STRING_TYPE,
       BOOLEAN_ARRAY_TYPE, INTEGER_ARRAY_TYPE, REAL_ARRAY_TYPE, STRING_ARRAY_TYPE}
     \<and> (cv_known cv \<longrightarrow> cv_type cv \<noteq> UNKNOWN_TYPE \<and> cv_value cv \<noteq> None)
     \<and> (\<forall>p. cv_value cv = Some p \<longrightarrow> payload_type p = cv_type cv)"

lemma factory_ok: "cachedValueFactory t = Inr cv \<Longrightarrow> cached_ok cv \<and> \<not> cv_known cv"
  by (cases t) (auto simp: cachedValueFactory_def new_cached_def cached_ok_def)

lemma setUnknown_ok:
  "cached_ok cv \<Longrightarrow> cv_setUnknown ts cv = (c, cv') \<Longrightarrow> cached_ok cv' \<and> cv_type cv' = cv_type cv \<and> \<not> cv_known cv'"
  by (auto simp: cached_ok_def cv_setUnknown_def split: if_splits)

lemma payload_type_known: "payload_type p \<noteq> UNKNOWN_TYPE"
proof (cases p)
  case (ArrayVal a)
  then show ?thesis by (cases a) simp_all
qed simp_all

lemma store_ok:
  "cached_ok cv \<Longrightarrow> payload_type p = cv_type cv \<Longrightarrow> cv_store ts p cv = (c, cv') \<Longrightarrow>
     cached_ok cv' \<and> cv_type cv' = cv_type cv \<and> cv_known cv'"
  using payload_type_known [of p]
  by (auto simp: cached_ok_def cv_store_def split: if_splits option.splits)

lemma update_native_ok:
  assumes "cached_ok cv" and "cv_update_native ts p cv = Inr (c, cv')"
  shows "cached_ok cv' \<and> cv_type cv' = cv_type cv \<and> cv_known cv'"
proof (cases "cv_type cv = REAL_TYPE \<and> payload_type p = INTEGER_TYPE")
  case True
  then obtain i where "cv_store ts (RealVal (real_of_integer i)) cv = (c, cv')"
    using assms(2) by (auto simp: cv_update_native_def split: payload.splits)
  then show ?thesis using True store_ok [OF assms(1), of "RealVal (real_of_integer i)"] by simp
next
  case False
  then show ?thesis
    using assms(2) store_ok [OF assms(1), of p] unfolding cv_update_native_def
    by (simp split: if_splits)
qed

lemma native_value_type: "native_value t val = Inr (Some p) \<Longrightarrow> payload_type p = t"
  by (auto simp: native_value_def split: pvalue.splits if_splits payload.splits)

lemma update_value_ok:
  assumes "cached_ok cv" and "cv_update_value ts val cv = Inr (c, cv')"
  shows "cached_ok cv' \<and> cv_type cv' = cv_type cv"
proof (cases "cv_type cv = UNKNOWN_TYPE")
  case True
  then show ?thesis using assms by (auto simp: cv_update_value_def cached_ok_def split: if_splits)
next
  case False
  then show ?thesis
    using assms store_ok [OF assms(1)] setUnknown_ok [OF assms(1)]
    by (auto simp: cv_update_value_def split: option.splits dest!: native_value_type)
qed

lemma toValue_type: "cached_ok cv \<Longrightarrow> valueType (cv_toValue cv) = cv_type cv"
  by (auto simp: cached_ok_def cv_toValue_def split: option.splits)

end
