(* ===== verification/State_Cache.thy ===== *)
theory State_Cache
  imports Arithmetic Cached_Value Ordered_Map
begin

text \<open>
  Lookups and the state cache (src/src/intfc/Lookup.cc, StateCacheEntry.cc, StateCache.cc).

  The record \<open>cache\<close> holds the objects that point at each other: the map from states to
  entries, the entries behind their addresses, and the lookup expressions behind theirs. The
  events are what leaves the component: changes published to listeners, and calls of the
  dispatcher. What the dispatcher answers to \<open>lookupNow\<close> is the parameter \<open>ask\<close>, the calls
  it makes on the receiver before it returns.

  The expressions under a lookup (state name, parameters, tolerance) are represented by the
  values they have now (\<open>lk_name\<close>, \<open>lk_params\<close>, \<open>lk_tolerance\<close>).
\<close>

section \<open>Thresholds\<close>

record 'n threshold_ops = "'n number_ops" +
  n_equal :: "'n \<Rightarrow> 'n \<Rightarrow> bool"

definition integer_threshold_ops :: "integer threshold_ops" where
  "integer_threshold_ops = number_ops.extend integer_ops \<lparr>n_equal = (=)\<rparr>"

definition real_threshold_ops :: "real_bits threshold_ops" where
  "real_threshold_ops = number_ops.extend real_ops \<lparr>n_equal = r_equal\<rparr>"

text \<open>\<open>m_low\<close>, \<open>m_high\<close> and \<open>m_tolerance\<close>, once they are set, and \<open>m_wasKnown\<close>.\<close>

record 'n bounds =
  b_low :: 'n
  b_high :: 'n
  b_tolerance :: 'n

record 'n threshold_cache =
  th_bounds :: "'n bounds option"
  th_wasKnown :: bool

definition new_thresholds :: "'n threshold_cache" where
  "new_thresholds = \<lparr>th_bounds = None, th_wasKnown = False\<rparr>"

definition get_bounds :: "'n threshold_cache \<Rightarrow> 'n bounds result" where
  "get_bounds th = (case th_bounds th of None \<Rightarrow> Inl UninitializedRead | Some b \<Rightarrow> Inr b)"

definition positive_tolerance :: "('n, 'm) number_ops_scheme \<Rightarrow> 'n \<Rightarrow> 'n result" where
  "positive_tolerance ops tol = (if n_less ops tol (n_zero ops) then n_neg ops tol else Inr tol)"

definition toleranceChanged :: "('n, 'm) threshold_ops_scheme \<Rightarrow> 'n option result \<Rightarrow> 'n threshold_cache \<Rightarrow> bool result" where
  "toleranceChanged ops tolerance th =
     bindE tolerance (\<lambda>t. case t of
       None \<Rightarrow> Inr True
     | Some newTol \<Rightarrow>
         bindE (positive_tolerance ops newTol) (\<lambda>newTol.
         bindE (get_bounds th) (\<lambda>b. Inr (\<not> n_equal ops newTol (b_tolerance b)))))"

definition setThresholds :: "('n, 'm) threshold_ops_scheme \<Rightarrow> 'n option result \<Rightarrow> 'n option result \<Rightarrow> 'n threshold_cache
    \<Rightarrow> 'n threshold_cache result" where
  "setThresholds ops val tolerance th =
     bindE tolerance (\<lambda>t.
     bindE (case t of Some tol \<Rightarrow> positive_tolerance ops tol | None \<Rightarrow> Inr (n_zero ops)) (\<lambda>tol.
     bindE val (\<lambda>v. case v of
       Some base \<Rightarrow>
         bindE (n_sub ops base tol) (\<lambda>low.
         bindE (n_add ops base tol) (\<lambda>high.
           Inr \<lparr>th_bounds = Some \<lparr>b_low = low, b_high = high, b_tolerance = tol\<rparr>, th_wasKnown = True\<rparr>))
     | None \<Rightarrow> Inr (th\<lparr>th_wasKnown := False\<rparr>))))"

definition integer_thresholdsExceeded :: "integer option result \<Rightarrow> integer threshold_cache \<Rightarrow> bool result" where
  "integer_thresholdsExceeded val th =
     bindE val (\<lambda>v. case v of
       Some currentValue \<Rightarrow>
         bindE (get_bounds th) (\<lambda>b.
           Inr (sint currentValue \<ge> sint (b_high b) \<or> sint currentValue \<le> sint (b_low b)))
     | None \<Rightarrow> Inr (th_wasKnown th))"

text \<open>The double nearest to \<open>1e-13\<close>.\<close>

definition guard_factor :: real_bits where
  "guard_factor = 0x3d3c25c268497682"

definition r_geq :: "real_bits \<Rightarrow> real_bits \<Rightarrow> bool" where
  "r_geq x y \<longleftrightarrow> \<not> isnan x \<and> \<not> isnan y \<and> r_units y \<le> r_units x"

definition real_thresholdsExceeded :: "real_bits option result \<Rightarrow> real_bits threshold_cache \<Rightarrow> bool result" where
  "real_thresholdsExceeded val th =
     bindE val (\<lambda>v. case v of
       None \<Rightarrow> Inr (th_wasKnown th)
     | Some currentValue \<Rightarrow>
         if \<not> th_wasKnown th then Inr True
         else bindE (get_bounds th) (\<lambda>b.
           if r_geq currentValue (b_high b) \<or> r_geq (b_low b) currentValue then Inr True
           else let epsilon = r_mul (r_abs currentValue) guard_factor
                in if r_less (r_sub (b_high b) currentValue) epsilon then Inr True
                   else if r_less (r_sub currentValue (b_low b)) epsilon then Inr True
                   else Inr False))"

datatype thresholds =
    IntegerThresholds "integer threshold_cache"
  | RealThresholds "real_bits threshold_cache"

definition thresholdCacheFactory :: "value_type \<Rightarrow> thresholds result" where
  "thresholdCacheFactory typ =
     (case typ of
        INTEGER_TYPE \<Rightarrow> Inr (IntegerThresholds new_thresholds)
      | UNKNOWN_TYPE \<Rightarrow> Inr (RealThresholds new_thresholds)
      | DATE_TYPE \<Rightarrow> Inr (RealThresholds new_thresholds)
      | DURATION_TYPE \<Rightarrow> Inr (RealThresholds new_thresholds)
      | REAL_TYPE \<Rightarrow> Inr (RealThresholds new_thresholds)
      | _ \<Rightarrow> Inl ErrorMsg)"

text \<open>The virtual functions, given the cached value and the value of the tolerance.\<close>

fun thresholds_toleranceChanged :: "pvalue \<Rightarrow> thresholds \<Rightarrow> bool result" where
  "thresholds_toleranceChanged tol (IntegerThresholds th) =
     toleranceChanged integer_threshold_ops (getInteger tol) th"
| "thresholds_toleranceChanged tol (RealThresholds th) =
     toleranceChanged real_threshold_ops (getReal tol) th"

fun thresholds_set :: "cached_value \<Rightarrow> pvalue \<Rightarrow> thresholds \<Rightarrow> thresholds result" where
  "thresholds_set cv tol (IntegerThresholds th) =
     bindE (setThresholds integer_threshold_ops (cv_getInteger cv) (getInteger tol) th) (\<lambda>th. Inr (IntegerThresholds th))"
| "thresholds_set cv tol (RealThresholds th) =
     bindE (setThresholds real_threshold_ops (cv_getReal cv) (getReal tol) th) (\<lambda>th. Inr (RealThresholds th))"

fun thresholds_exceeded :: "cached_value \<Rightarrow> thresholds \<Rightarrow> bool result" where
  "thresholds_exceeded cv (IntegerThresholds th) = integer_thresholdsExceeded (cv_getInteger cv) th"
| "thresholds_exceeded cv (RealThresholds th) = real_thresholdsExceeded (cv_getReal cv) th"

section \<open>Objects\<close>

type_synonym lid = nat
type_synonym addr = nat

record lookup =
  lk_on_change :: bool  \<comment> \<open>\<open>LookupOnChange\<close>\<close>
  lk_name :: "string option"
  lk_params :: "pvalue list option"  \<comment> \<open>None where \<open>m_paramVec\<close> is null\<close>
  lk_tolerance :: pvalue
  lk_activeCount :: nat
  lk_cachedState :: state
  lk_entry :: "addr option"
  lk_declaredType :: value_type
  lk_stateKnown :: bool
  lk_stateIsConstant :: bool
  lk_isRegistered :: bool
  lk_thresholds :: "thresholds option"
  lk_cachedValue :: "cached_value option"

record entry =
  en_lookups :: "lid list"
  en_value :: "cached_value option"
  en_low :: "cached_value option"
  en_high :: "cached_value option"

definition new_entry :: entry where
  "new_entry = \<lparr>en_lookups = [], en_value = None, en_low = None, en_high = None\<rparr>"

datatype event =
    Published lid
  | IntegerThresholdsSet state integer integer  \<comment> \<open>high, low\<close>
  | RealThresholdsSet state real_bits real_bits
  | ThresholdsCleared state
  | LookedUp state

record cache =
  c_map :: "(state \<times> addr) list"
  c_entries :: "addr \<Rightarrow> entry option"  \<comment> \<open>None: not allocated, or deleted\<close>
  c_next :: addr
  c_cycleCount :: timestamp
  c_timeEntry :: "addr option"
  c_lookups :: "lid \<Rightarrow> lookup"
  c_events :: "event list"  \<comment> \<open>the latest last\<close>

definition set_lookup :: "lid \<Rightarrow> lookup \<Rightarrow> cache \<Rightarrow> cache" where
  "set_lookup k l c = c\<lparr>c_lookups := (c_lookups c)(k := l)\<rparr>"

definition set_entry :: "addr \<Rightarrow> entry \<Rightarrow> cache \<Rightarrow> cache" where
  "set_entry a e c = c\<lparr>c_entries := (c_entries c)(a := Some e)\<rparr>"

definition emit :: "event \<Rightarrow> cache \<Rightarrow> cache" where
  "emit e c = c\<lparr>c_events := c_events c @ [e]\<rparr>"

definition entry_at :: "addr \<Rightarrow> cache \<Rightarrow> entry result" where
  "entry_at a c = (case c_entries c a of None \<Rightarrow> Inl DanglingPointer | Some e \<Rightarrow> Inr e)"

definition lk_active :: "lookup \<Rightarrow> bool" where
  "lk_active l \<longleftrightarrow> 0 < lk_activeCount l"

definition lookup_publishChange :: "lid \<Rightarrow> cache \<Rightarrow> cache" where
  "lookup_publishChange k c = (if lk_active (c_lookups c k) then emit (Published k) c else c)"

definition en_valueType :: "entry \<Rightarrow> value_type" where
  "en_valueType e = (case en_value e of Some cv \<Rightarrow> cv_type cv | None \<Rightarrow> UNKNOWN_TYPE)"

definition en_isKnown :: "entry \<Rightarrow> bool" where
  "en_isKnown e \<longleftrightarrow> (case en_value e of Some cv \<Rightarrow> cv_known cv | None \<Rightarrow> False)"

section \<open>Reading a lookup\<close>

definition lookup_entry :: "lookup \<Rightarrow> cache \<Rightarrow> entry option result" where
  "lookup_entry l c =
     (case lk_entry l of
        None \<Rightarrow> Inr None
      | Some a \<Rightarrow> bindE (entry_at a c) (\<lambda>e. Inr (Some e)))"

definition lookup_valueType :: "lid \<Rightarrow> cache \<Rightarrow> value_type result" where
  "lookup_valueType k c =
     (let l = c_lookups c k
      in bindE (lookup_entry l c) (\<lambda>e. case e of
           None \<Rightarrow> Inr (lk_declaredType l)
         | Some e \<Rightarrow> if en_valueType e \<noteq> UNKNOWN_TYPE then Inr (en_valueType e) else Inr (lk_declaredType l)))"

definition lookup_isKnown :: "lid \<Rightarrow> cache \<Rightarrow> bool result" where
  "lookup_isKnown k c =
     (let l = c_lookups c k
      in if \<not> lk_active l then Inr False
         else bindE (lookup_entry l c) (\<lambda>e. case e of None \<Rightarrow> Inr False | Some e \<Rightarrow> Inr (en_isKnown e)))"

definition lookup_toValue :: "lid \<Rightarrow> cache \<Rightarrow> pvalue result" where
  "lookup_toValue k c =
     (let l = c_lookups c k
      in if \<not> lk_active l then Inr (Unknown UNKNOWN_TYPE)
         else bindE (lookup_entry l c) (\<lambda>e. case e of
                None \<Rightarrow> Inr (Unknown UNKNOWN_TYPE)
              | Some e \<Rightarrow> (case en_value e of
                    None \<Rightarrow> Inr (Unknown UNKNOWN_TYPE)
                  | Some cv \<Rightarrow>
                      if \<not> lk_on_change l then Inr (cv_toValue cv)
                      else (case lk_cachedValue l of
                              Some own \<Rightarrow> Inr (cv_toValue own)
                            | None \<Rightarrow> if en_isKnown e then Inr (cv_toValue cv) else Inr (Unknown UNKNOWN_TYPE)))))"

section \<open>Thresholds of an entry\<close>

definition lookup_integerThresholds :: "lid \<Rightarrow> cache \<Rightarrow> (integer \<times> integer) option result" where
  "lookup_integerThresholds k c =
     (let l = c_lookups c k
      in if \<not> lk_on_change l then Inr None
         else if \<not> lk_active l then Inr None
         else (case lk_thresholds l of
                 None \<Rightarrow> Inr None
               | Some th \<Rightarrow>
                   bindE (lookup_valueType k c) (\<lambda>t.
                   bindE (check AssertFailed (t = INTEGER_TYPE)) (\<lambda>_.
                     case th of
                       IntegerThresholds th \<Rightarrow> bindE (get_bounds th) (\<lambda>b. Inr (Some (b_high b, b_low b)))
                     | RealThresholds _ \<Rightarrow> Inl ErrorMsg))))"

definition lookup_realThresholds :: "lid \<Rightarrow> cache \<Rightarrow> (real_bits \<times> real_bits) option result" where
  "lookup_realThresholds k c =
     (let l = c_lookups c k
      in if \<not> lk_on_change l then Inr None
         else if \<not> lk_active l then Inr None
         else (case lk_thresholds l of
                 None \<Rightarrow> Inr None
               | Some th \<Rightarrow>
                   bindE (lookup_valueType k c) (\<lambda>t.
                   bindE (check AssertFailed (t = REAL_TYPE)) (\<lambda>_.
                     case th of
                       RealThresholds th \<Rightarrow> bindE (get_bounds th) (\<lambda>b. Inr (Some (b_high b, b_low b)))
                     | IntegerThresholds _ \<Rightarrow> Inl ErrorMsg))))"

text \<open>The loop that takes the lowest of the high and the highest of the low thresholds.\<close>

fun survey :: "('n \<Rightarrow> 'n \<Rightarrow> bool) \<Rightarrow> (lid \<Rightarrow> ('n \<times> 'n) option result) \<Rightarrow> lid list \<Rightarrow> ('n \<times> 'n) option
    \<Rightarrow> ('n \<times> 'n) option result" where
  "survey lt get [] acc = Inr acc"
| "survey lt get (l # ls) acc =
     bindE (get l) (\<lambda>t. case t of
       None \<Rightarrow> survey lt get ls acc
     | Some (newhi, newlo) \<Rightarrow>
         survey lt get ls
           (case acc of
              Some (hi, lo) \<Rightarrow> Some (if lt newhi hi then newhi else hi, if lt lo newlo then newlo else lo)
            | None \<Rightarrow> Some (newhi, newlo)))"

text \<open>The two cached thresholds of an entry get new values, or become unknown.\<close>

definition store_thresholds :: "value_type \<Rightarrow> payload \<Rightarrow> payload \<Rightarrow> timestamp \<Rightarrow> entry \<Rightarrow> entry result" where
  "store_thresholds t hi lo ts e =
     bindE (case en_low e of
              None \<Rightarrow> bindE (cachedValueFactory t) (\<lambda>cv. Inr (e\<lparr>en_low := Some cv, en_high := Some cv\<rparr>))
            | Some _ \<Rightarrow> Inr e) (\<lambda>e.
     case (en_low e, en_high e) of
       (Some low, Some high) \<Rightarrow>
         bindE (cv_update_native ts lo low) (\<lambda>(_, low).
         bindE (cv_update_native ts hi high) (\<lambda>(_, high).
           Inr (e\<lparr>en_low := Some low, en_high := Some high\<rparr>)))
     | _ \<Rightarrow> Inl NullPointer)"

definition forget_thresholds :: "timestamp \<Rightarrow> entry \<Rightarrow> entry result" where
  "forget_thresholds ts e =
     (case (en_low e, en_high e) of
        (Some low, Some high) \<Rightarrow>
          Inr (e\<lparr>en_low := Some (snd (cv_setUnknown ts low)), en_high := Some (snd (cv_setUnknown ts high))\<rparr>)
      | _ \<Rightarrow> Inl NullPointer)"

definition integerUpdateThresholds :: "addr \<Rightarrow> state \<Rightarrow> cache \<Rightarrow> (bool \<times> cache) result" where
  "integerUpdateThresholds a st c =
     bindE (entry_at a c) (\<lambda>e.
     bindE (survey (\<lambda>x y. sint x < sint y) (\<lambda>k. lookup_integerThresholds k c) (en_lookups e) None) (\<lambda>t. case t of
       Some (hi, lo) \<Rightarrow>
         bindE (store_thresholds INTEGER_TYPE (IntegerVal hi) (IntegerVal lo) (c_cycleCount c) e) (\<lambda>e.
           Inr (True, emit (IntegerThresholdsSet st hi lo) (set_entry a e c)))
     | None \<Rightarrow>
         (case en_low e of
            None \<Rightarrow> Inr (False, c)
          | Some _ \<Rightarrow>
              bindE (forget_thresholds (c_cycleCount c) e) (\<lambda>e.
                Inr (False, emit (ThresholdsCleared st) (set_entry a e c))))))"

definition realUpdateThresholds :: "addr \<Rightarrow> state \<Rightarrow> cache \<Rightarrow> (bool \<times> cache) result" where
  "realUpdateThresholds a st c =
     bindE (entry_at a c) (\<lambda>e.
     bindE (survey r_less (\<lambda>k. lookup_realThresholds k c) (en_lookups e) None) (\<lambda>t. case t of
       Some (hi, lo) \<Rightarrow>
         bindE (store_thresholds REAL_TYPE (RealVal hi) (RealVal lo) (c_cycleCount c) e) (\<lambda>e.
           Inr (True, emit (RealThresholdsSet st hi lo) (set_entry a e c)))
     | None \<Rightarrow>
         (case en_low e of
            None \<Rightarrow> Inr (False, c)
          | Some _ \<Rightarrow>
              bindE (forget_thresholds (c_cycleCount c) e) (\<lambda>e.
                Inr (False, emit (ThresholdsCleared st) (set_entry a e c))))))"

definition updateThresholds :: "addr \<Rightarrow> state \<Rightarrow> cache \<Rightarrow> cache result" where
  "updateThresholds a st c =
     bindE (entry_at a c) (\<lambda>e. case en_value e of
       None \<Rightarrow> Inl NullPointer
     | Some cv \<Rightarrow>
         if cv_type cv \<in> {INTEGER_TYPE, DATE_TYPE, DURATION_TYPE, REAL_TYPE} then
           bindE (if cv_type cv = INTEGER_TYPE then integerUpdateThresholds a st c
                  else realUpdateThresholds a st c) (\<lambda>(hasThresholds, c).
             if hasThresholds then Inr c
             else bindE (entry_at a c) (\<lambda>e. Inr (set_entry a (e\<lparr>en_low := None, en_high := None\<rparr>) c)))
         else Inr c)"

section \<open>Lookups on change\<close>

definition updateInternal :: "lid \<Rightarrow> bool \<Rightarrow> cache \<Rightarrow> (bool \<times> cache) result" where
  "updateInternal k changed c =
     (let l = c_lookups c k; tol = lk_tolerance l
      in case lk_thresholds l of
           Some th \<Rightarrow>
             if isKnown tol then
               bindE (thresholds_toleranceChanged tol th) (\<lambda>tolChanged.
               bindE (if tolChanged
                      then (case lk_cachedValue l of
                              None \<Rightarrow> Inl CheckError
                            | Some own \<Rightarrow> thresholds_set own tol th)
                      else Inr th) (\<lambda>th.
               let l = l\<lparr>lk_thresholds := Some th\<rparr> in
               bindE (lookup_entry l c) (\<lambda>e. case e of
                 None \<Rightarrow> Inl NullPointer
               | Some e \<Rightarrow> (case en_value e of
                     None \<Rightarrow> (case th of IntegerThresholds _ \<Rightarrow> Inl NullPointer | RealThresholds _ \<Rightarrow> Inl CheckError)
                   | Some val \<Rightarrow>
                       bindE (thresholds_exceeded val th) (\<lambda>exceeded.
                         if exceeded then
                           (case (lk_cachedValue l, lk_entry l) of
                              (Some own, Some a) \<Rightarrow>
                                bindE (cv_assign own val) (\<lambda>own.
                                bindE (thresholds_set val tol th) (\<lambda>th.
                                bindE (updateThresholds a (lk_cachedState l)
                                        (set_lookup k (l\<lparr>lk_cachedValue := Some own, lk_thresholds := Some th\<rparr>) c))
                                  (\<lambda>c. Inr (True, c))))
                            | _ \<Rightarrow> Inl NullPointer)
                         else Inr (False, set_lookup k l c))))))
             else
               (case lk_entry l of
                  None \<Rightarrow> Inl NullPointer
                | Some a \<Rightarrow>
                    bindE (updateThresholds a (lk_cachedState l)
                            (set_lookup k (l\<lparr>lk_thresholds := None, lk_cachedValue := None\<rparr>) c))
                      (\<lambda>c. Inr (changed, c)))
         | None \<Rightarrow>
             bindE (lookup_entry l c) (\<lambda>e. case (e, lk_entry l) of
               (Some e, Some a) \<Rightarrow>
                 (case en_value e of
                    Some val \<Rightarrow>
                      if cv_known val \<and> isKnown tol then
                        bindE (thresholdCacheFactory (en_valueType e)) (\<lambda>th.
                        bindE (case lk_cachedValue l of
                                 Some own \<Rightarrow> cv_assign own val
                               | None \<Rightarrow> Inr (cv_clone val)) (\<lambda>own.
                        bindE (thresholds_set val tol th) (\<lambda>th.
                        bindE (updateThresholds a (lk_cachedState l)
                                (set_lookup k (l\<lparr>lk_cachedValue := Some own, lk_thresholds := Some th\<rparr>) c))
                          (\<lambda>c. Inr (changed, c)))))
                      else Inr (changed, c)
                  | None \<Rightarrow> Inr (changed, c))
             | _ \<Rightarrow> Inr (changed, c)))"

definition lookup_valueChanged :: "lid \<Rightarrow> cache \<Rightarrow> cache result" where
  "lookup_valueChanged k c =
     (let l = c_lookups c k
      in if \<not> lk_on_change l then Inr (lookup_publishChange k c)
         else if \<not> lk_active l then Inr c
         else bindE (updateInternal k True c) (\<lambda>(changed, c).
                Inr (if changed then lookup_publishChange k c else c)))"

section \<open>Entries\<close>

definition entry_notify :: "addr \<Rightarrow> cache \<Rightarrow> cache result" where
  "entry_notify a c = bindE (entry_at a c) (\<lambda>e. forE lookup_valueChanged (en_lookups e) c)"

definition ensureCachedValue :: "value_type \<Rightarrow> entry \<Rightarrow> (bool \<times> entry) result" where
  "ensureCachedValue typ e =
     (case en_value e of
        None \<Rightarrow> bindE (cachedValueFactory typ) (\<lambda>cv. Inr (True, e\<lparr>en_value := Some cv\<rparr>))
      | Some cv \<Rightarrow>
          let ctyp = cv_type cv
          in if ctyp = typ \<or> typ = UNKNOWN_TYPE then Inr (True, e)
             else if ctyp = UNKNOWN_TYPE
               then bindE (cachedValueFactory typ) (\<lambda>cv. Inr (True, e\<lparr>en_value := Some cv\<rparr>))
             else if typ = INTEGER_TYPE \<and> isNumericType ctyp then Inr (True, e)
             else if typ = REAL_TYPE \<and> (ctyp = DATE_TYPE \<or> ctyp = DURATION_TYPE) then Inr (True, e)
             else Inr (False, e))"

definition entry_store :: "addr \<Rightarrow> value_type \<Rightarrow> (cached_value \<Rightarrow> (bool \<times> cached_value) result) \<Rightarrow> cache \<Rightarrow> cache result" where
  "entry_store a typ update c =
     bindE (entry_at a c) (\<lambda>e.
     bindE (ensureCachedValue typ e) (\<lambda>(ok, e).
       if \<not> ok then Inr (set_entry a e c)
       else (case en_value e of
               None \<Rightarrow> Inl NullPointer
             | Some cv \<Rightarrow>
                 bindE (update cv) (\<lambda>(changed, cv).
                   let c = set_entry a (e\<lparr>en_value := Some cv\<rparr>) c
                   in if changed then entry_notify a c else Inr c))))"

definition entry_updateValue :: "addr \<Rightarrow> pvalue \<Rightarrow> timestamp \<Rightarrow> cache \<Rightarrow> cache result" where
  "entry_updateValue a val ts c = entry_store a (valueType val) (cv_update_value ts val) c"

definition entry_update :: "addr \<Rightarrow> pvalue \<Rightarrow> cache \<Rightarrow> cache result" where
  "entry_update a val c = entry_store a (valueType val) (cv_update_value (c_cycleCount c) val) c"

text \<open>\<open>update\<close> and \<open>updatePtr\<close> with a native value; the argument tells the type.\<close>

definition entry_update_native :: "addr \<Rightarrow> payload \<Rightarrow> cache \<Rightarrow> cache result" where
  "entry_update_native a p c = entry_store a (payload_type p) (cv_update_native (c_cycleCount c) p) c"

definition entry_setUnknown :: "addr \<Rightarrow> cache \<Rightarrow> cache result" where
  "entry_setUnknown a c =
     bindE (entry_at a c) (\<lambda>e. case en_value e of
       None \<Rightarrow> Inr c
     | Some cv \<Rightarrow>
         (case cv_setUnknown (c_cycleCount c) cv of
            (changed, cv) \<Rightarrow>
              let c = set_entry a (e\<lparr>en_value := Some cv\<rparr>) c
              in if changed then entry_notify a c else Inr c))"

datatype receiver_call = ReceiveValue pvalue | ReceiveNative payload | ReceiveUnknown

fun receive :: "addr \<Rightarrow> receiver_call \<Rightarrow> cache \<Rightarrow> cache result" where
  "receive a (ReceiveValue v) = entry_update a v"
| "receive a (ReceiveNative p) = entry_update_native a p"
| "receive a ReceiveUnknown = entry_setUnknown a"

definition lookupNow :: "(state \<Rightarrow> receiver_call list) \<Rightarrow> state \<Rightarrow> addr \<Rightarrow> cache \<Rightarrow> cache result" where
  "lookupNow ask st a c = forE (receive a) (ask st) (emit (LookedUp st) c)"

definition registerLookup :: "(state \<Rightarrow> receiver_call list) \<Rightarrow> addr \<Rightarrow> state \<Rightarrow> lid \<Rightarrow> cache \<Rightarrow> cache result" where
  "registerLookup ask a st k c =
     bindE (entry_at a c) (\<lambda>e.
       let c = set_entry a (e\<lparr>en_lookups := en_lookups e @ [k]\<rparr>) c
       in if (case en_value e of None \<Rightarrow> True | Some cv \<Rightarrow> cv_timestamp cv < c_cycleCount c)
          then lookupNow ask st a c
          else Inr c)"

definition unregisterLookup :: "addr \<Rightarrow> state \<Rightarrow> lid \<Rightarrow> cache \<Rightarrow> cache result" where
  "unregisterLookup a st k c =
     bindE (entry_at a c) (\<lambda>e.
       if en_lookups e = [] then Inr c
       else if k \<notin> set (en_lookups e) then Inr c
       else let e = e\<lparr>en_lookups := (if last (en_lookups e) = k then butlast (en_lookups e)
                                    else remove1 k (en_lookups e))\<rparr>
            in if en_lookups e = [] then Inr (set_entry a (e\<lparr>en_low := None, en_high := None\<rparr>) c)
               else if en_low e \<noteq> None \<or> en_high e \<noteq> None then updateThresholds a st (set_entry a e c)
               else Inr (set_entry a e c))"

section \<open>The map of the states\<close>

definition ensureStateCacheEntry :: "state \<Rightarrow> cache \<Rightarrow> addr \<times> cache" where
  "ensureStateCacheEntry st c =
     (case map_find state_less st (c_map c) of
        Some a \<Rightarrow> (a, c)
      | None \<Rightarrow>
          let a = c_next c
          in (a, c\<lparr>c_map := map_emplace state_less st a (c_map c),
                   c_entries := (c_entries c)(a := Some new_entry), c_next := Suc a\<rparr>))"

definition with_entry :: "state \<Rightarrow> (addr \<Rightarrow> cache \<Rightarrow> cache result) \<Rightarrow> cache \<Rightarrow> cache result" where
  "with_entry st f c = (case ensureStateCacheEntry st c of (a, c) \<Rightarrow> f a c)"

definition timeState :: state where
  "timeState = \<lparr>st_name = ''time'', st_parameters = []\<rparr>"

definition incrementCycleCount :: "cache \<Rightarrow> cache" where
  "incrementCycleCount c = c\<lparr>c_cycleCount := c_cycleCount c + 1\<rparr>"

definition ensureTimeEntry :: "cache \<Rightarrow> (addr \<times> cache) result" where
  "ensureTimeEntry c =
     (case c_timeEntry c of
        Some a \<Rightarrow> Inr (a, c)
      | None \<Rightarrow>
          (case ensureStateCacheEntry timeState c of
             (a, c) \<Rightarrow>
               bindE (entry_updateValue a (Known (RealVal r_zero)) (c_cycleCount c) (c\<lparr>c_timeEntry := Some a\<rparr>)) (\<lambda>c.
                 Inr (a, c))))"

text \<open>\<open>currentTime\<close> reads the time entry as a real; where it is unknown the result stays 0.\<close>

definition currentTime :: "cache \<Rightarrow> (real_bits \<times> cache) result" where
  "currentTime c =
     bindE (ensureTimeEntry c) (\<lambda>(a, c).
     bindE (entry_at a c) (\<lambda>e. case en_value e of
       None \<Rightarrow> Inl NullPointer
     | Some cv \<Rightarrow>
         bindE (cv_getReal cv) (\<lambda>r. Inr (case r of Some r \<Rightarrow> r | None \<Rightarrow> r_zero, c))))"

definition queryTime :: "(state \<Rightarrow> receiver_call list) \<Rightarrow> cache \<Rightarrow> (real_bits \<times> cache) result" where
  "queryTime ask c =
     bindE (ensureTimeEntry c) (\<lambda>(a, c).
     bindE (lookupNow ask timeState a c) currentTime)"

definition lookupReturn :: "state \<Rightarrow> pvalue \<Rightarrow> cache \<Rightarrow> cache result" where
  "lookupReturn st val c = with_entry st (\<lambda>a c. entry_updateValue a val (c_cycleCount c) c) c"

section \<open>Messages\<close>

record message =
  msg_message :: state
  msg_sender :: string
  msg_timestamp :: real_bits

abbreviation state0 :: "string \<Rightarrow> state" where
  "state0 name \<equiv> \<lparr>st_name = name, st_parameters = []\<rparr>"

abbreviation state1 :: "string \<Rightarrow> pvalue \<Rightarrow> state" where
  "state1 name arg0 \<equiv> \<lparr>st_name = name, st_parameters = [arg0]\<rparr>"

abbreviation state2 :: "string \<Rightarrow> pvalue \<Rightarrow> pvalue \<Rightarrow> state" where
  "state2 name arg0 arg1 \<equiv> \<lparr>st_name = name, st_parameters = [arg0, arg1]\<rparr>"

definition messageReceived :: "message \<Rightarrow> cache \<Rightarrow> cache result" where
  "messageReceived msg =
     seqs [with_entry (state0 ''HaveMessage'') (\<lambda>a. entry_update_native a (BooleanVal True)),
           with_entry (state0 ''PeekAtMessage'') (\<lambda>a. entry_update_native a (StringVal (st_name (msg_message msg)))),
           with_entry (state0 ''PeekAtMessageSender'') (\<lambda>a. entry_update_native a (StringVal (msg_sender msg)))]"

definition messageQueueEmpty :: "cache \<Rightarrow> cache result" where
  "messageQueueEmpty =
     seqs [with_entry (state0 ''HaveMessage'') (\<lambda>a. entry_update_native a (BooleanVal False)),
           with_entry (state0 ''PeekAtMessage'') entry_setUnknown,
           with_entry (state0 ''PeekAtMessageSender'') entry_setUnknown]"

text \<open>
  The entry of the message text is updated with a native string, the others with values. A
  parameter out of range is an unknown value.
\<close>

definition state_parameter :: "state \<Rightarrow> nat \<Rightarrow> pvalue" where
  "state_parameter st n = (if n < length (st_parameters st) then st_parameters st ! n else Unknown UNKNOWN_TYPE)"

definition assignMessageHandle :: "message \<Rightarrow> string \<Rightarrow> cache \<Rightarrow> cache result" where
  "assignMessageHandle msg handle =
     (let handleValue = Known (StringVal handle);
          count = length (st_parameters (msg_message msg));
          update_entry = (\<lambda>st val. with_entry st (\<lambda>a c. entry_updateValue a val (c_cycleCount c) c))
      in seqs
        [with_entry (state1 ''MessageText'' handleValue)
           (\<lambda>a. entry_update_native a (StringVal (st_name (msg_message msg)))),
         update_entry (state1 ''MessageParameterCount'' handleValue) (Known (IntegerVal (of_nat count))),
         forE (\<lambda>i. update_entry (state2 ''MessageParameter'' handleValue (Known (IntegerVal (of_nat i))))
                     (state_parameter (msg_message msg) i)) [0..<count],
         update_entry (state1 ''MessageSender'' handleValue) (Known (StringVal (msg_sender msg))),
         update_entry (state1 ''MessageArrived'' handleValue) (Known (RealVal (msg_timestamp msg)))])"

text \<open>Erasing an element of the map deletes the entry.\<close>

definition erase_entry :: "state \<Rightarrow> addr \<Rightarrow> cache \<Rightarrow> cache" where
  "erase_entry st a c =
     c\<lparr>c_map := map_erase state_less st (c_map c), c_entries := (c_entries c)(a := None)\<rparr>"

definition deleteStateCacheEntry :: "state \<Rightarrow> cache \<Rightarrow> cache result" where
  "deleteStateCacheEntry st c =
     (case map_find state_less st (c_map c) of
        None \<Rightarrow> Inr c
      | Some a \<Rightarrow>
          bindE (entry_at a c) (\<lambda>e.
            if en_lookups e \<noteq> [] then Inr c else Inr (erase_entry st a c)))"

definition releaseMessageHandle :: "string \<Rightarrow> cache \<Rightarrow> cache result" where
  "releaseMessageHandle handle c =
     (let handleValue = Known (StringVal handle);
          st = state1 ''MessageParameterCount'' handleValue
      in case map_find state_less st (c_map c) of
           None \<Rightarrow> Inr c
         | Some a \<Rightarrow>
             bindE (entry_at a c) (\<lambda>e. case en_value e of
               None \<Rightarrow> Inl NullPointer
             | Some cv \<Rightarrow>
                 bindE (cv_getInteger cv) (\<lambda>count. case count of
                   None \<Rightarrow> Inr c
                 | Some count \<Rightarrow>
                     if en_lookups e \<noteq> [] then Inr c
                     else seqs
                       [\<lambda>c. Inr (erase_entry st a c),
                        forE (\<lambda>i. deleteStateCacheEntry
                                (state2 ''MessageParameter'' handleValue (Known (IntegerVal (of_nat i)))))
                          [0..<nat (sint count)],
                        deleteStateCacheEntry (state1 ''MessageText'' handleValue),
                        deleteStateCacheEntry (state1 ''MessageSender'' handleValue),
                        deleteStateCacheEntry (state1 ''MessageArrived'' handleValue)] c)))"

section \<open>Activation and changes of a lookup\<close>

text \<open>
  \<open>getState\<close> fills in the state it is given, and leaves it half filled in when it finds an
  unknown parameter.
\<close>

definition getState :: "lookup \<Rightarrow> state \<Rightarrow> bool \<times> state" where
  "getState l result =
     (case lk_name l of
        None \<Rightarrow> (False, result)
      | Some name \<Rightarrow>
          let result = result\<lparr>st_name := name\<rparr>
          in case lk_params l of
               None \<Rightarrow> (True, result)
             | Some vals \<Rightarrow>
                 let old = vector_resize (length vals) (Unknown UNKNOWN_TYPE) (st_parameters result);
                     prefix = takeWhile isKnown vals
                 in (list_all isKnown vals, result\<lparr>st_parameters := prefix @ drop (length prefix) old\<rparr>))"

definition ensureRegistered :: "(state \<Rightarrow> receiver_call list) \<Rightarrow> lid \<Rightarrow> cache \<Rightarrow> cache result" where
  "ensureRegistered ask k c =
     (let l = c_lookups c k
      in if lk_isRegistered l then Inr c
         else (case lk_entry l of
                 None \<Rightarrow> Inl NullPointer
               | Some a \<Rightarrow>
                   bindE (registerLookup ask a (lk_cachedState l) k c) (\<lambda>c.
                     Inr (set_lookup k ((c_lookups c k)\<lparr>lk_isRegistered := True\<rparr>) c))))"

definition lookup_unregister :: "lid \<Rightarrow> cache \<Rightarrow> cache result" where
  "lookup_unregister k c =
     (let l = c_lookups c k
      in if \<not> lk_isRegistered l then Inr c
         else (case lk_entry l of
                 None \<Rightarrow> Inl NullPointer
               | Some a \<Rightarrow>
                   bindE (unregisterLookup a (lk_cachedState l) k c) (\<lambda>c.
                     Inr (set_lookup k ((c_lookups c k)\<lparr>lk_isRegistered := False\<rparr>) c))))"

definition reset_thresholds :: "lid \<Rightarrow> cache \<Rightarrow> cache" where
  "reset_thresholds k c =
     (let l = c_lookups c k
      in if lk_on_change l \<and> lk_thresholds l \<noteq> None
         then set_lookup k (l\<lparr>lk_thresholds := None, lk_cachedValue := None\<rparr>) c
         else c)"

definition invalidateOldState :: "lid \<Rightarrow> cache \<Rightarrow> cache result" where
  "invalidateOldState k c =
     bindE (lookup_unregister k c) (\<lambda>c.
       Inr (reset_thresholds k (set_lookup k ((c_lookups c k)\<lparr>lk_entry := None\<rparr>) c)))"

definition handleChangeInternal :: "(state \<Rightarrow> receiver_call list) \<Rightarrow> lid \<Rightarrow> cache \<Rightarrow> (bool \<times> cache) result" where
  "handleChangeInternal ask k c =
     (let l = c_lookups c k; oldKnown = lk_stateKnown l
      in case getState l (state0 []) of
           (nowKnown, newState) \<Rightarrow>
             let c = set_lookup k (l\<lparr>lk_stateKnown := nowKnown\<rparr>) c;
                 different = (oldKnown \<and> \<not> state_equal newState (lk_cachedState l));
                 stateChanged = (oldKnown \<noteq> nowKnown \<or> nowKnown \<and> different)
             in if nowKnown then
                  bindE (if different then invalidateOldState k c else Inr c) (\<lambda>c.
                  case ensureStateCacheEntry newState c of (a, c) \<Rightarrow>
                    bindE (ensureRegistered ask k
                            (set_lookup k ((c_lookups c k)\<lparr>lk_cachedState := newState, lk_entry := Some a\<rparr>) c))
                      (\<lambda>c. Inr (stateChanged, c)))
                else if oldKnown then bindE (invalidateOldState k c) (\<lambda>c. Inr (stateChanged, c))
                else Inr (stateChanged, c))"

definition lookup_handleChange :: "(state \<Rightarrow> receiver_call list) \<Rightarrow> lid \<Rightarrow> cache \<Rightarrow> cache result" where
  "lookup_handleChange ask k c =
     bindE (handleChangeInternal ask k c) (\<lambda>(changed, c).
     bindE (if lk_on_change (c_lookups c k) then updateInternal k changed c else Inr (changed, c)) (\<lambda>(changed, c).
       Inr (if changed then lookup_publishChange k c else c)))"

definition base_handleActivate :: "(state \<Rightarrow> receiver_call list) \<Rightarrow> lid \<Rightarrow> cache \<Rightarrow> cache result" where
  "base_handleActivate ask k c =
     (let l = c_lookups c k;
          l = (if lk_stateIsConstant l then l
               else case getState l (lk_cachedState l) of
                      (ok, st) \<Rightarrow> l\<lparr>lk_stateKnown := ok, lk_cachedState := st\<rparr>);
          c = set_lookup k l c;
          c = (if lk_entry l = None \<and> lk_stateKnown l
               then (case ensureStateCacheEntry (lk_cachedState l) c of
                       (a, c) \<Rightarrow> set_lookup k (l\<lparr>lk_entry := Some a\<rparr>) c)
               else c)
      in if lk_entry (c_lookups c k) \<noteq> None then ensureRegistered ask k c else Inr c)"

definition lookup_handleActivate :: "(state \<Rightarrow> receiver_call list) \<Rightarrow> lid \<Rightarrow> cache \<Rightarrow> cache result" where
  "lookup_handleActivate ask k c =
     bindE (base_handleActivate ask k c) (\<lambda>c.
       if \<not> lk_on_change (c_lookups c k) then Inr c
       else bindE (updateInternal k True c) (\<lambda>(_, c).
            bindE (lookup_isKnown k c) (\<lambda>ok.
              Inr (if ok then lookup_publishChange k c else c))))"

definition lookup_handleDeactivate :: "lid \<Rightarrow> cache \<Rightarrow> cache result" where
  "lookup_handleDeactivate k c =
     bindE (if lk_stateKnown (c_lookups c k) then lookup_unregister k c else Inr c) (\<lambda>c.
       let l = c_lookups c k;
           c = (if lk_stateIsConstant l then c else set_lookup k (l\<lparr>lk_entry := None\<rparr>) c)
       in Inr (reset_thresholds k c))"

definition lookup_activate :: "(state \<Rightarrow> receiver_call list) \<Rightarrow> lid \<Rightarrow> cache \<Rightarrow> cache result" where
  "lookup_activate ask k c =
     (let l = c_lookups c k;
          c = set_lookup k (l\<lparr>lk_activeCount := Suc (lk_activeCount l)\<rparr>) c
      in if lk_activeCount l = 0 then lookup_handleActivate ask k c else Inr c)"

definition lookup_deactivate :: "lid \<Rightarrow> cache \<Rightarrow> cache result" where
  "lookup_deactivate k c =
     (let l = c_lookups c k
      in bindE (check AssertFailed (lk_activeCount l \<noteq> 0)) (\<lambda>_.
           let c = set_lookup k (l\<lparr>lk_activeCount := lk_activeCount l - 1\<rparr>) c
           in if lk_activeCount l = 1 then lookup_handleDeactivate k c else Inr c))"

text \<open>The values under a lookup change; if it is active it hears of it.\<close>

definition change_inputs :: "(state \<Rightarrow> receiver_call list) \<Rightarrow> lid \<Rightarrow> string option \<Rightarrow> pvalue list option \<Rightarrow> pvalue
    \<Rightarrow> cache \<Rightarrow> cache result" where
  "change_inputs ask k name params tol c =
     (let c = set_lookup k ((c_lookups c k)\<lparr>lk_name := name, lk_params := params, lk_tolerance := tol\<rparr>) c
      in if lk_active (c_lookups c k) then lookup_handleChange ask k c else Inr c)"

definition new_lookup :: "bool \<Rightarrow> value_type \<Rightarrow> bool \<Rightarrow> string option \<Rightarrow> pvalue list option \<Rightarrow> pvalue \<Rightarrow> lookup result" where
  "new_lookup on_change declaredType stateIsConstant name params tol =
     (let l = \<lparr>lk_on_change = on_change, lk_name = name, lk_params = params, lk_tolerance = tol,
               lk_activeCount = 0, lk_cachedState = state0 [], lk_entry = None,
               lk_declaredType = declaredType, lk_stateKnown = False,
               lk_stateIsConstant = stateIsConstant, lk_isRegistered = False,
               lk_thresholds = None, lk_cachedValue = None\<rparr>
      in if \<not> stateIsConstant then Inr l
         else (case getState l (state0 []) of
                 (ok, st) \<Rightarrow>
                   bindE (check PlanError ok) (\<lambda>_. Inr (l\<lparr>lk_cachedState := st, lk_stateKnown := True\<rparr>))))"

end
