(* ===== verification/Cache_Types.thy ===== *)
theory Cache_Types
  imports State_Cache
begin

text \<open>
  The types of cached values (StateCacheEntry.cc, CachedValueImpl.cc): once an entry has a
  value of some type it never holds one of another type, whatever the interface sends, whatever
  the lookups do, and whatever happens to other entries.
\<close>

section \<open>Histories\<close>

text \<open>What happens to the state cache and its lookups from outside.\<close>

datatype cache_op =
    Activate lid
  | Deactivate lid
  | ChangeInputs lid "string option" "pvalue list option" pvalue
  | LookupReturn state pvalue
  | Receive addr receiver_call
  | NextCycle
  | QueryTime
  | MessageReceived message
  | MessageQueueEmpty
  | AssignMessageHandle message string
  | ReleaseMessageHandle string

fun run_op :: "(state \<Rightarrow> receiver_call list) \<Rightarrow> cache_op \<Rightarrow> cache \<Rightarrow> cache result" where
  "run_op ask (Activate k) c = lookup_activate ask k c"
| "run_op ask (Deactivate k) c = lookup_deactivate k c"
| "run_op ask (ChangeInputs k name params tol) c = change_inputs ask k name params tol c"
| "run_op ask (LookupReturn st val) c = lookupReturn st val c"
| "run_op ask (Receive a r) c = receive a r c"
| "run_op ask NextCycle c = Inr (incrementCycleCount c)"
| "run_op ask QueryTime c = bindE (queryTime ask c) (\<lambda>(_, c). Inr c)"
| "run_op ask (MessageReceived msg) c = messageReceived msg c"
| "run_op ask MessageQueueEmpty c = messageQueueEmpty c"
| "run_op ask (AssignMessageHandle msg handle) c = assignMessageHandle msg handle c"
| "run_op ask (ReleaseMessageHandle handle) c = releaseMessageHandle handle c"

definition run_ops :: "(state \<Rightarrow> receiver_call list) \<Rightarrow> cache_op list \<Rightarrow> cache \<Rightarrow> cache result" where
  "run_ops ask = forE (run_op ask)"

section \<open>The invariant\<close>

text \<open>
  All cached values are well typed, new entries get addresses not used before, and the entries
  at the addresses \<open>a\<close>, as long as they are there, have the type \<open>t\<close>.
\<close>

definition entry_ok :: "entry \<Rightarrow> bool" where
  "entry_ok e \<longleftrightarrow> (\<forall>cv. en_value e = Some cv \<longrightarrow> cached_ok cv)"

definition typed_at :: "addr set \<Rightarrow> value_type \<Rightarrow> cache \<Rightarrow> bool" where
  "typed_at a t c \<longleftrightarrow>
     (\<forall>b e. c_entries c b = Some e \<longrightarrow> entry_ok e \<and> b < c_next c)
     \<and> (\<forall>b\<in>a. b < c_next c \<and> (\<forall>e. c_entries c b = Some e \<longrightarrow> en_valueType e = t))"

lemma typed_at_frame:
  "c_entries c' = c_entries c \<Longrightarrow> c_next c' = c_next c \<Longrightarrow> typed_at a t c' = typed_at a t c"
  by (simp add: typed_at_def)

lemma typed_at_simps [simp]:
  "typed_at a t (set_lookup k l c) = typed_at a t c"
  "typed_at a t (emit ev c) = typed_at a t c"
  "typed_at a t (lookup_publishChange k c) = typed_at a t c"
  "typed_at a t (reset_thresholds k c) = typed_at a t c"
  "typed_at a t (incrementCycleCount c) = typed_at a t c"
  "typed_at a t (c\<lparr>c_timeEntry := x\<rparr>) = typed_at a t c"
  by (auto intro!: typed_at_frame simp: set_lookup_def emit_def lookup_publishChange_def
      reset_thresholds_def incrementCycleCount_def Let_def)

lemma typed_at_entry: "typed_at a t c \<Longrightarrow> entry_at b c = Inr e \<Longrightarrow> entry_ok e"
  by (auto simp: typed_at_def entry_at_def split: option.splits)

text \<open>An entry may be replaced by one that is well typed and whose type, if it had one, is the same.\<close>

definition keeps_type :: "entry \<Rightarrow> entry \<Rightarrow> bool" where
  "keeps_type e e' \<longleftrightarrow>
     (entry_ok e \<longrightarrow> entry_ok e') \<and> (en_valueType e \<noteq> UNKNOWN_TYPE \<longrightarrow> en_valueType e' = en_valueType e)"

lemma set_entry_typed:
  assumes "typed_at a t c" and "t \<noteq> UNKNOWN_TYPE" and "entry_at b c = Inr e" and "keeps_type e e'"
  shows "typed_at a t (set_entry b e' c)"
  using assms by (auto simp: typed_at_def set_entry_def entry_at_def keeps_type_def split: option.splits)

lemma keeps_type_same: "en_value e' = en_value e \<Longrightarrow> keeps_type e e'"
  by (simp add: keeps_type_def entry_ok_def en_valueType_def)

lemma store_thresholds_value:
  assumes "store_thresholds vt hi lo ts e = Inr e'"
  shows "en_value e' = en_value e"
proof -
  obtain e1 where e1: "(case en_low e of
        None \<Rightarrow> bindE (cachedValueFactory vt) (\<lambda>cv. Inr (e\<lparr>en_low := Some cv, en_high := Some cv\<rparr>))
      | Some _ \<Rightarrow> Inr e) = Inr e1"
    and e': "(case (en_low e1, en_high e1) of
        (Some low, Some high) \<Rightarrow>
          bindE (cv_update_native ts lo low) (\<lambda>(_, low).
          bindE (cv_update_native ts hi high) (\<lambda>(_, high).
            Inr (e1\<lparr>en_low := Some low, en_high := Some high\<rparr>)))
      | _ \<Rightarrow> Inl NullPointer) = Inr e'"
    using assms unfolding store_thresholds_def by (rule bindE_InrE)
  from e1 have "en_value e1 = en_value e" by (auto split: option.splits)
  moreover from e' have "en_value e' = en_value e1" by (auto split: option.splits)
  ultimately show ?thesis by simp
qed

lemma forget_thresholds_value: "forget_thresholds ts e = Inr e' \<Longrightarrow> en_value e' = en_value e"
  by (auto simp: forget_thresholds_def split: option.splits)

lemma ensureCachedValue_keeps: "ensureCachedValue vt e = Inr (ok, e') \<Longrightarrow> keeps_type e e'"
  by (auto simp: ensureCachedValue_def keeps_type_def entry_ok_def en_valueType_def Let_def
      split: option.splits if_splits dest: factory_ok)

section \<open>Every operation keeps it\<close>

text \<open>An entry that is replaced by one with the same value keeps the invariant.\<close>

lemma set_entry_same:
  "typed_at a t c \<Longrightarrow> t \<noteq> UNKNOWN_TYPE \<Longrightarrow> entry_at b c = Inr e \<Longrightarrow> en_value e' = en_value e \<Longrightarrow>
     typed_at a t (set_entry b e' c)"
  by (rule set_entry_typed [OF _ _ _ keeps_type_same])

lemma integerUpdateThresholds_typed:
  assumes "typed_at a t c" and "t \<noteq> UNKNOWN_TYPE" and "integerUpdateThresholds b st c = Inr (h, c')"
  shows "typed_at a t c'"
  using assms unfolding integerUpdateThresholds_def
  by (auto split: option.splits prod.splits dest!: store_thresholds_value forget_thresholds_value)
    (erule (3) set_entry_same)+

lemma realUpdateThresholds_typed:
  assumes "typed_at a t c" and "t \<noteq> UNKNOWN_TYPE" and "realUpdateThresholds b st c = Inr (h, c')"
  shows "typed_at a t c'"
  using assms unfolding realUpdateThresholds_def
  by (auto split: option.splits prod.splits dest!: store_thresholds_value forget_thresholds_value)
    (erule (3) set_entry_same)+

lemma updateThresholds_typed:
  assumes "t \<noteq> UNKNOWN_TYPE"
  shows "preserves (typed_at a t) (updateThresholds b st)"
proof (rule preservesI)
  fix c c'
  assume P: "typed_at a t c" and run: "updateThresholds b st c = Inr c'"
  from run obtain e cv where "entry_at b c = Inr e" and "en_value e = Some cv"
    by (auto simp: updateThresholds_def split: option.splits)
  then have run: "(if cv_type cv \<in> {INTEGER_TYPE, DATE_TYPE, DURATION_TYPE, REAL_TYPE} then
           bindE (if cv_type cv = INTEGER_TYPE then integerUpdateThresholds b st c
                  else realUpdateThresholds b st c) (\<lambda>(hasThresholds, c).
             if hasThresholds then Inr c
             else bindE (entry_at b c) (\<lambda>e. Inr (set_entry b (e\<lparr>en_low := None, en_high := None\<rparr>) c)))
         else Inr c) = Inr c'"
    using run by (simp add: updateThresholds_def)
  show "typed_at a t c'"
  proof (cases "cv_type cv \<in> {INTEGER_TYPE, DATE_TYPE, DURATION_TYPE, REAL_TYPE}")
    case False
    then show ?thesis using P run by simp
  next
    case True
    then obtain h c1 where
      upd: "(if cv_type cv = INTEGER_TYPE then integerUpdateThresholds b st c else realUpdateThresholds b st c) = Inr (h, c1)"
      and last: "(if h then Inr c1
        else bindE (entry_at b c1) (\<lambda>e. Inr (set_entry b (e\<lparr>en_low := None, en_high := None\<rparr>) c1))) = Inr c'"
      using run by (auto split: prod.splits)
    have "typed_at a t c1"
      using upd integerUpdateThresholds_typed [OF P assms] realUpdateThresholds_typed [OF P assms]
      by (cases "cv_type cv = INTEGER_TYPE") auto
    then show ?thesis using last by (cases h) (auto intro: set_entry_same [OF _ assms])
  qed
qed

lemma updateInternal_typed:
  assumes "typed_at a t c" and "t \<noteq> UNKNOWN_TYPE" and "updateInternal k changed c = Inr (h, c')"
  shows "typed_at a t c'"
proof -
  have upd: "typed_at a t c2" if "updateThresholds b st (set_lookup k l c) = Inr c2" for b st l c2
    using preservesD [OF updateThresholds_typed [OF assms(2)] _ that] assms(1) by simp
  have "returns (updateInternal k changed c) (\<lambda>(h, c'). typed_at a t c')"
    unfolding updateInternal_def Let_def
    by (intro returns_intros) (auto simp: assms(1) dest: upd split: thresholds.split)
  then show ?thesis using assms(3) by (auto dest: returnsD)
qed

lemma lookup_valueChanged_typed:
  "t \<noteq> UNKNOWN_TYPE \<Longrightarrow> preserves (typed_at a t) (lookup_valueChanged k)"
  by (rule preservesI)
    (auto simp: lookup_valueChanged_def Let_def dest: updateInternal_typed split: if_splits)

lemma entry_notify_typed:
  assumes "t \<noteq> UNKNOWN_TYPE"
  shows "preserves (typed_at a t) (entry_notify b)"
proof (rule preservesI)
  fix c c'
  assume P: "typed_at a t c" and run: "entry_notify b c = Inr c'"
  from run obtain ls where "forE lookup_valueChanged ls c = Inr c'"
    unfolding entry_notify_def by (rule bindE_InrE)
  then show "typed_at a t c'"
    using P by (rule forE_preservesD [OF lookup_valueChanged_typed [OF assms], rotated])
qed

text \<open>An update of the cached value of an entry that keeps cached values well typed.\<close>

definition well_behaved :: "(cached_value \<Rightarrow> (bool \<times> cached_value) result) \<Rightarrow> bool" where
  "well_behaved f \<longleftrightarrow> (\<forall>cv ch cv'. cached_ok cv \<longrightarrow> f cv = Inr (ch, cv') \<longrightarrow> cached_ok cv' \<and> cv_type cv' = cv_type cv)"

lemma well_behaved_updates:
  "well_behaved (cv_update_value ts val)" "well_behaved (cv_update_native ts p)"
  by (auto simp: well_behaved_def dest: update_value_ok update_native_ok)

lemma entry_store_typed:
  assumes "t \<noteq> UNKNOWN_TYPE" and "well_behaved f"
  shows "preserves (typed_at a t) (entry_store b vt f)"
proof (rule preservesI)
  fix c c'
  assume P: "typed_at a t c" and run: "entry_store b vt f c = Inr c'"
  then obtain e ok e1 where e: "entry_at b c = Inr e" and e1: "ensureCachedValue vt e = Inr (ok, e1)"
    and rest: "(if \<not> ok then Inr (set_entry b e1 c)
       else (case en_value e1 of
               None \<Rightarrow> Inl NullPointer
             | Some cv \<Rightarrow>
                 bindE (f cv) (\<lambda>(changed, cv).
                   let c = set_entry b (e1\<lparr>en_value := Some cv\<rparr>) c
                   in if changed then entry_notify b c else Inr c))) = Inr c'"
    by (auto simp: entry_store_def)
  have keeps1: "keeps_type e e1" using e1 by (rule ensureCachedValue_keeps)
  have ok1: "entry_ok e1" using keeps1 typed_at_entry [OF P e] by (simp add: keeps_type_def)
  show "typed_at a t c'"
  proof (cases ok)
    case False
    then show ?thesis using rest set_entry_typed [OF P assms(1) e keeps1] by simp
  next
    case True
    then obtain cv changed cv' where cv: "en_value e1 = Some cv" and f: "f cv = Inr (changed, cv')"
      and last: "(if changed then entry_notify b (set_entry b (e1\<lparr>en_value := Some cv'\<rparr>) c)
        else Inr (set_entry b (e1\<lparr>en_value := Some cv'\<rparr>) c)) = Inr c'"
      using rest by (auto simp: Let_def split: option.splits)
    have "cached_ok cv' \<and> cv_type cv' = cv_type cv"
      using assms(2) ok1 cv f unfolding well_behaved_def entry_ok_def by blast
    then have "keeps_type e (e1\<lparr>en_value := Some cv'\<rparr>)"
      using keeps1 cv by (auto simp: keeps_type_def entry_ok_def en_valueType_def)
    then have "typed_at a t (set_entry b (e1\<lparr>en_value := Some cv'\<rparr>) c)"
      using set_entry_typed [OF P assms(1) e] by blast
    then show ?thesis
      using last preservesD [OF entry_notify_typed [OF assms(1)]] by (cases changed) auto
  qed
qed

lemma entry_setUnknown_typed:
  assumes "t \<noteq> UNKNOWN_TYPE"
  shows "preserves (typed_at a t) (entry_setUnknown b)"
proof (rule preservesI)
  fix c c'
  assume P: "typed_at a t c" and run: "entry_setUnknown b c = Inr c'"
  then obtain e where e: "entry_at b c = Inr e" by (auto simp: entry_setUnknown_def)
  show "typed_at a t c'"
  proof (cases "en_value e")
    case None
    then show ?thesis using P run e by (simp add: entry_setUnknown_def)
  next
    case (Some cv)
    obtain changed cv' where u: "cv_setUnknown (c_cycleCount c) cv = (changed, cv')" by fastforce
    have "cached_ok cv" using typed_at_entry [OF P e] Some by (simp add: entry_ok_def)
    then have "keeps_type e (e\<lparr>en_value := Some cv'\<rparr>)"
      using setUnknown_ok [OF _ u] Some by (auto simp: keeps_type_def entry_ok_def en_valueType_def)
    then have "typed_at a t (set_entry b (e\<lparr>en_value := Some cv'\<rparr>) c)"
      using set_entry_typed [OF P assms e] by blast
    then show ?thesis
      using run e Some u preservesD [OF entry_notify_typed [OF assms]]
      by (cases changed) (auto simp: entry_setUnknown_def Let_def)
  qed
qed

lemma receive_typed:
  "t \<noteq> UNKNOWN_TYPE \<Longrightarrow> preserves (typed_at a t) (receive b r)"
  by (cases r; rule preservesI)
    (auto simp: entry_update_def entry_update_native_def
      dest: preservesD [OF entry_store_typed [OF _ well_behaved_updates(1)]]
        preservesD [OF entry_store_typed [OF _ well_behaved_updates(2)]] preservesD [OF entry_setUnknown_typed])

section \<open>Registration, messages, activation\<close>

lemma typed_at_lookup_record [simp]:
  "typed_at a t (c\<lparr>c_lookups := f\<rparr>) = typed_at a t c"
  by (auto intro!: typed_at_frame)

lemma lookupNow_typed:
  assumes "t \<noteq> UNKNOWN_TYPE"
  shows "preserves (typed_at a t) (lookupNow ask st b)"
proof (rule preservesI)
  fix c c'
  assume "typed_at a t c" and run: "lookupNow ask st b c = Inr c'"
  then have "typed_at a t (emit (LookedUp st) c)" by simp
  then show "typed_at a t c'"
    using forE_preservesD [where f = "receive b" and P = "typed_at a t", OF receive_typed [OF assms]] run
    unfolding lookupNow_def by blast
qed

lemma registerLookup_typed:
  assumes "t \<noteq> UNKNOWN_TYPE"
  shows "preserves (typed_at a t) (registerLookup ask b st k)"
proof -
  have "returns (registerLookup ask b st k c) (typed_at a t)" if "typed_at a t c" for c
    unfolding registerLookup_def Let_def
    by (intro returns_intros)
      (auto simp: returns_def that assms intro!: set_entry_same
        elim!: preservesD [OF lookupNow_typed [OF assms], rotated])
  then show ?thesis by (simp add: preserves_returns)
qed

lemma unregisterLookup_typed:
  assumes "t \<noteq> UNKNOWN_TYPE"
  shows "preserves (typed_at a t) (unregisterLookup b st k)"
proof -
  have "returns (unregisterLookup b st k c) (typed_at a t)" if "typed_at a t c" for c
    unfolding unregisterLookup_def Let_def
    by (intro returns_intros)
      (auto simp: returns_def that assms intro!: set_entry_same
        elim!: preservesD [OF updateThresholds_typed [OF assms], rotated])
  then show ?thesis by (simp add: preserves_returns)
qed

lemma ensureStateCacheEntry_typed:
  "typed_at a t c \<Longrightarrow> ensureStateCacheEntry st c = (b, c') \<Longrightarrow> typed_at a t c'"
  by (auto simp: ensureStateCacheEntry_def typed_at_def Let_def new_entry_def entry_ok_def less_Suc_eq
      split: option.splits if_splits)

lemma with_entry_typed:
  "(\<And>b. preserves (typed_at a t) (f b)) \<Longrightarrow> preserves (typed_at a t) (with_entry st f)"
  by (rule preservesI)
    (auto simp: with_entry_def split: prod.splits dest: ensureStateCacheEntry_typed preservesD)

lemma update_entry_typed:
  "t \<noteq> UNKNOWN_TYPE \<Longrightarrow> preserves (typed_at a t) (entry_update_native b p)"
  "t \<noteq> UNKNOWN_TYPE \<Longrightarrow> preserves (typed_at a t) (\<lambda>c. entry_updateValue b val (c_cycleCount c) c)"
  by (auto simp: entry_update_native_def entry_updateValue_def preserves_def
      dest: preservesD [OF entry_store_typed [OF _ well_behaved_updates(1)]]
        preservesD [OF entry_store_typed [OF _ well_behaved_updates(2)]])

lemmas message_typed = with_entry_typed [OF update_entry_typed(1)] with_entry_typed [OF update_entry_typed(2)]
  with_entry_typed [OF entry_setUnknown_typed]

lemma messageReceived_typed:
  "t \<noteq> UNKNOWN_TYPE \<Longrightarrow> preserves (typed_at a t) (messageReceived msg)"
  unfolding messageReceived_def by (rule preserves_seqs) (auto intro: message_typed)

lemma messageQueueEmpty_typed:
  "t \<noteq> UNKNOWN_TYPE \<Longrightarrow> preserves (typed_at a t) messageQueueEmpty"
  unfolding messageQueueEmpty_def by (rule preserves_seqs) (auto intro: message_typed)

lemma assignMessageHandle_typed:
  "t \<noteq> UNKNOWN_TYPE \<Longrightarrow> preserves (typed_at a t) (assignMessageHandle msg handle)"
  unfolding assignMessageHandle_def Let_def
  by (rule preserves_seqs) (auto intro: message_typed intro!: preserves_forE)

lemma erase_entry_typed: "typed_at a t c \<Longrightarrow> typed_at a t (erase_entry st b c)"
  by (auto simp: typed_at_def erase_entry_def)

lemma deleteStateCacheEntry_typed: "preserves (typed_at a t) (deleteStateCacheEntry st)"
  by (rule preservesI) (auto simp: deleteStateCacheEntry_def erase_entry_typed split: option.splits if_splits)

lemma releaseMessageHandle_typed: "preserves (typed_at a t) (releaseMessageHandle handle)"
proof -
  have release: "preserves (typed_at a t) (seqs
      [\<lambda>c. Inr (erase_entry st b c),
       forE (\<lambda>i. deleteStateCacheEntry (f i)) xs,
       deleteStateCacheEntry st1, deleteStateCacheEntry st2, deleteStateCacheEntry st3])" for st b f xs st1 st2 st3
    by (rule preserves_seqs)
      (auto intro!: preserves_forE deleteStateCacheEntry_typed preservesI [of _ "\<lambda>c. Inr (erase_entry st b c)"]
        erase_entry_typed)
  have "returns (releaseMessageHandle handle c) (typed_at a t)" if "typed_at a t c" for c
    unfolding releaseMessageHandle_def Let_def
    by (intro returns_intros) (auto simp: returns_def that simp del: seqs.simps elim!: preservesD [OF release, rotated])
  then show ?thesis by (simp add: preserves_returns)
qed

lemma ensureRegistered_typed:
  assumes "t \<noteq> UNKNOWN_TYPE"
  shows "preserves (typed_at a t) (ensureRegistered ask k)"
proof -
  have "returns (ensureRegistered ask k c) (typed_at a t)" if "typed_at a t c" for c
    unfolding ensureRegistered_def Let_def
    by (intro returns_intros) (auto simp: that dest: preservesD [OF registerLookup_typed [OF assms] that])
  then show ?thesis by (simp add: preserves_returns)
qed

lemma lookup_unregister_typed:
  assumes "t \<noteq> UNKNOWN_TYPE"
  shows "preserves (typed_at a t) (lookup_unregister k)"
proof -
  have "returns (lookup_unregister k c) (typed_at a t)" if "typed_at a t c" for c
    unfolding lookup_unregister_def Let_def
    by (intro returns_intros) (auto simp: that dest: preservesD [OF unregisterLookup_typed [OF assms] that])
  then show ?thesis by (simp add: preserves_returns)
qed

lemma invalidateOldState_typed:
  "t \<noteq> UNKNOWN_TYPE \<Longrightarrow> preserves (typed_at a t) (invalidateOldState k)"
  by (rule preservesI) (auto simp: invalidateOldState_def dest: preservesD [OF lookup_unregister_typed])

lemma handleChangeInternal_typed:
  assumes "typed_at a t c" and "t \<noteq> UNKNOWN_TYPE" and "handleChangeInternal ask k c = Inr (h, c')"
  shows "typed_at a t c'"
proof -
  have old: "typed_at a t c1" if "invalidateOldState k (set_lookup k l c) = Inr c1" for l c1
    using preservesD [OF invalidateOldState_typed [OF assms(2)] _ that] assms(1) by simp
  have new: "typed_at a t c3"
    if "typed_at a t c1" "ensureStateCacheEntry st c1 = (b, c2)"
      "ensureRegistered ask k (set_lookup k l c2) = Inr c3" for st c1 b c2 l c3
    using preservesD [OF ensureRegistered_typed [OF assms(2)] _ that(3)]
      ensureStateCacheEntry_typed [OF that(1,2)] by simp
  have "returns (handleChangeInternal ask k c) (\<lambda>(h, c'). typed_at a t c')"
    unfolding handleChangeInternal_def Let_def
    by (intro returns_intros) (auto simp: assms(1) split: if_splits dest: old new [rotated] intro: new [OF _ _ _])
  then show ?thesis using assms(3) by (auto dest: returnsD)
qed

lemma lookup_handleChange_typed:
  assumes "t \<noteq> UNKNOWN_TYPE"
  shows "preserves (typed_at a t) (lookup_handleChange ask k)"
proof -
  have "returns (lookup_handleChange ask k c) (typed_at a t)" if "typed_at a t c" for c
    unfolding lookup_handleChange_def Let_def
    by (intro returns_intros)
      (auto split: if_splits dest: handleChangeInternal_typed [OF that assms] updateInternal_typed [OF _ assms])
  then show ?thesis by (simp add: preserves_returns)
qed

lemma base_handleActivate_typed:
  assumes "t \<noteq> UNKNOWN_TYPE"
  shows "preserves (typed_at a t) (base_handleActivate ask k)"
proof -
  have "returns (base_handleActivate ask k c) (typed_at a t)" if P: "typed_at a t c" for c
  proof -
    define l where "l = (if lk_stateIsConstant (c_lookups c k) then c_lookups c k
      else case getState (c_lookups c k) (lk_cachedState (c_lookups c k)) of
        (ok, st) \<Rightarrow> (c_lookups c k)\<lparr>lk_stateKnown := ok, lk_cachedState := st\<rparr>)"
    define c1 where "c1 = (if lk_entry l = None \<and> lk_stateKnown l
      then (case ensureStateCacheEntry (lk_cachedState l) (set_lookup k l c) of
         (a, c) \<Rightarrow> set_lookup k (l\<lparr>lk_entry := Some a\<rparr>) c)
      else set_lookup k l c)"
    have "typed_at a t c1"
      using P ensureStateCacheEntry_typed [of a t "set_lookup k l c"] by (auto simp: c1_def split: prod.splits)
    moreover have "base_handleActivate ask k c =
      (if lk_entry (c_lookups c1 k) \<noteq> None then ensureRegistered ask k c1 else Inr c1)"
      unfolding base_handleActivate_def Let_def l_def c1_def by (rule refl)
    ultimately show ?thesis
      using preservesD [OF ensureRegistered_typed [OF assms]] by (auto simp: returns_def split: if_splits)
  qed
  then show ?thesis by (simp add: preserves_returns)
qed

lemma lookup_handleActivate_typed:
  assumes "t \<noteq> UNKNOWN_TYPE"
  shows "preserves (typed_at a t) (lookup_handleActivate ask k)"
proof -
  have "returns (lookup_handleActivate ask k c) (typed_at a t)" if "typed_at a t c" for c
    unfolding lookup_handleActivate_def Let_def
    by (intro returns_intros)
      (auto split: if_splits dest: preservesD [OF base_handleActivate_typed [OF assms] that]
        updateInternal_typed [OF _ assms])
  then show ?thesis by (simp add: preserves_returns)
qed

lemma lookup_handleDeactivate_typed:
  assumes "t \<noteq> UNKNOWN_TYPE"
  shows "preserves (typed_at a t) (lookup_handleDeactivate k)"
proof -
  have "returns (lookup_handleDeactivate k c) (typed_at a t)" if "typed_at a t c" for c
    unfolding lookup_handleDeactivate_def Let_def
    by (intro returns_intros)
      (auto split: if_splits dest: preservesD [OF lookup_unregister_typed [OF assms] that] simp: that)
  then show ?thesis by (simp add: preserves_returns)
qed

lemma lookup_activate_typed:
  assumes "t \<noteq> UNKNOWN_TYPE"
  shows "preserves (typed_at a t) (lookup_activate ask k)" "preserves (typed_at a t) (lookup_deactivate k)"
    "preserves (typed_at a t) (change_inputs ask k name params tol)"
proof -
  have "returns (lookup_activate ask k c) (typed_at a t)" "returns (lookup_deactivate k c) (typed_at a t)"
    "returns (change_inputs ask k name params tol c) (typed_at a t)" if "typed_at a t c" for c
    unfolding lookup_activate_def lookup_deactivate_def change_inputs_def Let_def
    by (auto simp: that returns_def
        intro: preservesD [OF lookup_handleActivate_typed [OF assms], of a "set_lookup k l c" for l]
          preservesD [OF lookup_handleDeactivate_typed [OF assms], of a "set_lookup k l c" for l]
          preservesD [OF lookup_handleChange_typed [OF assms], of a "set_lookup k l c" for l])
  then show "preserves (typed_at a t) (lookup_activate ask k)" "preserves (typed_at a t) (lookup_deactivate k)"
    "preserves (typed_at a t) (change_inputs ask k name params tol)"
    by (simp_all add: preserves_returns)
qed

lemma ensureTimeEntry_typed:
  assumes "t \<noteq> UNKNOWN_TYPE" and "typed_at a t c" and "ensureTimeEntry c = Inr (b, c')"
  shows "typed_at a t c'"
proof -
  have "typed_at a t c2"
    if "ensureStateCacheEntry timeState c = (x, c1)" "entry_updateValue x v ts (c1\<lparr>c_timeEntry := y\<rparr>) = Inr c2" for x c1 v ts y c2
    using preservesD [OF entry_store_typed [OF assms(1) well_behaved_updates(1)] _ that(2) [unfolded entry_updateValue_def]]
      ensureStateCacheEntry_typed [OF assms(2) that(1)] by simp
  then show ?thesis
    using assms(2,3) unfolding ensureTimeEntry_def by (auto split: option.splits prod.splits)
qed

lemma queryTime_typed:
  assumes "t \<noteq> UNKNOWN_TYPE" and "typed_at a t c" and "queryTime ask c = Inr (r, c')"
  shows "typed_at a t c'"
proof -
  obtain b c1 c2 where 1: "ensureTimeEntry c = Inr (b, c1)" and 2: "lookupNow ask timeState b c1 = Inr c2"
    and 3: "currentTime c2 = Inr (r, c')"
    using assms(3) by (auto simp: queryTime_def)
  from 3 obtain b' where "ensureTimeEntry c2 = Inr (b', c')"
    by (auto simp: currentTime_def split: option.splits)
  then show ?thesis
    using ensureTimeEntry_typed [OF assms(1)] preservesD [OF lookupNow_typed [OF assms(1)] _ 2] 1 assms(2) by blast
qed

lemma run_op_eqs:
  "run_op ask (Activate k) = lookup_activate ask k"
  "run_op ask (Deactivate k) = lookup_deactivate k"
  "run_op ask (ChangeInputs k name params tol) = change_inputs ask k name params tol"
  "run_op ask (LookupReturn st val) = lookupReturn st val"
  "run_op ask (Receive b r) = receive b r"
  "run_op ask (MessageReceived msg) = messageReceived msg"
  "run_op ask MessageQueueEmpty = messageQueueEmpty"
  "run_op ask (AssignMessageHandle msg handle) = assignMessageHandle msg handle"
  "run_op ask (ReleaseMessageHandle handle) = releaseMessageHandle handle"
  by (simp_all add: fun_eq_iff)

lemma lookupReturn_typed: "t \<noteq> UNKNOWN_TYPE \<Longrightarrow> preserves (typed_at a t) (lookupReturn st val)"
proof -
  have "lookupReturn st val = with_entry st (\<lambda>a c. entry_updateValue a val (c_cycleCount c) c)"
    by (simp add: fun_eq_iff lookupReturn_def)
  then show "t \<noteq> UNKNOWN_TYPE \<Longrightarrow> preserves (typed_at a t) (lookupReturn st val)"
    using with_entry_typed [OF update_entry_typed(2)] by simp
qed

lemma run_op_typed:
  assumes "t \<noteq> UNKNOWN_TYPE"
  shows "preserves (typed_at a t) (run_op ask op)"
proof (cases op)
  case NextCycle
  then show ?thesis by (simp add: preserves_def)
next
  case QueryTime
  then show ?thesis using queryTime_typed [OF assms] by (auto simp: preserves_def)
qed (simp_all add: run_op_eqs lookup_activate_typed [OF assms] receive_typed [OF assms] lookupReturn_typed [OF assms]
    messageReceived_typed [OF assms] messageQueueEmpty_typed [OF assms] assignMessageHandle_typed [OF assms]
    releaseMessageHandle_typed)

section \<open>The type of an entry is fixed\<close>

text \<open>The cache as it is constructed, with the lookups of a plan.\<close>

definition empty_cache :: "(lid \<Rightarrow> lookup) \<Rightarrow> cache" where
  "empty_cache ls =
     \<lparr>c_map = [], c_entries = \<lambda>_. None, c_next = 0, c_cycleCount = 1, c_timeEntry = None,
      c_lookups = ls, c_events = []\<rparr>"

text \<open>
  Property C10. Take any history of the state cache and the lookups: activation, change and
  deactivation of lookups, values and messages from the interface, queries of the time. If an
  entry has a value of some type at one moment, then at every later moment, as long as the entry
  is not deleted, its cached value has that type, also when it is unknown.
\<close>

theorem entry_type_fixed:
  assumes before: "run_ops ask ops (empty_cache ls) = Inr c1" and "entry_at a c1 = Inr e1"
    and known_type: "en_valueType e1 \<noteq> UNKNOWN_TYPE"
    and later: "run_ops ask ops' c1 = Inr c2" and e2: "entry_at a c2 = Inr e2"
  shows "map_option (\<lambda>cv. valueType (cv_toValue cv)) (en_value e2) = Some (en_valueType e1)"
proof -
  have run: "typed_at s t c'" if "typed_at s t c" "run_ops ask xs c = Inr c'" "t \<noteq> UNKNOWN_TYPE" for s t xs c c'
    using forE_preservesD [where f = "run_op ask" and P = "typed_at s t", OF run_op_typed [OF that(3)] that(1)] that(2)
    unfolding run_ops_def by blast
  have "typed_at {} BOOLEAN_TYPE (empty_cache ls)" by (simp add: typed_at_def empty_cache_def)
  then have "typed_at {} BOOLEAN_TYPE c1" using run before by simp
  then have "typed_at {a} (en_valueType e1) c1"
    using assms(2) by (auto simp: typed_at_def entry_at_def split: option.splits)
  then have P: "typed_at {a} (en_valueType e1) c2" using run later known_type by blast
  then have "en_valueType e2 = en_valueType e1" "entry_ok e2"
    using e2 by (auto simp: typed_at_def entry_at_def split: option.splits)
  then show ?thesis
    using known_type by (auto simp: en_valueType_def entry_ok_def toValue_type split: option.splits)
qed

definition type_history :: "cache_op list" where
  "type_history = [LookupReturn timeState (Known (BooleanVal True))]"

definition type_history' :: "cache_op list" where
  "type_history' = [LookupReturn timeState (Known (StringVal ''noon'')), NextCycle, Receive 0 ReceiveUnknown]"

theorem entry_type_fixed_witness:
  "\<forall>ls. \<exists>c1 c2 e2. run_ops (\<lambda>_. []) type_history (empty_cache ls) = Inr c1
     \<and> run_ops (\<lambda>_. []) type_history' c1 = Inr c2 \<and> entry_at 0 c2 = Inr e2
     \<and> map_option (\<lambda>cv. valueType (cv_toValue cv)) (en_value e2) = Some BOOLEAN_TYPE"
proof
  fix ls
  have 1: "\<exists>c1 e1 c2 e2. run_ops (\<lambda>_. []) type_history (empty_cache ls) = Inr c1 \<and> entry_at 0 c1 = Inr e1
     \<and> en_valueType e1 = BOOLEAN_TYPE \<and> run_ops (\<lambda>_. []) type_history' c1 = Inr c2 \<and> entry_at 0 c2 = Inr e2"
    by (simp add: run_ops_def type_history_def type_history'_def empty_cache_def lookupReturn_def with_entry_def
        ensureStateCacheEntry_def timeState_def entry_updateValue_def entry_store_def
        entry_at_def new_entry_def ensureCachedValue_def cachedValueFactory_def new_cached_def set_entry_def
        cv_update_value_def native_value_def cv_store_def entry_notify_def incrementCycleCount_def
        entry_setUnknown_def cv_setUnknown_def en_valueType_def state_less_def same_key_def)
  then show "\<exists>c1 c2 e2. run_ops (\<lambda>_. []) type_history (empty_cache ls) = Inr c1
     \<and> run_ops (\<lambda>_. []) type_history' c1 = Inr c2 \<and> entry_at 0 c2 = Inr e2
     \<and> map_option (\<lambda>cv. valueType (cv_toValue cv)) (en_value e2) = Some BOOLEAN_TYPE"
    using entry_type_fixed [of "\<lambda>_. []" type_history ls] by (metis value_type.distinct(1))
qed

end
