(* ===== verification/Lookup_Watch.thy ===== *)
theory Lookup_Watch
  imports Cache_Types
begin

text \<open>
  What \<open>LookupOnChange\<close> promises for integers (src/src/intfc/Lookup.cc): it shows a value of
  the past until the value of the state has moved away from it by the tolerance, and tells its
  listeners then; and the interface is told thresholds that are exact for all such lookups of a
  state taken together.
\<close>

section \<open>Integers in cached values\<close>

text \<open>An integer value, or none.\<close>

definition integer_value :: "integer option \<Rightarrow> pvalue" where
  "integer_value v = (case v of Some i \<Rightarrow> Known (IntegerVal i) | None \<Rightarrow> Unknown INTEGER_TYPE)"

definition integer_shows :: "integer option \<Rightarrow> cached_value \<Rightarrow> bool" where
  "integer_shows v cv \<longleftrightarrow> cached_ok cv \<and> cv_type cv = INTEGER_TYPE \<and> cv_toValue cv = integer_value v"

lemma integer_value_simps [simp]:
  "integer_value (Some i) = Known (IntegerVal i)" "integer_value None = Unknown INTEGER_TYPE"
  by (simp_all add: integer_value_def)

lemma shows_getInteger: "integer_shows v cv \<Longrightarrow> cv_getInteger cv = Inr v"
  by (cases v) (auto simp: integer_shows_def cv_getInteger_def)

lemma shows_known: "integer_shows v cv \<Longrightarrow> cv_known cv \<longleftrightarrow> v \<noteq> None"
  by (cases v) (auto simp: integer_shows_def cv_toValue_def cached_ok_def split: if_splits option.splits)

lemma shows_assign: "integer_shows v own \<Longrightarrow> integer_shows w cv \<Longrightarrow> cv_assign own cv = Inr cv"
  by (simp add: integer_shows_def cv_assign_def)

section \<open>Lookups that watch\<close>

text \<open>
  An active lookup on change of the entry at \<open>a\<close> with tolerance \<open>tol\<close>, whose thresholds are
  around \<open>i\<close>. It shows \<open>i\<close>, or, where \<open>kn\<close> is false, nothing.
\<close>

definition integer_watch :: "addr \<Rightarrow> integer \<Rightarrow> integer \<Rightarrow> bool \<Rightarrow> lookup \<Rightarrow> bool" where
  "integer_watch a tol i kn l \<longleftrightarrow>
     lk_on_change l \<and> lk_active l \<and> lk_entry l = Some a
     \<and> lk_tolerance l = Known (IntegerVal tol) \<and> 0 \<le> sint tol
     \<and> in_range (sint i - sint tol) \<and> in_range (sint i + sint tol)
     \<and> lk_thresholds l = Some (IntegerThresholds
          \<lparr>th_bounds = Some \<lparr>b_low = i - tol, b_high = i + tol, b_tolerance = tol\<rparr>, th_wasKnown = kn\<rparr>)
     \<and> (\<exists>own. lk_cachedValue l = Some own \<and> integer_shows (if kn then Some i else None) own)"

text \<open>The value of the state is outside of the thresholds.\<close>

definition exceeds :: "integer \<Rightarrow> integer \<Rightarrow> bool \<Rightarrow> integer option \<Rightarrow> bool" where
  "exceeds tol i kn v = (case v of None \<Rightarrow> kn | Some v \<Rightarrow> sint tol \<le> \<bar>sint v - sint i\<bar>)"

definition moved :: "integer \<Rightarrow> integer \<Rightarrow> bool \<Rightarrow> integer option \<Rightarrow> integer \<times> bool" where
  "moved tol i kn v =
     (if exceeds tol i kn v then (case v of None \<Rightarrow> (i, False) | Some v \<Rightarrow> (v, True)) else (i, kn))"

text \<open>The entry has an integer value, and thresholds of the same type.\<close>

definition integer_cached :: "cached_value option \<Rightarrow> bool" where
  "integer_cached x \<longleftrightarrow> (\<exists>cv. x = Some cv \<and> cached_ok cv \<and> cv_type cv = INTEGER_TYPE)"

definition integer_entry :: "integer option \<Rightarrow> entry \<Rightarrow> bool" where
  "integer_entry v e \<longleftrightarrow>
     (\<exists>cv. en_value e = Some cv \<and> integer_shows v cv)
     \<and> (en_low e = None \<and> en_high e = None \<or> integer_cached (en_low e) \<and> integer_cached (en_high e))"

lemma checked_plus: "checked (sint i + sint j) = (if in_range (sint i + sint j) then Inr (i + j) else Inl SignedOverflow)"
  for i j :: integer
  by (simp add: checked_def)

lemma checked_minus: "checked (sint i - sint j) = (if in_range (sint i - sint j) then Inr (i - j) else Inl SignedOverflow)"
  for i j :: integer
  by (simp add: checked_def)

lemma sint_plus_range: "in_range (sint i + sint j) \<Longrightarrow> sint (i + j) = sint i + sint j" for i j :: integer
  using checked_plus [of i j] by simp

lemma sint_minus_range: "in_range (sint i - sint j) \<Longrightarrow> sint (i - j) = sint i - sint j" for i j :: integer
  using checked_minus [of i j] by simp

lemma watch_exceeds:
  assumes "integer_watch a tol i kn l"
  shows "integer_thresholdsExceeded (Inr v) \<lparr>th_bounds = Some \<lparr>b_low = i - tol, b_high = i + tol, b_tolerance = tol\<rparr>, th_wasKnown = kn\<rparr>
    = Inr (exceeds tol i kn v)"
  using assms
  by (auto simp: integer_thresholdsExceeded_def exceeds_def get_bounds_def integer_watch_def
      sint_plus_range sint_minus_range split: option.split)

lemma integer_threshold_ops_simps [simp]:
  "n_zero integer_threshold_ops = 0"
  "n_add integer_threshold_ops x y = checked (sint x + sint y)"
  "n_sub integer_threshold_ops x y = checked (sint x - sint y)"
  "n_less integer_threshold_ops x y = (sint x < sint y)"
  "n_equal integer_threshold_ops x y = (x = y)"
  by (simp_all add: integer_threshold_ops_def integer_ops_def number_ops.defs)

text \<open>An unchanged tolerance, and new thresholds.\<close>

lemma toleranceChanged_same:
  "0 \<le> sint tol \<Longrightarrow> th_bounds th = Some b \<Longrightarrow> b_tolerance b = tol \<Longrightarrow>
     toleranceChanged integer_threshold_ops (Inr (Some tol)) th = Inr False"
  by (simp add: toleranceChanged_def positive_tolerance_def get_bounds_def)

lemma setThresholds_value:
  "0 \<le> sint tol \<Longrightarrow> in_range (sint v - sint tol) \<Longrightarrow> in_range (sint v + sint tol) \<Longrightarrow>
     setThresholds integer_threshold_ops (Inr (Some v)) (Inr (Some tol)) th =
       Inr \<lparr>th_bounds = Some \<lparr>b_low = v - tol, b_high = v + tol, b_tolerance = tol\<rparr>, th_wasKnown = True\<rparr>"
  by (simp add: setThresholds_def positive_tolerance_def checked_plus checked_minus)

lemma setThresholds_unknown:
  "0 \<le> sint tol \<Longrightarrow>
     setThresholds integer_threshold_ops (Inr None) (Inr (Some tol)) th = Inr (th\<lparr>th_wasKnown := False\<rparr>)"
  by (simp add: setThresholds_def positive_tolerance_def)

section \<open>The thresholds of the interface\<close>

text \<open>
  The survey of thresholds that are all there finds the lowest high and the highest low: a
  number is below the one, or above the other, if it is so for each of them.
\<close>

lemma survey_some:
  assumes "\<And>k. k \<in> set ks \<Longrightarrow> get k = Inr (Some (h k, l k))"
  shows "\<exists>hi' lo'. survey (\<lambda>x y :: integer. sint x < sint y) get ks (Some (hi, lo)) = Inr (Some (hi', lo'))
     \<and> (\<forall>z. z < sint hi' \<longleftrightarrow> z < sint hi \<and> (\<forall>k \<in> set ks. z < sint (h k)))
     \<and> (\<forall>z. sint lo' < z \<longleftrightarrow> sint lo < z \<and> (\<forall>k \<in> set ks. sint (l k) < z))"
  using assms
proof (induction ks arbitrary: hi lo)
  case Nil
  then show ?case by simp
next
  case (Cons k ks)
  let ?hi = "if sint (h k) < sint hi then h k else hi" and ?lo = "if sint lo < sint (l k) then l k else lo"
  obtain hi' lo' where run: "survey (\<lambda>x y. sint x < sint y) get ks (Some (?hi, ?lo)) = Inr (Some (hi', lo'))"
    and hi': "\<And>z. z < sint hi' \<longleftrightarrow> z < sint ?hi \<and> (\<forall>k \<in> set ks. z < sint (h k))"
    and lo': "\<And>z. sint lo' < z \<longleftrightarrow> sint ?lo < z \<and> (\<forall>k \<in> set ks. sint (l k) < z)"
    using Cons.IH [of ?hi ?lo] Cons.prems by auto
  have "z < sint ?hi \<longleftrightarrow> z < sint hi \<and> z < sint (h k)" for z by auto
  moreover have "sint ?lo < z \<longleftrightarrow> sint lo < z \<and> sint (l k) < z" for z by auto
  ultimately show ?case
    using run hi' lo' Cons.prems [of k] by (intro exI [of _ hi'] exI [of _ lo']) simp
qed

lemma survey_all:
  assumes "\<And>k. k \<in> set ks \<Longrightarrow> get k = Inr (Some (h k, l k))" and "ks \<noteq> []"
  shows "\<exists>hi lo. survey (\<lambda>x y :: integer. sint x < sint y) get ks None = Inr (Some (hi, lo))
     \<and> (\<forall>z. z < sint hi \<longleftrightarrow> (\<forall>k \<in> set ks. z < sint (h k)))
     \<and> (\<forall>z. sint lo < z \<longleftrightarrow> (\<forall>k \<in> set ks. sint (l k) < z))"
proof -
  from assms(2) obtain k ks' where ks: "ks = k # ks'" by (cases ks) auto
  then show ?thesis using survey_some [of ks' get h l "h k" "l k"] assms(1) by simp
qed

lemma watch_thresholds:
  assumes "entry_at a c = Inr e" and "integer_entry v e" and "integer_watch a tol i kn (c_lookups c k)"
  shows "lookup_integerThresholds k c = Inr (Some (i + tol, i - tol))"
proof -
  have "en_valueType e = INTEGER_TYPE"
    using assms(2) by (auto simp: integer_entry_def en_valueType_def integer_shows_def)
  then show ?thesis
    using assms(1,3)
    by (auto simp: lookup_integerThresholds_def integer_watch_def Let_def lookup_valueType_def lookup_entry_def
        get_bounds_def)
qed

text \<open>All lookups that are registered at the entry watch it.\<close>

definition watched :: "addr \<Rightarrow> (lid \<Rightarrow> integer) \<Rightarrow> (lid \<Rightarrow> integer \<times> bool) \<Rightarrow> integer option \<Rightarrow> lid list \<Rightarrow> cache \<Rightarrow> bool" where
  "watched a tol at v ks c \<longleftrightarrow>
     (\<exists>e. entry_at a c = Inr e \<and> en_lookups e = ks \<and> integer_entry v e)
     \<and> (\<forall>k \<in> set ks. integer_watch a (tol k) (fst (at k)) (snd (at k)) (c_lookups c k))"

lemma update_native_integer:
  assumes "cached_ok cv" and "cv_type cv = INTEGER_TYPE"
  shows "\<exists>ch cv'. cv_update_native ts (IntegerVal i) cv = Inr (ch, cv') \<and> integer_cached (Some cv')"
proof -
  obtain ch cv' where s: "cv_store ts (IntegerVal i) cv = (ch, cv')" by fastforce
  then have "cv_update_native ts (IntegerVal i) cv = Inr (ch, cv')"
    using assms(2) by (simp add: cv_update_native_def)
  then show ?thesis using update_native_ok [OF assms(1)] assms(2) by (auto simp: integer_cached_def)
qed

lemma store_thresholds_entry:
  assumes "integer_entry v e"
  shows "\<exists>e'. store_thresholds INTEGER_TYPE (IntegerVal hi) (IntegerVal lo) ts e = Inr e'
    \<and> integer_entry v e' \<and> en_lookups e' = en_lookups e"
proof -
  define e1 where "e1 = (if en_low e = None
    then e\<lparr>en_low := Some (new_cached INTEGER_TYPE), en_high := Some (new_cached INTEGER_TYPE)\<rparr> else e)"
  have "integer_cached (Some (new_cached INTEGER_TYPE))"
    by (auto simp: integer_cached_def new_cached_def cached_ok_def)
  then obtain low high where lh: "en_low e1 = Some low" "en_high e1 = Some high"
    and cached: "integer_cached (Some low)" "integer_cached (Some high)"
    using assms by (auto simp: e1_def integer_entry_def integer_cached_def)
  obtain c1 low' c2 high' where "cv_update_native ts (IntegerVal lo) low = Inr (c1, low')" "integer_cached (Some low')"
    and "cv_update_native ts (IntegerVal hi) high = Inr (c2, high')" "integer_cached (Some high')"
    using update_native_integer cached unfolding integer_cached_def by (metis option.inject)
  then have "store_thresholds INTEGER_TYPE (IntegerVal hi) (IntegerVal lo) ts e =
      Inr (e1\<lparr>en_low := Some low', en_high := Some high'\<rparr>) \<and> integer_entry v (e1\<lparr>en_low := Some low', en_high := Some high'\<rparr>)"
    using lh assms
    by (cases "en_low e") (auto simp: store_thresholds_def cachedValueFactory_def e1_def integer_entry_def)
  moreover have "en_lookups e1 = en_lookups e" by (simp add: e1_def)
  ultimately show ?thesis by auto
qed

text \<open>
  The thresholds the interface is told are exact: a value is strictly between them if and only
  if it is strictly between those of each lookup.
\<close>

definition exact_thresholds :: "(lid \<Rightarrow> integer) \<Rightarrow> (lid \<Rightarrow> integer \<times> bool) \<Rightarrow> lid list \<Rightarrow> integer \<Rightarrow> integer \<Rightarrow> bool" where
  "exact_thresholds tol at ks hi lo \<longleftrightarrow>
     (\<forall>v :: integer. sint lo < sint v \<and> sint v < sint hi \<longleftrightarrow> (\<forall>k \<in> set ks. \<bar>sint v - sint (fst (at k))\<bar> < sint (tol k)))"

lemma integerUpdateThresholds_watched:
  assumes w: "watched a tol at v ks c" and "ks \<noteq> []"
  shows "\<exists>hi lo c'. updateThresholds a st c = Inr c' \<and> watched a tol at v ks c'
     \<and> c_events c' = c_events c @ [IntegerThresholdsSet st hi lo] \<and> c_lookups c' = c_lookups c
     \<and> exact_thresholds tol at ks hi lo"
proof -
  obtain e where e: "entry_at a c = Inr e" and ks: "en_lookups e = ks" and ent: "integer_entry v e"
    using w by (auto simp: watched_def)
  have get: "lookup_integerThresholds k c = Inr (Some (fst (at k) + tol k, fst (at k) - tol k))" if "k \<in> set ks" for k
    using watch_thresholds [OF e ent] w that unfolding watched_def by blast
  obtain hi lo where s: "survey (\<lambda>x y. sint x < sint y) (\<lambda>k. lookup_integerThresholds k c) ks None = Inr (Some (hi, lo))"
    and hi: "\<And>z. z < sint hi \<longleftrightarrow> (\<forall>k \<in> set ks. z < sint (fst (at k) + tol k))"
    and lo: "\<And>z. sint lo < z \<longleftrightarrow> (\<forall>k \<in> set ks. sint (fst (at k) - tol k) < z)"
    using survey_all [where get = "\<lambda>k. lookup_integerThresholds k c" and h = "\<lambda>k. fst (at k) + tol k"
        and l = "\<lambda>k. fst (at k) - tol k", OF get assms(2)] by blast
  have range: "sint (fst (at k) + tol k) = sint (fst (at k)) + sint (tol k)"
    "sint (fst (at k) - tol k) = sint (fst (at k)) - sint (tol k)" if "k \<in> set ks" for k
    using w that by (auto simp: watched_def integer_watch_def sint_plus_range sint_minus_range)
  have "\<bar>sint z - sint (fst (at k))\<bar> < sint (tol k) \<longleftrightarrow>
      sint (fst (at k) - tol k) < sint z \<and> sint z < sint (fst (at k) + tol k)" if "k \<in> set ks" for k and z :: integer
    unfolding range [OF that] by arith
  then have exact: "exact_thresholds tol at ks hi lo"
    unfolding exact_thresholds_def hi lo by auto
  obtain e' where store: "store_thresholds INTEGER_TYPE (IntegerVal hi) (IntegerVal lo) (c_cycleCount c) e = Inr e'"
    and e': "integer_entry v e'" "en_lookups e' = ks"
    using store_thresholds_entry [OF ent] ks by blast
  let ?c = "emit (IntegerThresholdsSet st hi lo) (set_entry a e' c)"
  from ent obtain cv where cv: "en_value e = Some cv" "cv_type cv = INTEGER_TYPE"
    by (auto simp: integer_entry_def integer_shows_def)
  have "integerUpdateThresholds a st c = Inr (True, ?c)"
    using s store by (simp add: integerUpdateThresholds_def e ks)
  then have run: "updateThresholds a st c = Inr ?c" using cv by (simp add: updateThresholds_def e)
  have "watched a tol at v ks ?c"
    using w e' by (auto simp: watched_def entry_at_def emit_def set_entry_def)
  moreover have "c_events ?c = c_events c @ [IntegerThresholdsSet st hi lo]" "c_lookups ?c = c_lookups c"
    by (simp_all add: emit_def set_entry_def)
  ultimately show ?thesis using run exact by blast
qed

section \<open>One lookup\<close>

fun publications :: "event list \<Rightarrow> lid list" where
  "publications [] = []"
| "publications (Published k # evs) = k # publications evs"
| "publications (_ # evs) = publications evs"

lemma publications_append [simp]: "publications (evs @ evs') = publications evs @ publications evs'"
  by (induction evs rule: publications.induct) simp_all

text \<open>What a watching lookup does when it hears that the value changed.\<close>

lemma watch_step:
  assumes w: "watched a tol at v ks c" and k: "k \<in> set ks"
    and range: "\<And>i. v = Some i \<Longrightarrow> in_range (sint i - sint (tol k)) \<and> in_range (sint i + sint (tol k))"
  shows "\<exists>c'. lookup_valueChanged k c = Inr c'
     \<and> watched a tol (at(k := moved (tol k) (fst (at k)) (snd (at k)) v)) v ks c'
     \<and> publications (c_events c') = publications (c_events c)
         @ (if exceeds (tol k) (fst (at k)) (snd (at k)) v then [k] else [])"
proof -
  obtain e cv where e: "entry_at a c = Inr e" and ks: "en_lookups e = ks" and ent: "integer_entry v e"
    and cv: "en_value e = Some cv" and sh: "integer_shows v cv"
    using w by (auto simp: watched_def integer_entry_def)
  define l where "l = c_lookups c k"
  define i where "i = fst (at k)"
  define kn where "kn = snd (at k)"
  define th where "th = \<lparr>th_bounds = Some \<lparr>b_low = i - tol k, b_high = i + tol k, b_tolerance = tol k\<rparr>, th_wasKnown = kn\<rparr>"
  have wl: "integer_watch a (tol k) i kn l" using w k by (simp add: watched_def l_def i_def kn_def)
  then obtain own where own: "lk_cachedValue l = Some own" and own_shows: "integer_shows (if kn then Some i else None) own"
    by (auto simp: integer_watch_def)
  have l: "lk_on_change l" "lk_active l" "lk_entry l = Some a" "lk_tolerance l = Known (IntegerVal (tol k))"
    "0 \<le> sint (tol k)" "lk_thresholds l = Some (IntegerThresholds th)"
    using wl by (auto simp: integer_watch_def th_def)
  have same: "thresholds_toleranceChanged (lk_tolerance l) (IntegerThresholds th) = Inr False"
    using l(5) by (simp add: l(4) th_def toleranceChanged_same)
  have ex: "thresholds_exceeded cv (IntegerThresholds th) = Inr (exceeds (tol k) i kn v)"
    using watch_exceeds [OF wl, of v] shows_getInteger [OF sh] by (simp add: th_def)
  have noop: "l\<lparr>lk_thresholds := Some (IntegerThresholds th)\<rparr> = l" using l(6) by simp
  show ?thesis
  proof (cases "exceeds (tol k) i kn v")
    case False
    have "lookup_valueChanged k c = Inr (set_lookup k l c)"
      using False l same ex e cv
      by (simp add: noop lookup_valueChanged_def updateInternal_def Let_def l_def [symmetric] lookup_entry_def)
    moreover have "set_lookup k l c = c" by (simp add: set_lookup_def l_def)
    ultimately show ?thesis
      using False w by (simp add: i_def kn_def moved_def)
  next
    case True
    define i' where "i' = fst (moved (tol k) i kn v)"
    define kn' where "kn' = snd (moved (tol k) i kn v)"
    define th' where "th' = \<lparr>th_bounds = Some \<lparr>b_low = i' - tol k, b_high = i' + tol k, b_tolerance = tol k\<rparr>, th_wasKnown = kn'\<rparr>"
    define l' where "l' = l\<lparr>lk_cachedValue := Some cv, lk_thresholds := Some (IntegerThresholds th')\<rparr>"
    let ?at = "at(k := moved (tol k) (fst (at k)) (snd (at k)) v)"
    let ?c1 = "set_lookup k l' c"
    have at': "?at k = (i', kn')" by (simp add: i'_def kn'_def i_def kn_def)
    have set_th: "thresholds_set cv (lk_tolerance l) (IntegerThresholds th) = Inr (IntegerThresholds th')"
      using True range l(5) shows_getInteger [OF sh]
      by (cases v) (simp_all add: l(4) setThresholds_value setThresholds_unknown th'_def i'_def kn'_def th_def moved_def)
    have wl': "integer_watch a (tol k) i' kn' l'"
      using wl True sh range
      by (cases v) (auto simp: integer_watch_def lk_active_def l'_def th'_def i'_def kn'_def moved_def)
    have w1: "watched a tol ?at v ks ?c1"
      using w wl' at' unfolding watched_def by (auto simp: set_lookup_def entry_at_def)
    have "ks \<noteq> []" using k by auto
    then obtain hi lo c' where run: "updateThresholds a (lk_cachedState l) ?c1 = Inr c'" and w': "watched a tol ?at v ks c'"
      and ev: "c_events c' = c_events ?c1 @ [IntegerThresholdsSet (lk_cachedState l) hi lo]" and ls: "c_lookups c' = c_lookups ?c1"
      using integerUpdateThresholds_watched [OF w1] by blast
    have "updateInternal k True c = Inr (True, c')"
      using True l same ex e cv own shows_assign [OF own_shows sh] set_th run
      by (simp add: updateInternal_def Let_def l_def [symmetric] lookup_entry_def l'_def)
    moreover have "lk_active (c_lookups c' k)"
      using l by (simp add: ls set_lookup_def l'_def lk_active_def)
    ultimately have "lookup_valueChanged k c = Inr (emit (Published k) c')"
      using l by (simp add: lookup_valueChanged_def Let_def l_def [symmetric] lookup_publishChange_def)
    moreover have "watched a tol ?at v ks (emit (Published k) c')"
      using w' by (simp add: watched_def emit_def entry_at_def)
    moreover have "publications (c_events (emit (Published k) c')) = publications (c_events c) @ [k]"
      by (simp add: emit_def ev set_lookup_def)
    ultimately show ?thesis using True by (simp add: i_def kn_def)
  qed
qed

section \<open>All lookups of an entry\<close>

lemma watch_loop:
  assumes "watched a tol at v ks c" and "set js \<subseteq> set ks" and "distinct js"
    and range: "\<And>k i. k \<in> set ks \<Longrightarrow> v = Some i \<Longrightarrow> in_range (sint i - sint (tol k)) \<and> in_range (sint i + sint (tol k))"
  shows "\<exists>c'. forE lookup_valueChanged js c = Inr c'
     \<and> watched a tol (\<lambda>k. if k \<in> set js then moved (tol k) (fst (at k)) (snd (at k)) v else at k) v ks c'
     \<and> publications (c_events c') = publications (c_events c)
         @ filter (\<lambda>k. exceeds (tol k) (fst (at k)) (snd (at k)) v) js"
  using assms(1-3)
proof (induction js arbitrary: at c)
  case Nil
  then show ?case by simp
next
  case (Cons k js)
  let ?at = "at(k := moved (tol k) (fst (at k)) (snd (at k)) v)"
  obtain c1 where c1: "lookup_valueChanged k c = Inr c1" "watched a tol ?at v ks c1"
    "publications (c_events c1) = publications (c_events c)
       @ (if exceeds (tol k) (fst (at k)) (snd (at k)) v then [k] else [])"
    using watch_step [OF Cons.prems(1), of k] range Cons.prems(2) by auto
  obtain c2 where c2: "forE lookup_valueChanged js c1 = Inr c2"
    "watched a tol (\<lambda>j. if j \<in> set js then moved (tol j) (fst (?at j)) (snd (?at j)) v else ?at j) v ks c2"
    "publications (c_events c2) = publications (c_events c1)
       @ filter (\<lambda>j. exceeds (tol j) (fst (?at j)) (snd (?at j)) v) js"
    using Cons.IH [OF c1(2)] Cons.prems by auto
  have same: "?at j = at j" if "j \<in> set js" for j using that Cons.prems(3) by auto
  have "(\<lambda>j. if j \<in> set js then moved (tol j) (fst (?at j)) (snd (?at j)) v else ?at j) =
      (\<lambda>j. if j \<in> set (k # js) then moved (tol j) (fst (at j)) (snd (at j)) v else at j)"
    using Cons.prems(3) by auto
  moreover have "filter (\<lambda>j. exceeds (tol j) (fst (?at j)) (snd (?at j)) v) js =
      filter (\<lambda>j. exceeds (tol j) (fst (at j)) (snd (at j)) v) js"
    by (rule filter_cong) (simp_all only: same)
  ultimately show ?case using c1 c2 by simp
qed

lemma watched_shows:
  assumes "watched a tol at v ks c" and "k \<in> set ks"
  shows "lookup_toValue k c = Inr (integer_value (if snd (at k) then Some (fst (at k)) else None))"
  using assms
  by (auto simp: watched_def integer_entry_def integer_watch_def lookup_toValue_def Let_def lookup_entry_def
      integer_shows_def)

text \<open>A new value, known or not, reaches the entry and all its lookups.\<close>

lemma receive_watched:
  assumes w: "watched a tol at v ks c" and new: "v' \<noteq> v" and "distinct ks"
    and range: "\<And>k i. k \<in> set ks \<Longrightarrow> v' = Some i \<Longrightarrow> in_range (sint i - sint (tol k)) \<and> in_range (sint i + sint (tol k))"
  shows "\<exists>c'. receive a (ReceiveValue (integer_value v')) c = Inr c'
     \<and> watched a tol (\<lambda>k. if k \<in> set ks then moved (tol k) (fst (at k)) (snd (at k)) v' else at k) v' ks c'
     \<and> publications (c_events c') = publications (c_events c)
         @ filter (\<lambda>k. exceeds (tol k) (fst (at k)) (snd (at k)) v') ks"
proof -
  obtain e cv where e: "entry_at a c = Inr e" and ks: "en_lookups e = ks" and ent: "integer_entry v e"
    and cv: "en_value e = Some cv" and sh: "integer_shows v cv"
    using w by (auto simp: watched_def integer_entry_def)
  have ok: "cached_ok cv" "cv_type cv = INTEGER_TYPE" "cv_toValue cv = integer_value v"
    using sh by (simp_all add: integer_shows_def)
  have "\<exists>cv'. cv_update_value (c_cycleCount c) (integer_value v') cv = Inr (True, cv') \<and> integer_shows v' cv'"
  proof (cases v')
    case None
    then show ?thesis
      using ok new shows_known [OF sh] by (auto simp: cv_update_value_def native_value_def cv_setUnknown_def integer_shows_def
          cached_ok_def cv_toValue_def split: option.splits)
  next
    case (Some x)
    have "\<not> cv_known cv \<or> cv_value cv \<noteq> Some (IntegerVal x)"
      using Some new ok(3) by (auto simp: cv_toValue_def integer_value_def split: option.splits)
    moreover have "\<exists>y. p = IntegerVal y" if "cv_value cv = Some p" for p
      using ok that by (cases p; cases "case p of ArrayVal a \<Rightarrow> a") (auto simp: cached_ok_def)
    ultimately have "cv_store (c_cycleCount c) (IntegerVal x) cv =
        (True, cv\<lparr>cv_value := Some (IntegerVal x), cv_known := True, cv_timestamp := c_cycleCount c\<rparr>)"
      by (cases "cv_value cv") (force simp: cv_store_def payload_equal_def)+
    then show ?thesis
      using Some ok by (auto simp: cv_update_value_def native_value_def integer_shows_def cached_ok_def cv_toValue_def)
  qed
  then obtain cv' where upd: "cv_update_value (c_cycleCount c) (integer_value v') cv = Inr (True, cv')"
    and sh': "integer_shows v' cv'" by blast
  let ?c = "set_entry a (e\<lparr>en_value := Some cv'\<rparr>) c"
  have "valueType (integer_value v') = INTEGER_TYPE" by (cases v') simp_all
  then have run: "receive a (ReceiveValue (integer_value v')) c = entry_notify a ?c"
    using e cv ok upd by (simp add: entry_update_def entry_store_def ensureCachedValue_def Let_def)
  have w': "watched a tol at v' ks ?c"
    using w e ks ent sh' by (auto simp: watched_def set_entry_def entry_at_def integer_entry_def)
  have "entry_notify a ?c = forE lookup_valueChanged ks ?c"
    by (simp add: entry_notify_def entry_at_def set_entry_def ks)
  then show ?thesis
    using run watch_loop [OF w' subset_refl assms(3) range] by (simp add: set_entry_def)
qed

section \<open>An example\<close>

text \<open>Two lookups of a state whose value is 10, with tolerances 3 and 5.\<close>

definition shown :: "integer \<Rightarrow> cached_value" where
  "shown i = \<lparr>cv_type = INTEGER_TYPE, cv_known = True, cv_value = Some (IntegerVal i), cv_timestamp = 1\<rparr>"

definition watching :: "integer \<Rightarrow> lookup" where
  "watching tol =
     \<lparr>lk_on_change = True, lk_name = Some ''depth'', lk_params = None, lk_tolerance = Known (IntegerVal tol),
      lk_activeCount = 1, lk_cachedState = state0 ''depth'', lk_entry = Some 0, lk_declaredType = INTEGER_TYPE,
      lk_stateKnown = True, lk_stateIsConstant = False, lk_isRegistered = True,
      lk_thresholds = Some (IntegerThresholds
        \<lparr>th_bounds = Some \<lparr>b_low = 10 - tol, b_high = 10 + tol, b_tolerance = tol\<rparr>, th_wasKnown = True\<rparr>),
      lk_cachedValue = Some (shown 10)\<rparr>"

definition depth_entry :: "lid list \<Rightarrow> entry" where
  "depth_entry ks = \<lparr>en_lookups = ks, en_value = Some (shown 10), en_low = None, en_high = None\<rparr>"

definition depth_cache :: "lid list \<Rightarrow> cache" where
  "depth_cache ks =
     \<lparr>c_map = [(state0 ''depth'', 0)], c_entries = [0 \<mapsto> depth_entry ks], c_next = 1, c_cycleCount = 2,
      c_timeEntry = None, c_lookups = \<lambda>k. watching (if k = 0 then 3 else 5), c_events = []\<rparr>"

lemma depth_example:
  "entry_at 0 (depth_cache ks) = Inr (depth_entry ks)" "integer_entry (Some 10) (depth_entry ks)"
  "integer_watch 0 (if k = 0 then 3 else 5) 10 True (c_lookups (depth_cache ks) k)"
  "en_lookups (depth_entry ks) = ks" "c_events (depth_cache ks) = []"
  by (simp_all add: entry_at_def depth_cache_def depth_entry_def integer_entry_def integer_shows_def shown_def
      cached_ok_def cv_toValue_def integer_watch_def watching_def lk_active_def in_range_def)

section \<open>Notification\<close>

lemma watchedI:
  assumes "entry_at a c = Inr e" and "integer_entry v e"
    and "\<And>k. k \<in> set (en_lookups e) \<Longrightarrow> integer_watch a (tol k) (i k) (kn k) (c_lookups c k)"
  shows "watched a tol (\<lambda>k. (i k, kn k)) v (en_lookups e) c"
  using assms by (auto simp: watched_def)

text \<open>
  Property C8. An entry of the state cache has the integer value \<open>w\<close>, or none, and all its
  lookups are active on-change lookups with a tolerance; the lookup \<open>k\<close> shows \<open>i k\<close>, or
  nothing. When the interface sends another value \<open>v\<close>, or tells that it is unknown, then in the
  order of registration exactly those lookups notify their listeners whose value is at least the
  tolerance away from \<open>v\<close>, or which showed a value that is now unknown; they show \<open>v\<close> from then
  on, the others still show what they showed.
\<close>

theorem on_change_notification:
  assumes "entry_at a c = Inr e" and "integer_entry w e" and "distinct (en_lookups e)"
    and "\<And>k. k \<in> set (en_lookups e) \<Longrightarrow> integer_watch a (tol k) (i k) (kn k) (c_lookups c k)"
    and "v \<noteq> w"
    and "\<And>k x. k \<in> set (en_lookups e) \<Longrightarrow> v = Some x \<Longrightarrow>
           in_range (sint x - sint (tol k)) \<and> in_range (sint x + sint (tol k))"
  shows "\<exists>c'. receive a (ReceiveValue (integer_value v)) c = Inr c'
     \<and> publications (c_events c') = publications (c_events c)
         @ filter (\<lambda>k. exceeds (tol k) (i k) (kn k) v) (en_lookups e)
     \<and> (\<forall>k \<in> set (en_lookups e). lookup_toValue k c' = Inr (integer_value
           (if exceeds (tol k) (i k) (kn k) v then v else if kn k then Some (i k) else None)))"
proof -
  have w: "watched a tol (\<lambda>k. (i k, kn k)) w (en_lookups e) c" using assms(1,2,4) by (rule watchedI)
  obtain c' where run: "receive a (ReceiveValue (integer_value v)) c = Inr c'"
    and w': "watched a tol (\<lambda>k. if k \<in> set (en_lookups e) then moved (tol k) (i k) (kn k) v else (i k, kn k)) v (en_lookups e) c'"
    and pub: "publications (c_events c') = publications (c_events c)
         @ filter (\<lambda>k. exceeds (tol k) (i k) (kn k) v) (en_lookups e)"
    using receive_watched [OF w assms(5,3,6)] by (auto cong: if_cong)
  have "lookup_toValue k c' = Inr (integer_value
           (if exceeds (tol k) (i k) (kn k) v then v else if kn k then Some (i k) else None))"
    if "k \<in> set (en_lookups e)" for k
    using watched_shows [OF w' that] that
    by (cases v) (auto simp: moved_def exceeds_def)
  then show ?thesis using run pub by blast
qed

theorem on_change_notification_witness:
  "\<exists>c'. receive 0 (ReceiveValue (Known (IntegerVal 14))) (depth_cache [0, 1]) = Inr c'
     \<and> publications (c_events c') = [0]
     \<and> lookup_toValue 0 c' = Inr (Known (IntegerVal 14)) \<and> lookup_toValue 1 c' = Inr (Known (IntegerVal 10))"
  using on_change_notification [OF depth_example(1) [of "[0, 1]"] depth_example(2), of "\<lambda>k. if k = 0 then 3 else 5"
      "\<lambda>_. 10" "\<lambda>_. True" "Some 14", unfolded depth_example(4), OF _ depth_example(3)]
  by (simp add: in_range_def exceeds_def depth_example)

text \<open>
  Property C9. The thresholds that the interface is told of an integer entry are exact. With the
  lookups of the entry as in the property before, updating the thresholds tells the interface a
  high and a low threshold, such that the next value that it sends, if it is an integer other
  than the one the entry has, is published by some lookup if and only if it is not strictly
  between them. (Real lookups keep a guard band around their thresholds, and a later change of
  a tolerance is not told to the interface; neither is claimed.)
\<close>

theorem interface_thresholds_exact:
  assumes "entry_at a c = Inr e" and "integer_entry w e" and "distinct (en_lookups e)" and "en_lookups e \<noteq> []"
    and "\<And>k. k \<in> set (en_lookups e) \<Longrightarrow> integer_watch a (tol k) (i k) (kn k) (c_lookups c k)"
    and "w \<noteq> Some x"
    and "\<And>k. k \<in> set (en_lookups e) \<Longrightarrow>
           in_range (sint x - sint (tol k)) \<and> in_range (sint x + sint (tol k))"
  shows "\<exists>hi lo c1 c2. updateThresholds a st c = Inr c1
     \<and> c_events c1 = c_events c @ [IntegerThresholdsSet st hi lo]
     \<and> receive a (ReceiveValue (Known (IntegerVal x))) c1 = Inr c2
     \<and> (publications (c_events c2) = publications (c_events c1)) = (sint lo < sint x \<and> sint x < sint hi)"
proof -
  let ?at = "\<lambda>k. (i k, kn k)"
  have w: "watched a tol ?at w (en_lookups e) c" using assms(1,2,5) by (rule watchedI)
  obtain hi lo c1 where run: "updateThresholds a st c = Inr c1" and w1: "watched a tol ?at w (en_lookups e) c1"
    and ev: "c_events c1 = c_events c @ [IntegerThresholdsSet st hi lo]"
    and exact: "exact_thresholds tol ?at (en_lookups e) hi lo"
    using integerUpdateThresholds_watched [OF w assms(4)] by blast
  have "Some x \<noteq> w" using assms(6) by simp
  then obtain c2 where run2: "receive a (ReceiveValue (integer_value (Some x))) c1 = Inr c2"
    and pub: "publications (c_events c2) = publications (c_events c1)
         @ filter (\<lambda>k. exceeds (tol k) (i k) (kn k) (Some x)) (en_lookups e)"
    using receive_watched [OF w1 _ assms(3), of "Some x"] assms(7) by auto
  have "publications (c_events c2) = publications (c_events c1) \<longleftrightarrow>
      (\<forall>k \<in> set (en_lookups e). \<bar>sint x - sint (i k)\<bar> < sint (tol k))"
    by (auto simp: pub filter_empty_conv exceeds_def not_le)
  also have "\<dots> \<longleftrightarrow> sint lo < sint x \<and> sint x < sint hi"
    using exact by (simp add: exact_thresholds_def)
  finally show ?thesis using run ev run2 by auto
qed

theorem interface_thresholds_exact_witness:
  "\<exists>hi lo c1 c2. updateThresholds 0 (state0 ''depth'') (depth_cache [0, 1]) = Inr c1
     \<and> c_events c1 = [IntegerThresholdsSet (state0 ''depth'') hi lo]
     \<and> receive 0 (ReceiveValue (Known (IntegerVal 12))) c1 = Inr c2
     \<and> (publications (c_events c2) = publications (c_events c1)) = (sint lo < 12 \<and> 12 < sint hi)"
  using interface_thresholds_exact [OF depth_example(1) [of "[0, 1]"] depth_example(2), of "\<lambda>k. if k = 0 then 3 else 5"
      "\<lambda>_. 10" "\<lambda>_. True" 12 "state0 ''depth''", unfolded depth_example(4), OF _ _ depth_example(3)]
  by (simp add: in_range_def depth_example)

text \<open>
  The test of an integer against the thresholds does not ask whether the value was
  known, as the test of a real does. So an integer lookup with a tolerance that shows a value,
  hears that the value is unknown, and then gets a value within the tolerance of the one it
  showed, stays unknown, although the entry has the value; it tells its listeners only of the
  loss. A real lookup in this situation takes any value for a change.
\<close>

theorem integer_stays_unknown:
  assumes "entry_at a c = Inr e" and "integer_entry (Some w) e" and "en_lookups e = [k]"
    and "integer_watch a tol i True (c_lookups c k)"
    and "\<bar>sint x - sint i\<bar> < sint tol" and "in_range (sint x - sint tol)" and "in_range (sint x + sint tol)"
    and "\<not> th_wasKnown th"
  shows "\<exists>c1 c2 e2 cv. receive a (ReceiveValue (Unknown INTEGER_TYPE)) c = Inr c1
     \<and> receive a (ReceiveValue (Known (IntegerVal x))) c1 = Inr c2
     \<and> lookup_toValue k c2 = Inr (Unknown INTEGER_TYPE)
     \<and> entry_at a c2 = Inr e2 \<and> en_value e2 = Some cv \<and> cv_toValue cv = Known (IntegerVal x)
     \<and> publications (c_events c2) = publications (c_events c) @ [k]
     \<and> real_thresholdsExceeded (Inr (Some r)) th = Inr True"
proof -
  have w: "watched a (\<lambda>_. tol) (\<lambda>_. (i, True)) (Some w) [k] c"
    using assms(1-4) by (auto simp: watched_def)
  obtain c1 where run1: "receive a (ReceiveValue (Unknown INTEGER_TYPE)) c = Inr c1"
    and w1: "watched a (\<lambda>_. tol) (\<lambda>j. if j = k then (i, False) else (i, True)) None [k] c1"
    and pub1: "publications (c_events c1) = publications (c_events c) @ [k]"
    using receive_watched [OF w, of None] by (auto simp: moved_def exceeds_def cong: if_cong)
  have "\<not> exceeds tol i False (Some x)" using assms(5) by (simp add: exceeds_def)
  then obtain c2 where run2: "receive a (ReceiveValue (Known (IntegerVal x))) c1 = Inr c2"
    and w2: "watched a (\<lambda>_. tol) (\<lambda>j. if j = k then (i, False) else (i, True)) (Some x) [k] c2"
    and pub2: "publications (c_events c2) = publications (c_events c1)"
    using receive_watched [OF w1, of "Some x"] assms(6,7)
    by (auto simp: moved_def cong: if_cong)
  from w2 obtain e2 cv where "entry_at a c2 = Inr e2" "en_value e2 = Some cv" "cv_toValue cv = Known (IntegerVal x)"
    by (auto simp: watched_def integer_entry_def integer_shows_def)
  moreover have "lookup_toValue k c2 = Inr (Unknown INTEGER_TYPE)" using watched_shows [OF w2, of k] by simp
  moreover have "real_thresholdsExceeded (Inr (Some r)) th = Inr True"
    using assms(8) by (simp add: real_thresholdsExceeded_def)
  ultimately show ?thesis using run1 run2 pub1 pub2 by auto
qed

theorem integer_stays_unknown_witness:
  "\<exists>c1 c2. receive 0 (ReceiveValue (Unknown INTEGER_TYPE)) (depth_cache [0]) = Inr c1
     \<and> receive 0 (ReceiveValue (Known (IntegerVal 11))) c1 = Inr c2
     \<and> lookup_toValue 0 c2 = Inr (Unknown INTEGER_TYPE)
     \<and> real_thresholdsExceeded (Inr (Some r_zero)) new_thresholds = Inr True"
  using integer_stays_unknown [OF depth_example(1) [of "[0]"] depth_example(2), of 0 3 10 11 new_thresholds r_zero]
    depth_example(3) [of 0 "[0]"]
  by (auto simp: in_range_def depth_example new_thresholds_def)

section \<open>A change of the tolerance\<close>

text \<open>The inputs of a lookup that is registered give the state it has already.\<close>

definition same_state :: "lid \<Rightarrow> addr \<Rightarrow> cache \<Rightarrow> bool" where
  "same_state k a c \<longleftrightarrow>
     (let l = c_lookups c k in
        lk_stateKnown l \<and> lk_isRegistered l \<and> lk_entry l = Some a
        \<and> fst (getState l (state0 [])) \<and> state_equal (snd (getState l (state0 []))) (lk_cachedState l)
        \<and> map_find state_less (snd (getState l (state0 []))) (c_map c) = Some a)"

lemma handleChangeInternal_same:
  assumes "same_state k a c"
  shows "handleChangeInternal ask k c =
    Inr (False, set_lookup k ((c_lookups c k)\<lparr>lk_cachedState := snd (getState (c_lookups c k) (state0 []))\<rparr>) c)"
proof -
  obtain st where st: "getState (c_lookups c k) (state0 []) = (True, st)"
    using assms by (cases "getState (c_lookups c k) (state0 [])") (auto simp: same_state_def Let_def)
  have same: "(c_lookups c k)\<lparr>lk_stateKnown := True\<rparr> = c_lookups c k"
    "(c_lookups c k)\<lparr>lk_cachedState := st, lk_entry := Some a\<rparr> = (c_lookups c k)\<lparr>lk_cachedState := st\<rparr>"
    using assms by (simp_all add: same_state_def Let_def)
  have noop: "set_lookup k (c_lookups c k) c = c" by (simp add: set_lookup_def)
  show ?thesis
    using assms st
    by (simp add: handleChangeInternal_def Let_def same noop same_state_def ensureStateCacheEntry_def)
      (simp add: ensureRegistered_def set_lookup_def Let_def)
qed

text \<open>
  When the tolerance of a lookup changes, and its value is within the new tolerance,
  the lookup gets new thresholds around the value it shows, but the entry does not update its
  thresholds and the interface is not told.
\<close>

theorem tolerance_change_not_told:
  assumes "integer_watch a tol i True (c_lookups c k)" and "same_state k a c"
    and "entry_at a c = Inr e" and "integer_entry (Some x) e"
    and "tol' \<noteq> tol" and "0 \<le> sint tol'"
    and "in_range (sint i - sint tol')" and "in_range (sint i + sint tol')"
    and "\<bar>sint x - sint i\<bar> < sint tol'"
  shows "\<exists>c'. change_inputs ask k (lk_name (c_lookups c k)) (lk_params (c_lookups c k)) (Known (IntegerVal tol')) c = Inr c'
     \<and> integer_watch a tol' i True (c_lookups c' k)
     \<and> c_entries c' = c_entries c \<and> c_events c' = c_events c"
proof -
  define l where "l = (c_lookups c k)\<lparr>lk_tolerance := Known (IntegerVal tol')\<rparr>"
  define st where "st = snd (getState l (state0 []))"
  define l1 where "l1 = l\<lparr>lk_cachedState := st\<rparr>"
  define th where "th t = \<lparr>th_bounds = Some \<lparr>b_low = i - t, b_high = i + t, b_tolerance = t\<rparr>, th_wasKnown = True\<rparr>" for t
  let ?c = "set_lookup k l c" and ?c1 = "set_lookup k l1 c"
  let ?l2 = "l1\<lparr>lk_thresholds := Some (IntegerThresholds (th tol'))\<rparr>"
  have wl: "lk_on_change l" "lk_active l" "lk_entry l = Some a" "lk_thresholds l = Some (IntegerThresholds (th tol))"
    "lk_tolerance l = Known (IntegerVal tol')"
    using assms(1) by (auto simp: integer_watch_def l_def th_def lk_active_def)
  obtain own where own: "lk_cachedValue l = Some own" "integer_shows (Some i) own"
    using assms(1) by (auto simp: integer_watch_def l_def)
  obtain cv where cv: "en_value e = Some cv" "integer_shows (Some x) cv"
    using assms(4) by (auto simp: integer_entry_def)
  have getState: "getState l r = getState (c_lookups c k) r" for r
    by (auto simp: getState_def l_def Let_def split: option.split)
  have "same_state k a ?c"
    using assms(2) by (simp add: same_state_def Let_def set_lookup_def getState) (simp add: l_def)
  then have "handleChangeInternal ask k ?c = Inr (False, ?c1)"
    using handleChangeInternal_same [of k a ?c ask] by (simp add: set_lookup_def l1_def st_def)
  moreover have w2: "integer_watch a tol' i True ?l2"
    using assms(1,6,7,8) by (auto simp: integer_watch_def l1_def l_def th_def lk_active_def)
  moreover have "updateInternal k False ?c1 = Inr (False, set_lookup k ?l2 c)"
  proof -
    have "thresholds_toleranceChanged (lk_tolerance l1) (IntegerThresholds (th tol)) = Inr True"
      using assms(5,6) by (simp add: l1_def wl toleranceChanged_def positive_tolerance_def get_bounds_def th_def)
    moreover have "thresholds_set own (lk_tolerance l1) (IntegerThresholds (th tol)) = Inr (IntegerThresholds (th tol'))"
      using shows_getInteger [OF own(2)] assms(6,7,8) by (simp add: l1_def wl setThresholds_value th_def)
    moreover have "thresholds_exceeded cv (IntegerThresholds (th tol')) = Inr False"
      using watch_exceeds [OF w2, of "Some x"] shows_getInteger [OF cv(2)] assms(9) by (simp add: exceeds_def th_def)
    moreover have "entry_at a ?c1 = Inr e" using assms(3) by (simp add: entry_at_def set_lookup_def)
    ultimately show ?thesis
      using wl own cv by (simp add: updateInternal_def set_lookup_def Let_def lookup_entry_def l1_def)
  qed
  moreover have "lk_on_change (c_lookups ?c1 k)" using wl by (simp add: set_lookup_def l1_def)
  ultimately have "lookup_handleChange ask k ?c = Inr (set_lookup k ?l2 c)"
    by (simp add: lookup_handleChange_def)
  moreover have inputs: "(c_lookups c k)\<lparr>lk_name := lk_name (c_lookups c k), lk_params := lk_params (c_lookups c k),
      lk_tolerance := Known (IntegerVal tol')\<rparr> = l" by (simp add: l_def)
  have "lk_active (c_lookups ?c k)" using wl by (simp add: set_lookup_def)
  then have "change_inputs ask k (lk_name (c_lookups c k)) (lk_params (c_lookups c k)) (Known (IntegerVal tol')) c
      = lookup_handleChange ask k ?c"
    unfolding change_inputs_def inputs Let_def by simp
  ultimately have "change_inputs ask k (lk_name (c_lookups c k)) (lk_params (c_lookups c k)) (Known (IntegerVal tol')) c
      = Inr (set_lookup k ?l2 c)" by simp
  then show ?thesis using w2 by (auto simp: set_lookup_def)
qed

theorem tolerance_change_not_told_witness:
  "\<exists>c'. change_inputs (\<lambda>_. []) 0 (Some ''depth'') None (Known (IntegerVal 1)) (depth_cache [0]) = Inr c'
     \<and> integer_watch 0 1 10 True (c_lookups c' 0) \<and> c_events c' = []"
proof -
  have "same_state 0 0 (depth_cache [0])"
    by (simp add: same_state_def depth_cache_def watching_def getState_def state_equal_def same_key_def state_less_def)
  then show ?thesis
    using tolerance_change_not_told [of 0 3 10 "depth_cache [0]" 0 "depth_entry [0]" 10 1 "\<lambda>_. []"]
      depth_example(1) [of "[0]"] depth_example(2) [of "[0]"] depth_example(3) [of 0 "[0]"]
    by (auto simp: in_range_def depth_example) (auto simp: depth_cache_def watching_def)
qed

end
