(* ===== verification/Input_Queue.thy ===== *)
theory Input_Queue
  imports Linked_Queue State_Cache
begin

text \<open>
  The queue through which the world outside reaches the executive
  (src/src/intfc/QueueEntry.cc, src/src/intfc/InputQueue.hh,
  src/src/app-framework/SimpleInputQueue.cc, SerializedInputQueue.cc).

  The entries are records behind addresses, linked by their \<open>next\<close> members into the queue and
  into the list of free entries. The serialized queue does every operation of the simple queue
  while it holds a mutex that is not recursive. What the interface manager relies on is the
  locale \<open>input_queue\<close>, which both queues satisfy.
\<close>

section \<open>Entries\<close>

type_synonym entry_addr = nat
type_synonym command_id = nat
type_synonym update_id = nat
type_synonym plan_id = nat

datatype queue_entry_type =
    Q_UNINITED
  | Q_LOOKUP
  | Q_COMMAND_ACK
  | Q_COMMAND_RETURN
  | Q_COMMAND_ABORT
  | Q_UPDATE_ACK
  | Q_ADD_PLAN
  | Q_RECEIVE_MSG
  | Q_ACCEPT_MSG
  | Q_RELEASE_MSG_HANDLE
  | Q_MSG_QUEUE_EMPTY
  | Q_MARK
  | Q_INVALID

text \<open>The union: the member that was assigned last, or the null pointer.\<close>

datatype entry_item =
    NullItem
  | CommandItem command_id
  | MessageItem message
  | PlanItem plan_id
  | StateItem state
  | UpdateItem update_id
  | SequenceItem "32 word"

record entry_data =
  qe_item :: entry_item
  qe_value :: pvalue
  qe_type :: queue_entry_type

record queue_entry = entry_data +
  qe_next :: "entry_addr option"

definition new_queue_entry :: queue_entry where
  "new_queue_entry =
     \<lparr>qe_item = NullItem, qe_value = Unknown UNKNOWN_TYPE, qe_type = Q_UNINITED, qe_next = None\<rparr>"

definition qe_reset :: "queue_entry \<Rightarrow> queue_entry" where
  "qe_reset e =
     e\<lparr>qe_item := NullItem, qe_value := Unknown UNKNOWN_TYPE, qe_type := Q_UNINITED, qe_next := None\<rparr>"

definition initForLookup :: "state \<Rightarrow> pvalue \<Rightarrow> queue_entry \<Rightarrow> queue_entry" where
  "initForLookup stat val e = e\<lparr>qe_item := StateItem stat, qe_value := val, qe_type := Q_LOOKUP\<rparr>"

definition initForCommandAck :: "command_id \<Rightarrow> 8 word \<Rightarrow> queue_entry \<Rightarrow> queue_entry" where
  "initForCommandAck cmd val e =
     e\<lparr>qe_item := CommandItem cmd, qe_value := Known (CommandHandleVal val), qe_type := Q_COMMAND_ACK\<rparr>"

definition initForCommandReturn :: "command_id \<Rightarrow> pvalue \<Rightarrow> queue_entry \<Rightarrow> queue_entry" where
  "initForCommandReturn cmd val e =
     e\<lparr>qe_item := CommandItem cmd, qe_value := val, qe_type := Q_COMMAND_RETURN\<rparr>"

definition initForCommandAbort :: "command_id \<Rightarrow> bool \<Rightarrow> queue_entry \<Rightarrow> queue_entry" where
  "initForCommandAbort cmd ack e =
     e\<lparr>qe_item := CommandItem cmd, qe_value := Known (BooleanVal ack), qe_type := Q_COMMAND_ABORT\<rparr>"

definition initForUpdateAck :: "update_id \<Rightarrow> bool \<Rightarrow> queue_entry \<Rightarrow> queue_entry" where
  "initForUpdateAck upd ack e =
     e\<lparr>qe_item := UpdateItem upd, qe_value := Known (BooleanVal ack), qe_type := Q_UPDATE_ACK\<rparr>"

definition initForAddPlan :: "plan_id \<Rightarrow> queue_entry \<Rightarrow> queue_entry" where
  "initForAddPlan node e = e\<lparr>qe_item := PlanItem node, qe_type := Q_ADD_PLAN\<rparr>"

definition initForReceiveMessage :: "message \<Rightarrow> queue_entry \<Rightarrow> queue_entry" where
  "initForReceiveMessage msg e = e\<lparr>qe_item := MessageItem msg, qe_type := Q_RECEIVE_MSG\<rparr>"

text \<open>The handle is an argument, but is not stored.\<close>

definition initForAcceptMessage :: "message \<Rightarrow> string \<Rightarrow> queue_entry \<Rightarrow> queue_entry" where
  "initForAcceptMessage msg handle e = e\<lparr>qe_item := MessageItem msg, qe_type := Q_ACCEPT_MSG\<rparr>"

definition initForReleaseMessageHandle :: "string \<Rightarrow> queue_entry \<Rightarrow> queue_entry" where
  "initForReleaseMessageHandle handle e =
     e\<lparr>qe_value := Known (StringVal handle), qe_type := Q_RELEASE_MSG_HANDLE\<rparr>"

definition initForMessageQueueEmpty :: "queue_entry \<Rightarrow> queue_entry" where
  "initForMessageQueueEmpty e = e\<lparr>qe_type := Q_MSG_QUEUE_EMPTY\<rparr>"

definition initForMark :: "32 word \<Rightarrow> queue_entry \<Rightarrow> queue_entry" where
  "initForMark seq e = e\<lparr>qe_item := SequenceItem seq, qe_type := Q_MARK\<rparr>"

section \<open>The simple queue\<close>

text \<open>
  \<open>q_made\<close> counts the entries that were made with \<open>new\<close>; the next one gets this number for its
  address. \<open>q_locked\<close> is the state of the mutex, which the simple queue does not have.
\<close>

record iqueue =
  q_get :: "entry_addr option"
  q_put :: "entry_addr option"
  q_free :: "entry_addr option"
  q_entry :: "entry_addr \<Rightarrow> queue_entry"
  q_made :: entry_addr
  q_locked :: bool

definition new_input_queue :: iqueue where
  "new_input_queue =
     \<lparr>q_get = None, q_put = None, q_free = None, q_entry = \<lambda>_. new_queue_entry, q_made = 0, q_locked = False\<rparr>"

definition set_queue_entry :: "entry_addr \<Rightarrow> queue_entry \<Rightarrow> iqueue \<Rightarrow> iqueue" where
  "set_queue_entry a e q = q\<lparr>q_entry := (q_entry q)(a := e)\<rparr>"

abbreviation next_entry :: "iqueue \<Rightarrow> entry_addr \<Rightarrow> entry_addr option" where
  "next_entry q a \<equiv> qe_next (q_entry q a)"

definition simple_isEmpty :: "iqueue \<Rightarrow> bool" where
  "simple_isEmpty q \<longleftrightarrow> q_get q = None"

definition simple_allocate :: "iqueue \<Rightarrow> (entry_addr \<times> iqueue) result" where
  "simple_allocate q =
     (case q_free q of
        Some a \<Rightarrow> Inr (a, q\<lparr>q_free := next_entry q a\<rparr>)
      | None \<Rightarrow> Inr (q_made q, set_queue_entry (q_made q) new_queue_entry (q\<lparr>q_made := Suc (q_made q)\<rparr>)))"

definition simple_release :: "entry_addr \<Rightarrow> iqueue \<Rightarrow> (unit \<times> iqueue) result" where
  "simple_release a q =
     Inr ((), set_queue_entry a ((qe_reset (q_entry q a))\<lparr>qe_next := q_free q\<rparr>) (q\<lparr>q_free := Some a\<rparr>))"

definition simple_put :: "entry_addr \<Rightarrow> iqueue \<Rightarrow> (unit \<times> iqueue) result" where
  "simple_put a q =
     (let q = set_queue_entry a ((q_entry q a)\<lparr>qe_next := None\<rparr>) q;
          q = (case q_put q of
                 Some p \<Rightarrow> set_queue_entry p ((q_entry q p)\<lparr>qe_next := Some a\<rparr>) q
               | None \<Rightarrow> q);
          q = q\<lparr>q_put := Some a\<rparr>
      in Inr ((), if q_get q = None then q\<lparr>q_get := Some a\<rparr> else q))"

definition simple_get :: "iqueue \<Rightarrow> (entry_addr option \<times> iqueue) result" where
  "simple_get q =
     (case q_get q of
        None \<Rightarrow> Inr (None, q)
      | Some a \<Rightarrow>
          let q = q\<lparr>q_get := next_entry q a\<rparr>
          in if q_get q = None
             then bindE (check AssertFailed (q_put q = Some a)) (\<lambda>_.
                    Inr (Some a, q\<lparr>q_get := None, q_put := None\<rparr>))
             else Inr (Some a, q))"

text \<open>The loop of \<open>flush\<close>, with the operation that releases an entry.\<close>

fun flush_loop :: "(entry_addr \<Rightarrow> iqueue \<Rightarrow> (unit \<times> iqueue) result) \<Rightarrow> nat \<Rightarrow> iqueue \<Rightarrow> iqueue result" where
  "flush_loop rel 0 q = Inl OutOfFuel"
| "flush_loop rel (Suc n) q =
     (case q_get q of
        None \<Rightarrow> Inr q
      | Some a \<Rightarrow> bindE (rel a (q\<lparr>q_get := next_entry q a\<rparr>)) (\<lambda>(_, q). flush_loop rel n q))"

text \<open>The loop takes each entry that was made at most once.\<close>

definition simple_flush :: "iqueue \<Rightarrow> (unit \<times> iqueue) result" where
  "simple_flush q =
     bindE (flush_loop simple_release (Suc (q_made q)) q) (\<lambda>q. Inr ((), q\<lparr>q_put := None\<rparr>))"

section \<open>The serialized queue\<close>

text \<open>An operation in the scope of a \<open>std::lock_guard\<close>.\<close>

definition guarded :: "(iqueue \<Rightarrow> ('a \<times> iqueue) result) \<Rightarrow> iqueue \<Rightarrow> ('a \<times> iqueue) result" where
  "guarded f q =
     (if q_locked q then Inl Deadlock
      else bindE (f (q\<lparr>q_locked := True\<rparr>)) (\<lambda>(x, q). Inr (x, q\<lparr>q_locked := False\<rparr>)))"

definition serialized_isEmpty :: "iqueue \<Rightarrow> bool result" where
  "serialized_isEmpty q = bindE (guarded (\<lambda>q. Inr (simple_isEmpty q, q)) q) (\<lambda>(b, _). Inr b)"

definition serialized_allocate :: "iqueue \<Rightarrow> (entry_addr \<times> iqueue) result" where
  "serialized_allocate = guarded simple_allocate"

definition serialized_release :: "entry_addr \<Rightarrow> iqueue \<Rightarrow> (unit \<times> iqueue) result" where
  "serialized_release a = guarded (simple_release a)"

definition serialized_put :: "entry_addr \<Rightarrow> iqueue \<Rightarrow> (unit \<times> iqueue) result" where
  "serialized_put a = guarded (simple_put a)"

definition serialized_get :: "iqueue \<Rightarrow> (entry_addr option \<times> iqueue) result" where
  "serialized_get = guarded simple_get"

text \<open>\<open>flush\<close> calls \<open>release\<close>, which takes the mutex that \<open>flush\<close> holds.\<close>

definition serialized_flush :: "iqueue \<Rightarrow> (unit \<times> iqueue) result" where
  "serialized_flush = guarded (\<lambda>q.
     bindE (flush_loop serialized_release (Suc (q_made q)) q) (\<lambda>q. Inr ((), q\<lparr>q_put := None\<rparr>)))"

section \<open>What a queue represents\<close>

text \<open>
  The addresses in the queue, those of the free entries, and those that are with a client make
  up the entries that were made.
\<close>

definition queue_inv :: "iqueue \<Rightarrow> entry_addr list \<Rightarrow> entry_addr list \<Rightarrow> entry_addr set \<Rightarrow> bool" where
  "queue_inv q xs fs L \<longleftrightarrow>
     chain (next_entry q) (q_get q) xs None \<and> q_put q = last_opt xs
     \<and> chain (next_entry q) (q_free q) fs None
     \<and> distinct (xs @ fs) \<and> (set xs \<union> set fs) \<inter> L = {} \<and> set xs \<union> set fs \<union> L = {..<q_made q}
     \<and> (\<forall>a \<in> set fs. entry_data.truncate (q_entry q a) = entry_data.truncate new_queue_entry)"

lemma chain_cong: "(\<And>a. a \<in> set xs \<Longrightarrow> nxt a = nxt' a) \<Longrightarrow> chain nxt p xs r = chain nxt' p xs r"
  by (induction xs arbitrary: p) auto

definition entry_data_of :: "iqueue \<Rightarrow> entry_addr \<Rightarrow> entry_data" where
  "entry_data_of q a = entry_data.truncate (q_entry q a)"

definition blank :: entry_data where
  "blank = \<lparr>qe_item = NullItem, qe_value = Unknown UNKNOWN_TYPE, qe_type = Q_UNINITED\<rparr>"

lemma truncate_simps [simp]:
  "entry_data.truncate (e\<lparr>qe_next := p\<rparr>) = entry_data.truncate e"
  "entry_data.truncate new_queue_entry = blank"
  "entry_data.truncate (qe_reset e) = blank"
  by (simp_all add: entry_data.defs blank_def new_queue_entry_def qe_reset_def)

lemma set_queue_entry_simps [simp]:
  "q_get (set_queue_entry a e q) = q_get q" "q_put (set_queue_entry a e q) = q_put q"
  "q_free (set_queue_entry a e q) = q_free q" "q_made (set_queue_entry a e q) = q_made q"
  "q_entry (set_queue_entry a e q) = (q_entry q)(a := e)" "q_locked (set_queue_entry a e q) = q_locked q"
  by (simp_all add: set_queue_entry_def)

definition simple_rep :: "iqueue \<Rightarrow> entry_addr list \<Rightarrow> entry_addr set \<Rightarrow> bool" where
  "simple_rep q xs L \<longleftrightarrow> (\<exists>fs. queue_inv q xs fs L)"

lemma simple_rep_new: "simple_rep new_input_queue [] {}"
  by (auto simp: simple_rep_def queue_inv_def new_input_queue_def intro!: exI [of _ "[]"])

lemma rep_locked [simp]: "simple_rep (q\<lparr>q_locked := b\<rparr>) xs L = simple_rep q xs L"
  by (simp add: simple_rep_def queue_inv_def)

lemma simple_isEmpty_rep: "simple_rep q xs L \<Longrightarrow> simple_isEmpty q \<longleftrightarrow> xs = []"
  by (cases xs) (auto simp: simple_rep_def queue_inv_def simple_isEmpty_def)

lemma simple_allocate_rep:
  assumes "simple_rep q xs L"
  shows "\<exists>a q'. simple_allocate q = Inr (a, q') \<and> a \<notin> L \<union> set xs \<and> simple_rep q' xs (insert a L)
    \<and> entry_data_of q' a = blank \<and> (\<forall>b \<in> set xs \<union> L. entry_data_of q' b = entry_data_of q b)"
proof -
  obtain fs where inv: "queue_inv q xs fs L" using assms by (auto simp: simple_rep_def)
  show ?thesis
  proof (cases fs)
    case Nil
    let ?q = "set_queue_entry (q_made q) new_queue_entry (q\<lparr>q_made := Suc (q_made q)\<rparr>)"
    have fresh: "q_made q \<notin> set xs \<union> L" and made: "set xs \<union> L = {..<q_made q}"
      using inv Nil by (auto simp: queue_inv_def)
    have "set xs \<union> insert (q_made q) L = {..<Suc (q_made q)}" using made by (auto simp: lessThan_Suc)
    moreover have "chain (next_entry ?q) (q_get q) xs None"
      using inv fresh by (auto simp: queue_inv_def intro: iffD1 [OF chain_cong, rotated])
    ultimately have "queue_inv ?q xs [] (insert (q_made q) L)"
      using inv Nil fresh by (auto simp: queue_inv_def)
    moreover have "simple_allocate q = Inr (q_made q, ?q)"
      using inv Nil by (simp add: queue_inv_def simple_allocate_def)
    ultimately show ?thesis using fresh by (auto simp: simple_rep_def entry_data_of_def)
  next
    case (Cons a fs')
    have "simple_allocate q = Inr (a, q\<lparr>q_free := next_entry q a\<rparr>)"
      using inv Cons by (simp add: queue_inv_def simple_allocate_def)
    moreover have "queue_inv (q\<lparr>q_free := next_entry q a\<rparr>) xs fs' (insert a L)" "a \<notin> L \<union> set xs"
      using inv Cons by (auto simp: queue_inv_def)
    moreover have "entry_data_of q a = blank" using inv Cons by (simp add: queue_inv_def entry_data_of_def)
    ultimately show ?thesis by (auto simp: simple_rep_def entry_data_of_def)
  qed
qed

lemma write_rep:
  assumes "simple_rep q xs L" and "a \<in> L"
  shows "simple_rep (set_queue_entry a e q) xs L"
proof -
  obtain fs where inv: "queue_inv q xs fs L" using assms by (auto simp: simple_rep_def)
  then have "a \<notin> set xs" "a \<notin> set fs" using assms(2) by (auto simp: queue_inv_def)
  moreover from this have "chain (next_entry (set_queue_entry a e q)) p xs None = chain (next_entry q) p xs None"
    "chain (next_entry (set_queue_entry a e q)) p fs None = chain (next_entry q) p fs None" for p
    by (auto intro!: chain_cong)
  ultimately have "queue_inv (set_queue_entry a e q) xs fs L" using inv by (auto simp: queue_inv_def)
  then show ?thesis by (auto simp: simple_rep_def)
qed

text \<open>An entry that is released.\<close>

definition released :: "entry_addr \<Rightarrow> iqueue \<Rightarrow> iqueue" where
  "released a q = set_queue_entry a ((qe_reset (q_entry q a))\<lparr>qe_next := q_free q\<rparr>) (q\<lparr>q_free := Some a\<rparr>)"

lemma simple_release_eq: "simple_release a q = Inr ((), released a q)"
  by (simp add: simple_release_def released_def)

lemma release_inv:
  assumes inv: "queue_inv q xs fs L" and "a \<in> L"
  shows "queue_inv (released a q) xs (a # fs) (L - {a})"
proof -
  have a: "a \<notin> set xs" "a \<notin> set fs" using assms by (auto simp: queue_inv_def)
  have "chain (next_entry (released a q)) p xs None = chain (next_entry q) p xs None"
    "chain (next_entry (released a q)) p fs None = chain (next_entry q) p fs None" for p
    using a by (auto intro!: chain_cong simp: released_def)
  moreover have "set xs \<union> set (a # fs) \<union> (L - {a}) = {..<q_made q}"
    using inv assms(2) by (auto simp: queue_inv_def)
  ultimately show ?thesis
    using inv a assms(2) unfolding queue_inv_def by (auto simp: released_def)
qed

lemma simple_release_rep:
  assumes "simple_rep q xs L" and "a \<in> L"
  shows "\<exists>q'. simple_release a q = Inr ((), q') \<and> simple_rep q' xs (L - {a})
    \<and> (\<forall>b. b \<noteq> a \<longrightarrow> entry_data_of q' b = entry_data_of q b)"
proof -
  obtain fs where "queue_inv q xs fs L" using assms by (auto simp: simple_rep_def)
  then have "simple_rep (released a q) xs (L - {a})"
    using release_inv assms(2) unfolding simple_rep_def by blast
  then show ?thesis by (simp add: simple_release_eq entry_data_of_def released_def)
qed

lemma simple_get_rep:
  "simple_rep q [] L \<Longrightarrow> simple_get q = Inr (None, q)"
  "simple_rep q (a # xs) L \<Longrightarrow>
     \<exists>q'. simple_get q = Inr (Some a, q') \<and> simple_rep q' xs (insert a L) \<and> entry_data_of q' = entry_data_of q"
proof -
  show "simple_rep q [] L \<Longrightarrow> simple_get q = Inr (None, q)"
    by (auto simp: simple_rep_def queue_inv_def simple_get_def)
  assume "simple_rep q (a # xs) L"
  then obtain fs where inv: "queue_inv q (a # xs) fs L" by (auto simp: simple_rep_def)
  then have get: "q_get q = Some a" and next_a: "chain (next_entry q) (next_entry q a) xs None"
    by (auto simp: queue_inv_def)
  have empty: "next_entry q a = None \<longleftrightarrow> xs = []" using next_a by (cases xs) auto
  let ?q = "if xs = [] then q\<lparr>q_get := None, q_put := None\<rparr> else q\<lparr>q_get := next_entry q a\<rparr>"
  have "simple_get q = Inr (Some a, ?q)"
    using inv get empty by (auto simp: simple_get_def queue_inv_def Let_def)
  moreover have "queue_inv ?q xs fs (insert a L)"
    using inv next_a by (auto simp: queue_inv_def last_opt_def)
  moreover have "entry_data_of ?q = entry_data_of q" by (auto simp: entry_data_of_def fun_eq_iff)
  ultimately show "\<exists>q'. simple_get q = Inr (Some a, q') \<and> simple_rep q' xs (insert a L) \<and> entry_data_of q' = entry_data_of q"
    unfolding simple_rep_def by blast
qed

lemma simple_put_rep:
  assumes "simple_rep q xs L" and "a \<in> L"
  shows "\<exists>q'. simple_put a q = Inr ((), q') \<and> simple_rep q' (xs @ [a]) (L - {a}) \<and> entry_data_of q' = entry_data_of q"
proof -
  obtain fs where inv: "queue_inv q xs fs L" using assms by (auto simp: simple_rep_def)
  then have a: "a \<notin> set xs" "a \<notin> set fs" using assms(2) by (auto simp: queue_inv_def)
  show ?thesis
  proof (cases xs rule: rev_cases)
    case Nil
    let ?q = "(set_queue_entry a ((q_entry q a)\<lparr>qe_next := None\<rparr>) q)\<lparr>q_put := Some a, q_get := Some a\<rparr>"
    have "simple_put a q = Inr ((), ?q)"
      using inv Nil by (simp add: simple_put_def queue_inv_def)
    moreover have "chain (next_entry ?q) (q_free q) fs None"
      using inv a by (auto simp: queue_inv_def intro: iffD1 [OF chain_cong, rotated])
    then have "queue_inv ?q [a] fs (L - {a})" using inv a Nil assms(2) by (auto simp: queue_inv_def)
    ultimately show ?thesis using Nil by (auto simp: simple_rep_def entry_data_of_def fun_eq_iff)
  next
    case (snoc ys p)
    let ?q0 = "set_queue_entry a ((q_entry q a)\<lparr>qe_next := None\<rparr>) q"
    let ?q = "(set_queue_entry p ((q_entry ?q0 p)\<lparr>qe_next := Some a\<rparr>) ?q0)\<lparr>q_put := Some a\<rparr>"
    have p: "p \<noteq> a" "p \<notin> set ys" "p \<notin> set fs" using inv a snoc by (auto simp: queue_inv_def)
    have "q_get q \<noteq> None" using inv snoc by (cases ys) (auto simp: queue_inv_def)
    then have "simple_put a q = Inr ((), ?q)"
      using inv snoc p by (auto simp: simple_put_def queue_inv_def Let_def)
    moreover have "queue_inv ?q (xs @ [a]) fs (L - {a})"
    proof -
      have ys: "chain (next_entry ?q) r ys (Some p) = chain (next_entry q) r ys (Some p)" for r
        using a p snoc by (intro chain_cong) auto
      have fs: "chain (next_entry ?q) r fs None = chain (next_entry q) r fs None" for r
        using a p by (intro chain_cong) auto
      have ends: "next_entry ?q p = Some a" "next_entry ?q a = None" using p(1) by simp_all
      have "chain (next_entry q) (q_get q) ys (Some p)" using inv snoc by (auto simp: queue_inv_def)
      then have "chain (next_entry ?q) (q_get q) ys (Some p)" unfolding ys .
      moreover have "chain (next_entry ?q) (Some p) [p, a] None"
        unfolding chain.simps ends by simp
      ultimately have "chain (next_entry ?q) (q_get q) (ys @ [p, a]) None" unfolding chain_append by blast
      moreover have "q_get ?q = q_get q" "xs @ [a] = ys @ [p, a]" by (simp_all add: snoc)
      ultimately have "chain (next_entry ?q) (q_get ?q) (xs @ [a]) None" by simp
      moreover have "chain (next_entry ?q) (q_free ?q) fs None" using inv fs by (simp add: queue_inv_def)
      moreover have "distinct ((xs @ [a]) @ fs)" using inv a by (auto simp: queue_inv_def)
      moreover have "(set (xs @ [a]) \<union> set fs) \<inter> (L - {a}) = {}" using inv a by (auto simp: queue_inv_def)
      moreover have "set (xs @ [a]) \<union> set fs \<union> (L - {a}) = {..<q_made ?q}"
        using inv assms(2) by (auto simp: queue_inv_def)
      moreover have "\<forall>b \<in> set fs. entry_data.truncate (q_entry ?q b) = entry_data.truncate new_queue_entry"
        using inv a p by (auto simp: queue_inv_def)
      ultimately show ?thesis unfolding queue_inv_def by simp
    qed
    ultimately have "simple_put a q = Inr ((), ?q)" "queue_inv ?q (xs @ [a]) fs (L - {a})" by blast+
    then show ?thesis
      using \<open>simple_put a q = Inr ((), ?q)\<close> p by (auto simp: simple_rep_def entry_data_of_def fun_eq_iff)
  qed
qed

section \<open>The interface\<close>

text \<open>
  The operations of the abstract class \<open>InputQueue\<close>, and access to the entries behind the
  pointers that it hands out.
\<close>

record 'q queue_ops =
  iq_isEmpty :: "'q \<Rightarrow> bool result"
  iq_allocate :: "'q \<Rightarrow> (entry_addr \<times> 'q) result"
  iq_put :: "entry_addr \<Rightarrow> 'q \<Rightarrow> (unit \<times> 'q) result"
  iq_get :: "'q \<Rightarrow> (entry_addr option \<times> 'q) result"
  iq_release :: "entry_addr \<Rightarrow> 'q \<Rightarrow> (unit \<times> 'q) result"
  iq_entry :: "'q \<Rightarrow> entry_addr \<Rightarrow> queue_entry"
  iq_write :: "entry_addr \<Rightarrow> queue_entry \<Rightarrow> 'q \<Rightarrow> 'q"

definition simple_ops :: "iqueue queue_ops" where
  "simple_ops =
     \<lparr>iq_isEmpty = \<lambda>q. Inr (simple_isEmpty q), iq_allocate = simple_allocate, iq_put = simple_put,
      iq_get = simple_get, iq_release = simple_release, iq_entry = q_entry, iq_write = set_queue_entry\<rparr>"

definition serialized_ops :: "iqueue queue_ops" where
  "serialized_ops =
     \<lparr>iq_isEmpty = serialized_isEmpty, iq_allocate = serialized_allocate, iq_put = serialized_put,
      iq_get = serialized_get, iq_release = serialized_release, iq_entry = q_entry, iq_write = set_queue_entry\<rparr>"

definition data_at :: "'q queue_ops \<Rightarrow> 'q \<Rightarrow> entry_addr \<Rightarrow> entry_data" where
  "data_at ops q a = entry_data.truncate (iq_entry ops q a)"

text \<open>
  The queue holds the entries \<open>xs\<close>, and the entries \<open>L\<close> are with clients. What is put into the
  queue comes out first in, first out, with its data; an entry that is allocated is blank; and
  no operation touches the data of other entries.
\<close>

locale input_queue =
  fixes ops :: "'q queue_ops"
    and rep :: "'q \<Rightarrow> entry_addr list \<Rightarrow> entry_addr set \<Rightarrow> bool"
  assumes isEmpty_law: "rep q xs L \<Longrightarrow> iq_isEmpty ops q = Inr (xs = [])"
    and allocate_law: "rep q xs L \<Longrightarrow> \<exists>a q'. iq_allocate ops q = Inr (a, q') \<and> a \<notin> L \<union> set xs
      \<and> rep q' xs (insert a L) \<and> data_at ops q' a = blank \<and> (\<forall>b \<in> set xs \<union> L. data_at ops q' b = data_at ops q b)"
    and write_law: "rep q xs L \<Longrightarrow> a \<in> L \<Longrightarrow> rep (iq_write ops a e q) xs L"
    and write_data: "data_at ops (iq_write ops a e q) = (data_at ops q)(a := entry_data.truncate e)"
    and put_law: "rep q xs L \<Longrightarrow> a \<in> L \<Longrightarrow> \<exists>q'. iq_put ops a q = Inr ((), q') \<and> rep q' (xs @ [a]) (L - {a})
      \<and> data_at ops q' = data_at ops q"
    and get_empty_law: "rep q [] L \<Longrightarrow> iq_get ops q = Inr (None, q)"
    and get_law: "rep q (a # xs) L \<Longrightarrow> \<exists>q'. iq_get ops q = Inr (Some a, q') \<and> rep q' xs (insert a L)
      \<and> data_at ops q' = data_at ops q"
    and release_law: "rep q xs L \<Longrightarrow> a \<in> L \<Longrightarrow> \<exists>q'. iq_release ops a q = Inr ((), q') \<and> rep q' xs (L - {a})
      \<and> (\<forall>b. b \<noteq> a \<longrightarrow> data_at ops q' b = data_at ops q b)"
    and on_loan: "rep q xs L \<Longrightarrow> set xs \<inter> L = {}"

lemma simple_data: "data_at simple_ops q = entry_data_of q" "data_at serialized_ops q = entry_data_of q"
  by (simp_all add: data_at_def entry_data_of_def simple_ops_def serialized_ops_def fun_eq_iff)

lemma write_entry_data:
  "entry_data_of (set_queue_entry a e q) = (entry_data_of q)(a := entry_data.truncate e)"
  by (simp add: entry_data_of_def fun_eq_iff)

lemma rep_on_loan: "simple_rep q xs L \<Longrightarrow> set xs \<inter> L = {}"
  by (auto simp: simple_rep_def queue_inv_def)

lemma simple_ops_simps [simp]:
  "iq_isEmpty simple_ops q = Inr (simple_isEmpty q)" "iq_allocate simple_ops = simple_allocate"
  "iq_put simple_ops = simple_put" "iq_get simple_ops = simple_get" "iq_release simple_ops = simple_release"
  "iq_write simple_ops = set_queue_entry"
  by (simp_all add: simple_ops_def)

interpretation simple: input_queue simple_ops simple_rep
proof
  fix q :: iqueue and a e
  show "data_at simple_ops (iq_write simple_ops a e q) = (data_at simple_ops q)(a := entry_data.truncate e)"
    by (simp add: simple_data write_entry_data)
next
  fix q :: iqueue and xs :: "entry_addr list" and L :: "entry_addr set" and a e
  assume rep: "simple_rep q xs L"
  show "iq_isEmpty simple_ops q = Inr (xs = [])" using rep by (simp add: simple_isEmpty_rep)
  show "\<exists>a q'. iq_allocate simple_ops q = Inr (a, q') \<and> a \<notin> L \<union> set xs \<and> simple_rep q' xs (insert a L)
      \<and> data_at simple_ops q' a = blank \<and> (\<forall>b \<in> set xs \<union> L. data_at simple_ops q' b = data_at simple_ops q b)"
    unfolding simple_data simple_ops_simps using rep by (rule simple_allocate_rep)
  show "set xs \<inter> L = {}" using rep by (rule rep_on_loan)
  assume a: "a \<in> L"
  show "simple_rep (iq_write simple_ops a e q) xs L" using rep a by (simp add: write_rep)
  show "\<exists>q'. iq_put simple_ops a q = Inr ((), q') \<and> simple_rep q' (xs @ [a]) (L - {a})
      \<and> data_at simple_ops q' = data_at simple_ops q"
    unfolding simple_data simple_ops_simps using rep a by (rule simple_put_rep)
  show "\<exists>q'. iq_release simple_ops a q = Inr ((), q') \<and> simple_rep q' xs (L - {a})
      \<and> (\<forall>b. b \<noteq> a \<longrightarrow> data_at simple_ops q' b = data_at simple_ops q b)"
    unfolding simple_data simple_ops_simps using rep a by (rule simple_release_rep)
next
  fix q :: iqueue and L
  assume "simple_rep q [] L"
  then show "iq_get simple_ops q = Inr (None, q)" by (simp add: simple_get_rep(1))
next
  fix q :: iqueue and a xs L
  assume "simple_rep q (a # xs) L"
  then show "\<exists>q'. iq_get simple_ops q = Inr (Some a, q') \<and> simple_rep q' xs (insert a L)
      \<and> data_at simple_ops q' = data_at simple_ops q"
    unfolding simple_data simple_ops_simps by (rule simple_get_rep(2))
qed

text \<open>The serialized queue is the simple queue whose mutex is free between the operations.\<close>

definition serialized_rep :: "iqueue \<Rightarrow> entry_addr list \<Rightarrow> entry_addr set \<Rightarrow> bool" where
  "serialized_rep q xs L \<longleftrightarrow> simple_rep q xs L \<and> \<not> q_locked q"

lemma guarded_rep:
  assumes "serialized_rep q xs L"
    and "f (q\<lparr>q_locked := True\<rparr>) = Inr (x, q')" and "simple_rep q' xs' L'"
  shows "guarded f q = Inr (x, q'\<lparr>q_locked := False\<rparr>) \<and> serialized_rep (q'\<lparr>q_locked := False\<rparr>) xs' L'"
  using assms by (simp add: guarded_def serialized_rep_def)

lemma data_locked [simp]: "entry_data_of (q\<lparr>q_locked := b\<rparr>) = entry_data_of q"
  by (simp add: entry_data_of_def fun_eq_iff)

interpretation serialized: input_queue serialized_ops serialized_rep
proof
  fix q :: iqueue and xs :: "entry_addr list" and L :: "entry_addr set" and a e
  assume rep: "serialized_rep q xs L"
  then have simple_rep: "simple_rep (q\<lparr>q_locked := True\<rparr>) xs L" by (simp add: serialized_rep_def)
  show "iq_isEmpty serialized_ops q = Inr (xs = [])"
    using rep simple_isEmpty_rep [OF simple_rep]
    by (simp add: serialized_ops_def serialized_isEmpty_def guarded_def serialized_rep_def)
  show "\<exists>a q'. iq_allocate serialized_ops q = Inr (a, q') \<and> a \<notin> L \<union> set xs
      \<and> serialized_rep q' xs (insert a L) \<and> data_at serialized_ops q' a = blank
      \<and> (\<forall>b \<in> set xs \<union> L. data_at serialized_ops q' b = data_at serialized_ops q b)"
    using simple_allocate_rep [OF simple_rep] guarded_rep [OF rep, of simple_allocate]
    unfolding simple_data by (fastforce simp: serialized_ops_def serialized_allocate_def)
  show "set xs \<inter> L = {}" using rep_on_loan [OF simple_rep] .
  assume a: "a \<in> L"
  show "serialized_rep (iq_write serialized_ops a e q) xs L"
    using rep write_rep [of q xs L a e] a by (simp add: serialized_rep_def serialized_ops_def)
  show "\<exists>q'. iq_put serialized_ops a q = Inr ((), q') \<and> serialized_rep q' (xs @ [a]) (L - {a})
      \<and> data_at serialized_ops q' = data_at serialized_ops q"
    using simple_put_rep [OF simple_rep a] guarded_rep [OF rep, of "simple_put a"]
    unfolding simple_data by (fastforce simp: serialized_ops_def serialized_put_def)
  show "\<exists>q'. iq_release serialized_ops a q = Inr ((), q') \<and> serialized_rep q' xs (L - {a})
      \<and> (\<forall>b. b \<noteq> a \<longrightarrow> data_at serialized_ops q' b = data_at serialized_ops q b)"
    using simple_release_rep [OF simple_rep a] guarded_rep [OF rep, of "simple_release a"]
    unfolding simple_data by (fastforce simp: serialized_ops_def serialized_release_def)
next
  fix q :: iqueue and a e
  show "data_at serialized_ops (iq_write serialized_ops a e q) = (data_at serialized_ops q)(a := entry_data.truncate e)"
    unfolding simple_data by (simp add: serialized_ops_def write_entry_data)
next
  fix q :: iqueue and L
  assume rep: "serialized_rep q [] L"
  then have "simple_rep (q\<lparr>q_locked := True\<rparr>) [] L" "\<not> q_locked q" by (simp_all add: serialized_rep_def)
  then show "iq_get serialized_ops q = Inr (None, q)"
    using simple_get_rep(1) [of "q\<lparr>q_locked := True\<rparr>" L]
    by (simp add: serialized_ops_def serialized_get_def guarded_def)
next
  fix q :: iqueue and a xs L
  assume rep: "serialized_rep q (a # xs) L"
  then have "simple_rep (q\<lparr>q_locked := True\<rparr>) (a # xs) L" by (simp add: serialized_rep_def)
  then show "\<exists>q'. iq_get serialized_ops q = Inr (Some a, q') \<and> serialized_rep q' xs (insert a L)
      \<and> data_at serialized_ops q' = data_at serialized_ops q"
    using simple_get_rep(2) guarded_rep [OF rep, of simple_get]
    unfolding simple_data by (fastforce simp: serialized_ops_def serialized_get_def)
qed

section \<open>Flushing\<close>

text \<open>While the queue is flushed its \<open>m_queuePut\<close> is out of date.\<close>

lemma flush_loop_inv:
  "queue_inv (q\<lparr>q_put := last_opt xs\<rparr>) xs fs L \<Longrightarrow> length xs < n \<Longrightarrow>
     \<exists>q'. flush_loop simple_release n q = Inr q' \<and> queue_inv (q'\<lparr>q_put := None\<rparr>) [] (rev xs @ fs) L"
proof (induction xs arbitrary: q fs n)
  case Nil
  then obtain m where "n = Suc m" by (cases n) auto
  then show ?case using Nil by (auto simp: queue_inv_def)
next
  case (Cons a xs)
  then obtain m where n: "n = Suc m" by (cases n) auto
  let ?q = "q\<lparr>q_get := next_entry q a\<rparr>"
  have get: "q_get q = Some a" using Cons.prems(1) by (simp add: queue_inv_def)
  have "queue_inv (?q\<lparr>q_put := last_opt xs\<rparr>) xs fs (insert a L)"
    using Cons.prems(1) by (auto simp: queue_inv_def)
  then have "queue_inv (released a (?q\<lparr>q_put := last_opt xs\<rparr>)) xs (a # fs) (insert a L - {a})"
    by (rule release_inv) simp
  moreover have "released a (?q\<lparr>q_put := last_opt xs\<rparr>) = (released a ?q)\<lparr>q_put := last_opt xs\<rparr>"
    by (simp add: released_def set_queue_entry_def)
  moreover have "insert a L - {a} = L" using Cons.prems(1) by (auto simp: queue_inv_def)
  ultimately obtain q' where "flush_loop simple_release m (released a ?q) = Inr q'"
    "queue_inv (q'\<lparr>q_put := None\<rparr>) [] (rev xs @ a # fs) L"
    using Cons.IH [of "released a ?q" "a # fs" m] Cons.prems(2) n by auto
  then show ?case by (simp add: n get simple_release_eq [of a])
qed

text \<open>
  Flushing the simple queue returns every entry to the free list. Flushing the
  serialized queue does so only if there is nothing to flush: it calls \<open>release\<close> while it holds
  the mutex that \<open>release\<close> takes.
\<close>

theorem flush_serialized_deadlocks:
  assumes "queue_inv q xs fs L" and "\<not> q_locked q"
  shows "(\<exists>q'. simple_flush q = Inr ((), q') \<and> queue_inv q' [] (rev xs @ fs) L)
    \<and> serialized_flush q = (if xs = [] then Inr ((), q\<lparr>q_put := None\<rparr>) else Inl Deadlock)"
proof
  show "\<exists>q'. simple_flush q = Inr ((), q') \<and> queue_inv q' [] (rev xs @ fs) L"
  proof -
    have "card (set xs) \<le> card {..<q_made q}"
      using assms(1) by (intro card_mono) (auto simp: queue_inv_def)
    moreover have "distinct xs" using assms(1) by (simp add: queue_inv_def)
    ultimately have "length xs < Suc (q_made q)" by (simp add: distinct_card)
    moreover have "q\<lparr>q_put := last_opt xs\<rparr> = q" using assms(1) by (simp add: queue_inv_def)
    ultimately obtain q' where "flush_loop simple_release (Suc (q_made q)) q = Inr q'"
      "queue_inv (q'\<lparr>q_put := None\<rparr>) [] (rev xs @ fs) L"
      using flush_loop_inv [where q = q and n = "Suc (q_made q)" and xs = xs and fs = fs and L = L] assms(1) by auto
    then show ?thesis
      by (simp add: simple_flush_def del: flush_loop.simps)
  qed
  show "serialized_flush q = (if xs = [] then Inr ((), q\<lparr>q_put := None\<rparr>) else Inl Deadlock)"
    using assms
    by (cases xs) (auto simp: serialized_flush_def guarded_def serialized_release_def queue_inv_def)
qed

text \<open>Two entries in the queue.\<close>

definition two_entries :: iqueue where
  "two_entries =
     \<lparr>q_get = Some 0, q_put = Some 1, q_free = None,
      q_entry = (\<lambda>_. new_queue_entry)(0 := new_queue_entry\<lparr>qe_next := Some 1\<rparr>), q_made = 2, q_locked = False\<rparr>"

theorem flush_serialized_deadlocks_witness:
  "(\<exists>q'. simple_flush two_entries = Inr ((), q') \<and> queue_inv q' [] [1, 0] {})
    \<and> serialized_flush two_entries = Inl Deadlock"
proof -
  have "queue_inv two_entries [0, 1] [] {}"
    by (auto simp: queue_inv_def two_entries_def new_queue_entry_def last_opt_def)
  then show ?thesis
    using flush_serialized_deadlocks [of two_entries "[0, 1]" "[]" "{}"] by (simp add: two_entries_def)
qed

end
