(* ===== verification/Interface_Manager.thy ===== *)
theory Interface_Manager
  imports Input_Queue Node_Constants Lookup_Watch
begin

text \<open>
  The interface manager (src/src/app-framework/InterfaceManager.cc): the interfaces hand it their
  notifications, it queues them, and the executive has them processed before it takes a step.

  Values and messages go to the state cache, which is modelled. What is told to commands,
  updates, the executive and the application is the list of calls \<open>ox_calls\<close>. The queue is any
  implementation of the operations of \<open>InputQueue\<close>.
\<close>

section \<open>State\<close>

datatype manager_call =
    CommandHandleReturn command_id "8 word"
  | CommandReturn command_id pvalue
  | CommandAbortAcknowledge command_id bool
  | UpdateAcknowledge update_id bool
  | PlanAdded plan_id
  | MarkProcessed "32 word"

record outside =
  ox_cache :: cache
  ox_calls :: "manager_call list"

record 'q manager =
  im_queue :: 'q
  im_markCount :: "32 word"
  im_outside :: outside

definition call :: "manager_call \<Rightarrow> outside \<Rightarrow> outside result" where
  "call c x = Inr (x\<lparr>ox_calls := ox_calls x @ [c]\<rparr>)"

definition on_cache :: "(cache \<Rightarrow> cache result) \<Rightarrow> outside \<Rightarrow> outside result" where
  "on_cache f x = bindE (f (ox_cache x)) (\<lambda>c. Inr (x\<lparr>ox_cache := c\<rparr>))"

section \<open>Notifications\<close>

text \<open>Allocate an entry, prepare it, put it into the queue.\<close>

definition enqueue :: "'q queue_ops \<Rightarrow> (queue_entry \<Rightarrow> queue_entry) \<Rightarrow> 'q manager \<Rightarrow> 'q manager result" where
  "enqueue ops prepare m =
     bindE (iq_allocate ops (im_queue m)) (\<lambda>(a, q).
     bindE (iq_put ops a (iq_write ops a (prepare (iq_entry ops q a)) q)) (\<lambda>(_, q).
       Inr (m\<lparr>im_queue := q\<rparr>)))"

definition handleValueChange :: "'q queue_ops \<Rightarrow> state \<Rightarrow> pvalue \<Rightarrow> 'q manager \<Rightarrow> 'q manager result" where
  "handleValueChange ops st val = enqueue ops (initForLookup st val)"

text \<open>A null command is ignored, and an invalid handle value replaced.\<close>

definition valid_handle :: "8 word \<Rightarrow> bool" where
  "valid_handle v \<longleftrightarrow> command_handle_code NO_COMMAND_HANDLE < unat v \<and> unat v < COMMAND_HANDLE_MAX"

definition handleCommandAck :: "'q queue_ops \<Rightarrow> command_id option \<Rightarrow> 8 word \<Rightarrow> 'q manager \<Rightarrow> 'q manager result" where
  "handleCommandAck ops cmd val m =
     (case cmd of
        None \<Rightarrow> Inr m
      | Some cmd \<Rightarrow>
          enqueue ops (initForCommandAck cmd
            (if valid_handle val then val else of_nat (command_handle_code COMMAND_INTERFACE_ERROR))) m)"

definition handleCommandReturn :: "'q queue_ops \<Rightarrow> command_id option \<Rightarrow> pvalue \<Rightarrow> 'q manager \<Rightarrow> 'q manager result" where
  "handleCommandReturn ops cmd val m =
     (case cmd of None \<Rightarrow> Inr m | Some cmd \<Rightarrow> enqueue ops (initForCommandReturn cmd val) m)"

definition handleCommandAbortAck :: "'q queue_ops \<Rightarrow> command_id option \<Rightarrow> bool \<Rightarrow> 'q manager \<Rightarrow> 'q manager result" where
  "handleCommandAbortAck ops cmd ack m =
     (case cmd of None \<Rightarrow> Inr m | Some cmd \<Rightarrow> enqueue ops (initForCommandAbort cmd ack) m)"

definition handleUpdateAck :: "'q queue_ops \<Rightarrow> update_id option \<Rightarrow> bool \<Rightarrow> 'q manager \<Rightarrow> 'q manager result" where
  "handleUpdateAck ops upd ack m =
     (case upd of None \<Rightarrow> Inr m | Some upd \<Rightarrow> enqueue ops (initForUpdateAck upd ack) m)"

definition notifyMessageReceived :: "'q queue_ops \<Rightarrow> message option \<Rightarrow> 'q manager \<Rightarrow> 'q manager result" where
  "notifyMessageReceived ops msg m =
     (case msg of None \<Rightarrow> Inr m | Some msg \<Rightarrow> enqueue ops (initForReceiveMessage msg) m)"

definition notifyMessageQueueEmpty :: "'q queue_ops \<Rightarrow> 'q manager \<Rightarrow> 'q manager result" where
  "notifyMessageQueueEmpty ops = enqueue ops initForMessageQueueEmpty"

definition notifyMessageAccepted :: "'q queue_ops \<Rightarrow> message option \<Rightarrow> string \<Rightarrow> 'q manager \<Rightarrow> 'q manager result" where
  "notifyMessageAccepted ops msg handle m =
     (case msg of
        None \<Rightarrow> Inr m
      | Some msg \<Rightarrow> if handle = [] then Inr m else enqueue ops (initForAcceptMessage msg handle) m)"

definition notifyMessageHandleReleased :: "'q queue_ops \<Rightarrow> string \<Rightarrow> 'q manager \<Rightarrow> 'q manager result" where
  "notifyMessageHandleReleased ops handle m =
     (if handle = [] then Inr m else enqueue ops (initForReleaseMessageHandle handle) m)"

text \<open>The plan that was parsed.\<close>

definition handleAddPlan :: "'q queue_ops \<Rightarrow> plan_id \<Rightarrow> 'q manager \<Rightarrow> 'q manager result" where
  "handleAddPlan ops root = enqueue ops (initForAddPlan root)"

definition markQueue :: "'q queue_ops \<Rightarrow> 'q manager \<Rightarrow> (32 word \<times> 'q manager) result" where
  "markQueue ops m =
     (let sequence = im_markCount m + 1
      in bindE (enqueue ops (initForMark sequence) (m\<lparr>im_markCount := sequence\<rparr>)) (\<lambda>m. Inr (sequence, m)))"

section \<open>Processing the queue\<close>

text \<open>
  Access to a member of the union: a null pointer where \<open>assertTrue_1\<close> tests it, and undefined
  where another member was assigned. A value that is unknown fails the assertion around
  \<open>getValue\<close>.
\<close>

definition command_of :: "entry_item \<Rightarrow> command_id result" where
  "command_of i = (case i of CommandItem c \<Rightarrow> Inr c | NullItem \<Rightarrow> Inl AssertFailed | _ \<Rightarrow> Inl UninitializedRead)"

definition message_of :: "entry_item \<Rightarrow> message result" where
  "message_of i = (case i of MessageItem x \<Rightarrow> Inr x | NullItem \<Rightarrow> Inl NullPointer | _ \<Rightarrow> Inl UninitializedRead)"

definition plan_of :: "entry_item \<Rightarrow> plan_id result" where
  "plan_of i = (case i of PlanItem x \<Rightarrow> Inr x | NullItem \<Rightarrow> Inl AssertFailed | _ \<Rightarrow> Inl UninitializedRead)"

definition state_of :: "entry_item \<Rightarrow> state result" where
  "state_of i = (case i of StateItem x \<Rightarrow> Inr x | NullItem \<Rightarrow> Inl AssertFailed | _ \<Rightarrow> Inl UninitializedRead)"

definition update_of :: "entry_item \<Rightarrow> update_id result" where
  "update_of i = (case i of UpdateItem x \<Rightarrow> Inr x | NullItem \<Rightarrow> Inl AssertFailed | _ \<Rightarrow> Inl UninitializedRead)"

definition sequence_of :: "entry_item \<Rightarrow> 32 word result" where
  "sequence_of i = (case i of SequenceItem x \<Rightarrow> Inr x | _ \<Rightarrow> Inl UninitializedRead)"

fun getCommandHandle :: "pvalue \<Rightarrow> 8 word option result" where
  "getCommandHandle (Unknown _) = Inr None"
| "getCommandHandle (Known (CommandHandleVal h)) = Inr (Some h)"
| "getCommandHandle (Known _) = Inl PlanError"

definition asserted :: "'a option result \<Rightarrow> 'a result" where
  "asserted r = bindE r (\<lambda>x. case x of None \<Rightarrow> Inl AssertFailed | Some y \<Rightarrow> Inr y)"

text \<open>The cases of the switch over the type of the entry.\<close>

definition process_entry :: "entry_data \<Rightarrow> outside \<Rightarrow> outside result" where
  "process_entry e x =
     (case qe_type e of
        Q_MARK \<Rightarrow> bindE (sequence_of (qe_item e)) (\<lambda>n. call (MarkProcessed n) x)
      | Q_LOOKUP \<Rightarrow> bindE (state_of (qe_item e)) (\<lambda>st. on_cache (lookupReturn st (qe_value e)) x)
      | Q_COMMAND_ACK \<Rightarrow>
          bindE (command_of (qe_item e)) (\<lambda>cmd.
          bindE (asserted (getCommandHandle (qe_value e))) (\<lambda>handle. call (CommandHandleReturn cmd handle) x))
      | Q_COMMAND_RETURN \<Rightarrow>
          bindE (command_of (qe_item e)) (\<lambda>cmd. call (CommandReturn cmd (qe_value e)) x)
      | Q_COMMAND_ABORT \<Rightarrow>
          bindE (command_of (qe_item e)) (\<lambda>cmd.
          bindE (asserted (getBoolean (qe_value e))) (\<lambda>ack. call (CommandAbortAcknowledge cmd ack) x))
      | Q_UPDATE_ACK \<Rightarrow>
          bindE (update_of (qe_item e)) (\<lambda>upd.
          bindE (asserted (getBoolean (qe_value e))) (\<lambda>ack. call (UpdateAcknowledge upd ack) x))
      | Q_ADD_PLAN \<Rightarrow> bindE (plan_of (qe_item e)) (\<lambda>pid. call (PlanAdded pid) x)
      | Q_RECEIVE_MSG \<Rightarrow> bindE (message_of (qe_item e)) (\<lambda>msg. on_cache (messageReceived msg) x)
      | Q_MSG_QUEUE_EMPTY \<Rightarrow> on_cache messageQueueEmpty x
      | Q_ACCEPT_MSG \<Rightarrow>
          bindE (asserted (getString (qe_value e))) (\<lambda>handle.
          bindE (message_of (qe_item e)) (\<lambda>msg. on_cache (assignMessageHandle msg handle) x))
      | Q_RELEASE_MSG_HANDLE \<Rightarrow>
          bindE (asserted (getString (qe_value e))) (\<lambda>handle. on_cache (releaseMessageHandle handle) x)
      | _ \<Rightarrow> Inl ErrorMsg)"

text \<open>
  The loop over the queue; the bound is on the entries it may process. Where an error is raised
  the entry is not recycled.
\<close>

fun process_loop :: "'q queue_ops \<Rightarrow> nat \<Rightarrow> bool \<Rightarrow> 'q manager \<Rightarrow> (bool \<times> 'q manager) result" where
  "process_loop ops 0 needsStep m = Inl OutOfFuel"
| "process_loop ops (Suc n) needsStep m =
     bindE (iq_get ops (im_queue m)) (\<lambda>(entry, q). case entry of
       None \<Rightarrow> Inr (needsStep, m\<lparr>im_queue := q\<rparr>)
     | Some a \<Rightarrow>
         let e = entry_data.truncate (iq_entry ops q a)
         in bindE (process_entry e (im_outside m)) (\<lambda>x.
            bindE (iq_release ops a q) (\<lambda>(_, q).
              process_loop ops n (needsStep \<or> qe_type e \<noteq> Q_MARK) (m\<lparr>im_queue := q, im_outside := x\<rparr>))))"

definition processQueue :: "'q queue_ops \<Rightarrow> nat \<Rightarrow> 'q manager \<Rightarrow> (bool \<times> 'q manager) result" where
  "processQueue ops n m =
     bindE (iq_isEmpty ops (im_queue m)) (\<lambda>empty.
       if empty then Inr (False, m) else process_loop ops n False m)"

section \<open>What notifications are for\<close>

datatype notification =
    ValueChange state pvalue
  | CommandAck "command_id option" "8 word"
  | CommandReturned "command_id option" pvalue
  | CommandAbortAck "command_id option" bool
  | UpdateAck "update_id option" bool
  | AddPlan plan_id
  | MessageArrived "message option"
  | MessagesExhausted
  | MessageAccepted "message option" string
  | HandleReleased string
  | Mark

fun post :: "'q queue_ops \<Rightarrow> notification \<Rightarrow> 'q manager \<Rightarrow> 'q manager result" where
  "post ops (ValueChange st val) m = handleValueChange ops st val m"
| "post ops (CommandAck cmd val) m = handleCommandAck ops cmd val m"
| "post ops (CommandReturned cmd val) m = handleCommandReturn ops cmd val m"
| "post ops (CommandAbortAck cmd ack) m = handleCommandAbortAck ops cmd ack m"
| "post ops (UpdateAck upd ack) m = handleUpdateAck ops upd ack m"
| "post ops (AddPlan root) m = handleAddPlan ops root m"
| "post ops (MessageArrived msg) m = notifyMessageReceived ops msg m"
| "post ops MessagesExhausted m = notifyMessageQueueEmpty ops m"
| "post ops (MessageAccepted msg handle) m = notifyMessageAccepted ops msg handle m"
| "post ops (HandleReleased handle) m = notifyMessageHandleReleased ops handle m"
| "post ops Mark m = bindE (markQueue ops m) (\<lambda>(_, m). Inr m)"

text \<open>
  The notifications that are taken up; the others have a null pointer or an empty handle. The
  acceptance of a message is taken up, but cannot be processed.
\<close>

fun taken_up :: "notification \<Rightarrow> bool" where
  "taken_up (CommandAck cmd val) \<longleftrightarrow> cmd \<noteq> None"
| "taken_up (CommandReturned cmd val) \<longleftrightarrow> cmd \<noteq> None"
| "taken_up (CommandAbortAck cmd ack) \<longleftrightarrow> cmd \<noteq> None"
| "taken_up (UpdateAck upd ack) \<longleftrightarrow> upd \<noteq> None"
| "taken_up (MessageArrived msg) \<longleftrightarrow> msg \<noteq> None"
| "taken_up (MessageAccepted msg handle) \<longleftrightarrow> msg \<noteq> None \<and> handle \<noteq> []"
| "taken_up (HandleReleased handle) \<longleftrightarrow> handle \<noteq> []"
| "taken_up _ \<longleftrightarrow> True"

fun effect :: "32 word \<Rightarrow> notification \<Rightarrow> outside \<Rightarrow> outside result" where
  "effect n (ValueChange st val) x = on_cache (lookupReturn st val) x"
| "effect n (CommandAck cmd val) x =
     call (CommandHandleReturn (the cmd)
       (if valid_handle val then val else of_nat (command_handle_code COMMAND_INTERFACE_ERROR))) x"
| "effect n (CommandReturned cmd val) x = call (CommandReturn (the cmd) val) x"
| "effect n (CommandAbortAck cmd ack) x = call (CommandAbortAcknowledge (the cmd) ack) x"
| "effect n (UpdateAck upd ack) x = call (UpdateAcknowledge (the upd) ack) x"
| "effect n (AddPlan root) x = call (PlanAdded root) x"
| "effect n (MessageArrived msg) x = on_cache (messageReceived (the msg)) x"
| "effect n MessagesExhausted x = on_cache messageQueueEmpty x"
| "effect n (MessageAccepted msg handle) x = Inl AssertFailed"
| "effect n (HandleReleased handle) x = on_cache (releaseMessageHandle handle) x"
| "effect n Mark x = call (MarkProcessed (n + 1)) x"

definition next_mark :: "32 word \<Rightarrow> notification \<Rightarrow> 32 word" where
  "next_mark n y = (if y = Mark then n + 1 else n)"

text \<open>The effects of notifications that are taken up, in order, each once.\<close>

fun effects :: "32 word \<Rightarrow> notification list \<Rightarrow> outside \<Rightarrow> outside result" where
  "effects n [] x = Inr x"
| "effects n (y # ys) x =
     bindE (if taken_up y then effect n y x else Inr x) (effects (next_mark n y) ys)"

text \<open>The data of the entries they are posted in.\<close>

fun posted :: "32 word \<Rightarrow> notification \<Rightarrow> entry_data" where
  "posted n (ValueChange st val) = \<lparr>qe_item = StateItem st, qe_value = val, qe_type = Q_LOOKUP\<rparr>"
| "posted n (CommandAck cmd val) =
     \<lparr>qe_item = CommandItem (the cmd),
      qe_value = Known (CommandHandleVal
        (if valid_handle val then val else of_nat (command_handle_code COMMAND_INTERFACE_ERROR))),
      qe_type = Q_COMMAND_ACK\<rparr>"
| "posted n (CommandReturned cmd val) =
     \<lparr>qe_item = CommandItem (the cmd), qe_value = val, qe_type = Q_COMMAND_RETURN\<rparr>"
| "posted n (CommandAbortAck cmd ack) =
     \<lparr>qe_item = CommandItem (the cmd), qe_value = Known (BooleanVal ack), qe_type = Q_COMMAND_ABORT\<rparr>"
| "posted n (UpdateAck upd ack) =
     \<lparr>qe_item = UpdateItem (the upd), qe_value = Known (BooleanVal ack), qe_type = Q_UPDATE_ACK\<rparr>"
| "posted n (AddPlan root) = blank\<lparr>qe_item := PlanItem root, qe_type := Q_ADD_PLAN\<rparr>"
| "posted n (MessageArrived msg) = blank\<lparr>qe_item := MessageItem (the msg), qe_type := Q_RECEIVE_MSG\<rparr>"
| "posted n MessagesExhausted = blank\<lparr>qe_type := Q_MSG_QUEUE_EMPTY\<rparr>"
| "posted n (MessageAccepted msg handle) = blank\<lparr>qe_item := MessageItem (the msg), qe_type := Q_ACCEPT_MSG\<rparr>"
| "posted n (HandleReleased handle) =
     blank\<lparr>qe_value := Known (StringVal handle), qe_type := Q_RELEASE_MSG_HANDLE\<rparr>"
| "posted n Mark = blank\<lparr>qe_item := SequenceItem (n + 1), qe_type := Q_MARK\<rparr>"

fun posts :: "32 word \<Rightarrow> notification list \<Rightarrow> entry_data list" where
  "posts n [] = []"
| "posts n (y # ys) = (if taken_up y then [posted n y] else []) @ posts (next_mark n y) ys"

text \<open>How they prepare the entry.\<close>

fun preparation :: "32 word \<Rightarrow> notification \<Rightarrow> queue_entry \<Rightarrow> queue_entry" where
  "preparation n (ValueChange st val) = initForLookup st val"
| "preparation n (CommandAck cmd val) =
     initForCommandAck (the cmd) (if valid_handle val then val else of_nat (command_handle_code COMMAND_INTERFACE_ERROR))"
| "preparation n (CommandReturned cmd val) = initForCommandReturn (the cmd) val"
| "preparation n (CommandAbortAck cmd ack) = initForCommandAbort (the cmd) ack"
| "preparation n (UpdateAck upd ack) = initForUpdateAck (the upd) ack"
| "preparation n (AddPlan root) = initForAddPlan root"
| "preparation n (MessageArrived msg) = initForReceiveMessage (the msg)"
| "preparation n MessagesExhausted = initForMessageQueueEmpty"
| "preparation n (MessageAccepted msg handle) = initForAcceptMessage (the msg) handle"
| "preparation n (HandleReleased handle) = initForReleaseMessageHandle handle"
| "preparation n Mark = initForMark (n + 1)"

lemma prepare_posted:
  assumes "entry_data.truncate e = blank"
  shows "entry_data.truncate (preparation n y e) = posted n y"
proof -
  have "qe_item e = NullItem" "qe_value e = Unknown UNKNOWN_TYPE" "qe_type e = Q_UNINITED"
    using assms by (simp_all add: entry_data.defs blank_def)
  then show ?thesis
    by (cases y) (simp_all add: entry_data.defs blank_def initForLookup_def initForCommandAck_def initForCommandReturn_def
        initForCommandAbort_def initForUpdateAck_def initForAddPlan_def initForReceiveMessage_def
        initForMessageQueueEmpty_def initForAcceptMessage_def initForReleaseMessageHandle_def initForMark_def)
qed

lemmas handler_defs = handleValueChange_def handleCommandAck_def handleCommandReturn_def handleCommandAbortAck_def
  handleUpdateAck_def handleAddPlan_def notifyMessageReceived_def notifyMessageQueueEmpty_def
  notifyMessageAccepted_def notifyMessageHandleReleased_def

lemma post_ignored: "\<not> taken_up y \<Longrightarrow> post ops y m = Inr m"
  by (cases y) (auto simp: handler_defs split: option.split)

lemma post_taken_up:
  assumes "taken_up y"
  shows "post ops y m = enqueue ops (preparation (im_markCount m) y) (m\<lparr>im_markCount := next_mark (im_markCount m) y\<rparr>)"
proof (cases y)
  case Mark
  then show ?thesis
    by (simp add: markQueue_def next_mark_def Let_def bindE_assoc) (simp add: bindE_def split: sum.split)
qed (use assms in \<open>auto simp: handler_defs next_mark_def\<close>)

fun marks :: "32 word \<Rightarrow> notification list \<Rightarrow> 32 word" where
  "marks n [] = n"
| "marks n (y # ys) = marks (next_mark n y) ys"

lemma process_posted: "process_entry (posted n y) x = effect n y x"
  by (cases y) (simp_all add: process_entry_def sequence_of_def state_of_def command_of_def message_of_def plan_of_def
      update_of_def asserted_def blank_def)

lemma process_posts: "forE process_entry (posts n ys) x = effects n ys x"
proof (induction ys arbitrary: n x)
  case (Cons y ys)
  then have "forE process_entry (posts k ys) = effects k ys" for k by (simp add: fun_eq_iff)
  then show ?case by (simp add: process_posted)
qed simp

lemma posts_types: "(\<exists>d \<in> set (posts n ys). qe_type d \<noteq> Q_MARK) \<longleftrightarrow> (\<exists>y \<in> set ys. taken_up y \<and> y \<noteq> Mark)"
proof (induction ys arbitrary: n)
  case (Cons y ys)
  have "qe_type (posted n y) \<noteq> Q_MARK \<longleftrightarrow> y \<noteq> Mark" by (cases y) simp_all
  then show ?case using Cons by auto
qed simp

lemma length_posts: "length (posts n ys) \<le> length ys"
  by (induction ys arbitrary: n) (auto intro: le_SucI)

section \<open>What the manager does with any queue\<close>

context input_queue
begin

text \<open>The entries of the queue, by their data.\<close>

definition holds :: "'q \<Rightarrow> entry_data list \<Rightarrow> bool" where
  "holds q ds \<longleftrightarrow> (\<exists>xs. rep q xs {} \<and> map (data_at ops q) xs = ds)"

lemma enqueue_holds:
  assumes "holds (im_queue m) ds" and prepare: "\<And>e. entry_data.truncate e = blank \<Longrightarrow> entry_data.truncate (prepare e) = d"
  shows "\<exists>q. enqueue ops prepare m = Inr (m\<lparr>im_queue := q\<rparr>) \<and> holds q (ds @ [d])"
proof -
  obtain xs where rep: "rep (im_queue m) xs {}" and ds: "map (data_at ops (im_queue m)) xs = ds"
    using assms(1) by (auto simp: holds_def)
  obtain a q1 where alloc: "iq_allocate ops (im_queue m) = Inr (a, q1)" and a: "a \<notin> set xs"
    and rep1: "rep q1 xs {a}" and blank: "data_at ops q1 a = blank"
    and same: "\<forall>b \<in> set xs. data_at ops q1 b = data_at ops (im_queue m) b"
    using allocate_law [OF rep] by auto
  let ?q2 = "iq_write ops a (prepare (iq_entry ops q1 a)) q1"
  have rep2: "rep ?q2 xs {a}" using write_law [OF rep1] by simp
  have data2: "data_at ops ?q2 = (data_at ops q1)(a := d)"
    using prepare blank by (simp add: write_data data_at_def)
  obtain q3 where put: "iq_put ops a ?q2 = Inr ((), q3)" and rep3: "rep q3 (xs @ [a]) {}"
    and data3: "data_at ops q3 = data_at ops ?q2"
    using put_law [OF rep2, of a] by auto
  have "map (data_at ops q3) (xs @ [a]) = ds @ [d]"
    using ds same a by (auto simp: data3 data2)
  then have "holds q3 (ds @ [d])" using rep3 unfolding holds_def by blast
  moreover have "enqueue ops prepare m = Inr (m\<lparr>im_queue := q3\<rparr>)" using alloc put by (simp add: enqueue_def)
  ultimately show ?thesis by blast
qed

lemma process_loop_holds:
  assumes "holds (im_queue m) ds" and "length ds < n"
  shows "case forE process_entry ds (im_outside m) of
      Inl err \<Rightarrow> process_loop ops n b m = Inl err
    | Inr x \<Rightarrow> \<exists>q. holds q [] \<and> process_loop ops n b m =
        Inr (b \<or> (\<exists>d \<in> set ds. qe_type d \<noteq> Q_MARK), m\<lparr>im_queue := q, im_outside := x\<rparr>)"
  using assms
proof (induction ds arbitrary: m n b)
  case Nil
  then obtain k where n: "n = Suc k" by (cases n) auto
  have rep: "rep (im_queue m) [] {}" using Nil(1) by (auto simp: holds_def)
  show ?case using get_empty_law [OF rep] Nil(1) by (auto simp: n intro!: exI [of _ "im_queue m"])
next
  case (Cons d ds)
  then obtain k where n: "n = Suc k" by (cases n) auto
  obtain a xs where rep: "rep (im_queue m) (a # xs) {}" and ds: "data_at ops (im_queue m) a = d"
    "map (data_at ops (im_queue m)) xs = ds"
    using Cons.prems(1) by (auto simp: holds_def)
  obtain q1 where get: "iq_get ops (im_queue m) = Inr (Some a, q1)" and rep1: "rep q1 xs {a}"
    and data1: "data_at ops q1 = data_at ops (im_queue m)"
    using get_law [OF rep] by blast
  obtain q2 where rel: "iq_release ops a q1 = Inr ((), q2)" and rep2: "rep q2 xs {}"
    and data2: "\<forall>b. b \<noteq> a \<longrightarrow> data_at ops q2 b = data_at ops q1 b"
    using release_law [OF rep1, of a] by auto
  have "a \<notin> set xs" using on_loan [OF rep1] by auto
  then have holds2: "holds q2 ds" using rep2 ds data1 data2 by (auto simp: holds_def intro!: exI [of _ xs])
  have e: "entry_data.truncate (iq_entry ops q1 a) = d" using ds(1) data1 unfolding data_at_def by metis
  have step: "process_loop ops n b m =
      bindE (process_entry d (im_outside m)) (\<lambda>x.
        process_loop ops k (b \<or> qe_type d \<noteq> Q_MARK) (m\<lparr>im_queue := q2, im_outside := x\<rparr>))"
    by (simp add: n get e rel Let_def)
  show ?case
  proof (cases "process_entry d (im_outside m)")
    case (Inl err)
    then show ?thesis using step by simp
  next
    case (Inr x)
    then show ?thesis
      using Cons.IH [of "m\<lparr>im_queue := q2, im_outside := x\<rparr>" k "b \<or> qe_type d \<noteq> Q_MARK"] holds2 Cons.prems(2) n step
      by (auto split: sum.splits)
  qed
qed

lemma post_holds:
  assumes "holds (im_queue m) ds"
  shows "\<exists>q. post ops y m = Inr (m\<lparr>im_queue := q, im_markCount := next_mark (im_markCount m) y\<rparr>)
    \<and> holds q (ds @ (if taken_up y then [posted (im_markCount m) y] else []))"
proof (cases "taken_up y")
  case False
  then have "y \<noteq> Mark" by auto
  then have "m\<lparr>im_queue := im_queue m, im_markCount := next_mark (im_markCount m) y\<rparr> = m" by (simp add: next_mark_def)
  then show ?thesis using assms False by (auto simp: post_ignored intro!: exI [of _ "im_queue m"])
next
  case True
  let ?m = "m\<lparr>im_markCount := next_mark (im_markCount m) y\<rparr>" and ?n = "im_markCount m"
  have "holds (im_queue ?m) ds" using assms by simp
  then have "\<exists>q. enqueue ops (preparation ?n y) ?m = Inr (?m\<lparr>im_queue := q\<rparr>) \<and> holds q (ds @ [posted ?n y])"
    by (rule enqueue_holds) (rule prepare_posted)
  moreover have "?m\<lparr>im_queue := q\<rparr> = m\<lparr>im_queue := q, im_markCount := next_mark ?n y\<rparr>" for q by simp
  ultimately show ?thesis using True by (simp add: post_taken_up)
qed

lemma post_all:
  "holds (im_queue m) ds \<Longrightarrow>
   \<exists>q. forE (post ops) ys m = Inr (m\<lparr>im_queue := q, im_markCount := marks (im_markCount m) ys\<rparr>)
    \<and> holds q (ds @ posts (im_markCount m) ys)"
proof (induction ys arbitrary: m ds)
  case Nil
  then show ?case by (auto intro!: exI [of _ "im_queue m"])
next
  case (Cons y ys)
  obtain q where "post ops y m = Inr (m\<lparr>im_queue := q, im_markCount := next_mark (im_markCount m) y\<rparr>)"
    and q: "holds q (ds @ (if taken_up y then [posted (im_markCount m) y] else []))"
    using post_holds [OF Cons.prems] by blast
  then show ?case
    using Cons.IH [of "m\<lparr>im_queue := q, im_markCount := next_mark (im_markCount m) y\<rparr>"
        "ds @ (if taken_up y then [posted (im_markCount m) y] else [])"] q by auto
qed

lemma deliver:
  assumes "rep (im_queue m) [] {}" and "length ys < n"
  shows "\<exists>m1. forE (post ops) ys m = Inr m1 \<and> im_outside m1 = im_outside m
    \<and> (case effects (im_markCount m) ys (im_outside m) of
         Inl err \<Rightarrow> processQueue ops n m1 = Inl err
       | Inr x \<Rightarrow> \<exists>q. rep q [] {} \<and>
           processQueue ops n m1 = Inr (\<exists>y \<in> set ys. taken_up y \<and> y \<noteq> Mark, m1\<lparr>im_queue := q, im_outside := x\<rparr>))"
proof -
  have "holds (im_queue m) []" using assms(1) by (auto simp: holds_def)
  then obtain q where post: "forE (post ops) ys m = Inr (m\<lparr>im_queue := q, im_markCount := marks (im_markCount m) ys\<rparr>)"
    and q: "holds q (posts (im_markCount m) ys)"
    using post_all [of m "[]" ys] by auto
  let ?m = "m\<lparr>im_queue := q, im_markCount := marks (im_markCount m) ys\<rparr>" and ?ds = "posts (im_markCount m) ys"
  have len: "length ?ds < n" using assms(2) length_posts [of "im_markCount m" ys] by simp
  have empty: "iq_isEmpty ops q = Inr (?ds = [])" using q isEmpty_law by (auto simp: holds_def)
  have loop: "case effects (im_markCount m) ys (im_outside m) of
      Inl err \<Rightarrow> process_loop ops n False ?m = Inl err
    | Inr x \<Rightarrow> \<exists>q. holds q [] \<and> process_loop ops n False ?m =
        Inr (\<exists>y \<in> set ys. taken_up y \<and> y \<noteq> Mark, ?m\<lparr>im_queue := q, im_outside := x\<rparr>)"
    using process_loop_holds [of ?m ?ds n False] q len unfolding process_posts posts_types simp_thms by simp
  have "case effects (im_markCount m) ys (im_outside m) of
      Inl err \<Rightarrow> processQueue ops n ?m = Inl err
    | Inr x \<Rightarrow> \<exists>q. rep q [] {} \<and> processQueue ops n ?m =
        Inr (\<exists>y \<in> set ys. taken_up y \<and> y \<noteq> Mark, ?m\<lparr>im_queue := q, im_outside := x\<rparr>)"
  proof (cases "?ds = []")
    case True
    then have "effects (im_markCount m) ys (im_outside m) = Inr (im_outside m)"
      using process_posts [of "im_markCount m" ys "im_outside m"] by simp
    moreover have "\<not> (\<exists>y \<in> set ys. taken_up y \<and> y \<noteq> Mark)"
      using posts_types [of "im_markCount m" ys] True by simp
    moreover have "rep q [] {}" using q True by (simp add: holds_def)
    ultimately show ?thesis using True empty by (auto simp: processQueue_def intro!: exI [of _ q])
  next
    case False
    then have "processQueue ops n ?m = process_loop ops n False ?m" using empty by (simp add: processQueue_def)
    then show ?thesis using loop by (auto simp: holds_def split: sum.splits)
  qed
  then show ?thesis using post by auto
qed

end

section \<open>Delivery\<close>

text \<open>The queue the configuration makes, with threads or without.\<close>

definition makeInputQueue :: "bool \<Rightarrow> iqueue queue_ops" where
  "makeInputQueue threads = (if threads then serialized_ops else simple_ops)"

lemma delivered:
  assumes "simple_rep (im_queue m) [] {}" and "\<not> q_locked (im_queue m)" and "length ys < n"
  shows "\<exists>m1. forE (post (makeInputQueue threads)) ys m = Inr m1 \<and> im_outside m1 = im_outside m
    \<and> (case effects (im_markCount m) ys (im_outside m) of
         Inl err \<Rightarrow> processQueue (makeInputQueue threads) n m1 = Inl err
       | Inr x \<Rightarrow> \<exists>q. simple_rep q [] {} \<and>
           processQueue (makeInputQueue threads) n m1 =
             Inr (\<exists>y \<in> set ys. taken_up y \<and> y \<noteq> Mark, m1\<lparr>im_queue := q, im_outside := x\<rparr>))"
proof (cases threads)
  case False
  then have ops: "makeInputQueue threads = simple_ops" by (simp add: makeInputQueue_def)
  show ?thesis unfolding ops using assms(1,3) by (rule simple.deliver)
next
  case True
  then have ops: "makeInputQueue threads = serialized_ops" by (simp add: makeInputQueue_def)
  have "serialized_rep (im_queue m) [] {}" using assms by (simp add: serialized_rep_def)
  from serialized.deliver [OF this assms(3)] obtain m1 where
    "forE (post serialized_ops) ys m = Inr m1" "im_outside m1 = im_outside m"
    and "case effects (im_markCount m) ys (im_outside m) of
         Inl err \<Rightarrow> processQueue serialized_ops n m1 = Inl err
       | Inr x \<Rightarrow> \<exists>q. serialized_rep q [] {} \<and>
           processQueue serialized_ops n m1 =
             Inr (\<exists>y \<in> set ys. taken_up y \<and> y \<noteq> Mark, m1\<lparr>im_queue := q, im_outside := x\<rparr>)"
    by blast
  then show ?thesis
    unfolding ops serialized_rep_def by (intro exI [of _ m1]) (auto split: sum.splits)
qed

text \<open>
  Property C11. Let any notifications be posted to an empty queue, of the threaded or of the other
  kind, and the queue be processed then. Nothing happens outside before that. Then each
  notification that is taken up has its effect exactly once, in the order in which they were
  posted, or there is the error that these effects give; the executive is asked for a step if and
  only if one of them is not a mark; and the queue is empty again, all its entries free. The
  bound on the loop is met by every number greater than the number of notifications.
\<close>

theorem notifications_delivered:
  assumes "simple_rep (im_queue m) [] {}" and "\<not> q_locked (im_queue m)" and "length ys < n"
  shows "\<exists>m1. forE (post (makeInputQueue threads)) ys m = Inr m1 \<and> im_outside m1 = im_outside m
    \<and> (case effects (im_markCount m) ys (im_outside m) of
         Inl err \<Rightarrow> processQueue (makeInputQueue threads) n m1 = Inl err
       | Inr x \<Rightarrow> \<exists>q. simple_rep q [] {} \<and>
           processQueue (makeInputQueue threads) n m1 =
             Inr (\<exists>y \<in> set ys. taken_up y \<and> y \<noteq> Mark, m1\<lparr>im_queue := q, im_outside := x\<rparr>))"
  using assms by (rule delivered)

definition idle_manager :: "iqueue manager" where
  "idle_manager =
     \<lparr>im_queue = new_input_queue, im_markCount = 0,
      im_outside = \<lparr>ox_cache = depth_cache [], ox_calls = []\<rparr>\<rparr>"

theorem notifications_delivered_witness:
  "\<exists>m1 m2. forE (post (makeInputQueue True)) [Mark, CommandAck (Some 7) 54, CommandAck None 54, UpdateAck (Some 1) True]
       idle_manager = Inr m1
     \<and> processQueue (makeInputQueue True) 5 m1 = Inr (True, m2)
     \<and> ox_calls (im_outside m2) = [MarkProcessed 1, CommandHandleReturn 7 54, UpdateAcknowledge 1 True]"
  using notifications_delivered [of idle_manager "[Mark, CommandAck (Some 7) 54, CommandAck None 54, UpdateAck (Some 1) True]" 5 True]
    simple_rep_new
  by (auto simp: idle_manager_def new_input_queue_def next_mark_def call_def valid_handle_def COMMAND_HANDLE_MAX_def)

text \<open>
  Property C39. A message that was accepted never reaches the plan: the handle is not stored in the
  queue entry, so that whenever the queue is processed up to there, with the notifications before
  it having their effects, processing ends with a failed assertion.
\<close>

theorem accepted_message_fails:
  assumes "simple_rep (im_queue m) [] {}" and "\<not> q_locked (im_queue m)"
    and "effects (im_markCount m) ys (im_outside m) = Inr x"
    and "handle \<noteq> []" and "length ys + length zs + 1 < n"
  shows "\<exists>m1. forE (post (makeInputQueue threads)) (ys @ MessageAccepted (Some msg) handle # zs) m = Inr m1
    \<and> processQueue (makeInputQueue threads) n m1 = Inl AssertFailed"
proof -
  have "effects k (ys @ MessageAccepted (Some msg) handle # zs) y = Inl AssertFailed" if "effects k ys y = Inr z" for k y z
    using that
  proof (induction ys arbitrary: k y)
    case Nil
    then show ?case using assms(4) by simp
  next
    case (Cons a ys)
    then obtain w where "(if taken_up a then effect k a y else Inr y) = Inr w" "effects (next_mark k a) ys w = Inr z"
      by auto
    then show ?case using Cons.IH by simp
  qed
  then show ?thesis
    using delivered [OF assms(1,2), of "ys @ MessageAccepted (Some msg) handle # zs" n threads] assms(3,5)
    by auto
qed

theorem accepted_message_fails_witness:
  "\<exists>m1. forE (post (makeInputQueue False))
       [Mark, MessageAccepted (Some \<lparr>msg_message = state0 ''hello'', msg_sender = ''rover'', msg_timestamp = 0\<rparr>) ''m1''] idle_manager
       = Inr m1
     \<and> processQueue (makeInputQueue False) 3 m1 = Inl AssertFailed"
  using accepted_message_fails [of idle_manager "[Mark]" _ "''m1''" "[]" 3 False] simple_rep_new
  by (auto simp: idle_manager_def new_input_queue_def next_mark_def call_def)

end
