(* ===== verification/Array_Variable.thy ===== *)
theory Array_Variable
  imports Cached_Value Serialization Arithmetic
begin

text \<open>
  Variables of array type (src/src/expr/ArrayVariable.cc) and references to their elements
  (src/src/expr/ArrayReference.cc).

  A variable owns its array through a pointer to the base class \<open>Array\<close>; the instances of the
  template \<open>ArrayVariableImpl<T>\<close> cast it to \<open>ArrayImpl<T>\<close> and assert that the cast succeeds. The
  subexpressions of a variable and of a reference stand for what they give when asked: a value,
  nothing if it is unknown, or an error.
\<close>

section \<open>Arrays behind a pointer to the base class\<close>

datatype element = Booleans | Integers | Reals | Strings  \<comment> \<open>the template argument\<close>

fun element_type :: "element \<Rightarrow> value_type" where
  "element_type Booleans = BOOLEAN_TYPE"
| "element_type Integers = INTEGER_TYPE"
| "element_type Reals = REAL_TYPE"
| "element_type Strings = STRING_TYPE"

fun array_value_type :: "element \<Rightarrow> value_type" where
  "array_value_type Booleans = BOOLEAN_ARRAY_TYPE"
| "array_value_type Integers = INTEGER_ARRAY_TYPE"
| "array_value_type Reals = REAL_ARRAY_TYPE"
| "array_value_type Strings = STRING_ARRAY_TYPE"

definition typed :: "element \<Rightarrow> array \<Rightarrow> bool" where
  "typed T a \<longleftrightarrow> array_type_of a = array_value_type T"  \<comment> \<open>\<open>dynamic_cast\<close> does not give null\<close>

fun getKnownVector :: "array \<Rightarrow> bool list" where
  "getKnownVector (BooleanArray a) = ar_known a"
| "getKnownVector (IntegerArray a) = ar_known a"
| "getKnownVector (RealArray a) = ar_known a"
| "getKnownVector (StringArray a) = ar_known a"

fun makeArray :: "element \<Rightarrow> nat \<Rightarrow> array" where
  "makeArray Booleans n = BooleanArray (new_array n False)"
| "makeArray Integers n = IntegerArray (new_array n 0)"
| "makeArray Reals n = RealArray (new_array n r_zero)"
| "makeArray Strings n = StringArray (new_array n [])"

fun Array_resize :: "nat \<Rightarrow> array \<Rightarrow> array" where
  "Array_resize n (BooleanArray a) = BooleanArray (array_resize n False a)"
| "Array_resize n (IntegerArray a) = IntegerArray (array_resize n 0 a)"
| "Array_resize n (RealArray a) = RealArray (array_resize n r_zero a)"
| "Array_resize n (StringArray a) = StringArray (array_resize n [] a)"

fun Array_reset :: "array \<Rightarrow> array" where
  "Array_reset (BooleanArray a) = BooleanArray (array_reset a)"
| "Array_reset (IntegerArray a) = IntegerArray (array_reset a)"
| "Array_reset (RealArray a) = RealArray (array_reset a)"
| "Array_reset (StringArray a) = StringArray (array_reset a)"

fun Array_setElementUnknown :: "nat \<Rightarrow> array \<Rightarrow> array result" where
  "Array_setElementUnknown i (BooleanArray a) = bindE (setElementUnknown i a) (\<lambda>a. Inr (BooleanArray a))"
| "Array_setElementUnknown i (IntegerArray a) = bindE (setElementUnknown i a) (\<lambda>a. Inr (IntegerArray a))"
| "Array_setElementUnknown i (RealArray a) = bindE (setElementUnknown i a) (\<lambda>a. Inr (RealArray a))"
| "Array_setElementUnknown i (StringArray a) = bindE (setElementUnknown i a) (\<lambda>a. Inr (StringArray a))"

text \<open>The method for the wrong type of element reports an error of the plan.\<close>

fun Array_setElement :: "nat \<Rightarrow> payload \<Rightarrow> array \<Rightarrow> array result" where
  "Array_setElement i (BooleanVal x) (BooleanArray a) = Inr (BooleanArray (setElement i x a))"
| "Array_setElement i (IntegerVal x) (IntegerArray a) = Inr (IntegerArray (setElement i x a))"
| "Array_setElement i (RealVal x) (RealArray a) = Inr (RealArray (setElement i x a))"
| "Array_setElement i (StringVal x) (StringArray a) = Inr (StringArray (setElement i x a))"
| "Array_setElement i _ _ = Inl PlanError"

fun getElement_Boolean :: "nat \<Rightarrow> array \<Rightarrow> bool option result" where
  "getElement_Boolean i (BooleanArray a) = Inr (getElement i a)"
| "getElement_Boolean i _ = Inl PlanError"

fun getElement_Integer :: "nat \<Rightarrow> array \<Rightarrow> integer option result" where
  "getElement_Integer i (IntegerArray a) = Inr (getElement i a)"
| "getElement_Integer i _ = Inl PlanError"

fun getElement_Real :: "nat \<Rightarrow> array \<Rightarrow> real_bits option result" where
  "getElement_Real i (RealArray a) = Inr (getElement i a)"
| "getElement_Real i _ = Inl PlanError"

fun getElement_String :: "nat \<Rightarrow> array \<Rightarrow> string option result" where
  "getElement_String i (StringArray a) = Inr (getElement i a)"
| "getElement_String i _ = Inl PlanError"

section \<open>Array variables\<close>

record array_variable =
  v_element :: element
  v_activeCount :: nat
  v_published :: nat              \<comment> \<open>how often the listeners have been notified\<close>
  v_value :: "array option"       \<comment> \<open>\<open>None\<close>: the null pointer\<close>
  v_savedValue :: "array option"
  v_hasSize :: bool               \<comment> \<open>\<open>m_size\<close> is not null\<close>
  v_hasInitializer :: bool
  v_maxSize :: nat
  v_known :: bool
  v_savedKnown :: bool
  v_sizeIsConstant :: bool

definition new_array_variable :: "element \<Rightarrow> bool \<Rightarrow> array_variable" where
  "new_array_variable T hasSize =
     \<lparr>v_element = T, v_activeCount = 0, v_published = 0, v_value = None, v_savedValue = None,
      v_hasSize = hasSize, v_hasInitializer = False, v_maxSize = 0, v_known = False,
      v_savedKnown = False, v_sizeIsConstant = False\<rparr>"

text \<open>What the size and initializer expressions give, and whether the size is a constant.\<close>

record subexpressions =
  sub_size :: "integer option result"
  sub_sizeConstant :: bool
  sub_initializer :: "array option result"

definition v_isActive :: "array_variable \<Rightarrow> bool" where
  "v_isActive v \<longleftrightarrow> v_activeCount v > 0"

definition v_isKnown :: "array_variable \<Rightarrow> bool" where
  "v_isKnown v \<longleftrightarrow> v_isActive v \<and> v_known v"

definition v_publishChange :: "array_variable \<Rightarrow> array_variable" where
  "v_publishChange v = (if v_isActive v then v\<lparr>v_published := v_published v + 1\<rparr> else v)"

text \<open>\<open>typedArrayPointer\<close>, for uses that dereference it.\<close>

definition typedArrayPointer :: "array_variable \<Rightarrow> array result" where
  "typedArrayPointer v =
     (case v_value v of
        None \<Rightarrow> Inl NullPointer
      | Some a \<Rightarrow> bindE (check AssertFailed (typed (v_element v) a)) (\<lambda>_. Inr a))"

definition deref :: "array option \<Rightarrow> array result" where
  "deref p = (case p of None \<Rightarrow> Inl NullPointer | Some a \<Rightarrow> Inr a)"

subsection \<open>Reading\<close>

text \<open>\<open>getValuePointer\<close>, with the pointer dereferenced.\<close>

definition v_getValuePointer :: "array_variable \<Rightarrow> array option result" where
  "v_getValuePointer v =
     (if \<not> v_isActive v then Inr None
      else if \<not> v_known v then Inr None
      else some_result (deref (v_value v)))"

definition v_toValue :: "array_variable \<Rightarrow> pvalue result" where
  "v_toValue v =
     bindE (v_getValuePointer v) (\<lambda>p. Inr (case p of
        Some a \<Rightarrow> Known (ArrayVal a)
      | None \<Rightarrow> Unknown (array_value_type (v_element v))))"

definition v_elementIsKnown :: "nat \<Rightarrow> array_variable \<Rightarrow> bool result" where
  "v_elementIsKnown idx v =
     (if v_isActive v \<and> v_known v then
        bindE (deref (v_value v)) (\<lambda>a.
        bindE (check PlanError (idx < length (getKnownVector a))) (\<lambda>_. Inr (getKnownVector a ! idx)))
      else Inr False)"

definition v_getElementValue :: "nat \<Rightarrow> array_variable \<Rightarrow> pvalue result" where
  "v_getElementValue idx v =
     (if \<not> v_isActive v \<or> \<not> v_known v then Inr (Unknown UNKNOWN_TYPE)
      else bindE (deref (v_value v)) (\<lambda>a. Inr (getElementValue idx a)))"

text \<open>\<open>getElement\<close> of the template: \<open>get\<close> is the method of the array for the type asked for.\<close>

definition v_getElement_as :: "(nat \<Rightarrow> array \<Rightarrow> 'a option result) \<Rightarrow> nat \<Rightarrow> array_variable \<Rightarrow> 'a option result" where
  "v_getElement_as get idx v =
     (if \<not> v_isActive v \<or> \<not> v_known v then Inr None
      else bindE (deref (v_value v)) (get idx))"

definition v_getElement_Boolean :: "nat \<Rightarrow> array_variable \<Rightarrow> bool option result" where
  "v_getElement_Boolean idx v =
     (case v_element v of Booleans \<Rightarrow> v_getElement_as getElement_Boolean idx v | _ \<Rightarrow> Inl PlanError)"

definition v_getElement_Integer :: "nat \<Rightarrow> array_variable \<Rightarrow> integer option result" where
  "v_getElement_Integer idx v =
     (case v_element v of Integers \<Rightarrow> v_getElement_as getElement_Integer idx v | _ \<Rightarrow> Inl PlanError)"

definition v_getElement_Real :: "nat \<Rightarrow> array_variable \<Rightarrow> real_bits option result" where
  "v_getElement_Real idx v =
     (case v_element v of
        Reals \<Rightarrow> v_getElement_as getElement_Real idx v
      | Integers \<Rightarrow>
          bindE (v_getElement_as getElement_Integer idx v) (\<lambda>temp. Inr (map_option real_of_integer temp))
      | _ \<Rightarrow> Inl PlanError)"

definition v_getElement_String :: "nat \<Rightarrow> array_variable \<Rightarrow> string option result" where
  "v_getElement_String idx v =
     (case v_element v of Strings \<Rightarrow> v_getElement_as getElement_String idx v | _ \<Rightarrow> Inl PlanError)"

subsection \<open>Writing\<close>

definition v_setUnknown :: "array_variable \<Rightarrow> array_variable" where
  "v_setUnknown v =
     (if \<not> v_known v then v
      else v_publishChange (v\<lparr>v_known := False\<rparr>))"

definition v_setValueImpl :: "array \<Rightarrow> array_variable \<Rightarrow> array_variable result" where
  "v_setValueImpl ary v =
     bindE (check PlanError (typed (v_element v) ary)) (\<lambda>_.
     let newSize = array_length ary in
     bindE (check PlanError (\<not> v_hasSize v \<or> newSize \<le> v_maxSize v)) (\<lambda>_.
     bindE (case v_value v of
              Some _ \<Rightarrow>
                bindE (typedArrayPointer v) (\<lambda>typed_value.
                Inr (if \<not> arrays_equal ary typed_value then (ary, True) else (typed_value, \<not> v_known v)))
            | None \<Rightarrow> Inr (ary, True)) (\<lambda>(value, changed).
     let value = (if newSize < v_maxSize v then Array_resize (v_maxSize v) value else value);
         v = v\<lparr>v_value := Some value, v_known := True\<rparr>
     in Inr (if changed then v_publishChange v else v))))"

definition v_setValue :: "pvalue \<Rightarrow> array_variable \<Rightarrow> array_variable result" where
  "v_setValue val v =
     bindE (getArray val) (\<lambda>p. case p of
        Some ary \<Rightarrow> v_setValueImpl ary v
      | None \<Rightarrow> Inr (v_setUnknown v))"

definition v_setElementUnknown :: "nat \<Rightarrow> array_variable \<Rightarrow> array_variable result" where
  "v_setElementUnknown idx v =
     (if v_known v then
        bindE (deref (v_value v)) (\<lambda>a.
        bindE (Array_setElementUnknown idx a) (\<lambda>a. Inr (v\<lparr>v_value := Some a\<rparr>)))
      else Inr v)"

text \<open>The element as it is, \<open>aknown\<close> and \<open>atemp\<close> of the code, is an option of a payload.\<close>

definition v_setElement :: "nat \<Rightarrow> pvalue \<Rightarrow> array_variable \<Rightarrow> array_variable result" where
  "v_setElement idx val v =
     bindE (native_value (element_type (v_element v)) val) (\<lambda>vtemp.
     bindE (typedArrayPointer v) (\<lambda>ary.
     case (vtemp, getElementValue idx ary) of
        (Some x, Unknown _) \<Rightarrow>
          bindE (Array_setElement idx x ary) (\<lambda>ary. Inr (v_publishChange (v\<lparr>v_value := Some ary\<rparr>)))
      | (Some x, Known y) \<Rightarrow>
          if \<not> payload_equal x y
          then bindE (Array_setElement idx x ary) (\<lambda>ary. Inr (v_publishChange (v\<lparr>v_value := Some ary\<rparr>)))
          else Inr v
      | (None, Known _) \<Rightarrow>
          bindE (Array_setElementUnknown idx ary) (\<lambda>ary. Inr (v_publishChange (v\<lparr>v_value := Some ary\<rparr>)))
      | (None, Unknown _) \<Rightarrow> Inr v))"

subsection \<open>Saving and restoring\<close>

definition v_saveCurrentValue :: "array_variable \<Rightarrow> array_variable result" where
  "v_saveCurrentValue v =
     (let v = v\<lparr>v_savedKnown := v_known v\<rparr> in
      if v_known v
      then bindE (deref (v_value v)) (\<lambda>a. Inr (v\<lparr>v_savedValue := Some a\<rparr>))
      else Inr v)"

definition v_getSavedValue :: "array_variable \<Rightarrow> pvalue" where
  "v_getSavedValue v =
     (case v_savedValue v of
        Some a \<Rightarrow> Known (ArrayVal a)
      | None \<Rightarrow> Unknown UNKNOWN_TYPE)"

definition v_equals :: "array option \<Rightarrow> array_variable \<Rightarrow> bool result" where
  "v_equals ary v =
     (if \<not> v_known v then Inr (ary = None)
      else case ary of
        None \<Rightarrow> Inr False
      | Some typed_ary \<Rightarrow>
          bindE (typedArrayPointer v) (\<lambda>typed_value.
          if \<not> typed (v_element v) typed_ary then Inr False
          else Inr (arrays_equal typed_value typed_ary)))"

definition v_restoreSavedValue :: "array_variable \<Rightarrow> array_variable result" where
  "v_restoreSavedValue v =
     (let changed = (v_known v \<noteq> v_savedKnown v) in
      bindE (if v_known v \<and> v_savedKnown v then
               bindE (v_equals (v_savedValue v) v) (\<lambda>eq.
               if \<not> eq then
                 bindE (case v_savedValue v of
                          None \<Rightarrow> Inl AssertFailed
                        | Some a \<Rightarrow> bindE (check AssertFailed (typed (v_element v) a)) (\<lambda>_. Inr a)) (\<lambda>saved.
                 bindE (typedArrayPointer v) (\<lambda>_. Inr (v\<lparr>v_value := Some saved\<rparr>, True)))
               else Inr (v, changed))
             else Inr (v, changed)) (\<lambda>(v, changed).
      let v = v\<lparr>v_known := v_savedKnown v\<rparr>
      in Inr (if changed then v_publishChange v else v)))"

subsection \<open>Activation\<close>

text \<open>The maximum size is that of the size expression where it is known; a constant is asked once.\<close>

definition v_evaluateSize :: "subexpressions \<Rightarrow> array_variable \<Rightarrow> array_variable result" where
  "v_evaluateSize s v =
     (if v_hasSize v \<and> \<not> v_sizeIsConstant v then
        bindE (sub_size s) (\<lambda>p. case p of
          Some specSize \<Rightarrow>
            bindE (check PlanError (0 \<le> sint specSize)) (\<lambda>_.
            let v = v\<lparr>v_maxSize := nat (sint specSize)\<rparr>
            in Inr (if sub_sizeConstant s then v\<lparr>v_sizeIsConstant := True\<rparr> else v))
        | None \<Rightarrow> Inr v)
      else Inr v)"

definition v_preallocate :: "array_variable \<Rightarrow> array" where
  "v_preallocate v =
     (case v_value v of
        Some a \<Rightarrow>
          let a = Array_reset a
          in if array_length a < v_maxSize v then Array_resize (v_maxSize v) a else a
      | None \<Rightarrow> makeArray (v_element v) (v_maxSize v))"

definition v_handleActivate :: "subexpressions \<Rightarrow> array_variable \<Rightarrow> array_variable result" where
  "v_handleActivate s v =
     bindE (v_evaluateSize s v) (\<lambda>v.
     if v_hasInitializer v then
       bindE (sub_initializer s) (\<lambda>p. case p of
         Some valuePtr \<Rightarrow>
           bindE (check PlanError (v_hasSize v \<longrightarrow> array_length valuePtr \<le> v_maxSize v)) (\<lambda>_.
           v_setValueImpl valuePtr (v\<lparr>v_known := False\<rparr>))
       | None \<Rightarrow> Inr (v\<lparr>v_known := False\<rparr>))
     else if v_hasSize v \<and> v_maxSize v \<noteq> 0 then
       Inr (v_publishChange (v\<lparr>v_value := Some (v_preallocate v), v_known := True\<rparr>))
     else Inr (v\<lparr>v_known := False\<rparr>))"

definition v_activate :: "subexpressions \<Rightarrow> array_variable \<Rightarrow> array_variable result" where
  "v_activate s v =
     (let changed = (v_activeCount v = 0);
          v = v\<lparr>v_activeCount := (v_activeCount v + 1) mod 2 ^ 64\<rparr>
      in if changed then v_handleActivate s v
         else bindE (check AssertFailed (v_activeCount v \<noteq> 0)) (\<lambda>_. Inr v))"

definition v_deactivate :: "array_variable \<Rightarrow> array_variable result" where
  "v_deactivate v =
     bindE (check AssertFailed (v_activeCount v \<noteq> 0)) (\<lambda>_.
     Inr (v\<lparr>v_activeCount := v_activeCount v - 1\<rparr>))"

text \<open>
  \<open>setInitializer\<close>, called once when the plan is built: the type of the expression, and the
  value and size as far as they are known then (subexpressions are not active, so only
  constants are).
\<close>

definition v_setInitializer :: "value_type \<Rightarrow> subexpressions \<Rightarrow> array_variable \<Rightarrow> array_variable result" where
  "v_setInitializer exprType s v =
     bindE (check PlanError (exprType = array_value_type (v_element v) \<or> exprType = UNKNOWN_TYPE)) (\<lambda>_.
     bindE (if v_hasSize v then
              bindE (sub_size s) (\<lambda>sz. case sz of
                None \<Rightarrow> Inr ()
              | Some sz \<Rightarrow>
                  bindE (sub_initializer s) (\<lambda>temp. case temp of
                    None \<Rightarrow> Inr ()
                  | Some temp \<Rightarrow>
                      check PlanError (array_length temp \<le> unat (scast sz :: 64 word))))
            else Inr ()) (\<lambda>_.
     Inr (v\<lparr>v_hasInitializer := True\<rparr>)))"

section \<open>Facts about arrays\<close>

text \<open>The type, size and well-formedness of an array that an operation returns.\<close>

named_theorems array_shape "type, size and well-formedness after an operation"

lemma array_length_known: "array_length a = length (getKnownVector a)"
  by (cases a) (simp_all add: array_size_def)

lemma makeArray_shape [array_shape, simp]:
  "array_type_of (makeArray T n) = array_value_type T"
  "array_length (makeArray T n) = n"
  "array_well_formed (makeArray T n)"
  by (cases T; simp add: new_array_def array_size_def)+

lemma Array_resize_shape [array_shape, simp]:
  "array_type_of (Array_resize n a) = array_type_of a"
  "array_length (Array_resize n a) = n"
  "array_well_formed a \<Longrightarrow> array_well_formed (Array_resize n a)"
  by (cases a; auto simp: array_resize_def array_size_def vector_resize_def)+

lemma Array_reset_shape [array_shape, simp]:
  "array_type_of (Array_reset a) = array_type_of a"
  "array_length (Array_reset a) = array_length a"
  "array_well_formed (Array_reset a) = array_well_formed a"
  by (cases a; simp add: array_reset_def array_size_def)+

lemma Array_setElementUnknown_shape:
  assumes "Array_setElementUnknown i a = Inr b"
  shows "array_type_of b = array_type_of a" and "array_length b = array_length a"
    and "array_well_formed b = array_well_formed a"
  using assms by (cases a; auto simp: setElementUnknown_def array_size_def)+

lemma Array_setElement_shape:
  assumes "Array_setElement i x a = Inr b"
  shows "array_type_of b = array_type_of a" and "array_length b = array_length a"
    and "array_well_formed b = array_well_formed a"
  using assms by (cases "(i, x, a)" rule: Array_setElement.cases; clarsimp simp: setElement_def array_size_def)+

lemma Array_setElementUnknown_error:
  "Array_setElementUnknown i a = Inl e \<Longrightarrow> e = PlanError"
  by (cases a) (auto simp: setElementUnknown_def check_def bindE_eq_Inl split: if_splits)

lemma Array_setElementUnknown_total:
  "i < array_length a \<Longrightarrow> \<exists>b. Array_setElementUnknown i a = Inr b"
  by (cases a) (auto simp: setElementUnknown_def array_size_def checkIndex_def)

lemma array_type_of_neq [simp]:
  "array_type_of a \<noteq> BOOLEAN_TYPE" "array_type_of a \<noteq> INTEGER_TYPE"
  "array_type_of a \<noteq> REAL_TYPE" "array_type_of a \<noteq> STRING_TYPE"
  by (cases a; simp)+

lemma Array_setElement_total:
  "typed T a \<Longrightarrow> payload_type x = element_type T \<Longrightarrow> \<exists>b. Array_setElement i x a = Inr b"
  by (cases a; cases T; cases x; simp add: typed_def)

lemma native_value_error: "native_value t v = Inl e \<Longrightarrow> e = PlanError"
proof (cases v)
  case (Known q)
  assume "native_value t v = Inl e"
  with Known show ?thesis by (cases q) (auto simp: native_value_def split: if_splits)
qed (simp add: native_value_def)

lemma getArray_error: "getArray v = Inl e \<Longrightarrow> e = PlanError"
  by (cases v rule: getArray.cases) simp_all

lemma getArray_Some: "getArray v = Inr (Some a) \<longleftrightarrow> v = Known (ArrayVal a)"
  by (cases v rule: getArray.cases) auto

lemma arrays_equal_shape:
  assumes "arrays_equal a b"
  shows "array_length a = array_length b" and "array_type_of a = array_type_of b"
  using assms by (cases a; cases b; auto simp: array_equal_def array_size_def split: if_splits)+

end
