(* ===== verification/Array_Invariant.thy ===== *)
theory Array_Invariant
  imports Array_Variable
begin

text \<open>
  What the calls on an array variable keep: the stored arrays have the type of the template
  instance, so that no cast fails and no null pointer is followed; an array variable with a
  size has exactly that many elements; and a change is published, with one exception.
\<close>

section \<open>Calls\<close>

datatype variable_call =
    Activate subexpressions
  | Deactivate
  | SetValue pvalue
  | SetUnknown
  | Save
  | Restore
  | SetElement nat pvalue
  | SetElementUnknown nat

fun run_call :: "variable_call \<Rightarrow> array_variable \<Rightarrow> array_variable result" where
  "run_call (Activate s) v = v_activate s v"
| "run_call Deactivate v = v_deactivate v"
| "run_call (SetValue x) v = v_setValue x v"
| "run_call SetUnknown v = Inr (v_setUnknown v)"
| "run_call Save v = v_saveCurrentValue v"
| "run_call Restore v = v_restoreSavedValue v"
| "run_call (SetElement i x) v = v_setElement i x v"
| "run_call (SetElementUnknown i) v = v_setElementUnknown i v"

text \<open>
  Calls the code does not make: the counter of activations leaves its range, or an element is
  set in an array that is not known (\<open>MutableArrayReference\<close> asks before).
\<close>

fun misuse :: "variable_call \<Rightarrow> array_variable \<Rightarrow> bool" where
  "misuse (Activate s) v = (2 ^ 64 \<le> v_activeCount v + 1)"
| "misuse Deactivate v = (v_activeCount v = 0)"
| "misuse (SetElement i x) v = (\<not> v_isKnown v)"
| "misuse _ v = False"

text \<open>The arrays passed in are well-formed and a subexpression only raises errors of the plan.\<close>

fun value_formed :: "pvalue \<Rightarrow> bool" where
  "value_formed (Known (ArrayVal a)) \<longleftrightarrow> array_well_formed a"
| "value_formed _ \<longleftrightarrow> True"

fun call_ok :: "variable_call \<Rightarrow> bool" where
  "call_ok (Activate s) \<longleftrightarrow>
     (\<forall>e. sub_size s = Inl e \<longrightarrow> e = PlanError) \<and>
     (\<forall>e. sub_initializer s = Inl e \<longrightarrow> e = PlanError) \<and>
     (\<forall>a. sub_initializer s = Inr (Some a) \<longrightarrow> array_well_formed a)"
| "call_ok (SetValue x) \<longleftrightarrow> value_formed x"
| "call_ok _ \<longleftrightarrow> True"

section \<open>Types\<close>

definition stored :: "element \<Rightarrow> array option \<Rightarrow> bool" where
  "stored T p \<longleftrightarrow> (case p of None \<Rightarrow> True | Some a \<Rightarrow> typed T a \<and> array_well_formed a)"

lemma stored_simps [simp]:
  "stored T None" "stored T (Some a) \<longleftrightarrow> typed T a \<and> array_well_formed a"
  by (simp_all add: stored_def)

definition variable_ok :: "element \<Rightarrow> array_variable \<Rightarrow> bool" where
  "variable_ok T v \<longleftrightarrow>
     v_element v = T \<and> stored T (v_value v) \<and> stored T (v_savedValue v) \<and>
     (v_known v \<longrightarrow> v_value v \<noteq> None) \<and> (v_savedKnown v \<longrightarrow> v_savedValue v \<noteq> None \<and> v_value v \<noteq> None)"

text \<open>A computation that keeps the invariant and raises nothing but errors of the plan.\<close>

definition safe :: "('a \<Rightarrow> bool) \<Rightarrow> 'a result \<Rightarrow> bool" where
  "safe Q m \<longleftrightarrow> (case m of Inl e \<Rightarrow> e = PlanError | Inr x \<Rightarrow> Q x)"

named_theorems safe_intros "rules that take a safe computation apart"

lemma safe_simps [simp]: "safe Q (Inr x) = Q x" "safe Q (Inl e) \<longleftrightarrow> e = PlanError"
  by (simp_all add: safe_def)

lemma safe_bindE [safe_intros]:
  "safe R m \<Longrightarrow> (\<And>x. m = Inr x \<Longrightarrow> R x \<Longrightarrow> safe Q (f x)) \<Longrightarrow> safe Q (bindE m f)"
  by (cases m) simp_all

lemma safe_check: "safe (\<lambda>_. b) (check PlanError b)"
  by (simp add: check_def)

lemma safe_checkE: "(b \<Longrightarrow> safe Q (f ())) \<Longrightarrow> safe Q (bindE (check PlanError b) f)"
  by (cases b) simp_all

lemma publish_simps [simp]:
  "v_element (v_publishChange v) = v_element v"
  "v_activeCount (v_publishChange v) = v_activeCount v"
  "v_value (v_publishChange v) = v_value v"
  "v_savedValue (v_publishChange v) = v_savedValue v"
  "v_hasSize (v_publishChange v) = v_hasSize v"
  "v_hasInitializer (v_publishChange v) = v_hasInitializer v"
  "v_maxSize (v_publishChange v) = v_maxSize v"
  "v_known (v_publishChange v) = v_known v"
  "v_savedKnown (v_publishChange v) = v_savedKnown v"
  "v_sizeIsConstant (v_publishChange v) = v_sizeIsConstant v"
  by (simp_all add: v_publishChange_def)

lemma typedArrayPointer_ok:
  "variable_ok T v \<Longrightarrow> v_value v = Some a \<Longrightarrow> typedArrayPointer v = Inr a"
  by (auto simp: typedArrayPointer_def variable_ok_def)

lemma typed_resize [simp]: "typed T (Array_resize n a) = typed T a"
  by (simp add: typed_def)

lemma typed_reset [simp]: "typed T (Array_reset a) = typed T a"
  by (simp add: typed_def)

lemma typed_make [simp]: "typed T (makeArray T n)"
  by (simp add: typed_def)

text \<open>
  \<open>setValueImpl\<close> in one equation: what is stored, and when the change is published.
\<close>

lemma setValueImpl_eq:
  assumes "variable_ok T v"
  shows "v_setValueImpl ary v =
     (if \<not> typed T ary \<or> v_hasSize v \<and> v_maxSize v < array_length ary then Inl PlanError
      else let same = (\<exists>a. v_value v = Some a \<and> arrays_equal ary a);
               value = (if same then the (v_value v) else ary);
               value = (if array_length ary < v_maxSize v then Array_resize (v_maxSize v) value else value);
               w = v\<lparr>v_value := Some value, v_known := True\<rparr>
           in Inr (if same \<and> v_known v then w else v_publishChange w))"
proof (cases "v_value v")
  case None
  then show ?thesis using assms
    by (simp add: v_setValueImpl_def check_def variable_ok_def Let_def not_less)
next
  case (Some a)
  with assms have "typedArrayPointer v = Inr a" using typedArrayPointer_ok by blast
  moreover have "v_element v = T" using assms by (simp add: variable_ok_def)
  ultimately show ?thesis using Some
    by (simp add: v_setValueImpl_def check_def Let_def not_less)
qed


lemma setValueImpl_safe:
  "variable_ok T v \<Longrightarrow> array_well_formed ary \<Longrightarrow> safe (variable_ok T) (v_setValueImpl ary v)"
  by (auto simp: setValueImpl_eq Let_def) (auto simp: variable_ok_def)

lemma unknown_ok: "variable_ok T v \<Longrightarrow> variable_ok T (v_setUnknown v)"
  by (simp add: v_setUnknown_def variable_ok_def)

lemma setValue_safe:
  assumes "variable_ok T v" and "value_formed x"
  shows "safe (variable_ok T) (v_setValue x v)"
proof (cases "getArray x")
  case (Inl e)
  then show ?thesis by (simp add: v_setValue_def getArray_error)
next
  case (Inr p)
  with assms show ?thesis
    by (cases p) (auto simp: v_setValue_def getArray_Some unknown_ok setValueImpl_safe)
qed

lemma saveCurrentValue_safe:
  "variable_ok T v \<Longrightarrow> safe (variable_ok T) (v_saveCurrentValue v)"
  by (auto simp: v_saveCurrentValue_def variable_ok_def deref_def Let_def split: option.splits)

text \<open>\<open>restoreSavedValue\<close> in one equation.\<close>

lemma restoreSavedValue_eq:
  assumes "variable_ok T v"
  shows "v_restoreSavedValue v =
     (let back = v_known v \<and> v_savedKnown v \<and> \<not> arrays_equal (the (v_value v)) (the (v_savedValue v));
          w = (if back then v\<lparr>v_value := v_savedValue v\<rparr> else v)\<lparr>v_known := v_savedKnown v\<rparr>
      in Inr (if back \<or> v_known v \<noteq> v_savedKnown v then v_publishChange w else w))"
proof (cases "v_known v \<and> v_savedKnown v")
  case False
  then show ?thesis by (auto simp: v_restoreSavedValue_def Let_def)
next
  case True
  with assms obtain a b where ab: "v_value v = Some a" "v_savedValue v = Some b"
      "typed T a" "typed T b" "v_element v = T"
    by (auto simp: variable_ok_def)
  have "typedArrayPointer v = Inr a" using assms ab(1) by (rule typedArrayPointer_ok)
  with True ab show ?thesis
    by (auto simp: v_restoreSavedValue_def v_equals_def Let_def)
qed

lemma restoreSavedValue_ok:
  assumes "variable_ok T v"
  shows "safe (variable_ok T) (v_restoreSavedValue v)"
  using assms by (auto simp: restoreSavedValue_eq Let_def) (auto simp: variable_ok_def)

lemma stored_setElementUnknown:
  "Array_setElementUnknown i a = Inr b \<Longrightarrow> typed T b = typed T a \<and> array_well_formed b = array_well_formed a"
  using Array_setElementUnknown_shape [of i a b] by (simp add: typed_def)

lemma stored_setElement:
  "Array_setElement i x a = Inr b \<Longrightarrow> typed T b = typed T a \<and> array_well_formed b = array_well_formed a"
  using Array_setElement_shape [of i x a b] by (simp add: typed_def)

lemma stored_ok:
  "variable_ok T v \<Longrightarrow> v_value v = Some a \<Longrightarrow> typed T b = typed T a \<and> array_well_formed b = array_well_formed a \<Longrightarrow>
   variable_ok T (v\<lparr>v_value := Some b\<rparr>) \<and> variable_ok T (v_publishChange (v\<lparr>v_value := Some b\<rparr>))"
  by (auto simp: variable_ok_def)

text \<open>
  \<open>setElement\<close> in one equation: an element that is to have the value it has is left alone,
  otherwise it is stored and the change published.
\<close>

definition element_same :: "pvalue \<Rightarrow> payload option \<Rightarrow> bool" where
  "element_same e x \<longleftrightarrow> (case (e, x) of
      (Known y, Some z) \<Rightarrow> payload_equal z y
    | (Unknown _, None) \<Rightarrow> True
    | _ \<Rightarrow> False)"

definition put_element :: "nat \<Rightarrow> payload option \<Rightarrow> array \<Rightarrow> array result" where
  "put_element i x a = (case x of Some p \<Rightarrow> Array_setElement i p a | None \<Rightarrow> Array_setElementUnknown i a)"

lemma setElement_eq:
  assumes "variable_ok T v" and "v_value v = Some a"
  shows "v_setElement i val v =
     bindE (native_value (element_type T) val) (\<lambda>x.
     if element_same (getElementValue i a) x then Inr v
     else bindE (put_element i x a) (\<lambda>b. Inr (v_publishChange (v\<lparr>v_value := Some b\<rparr>))))"
proof -
  have T: "v_element v = T" using assms(1) by (simp add: variable_ok_def)
  have a: "typedArrayPointer v = Inr a" using assms by (rule typedArrayPointer_ok)
  show ?thesis
    unfolding v_setElement_def T a bindE_simps
    by (cases "getElementValue i a")
      (auto simp: element_same_def put_element_def split: option.splits intro!: arg_cong [of _ _ "bindE _"])
qed

lemma put_element_shape:
  "put_element i x a = Inr b \<Longrightarrow>
   typed T b = typed T a \<and> array_well_formed b = array_well_formed a \<and> array_length b = array_length a"
  unfolding put_element_def
  by (cases x) (auto dest: stored_setElement stored_setElementUnknown Array_setElement_shape Array_setElementUnknown_shape)

lemma put_element_safe:
  assumes "typed T a" and "\<And>p. x = Some p \<Longrightarrow> payload_type p = element_type T"
  shows "safe (\<lambda>_. True) (put_element i x a)"
proof (cases x)
  case None
  then show ?thesis unfolding put_element_def safe_def
    by (auto split: sum.splits dest: Array_setElementUnknown_error)
next
  case (Some p)
  with Array_setElement_total [OF assms(1) assms(2) [OF Some], of i] show ?thesis
    by (auto simp: put_element_def)
qed

lemma setElement_safe:
  assumes ok: "variable_ok T v" and "v_value v = Some a"
  shows "safe (variable_ok T) (v_setElement i val v)"
  unfolding setElement_eq [OF assms]
proof (rule safe_bindE [where R = "\<lambda>x. \<forall>p. x = Some p \<longrightarrow> payload_type p = element_type T"], goal_cases)
  case 1
  then show ?case
    unfolding safe_def by (auto split: sum.splits dest: native_value_type native_value_error)
next
  case (2 x)
  have a: "typed T a" using assms by (simp add: variable_ok_def)
  show ?case
  proof (cases "element_same (getElementValue i a) x")
    case False
    have "safe (variable_ok T) (bindE (put_element i x a) (\<lambda>b. Inr (v_publishChange (v\<lparr>v_value := Some b\<rparr>))))"
      using put_element_safe [OF a, of x i] 2(2) stored_ok [OF assms] put_element_shape [of i x a _ T]
      by (auto intro: safe_bindE)
    with False show ?thesis by simp
  qed (simp add: ok)
qed

lemma setElementUnknown_safe:
  assumes ok: "variable_ok T v"
  shows "safe (variable_ok T) (v_setElementUnknown i v)"
proof (cases "v_known v")
  case True
  with ok obtain a where a: "v_value v = Some a" by (auto simp: variable_ok_def)
  from True a show ?thesis
    using stored_ok [OF ok a] stored_setElementUnknown [of i a _ T]
    by (auto simp: v_setElementUnknown_def deref_def safe_def bindE_eq_Inl dest: Array_setElementUnknown_error
        split: sum.splits)
qed (simp add: v_setElementUnknown_def ok)

lemma preallocate_stored:
  "variable_ok T v \<Longrightarrow> typed T (v_preallocate v) \<and> array_well_formed (v_preallocate v)"
  by (auto simp: v_preallocate_def variable_ok_def Let_def split: option.splits)

lemma evaluateSize_ok:
  assumes "variable_ok T v" and "call_ok (Activate s)"
  shows "safe (variable_ok T) (v_evaluateSize s v)"
proof (cases "sub_size s")
  case (Inl e)
  with assms show ?thesis by (simp add: v_evaluateSize_def)
next
  case (Inr p)
  with assms(1) show ?thesis
    by (cases p) (auto simp: v_evaluateSize_def Let_def check_def variable_ok_def)
qed

lemma forget_ok: "variable_ok T v \<Longrightarrow> variable_ok T (v\<lparr>v_known := False\<rparr>)"
  by (simp add: variable_ok_def)

lemma handleActivate_safe:
  assumes ok: "variable_ok T v" and call: "call_ok (Activate s)"
  shows "safe (variable_ok T) (v_handleActivate s v)"
  unfolding v_handleActivate_def
proof (rule safe_bindE [OF evaluateSize_ok [OF assms]], goal_cases)
  case (1 w)
  show ?case
  proof (cases "sub_initializer s")
    case (Inl e)
    then show ?thesis using call 1(2) preallocate_stored [OF 1(2)] by (auto simp: variable_ok_def)
  next
    case (Inr p)
    then show ?thesis
      using call 1(2) preallocate_stored [OF 1(2)] setValueImpl_safe [OF forget_ok [OF 1(2)]]
      by (cases p) (auto simp: check_def forget_ok, auto simp: variable_ok_def)
  qed
qed

lemma activate_safe:
  assumes "variable_ok T v" and "call_ok (Activate s)" and "\<not> misuse (Activate s) v"
  shows "safe (variable_ok T) (v_activate s v)"
proof -
  have "variable_ok T (v\<lparr>v_activeCount := n\<rparr>)" for n using assms(1) by (simp add: variable_ok_def)
  moreover from assms(3) have "v_activeCount v + 1 < 2 ^ 64" by simp
  ultimately show ?thesis
    using handleActivate_safe [OF _ assms(2)] by (simp add: v_activate_def Let_def)
qed

lemma deactivate_ok: "variable_ok T v \<Longrightarrow> v_deactivate v = Inr w \<Longrightarrow> variable_ok T w"
  by (auto simp: v_deactivate_def variable_ok_def)

lemma run_call_safe:
  assumes ok: "variable_ok T v" and "call_ok c" and "\<not> misuse c v"
  shows "safe (variable_ok T) (run_call c v)"
proof (cases c)
  case (SetElement i x)
  with assms obtain a where "v_value v = Some a" by (auto simp: v_isKnown_def variable_ok_def)
  with SetElement show ?thesis using setElement_safe [OF ok] by simp
next
  case Deactivate
  with assms show ?thesis by (auto simp: v_deactivate_def variable_ok_def)
qed (use assms activate_safe setValue_safe unknown_ok saveCurrentValue_safe restoreSavedValue_ok
      setElementUnknown_safe in auto)

lemma run_call_ok:
  assumes ok: "variable_ok T v" and call: "call_ok c" and w: "run_call c v = Inr w"
  shows "variable_ok T w"
proof (cases "misuse c v")
  case False
  from run_call_safe [OF ok call False] w show ?thesis by simp
next
  case True
  then show ?thesis
  proof (cases c)
    case (SetElement i x)
    then obtain a where "v_value v = Some a"
      using w by (cases "v_value v") (auto simp: v_setElement_def typedArrayPointer_def)
    with w SetElement show ?thesis using setElement_safe [OF ok, of a i x] by simp
  next
    case (Activate s)
    have "variable_ok T (v\<lparr>v_activeCount := n\<rparr>)" for n using ok by (simp add: variable_ok_def)
    with w Activate call show ?thesis
      using handleActivate_safe [of T "v\<lparr>v_activeCount := 1\<rparr>" s]
      by (auto simp: v_activate_def Let_def split: if_splits)
  qed (use True w in \<open>auto simp: v_deactivate_def\<close>)
qed

text \<open>
  The life of a variable: it is made, with or without a size and an initializer, and then
  called. \<open>allowed\<close> restricts the calls further.
\<close>

inductive variable_life ::
  "element \<Rightarrow> bool \<Rightarrow> (variable_call \<Rightarrow> array_variable \<Rightarrow> bool) \<Rightarrow> array_variable \<Rightarrow> bool"
  for T hasSize allowed where
    made: "variable_life T hasSize allowed ((new_array_variable T hasSize)\<lparr>v_hasInitializer := ini\<rparr>)"
  | called: "variable_life T hasSize allowed v \<Longrightarrow> call_ok c \<Longrightarrow> allowed c v \<Longrightarrow> run_call c v = Inr w \<Longrightarrow>
      variable_life T hasSize allowed w"

lemma life_ok: "variable_life T hasSize allowed v \<Longrightarrow> variable_ok T v"
proof (induction rule: variable_life.induct)
  case (made ini)
  then show ?case by (simp add: new_array_variable_def variable_ok_def)
next
  case (called v c w)
  then show ?case by (blast intro: run_call_ok)
qed

lemma toValue_total: "variable_ok T v \<Longrightarrow> \<exists>x. v_toValue v = Inr x"
  by (auto simp: v_toValue_def v_getValuePointer_def variable_ok_def deref_def)

text \<open>
  Property C15. At every moment in the life of an array variable the arrays it stores, current and saved,
  have the type of its template instance and a flag for each slot; its value can be read; and
  a call raises no error but that of a faulty plan: no cast of the array fails, no null
  pointer is followed, no assertion is violated. The calls excluded are the deactivation of
  an inactive variable, an activation beyond the range of the counter, and the setting of an
  element in an array that is not known.
\<close>

theorem array_variable_types:
  assumes "variable_life T hasSize allowed v"
  shows "(\<forall>a. v_value v = Some a \<or> v_savedValue v = Some a \<longrightarrow>
            array_type_of a = array_value_type T \<and> array_well_formed a) \<and>
         (\<exists>x. v_toValue v = Inr x \<and> valueType x = array_value_type T) \<and>
         (\<forall>c e. call_ok c \<and> \<not> misuse c v \<and> run_call c v = Inl e \<longrightarrow> e = PlanError)"
proof -
  note ok = life_ok [OF assms]
  from toValue_total [OF ok] obtain x where x: "v_toValue v = Inr x" ..
  then have "valueType x = array_value_type T"
    using ok by (auto simp: v_toValue_def v_getValuePointer_def variable_ok_def deref_def typed_def
        split: if_splits option.splits)
  moreover have "e = PlanError" if "call_ok c" "\<not> misuse c v" "run_call c v = Inl e" for c e
    using run_call_safe [OF ok that(1,2)] that(3) by simp
  moreover have "array_type_of a = array_value_type T \<and> array_well_formed a"
    if "v_value v = Some a \<or> v_savedValue v = Some a" for a
    using ok that by (auto simp: variable_ok_def typed_def)
  ultimately show ?thesis using x by blast
qed

definition sized_three :: subexpressions where
  "sized_three = \<lparr>sub_size = Inr (Some 3), sub_sizeConstant = True, sub_initializer = Inr None\<rparr>"

definition one_element :: pvalue where
  "one_element = Known (ArrayVal (IntegerArray (array_of [7])))"

text \<open>An integer array of size 3, activated, then assigned an array of one element.\<close>

definition three_unknown :: array_variable where
  "three_unknown =
     (new_array_variable Integers True)
       \<lparr>v_activeCount := 1, v_published := 1, v_maxSize := 3, v_sizeIsConstant := True, v_known := True,
        v_value := Some (IntegerArray \<lparr>ar_known = [False, False, False], ar_contents = [0, 0, 0]\<rparr>)\<rparr>"

definition three_assigned :: array_variable where
  "three_assigned =
     three_unknown\<lparr>v_published := 2,
       v_value := Some (IntegerArray \<lparr>ar_known = [True, False, False], ar_contents = [7, 0, 0]\<rparr>)\<rparr>"

lemmas activation_defs =
  v_activate_def v_handleActivate_def v_evaluateSize_def v_publishChange_def v_isActive_def v_preallocate_def

lemma activate_three: "run_call (Activate sized_three) (new_array_variable Integers True) = Inr three_unknown"
  by (simp add: three_unknown_def sized_three_def activation_defs new_array_variable_def new_array_def
      numeral_3_eq_3)

lemma assign_three: "run_call (SetValue one_element) three_unknown = Inr three_assigned"
  by (simp add: three_unknown_def three_assigned_def one_element_def v_setValue_def v_setValueImpl_def
      new_array_variable_def v_publishChange_def v_isActive_def typedArrayPointer_def typed_def
      array_of_def array_equal_def array_size_def array_resize_def vector_resize_def numeral_3_eq_3)

text \<open>A list of calls that is part of a life.\<close>

fun calls_allowed :: "(variable_call \<Rightarrow> array_variable \<Rightarrow> bool) \<Rightarrow> variable_call list \<Rightarrow> array_variable \<Rightarrow> bool" where
  "calls_allowed P [] v \<longleftrightarrow> True"
| "calls_allowed P (c # cs) v \<longleftrightarrow>
     call_ok c \<and> P c v \<and> (case run_call c v of Inr w \<Rightarrow> calls_allowed P cs w | Inl _ \<Rightarrow> False)"

lemma life_run:
  "variable_life T hs P v \<Longrightarrow> calls_allowed P cs v \<Longrightarrow> forE run_call cs v = Inr w \<Longrightarrow> variable_life T hs P w"
proof (induction cs arbitrary: v)
  case (Cons c cs)
  then obtain u where u: "run_call c v = Inr u" "forE run_call cs u = Inr w" by auto
  have "variable_life T hs P u"
    using Cons.prems(1,2) u(1) by (auto intro: variable_life.called)
  then show ?case using Cons u by simp
qed simp

lemma new_life: "variable_life T hs P (new_array_variable T hs)"
  using variable_life.made [of T hs P False] by (simp add: new_array_variable_def)


lemma example_calls:
  "(\<And>v. P (Activate sized_three) v) \<Longrightarrow> P (SetValue one_element) three_unknown \<Longrightarrow>
   variable_life Integers True P three_assigned"
  by (rule life_run [OF new_life, where cs = "[Activate sized_three, SetValue one_element]"])
    (simp_all add: activate_three assign_three del: run_call.simps,
     simp_all add: sized_three_def one_element_def array_of_def)

lemma array_variable_types_witness:
  "array_type_of (IntegerArray \<lparr>ar_known = [True, False, False], ar_contents = [7, 0, 0]\<rparr>) =
     array_value_type Integers \<and>
   (\<exists>x. v_toValue three_assigned = Inr x \<and> valueType x = array_value_type Integers)"
  using array_variable_types [OF example_calls, of "\<lambda>_ _. True"] by (simp add: three_assigned_def)

section \<open>Sizes\<close>

text \<open>The size expression always gives \<open>n\<close>, and values are assigned while the variable is active.\<close>

fun sized_call :: "nat \<Rightarrow> variable_call \<Rightarrow> array_variable \<Rightarrow> bool" where
  "sized_call n (Activate s) v \<longleftrightarrow> (\<exists>k. sub_size s = Inr (Some k) \<and> sint k = int n)"
| "sized_call n (SetValue x) v \<longleftrightarrow> v_isActive v"
| "sized_call n _ v \<longleftrightarrow> True"

definition sized :: "nat \<Rightarrow> array_variable \<Rightarrow> bool" where
  "sized n v \<longleftrightarrow>
     v_hasSize v \<and> (v_isActive v \<or> v_sizeIsConstant v \<longrightarrow> v_maxSize v = n) \<and>
     (\<forall>a. v_value v = Some a \<or> v_savedValue v = Some a \<longrightarrow> array_length a = n)"

lemma isActive_publish [simp]: "v_isActive (v_publishChange v) = v_isActive v"
  by (simp add: v_isActive_def)

lemma sized_publish [simp]: "sized n (v_publishChange v) = sized n v"
  by (simp add: sized_def)

lemma sized_known [simp]: "sized n (v\<lparr>v_known := k\<rparr>) = sized n v"
  by (simp add: sized_def v_isActive_def)

lemma sized_store:
  "sized n v \<Longrightarrow> array_length a = n \<Longrightarrow> sized n (v\<lparr>v_value := Some a\<rparr>)"
  by (simp add: sized_def v_isActive_def)

lemma setUnknown_sized [simp]: "sized n (v_setUnknown v) = sized n v"
  by (simp add: v_setUnknown_def)

lemma setValueImpl_sized:
  assumes ok: "variable_ok T v" and "sized n v" and max: "v_maxSize v = n"
    and w: "v_setValueImpl ary v = Inr w"
  shows "sized n w"
proof -
  let ?same = "\<exists>a. v_value v = Some a \<and> arrays_equal ary a"
  let ?stored = "if ?same then the (v_value v) else ary"
  have "v_hasSize v" using assms(2) by (simp add: sized_def)
  with w max have le: "array_length ary \<le> n"
    by (auto simp: setValueImpl_eq [OF ok] Let_def not_less split: if_splits)
  have "array_length (if array_length ary < n then Array_resize n ?stored else ?stored) = n"
    using le by (auto dest: arrays_equal_shape(1))
  from sized_store [OF assms(2) this] show ?thesis
    using w max by (auto simp: setValueImpl_eq [OF ok] Let_def sized_known split: if_splits)
qed

lemma evaluateSize_sized:
  assumes "v_hasSize v" and "v_sizeIsConstant v \<longrightarrow> v_maxSize v = n" and "sized_call n (Activate s) v"
    and "v_evaluateSize s v = Inr w"
  shows "v_maxSize w = n" and "v_hasSize w" and "v_value w = v_value v" and "v_savedValue w = v_savedValue v"
    and "v_activeCount w = v_activeCount v"
  using assms by (auto simp: v_evaluateSize_def Let_def split: if_splits)

lemma preallocate_length:
  "sized n v \<Longrightarrow> v_maxSize v = n \<Longrightarrow> array_length (v_preallocate v) = n"
  by (auto simp: v_preallocate_def sized_def Let_def split: option.splits)

lemma handleActivate_sized:
  assumes ok: "variable_ok T v" and call: "sized_call n (Activate s) v"
    and v: "v_hasSize v" "v_sizeIsConstant v \<longrightarrow> v_maxSize v = n"
      "\<forall>a. v_value v = Some a \<or> v_savedValue v = Some a \<longrightarrow> array_length a = n"
    and ok_call: "call_ok (Activate s)" and w: "v_handleActivate s v = Inr w"
  shows "sized n w"
proof -
  from w obtain u where u: "v_evaluateSize s v = Inr u" by (auto simp: v_handleActivate_def)
  note e = evaluateSize_sized [OF v(1,2) call u]
  have sized: "sized n u" using e v(3) by (simp add: sized_def)
  have ok: "variable_ok T u" using evaluateSize_ok [OF ok ok_call] u by simp
  note set = setValueImpl_sized [OF forget_ok [OF ok], of n]
  show ?thesis
    using w u e(1) sized sized_store [OF sized preallocate_length [OF sized e(1)]] set
    by (auto simp: v_handleActivate_def split: if_splits option.splits)
qed

lemma run_call_sized:
  assumes ok: "variable_ok T v" and "call_ok c" and s: "sized n v" and call: "sized_call n c v"
    and w: "run_call c v = Inr w"
  shows "sized n w"
proof (cases c)
  case (Activate sub)
  have ok': "variable_ok T (v\<lparr>v_activeCount := k\<rparr>)" for k using ok by (simp add: variable_ok_def)
  from Activate call have call': "sized_call n (Activate sub) (v\<lparr>v_activeCount := 1\<rparr>)" by simp
  show ?thesis
  proof (cases "v_activeCount v = 0")
    case True
    with w Activate have "v_handleActivate sub (v\<lparr>v_activeCount := 1\<rparr>) = Inr w"
      by (simp add: v_activate_def)
    from handleActivate_sized [OF ok' call' _ _ _ _ this] s assms(2) Activate show ?thesis
      by (simp add: sized_def)
  next
    case False
    with w Activate s show ?thesis by (auto simp: v_activate_def sized_def v_isActive_def Let_def)
  qed
next
  case Deactivate
  with w s show ?thesis by (auto simp: v_deactivate_def sized_def v_isActive_def)
next
  case (SetValue x)
  with call s have "v_maxSize v = n" by (simp add: sized_def)
  note impl = setValueImpl_sized [OF ok s this]
  from w SetValue obtain p where
    "(case p of Some ary \<Rightarrow> v_setValueImpl ary v | None \<Rightarrow> Inr (v_setUnknown v)) = Inr w"
    by (auto simp: v_setValue_def)
  with impl s show ?thesis by (auto split: option.splits)
next
  case SetUnknown
  with w s show ?thesis by auto
next
  case Save
  with w s show ?thesis
    by (auto simp: v_saveCurrentValue_def sized_def v_isActive_def deref_def Let_def split: if_splits option.splits)
next
  case Restore
  with w s show ?thesis
    by (auto simp: restoreSavedValue_eq [OF ok] Let_def) (auto simp: sized_def v_isActive_def)
next
  case (SetElement i x)
  then obtain a where a: "v_value v = Some a"
    using w by (cases "v_value v") (auto simp: v_setElement_def typedArrayPointer_def)
  with s have "array_length a = n" by (simp add: sized_def)
  with w SetElement s show ?thesis
    by (auto simp: setElement_eq [OF ok a] split: if_splits
        dest: put_element_shape [of i _ a _ T] intro!: sized_store)
next
  case (SetElementUnknown i)
  have "array_length a = n" if "v_value v = Some a" for a using s that by (simp add: sized_def)
  with w SetElementUnknown s show ?thesis
    by (auto simp: v_setElementUnknown_def deref_def split: if_splits option.splits
        dest: Array_setElementUnknown_shape(2) intro!: sized_store)
qed


lemma life_sized: "variable_life T True (sized_call n) v \<Longrightarrow> variable_ok T v \<and> sized n v"
proof (induction rule: variable_life.induct)
  case (made ini)
  then show ?case
    by (simp add: new_array_variable_def variable_ok_def sized_def v_isActive_def)
next
  case (called v c w)
  then show ?case by (blast intro: run_call_ok run_call_sized)
qed

lemma Array_resize_id: "array_well_formed a \<Longrightarrow> Array_resize (array_length a) a = a"
  by (cases a) (simp_all add: array_resize_def array_size_def vector_resize_def)

text \<open>
  Property C14. A variable declared with a size has exactly that many elements whenever its value is
  known, whatever is assigned, saved or restored, provided its size expression always gives
  the same number and values are assigned while it is active. An array that is longer is
  refused; a shorter one is stored with unknown elements added, unless the variable shows an
  equal array already, which then stays.
\<close>

theorem array_variable_size:
  assumes life: "variable_life T True (sized_call n) v" and active: "v_isActive v"
  shows "(\<forall>a. v_getValuePointer v = Inr (Some a) \<longrightarrow> array_length a = n) \<and>
         (\<forall>a. n < array_length a \<longrightarrow> v_setValue (Known (ArrayVal a)) v = Inl PlanError) \<and>
         (\<forall>a. array_type_of a = array_value_type T \<and> array_well_formed a \<and> array_length a \<le> n \<longrightarrow>
            (\<exists>w b. v_setValue (Known (ArrayVal a)) v = Inr w \<and> v_getValuePointer w = Inr (Some b) \<and>
               (b = Array_resize n a \<or> v_value v = Some b \<and> arrays_equal a b)))"
proof (intro conjI allI impI, goal_cases)
  have ok: "variable_ok T v" and s: "sized n v" using life_sized [OF life] by simp_all
  with active have max: "v_maxSize v = n" "v_hasSize v" by (simp_all add: sized_def)
  note eq = setValueImpl_eq [OF ok]
  {
    case (1 a)
    with s show ?case by (auto simp: v_getValuePointer_def deref_def sized_def split: if_splits option.splits)
  next
    case (2 a)
    with max show ?case by (simp add: v_setValue_def eq)
  next
    case (3 a)
    then have a: "typed T a" "array_well_formed a" "array_length a \<le> n" by (simp_all add: typed_def)
    show ?case
    proof (cases "\<exists>b. v_value v = Some b \<and> arrays_equal a b")
      case True
      then obtain b where b: "v_value v = Some b" "arrays_equal a b" by blast
      with s have "array_length a = n" by (auto simp: sized_def dest: arrays_equal_shape(1))
      with a b max active show ?thesis
        by (auto simp: v_setValue_def eq Let_def v_getValuePointer_def deref_def) (auto simp: v_isActive_def)
    next
      case False
      have "(if array_length a < n then Array_resize n a else a) = Array_resize n a"
        using a Array_resize_id [OF a(2)] by auto
      with False a max active show ?thesis
        by (auto simp: v_setValue_def eq Let_def v_getValuePointer_def deref_def) (auto simp: v_isActive_def)
    qed
  }
qed

lemma array_variable_size_witness:
  "array_length (IntegerArray \<lparr>ar_known = [True, False, False], ar_contents = [7, 0, 0]\<rparr>) = 3 \<and>
   v_setValue (Known (ArrayVal (IntegerArray (array_of [1, 2, 3, 4])))) three_assigned = Inl PlanError"
proof -
  have "variable_life Integers True (sized_call 3) three_assigned"
    by (rule example_calls) (simp_all add: sized_three_def three_unknown_def v_isActive_def)
  from array_variable_size [OF this] show ?thesis
    by (simp add: three_assigned_def three_unknown_def v_isActive_def v_getValuePointer_def deref_def
        array_of_def array_size_def)
qed

end
