(* ===== verification/Array_Notify.thy ===== *)
theory Array_Notify
  imports Array_Invariant
begin

text \<open>
  Which calls on an array variable tell its listeners that it changed (the calls of
  \<open>publishChange\<close> in src/src/expr/ArrayVariable.cc).
\<close>

text \<open>What an active variable shows to its listeners.\<close>

definition shown :: "array_variable \<Rightarrow> array option" where
  "shown v = (if v_isKnown v then v_value v else None)"

lemma shown_publish [simp]: "shown (v_publishChange v) = shown v"
  by (simp add: shown_def v_isKnown_def)

lemma published_publish [simp]: "v_isActive v \<Longrightarrow> v_published (v_publishChange v) = Suc (v_published v)"
  by (simp add: v_publishChange_def)

lemma isActive_update [simp]:
  "v_isActive (v\<lparr>v_value := p\<rparr>) = v_isActive v"
  "v_isActive (v\<lparr>v_known := k\<rparr>) = v_isActive v"
  "v_isActive (v\<lparr>v_savedKnown := k\<rparr>) = v_isActive v"
  "v_isActive (v\<lparr>v_savedValue := p\<rparr>) = v_isActive v"
  by (simp_all add: v_isActive_def)

definition quiet_or_told :: "array_variable \<Rightarrow> array_variable \<Rightarrow> bool" where
  "quiet_or_told v w \<longleftrightarrow>
     shown w = shown v \<and> v_published w = v_published v \<or> v_published w = Suc (v_published v)"

lemma told [simp]: "v_isActive w \<Longrightarrow> v_published w = v_published v \<Longrightarrow> quiet_or_told v (v_publishChange w)"
  by (simp add: quiet_or_told_def)

lemma quiet_self [simp]: "quiet_or_told v v"
  by (simp add: quiet_or_told_def)

text \<open>No array is shorter than the maximum size, as in \<open>array_variable_size\<close>.\<close>

definition full_size :: "array_variable \<Rightarrow> bool" where
  "full_size v \<longleftrightarrow> (\<forall>a. v_value v = Some a \<longrightarrow> v_maxSize v \<le> array_length a)"

lemma setUnknown_told: "v_isActive v \<Longrightarrow> quiet_or_told v (v_setUnknown v)"
  by (simp add: v_setUnknown_def)

lemma setValueImpl_told:
  assumes ok: "variable_ok T v" and "v_isActive v" and "full_size v" and w: "v_setValueImpl ary v = Inr w"
  shows "quiet_or_told v w"
proof (cases "(\<exists>a. v_value v = Some a \<and> arrays_equal ary a) \<and> v_known v")
  case True
  then obtain a where a: "v_value v = Some a" "arrays_equal ary a" "v_known v" by blast
  then have "\<not> array_length ary < v_maxSize v"
    using assms(3) by (auto simp: full_size_def dest: arrays_equal_shape(1))
  with w a have "w = v\<lparr>v_value := Some a, v_known := True\<rparr>"
    by (simp add: setValueImpl_eq [OF ok] Let_def split: if_splits)
  with a have "shown w = shown v" "v_published w = v_published v"
    by (simp_all add: shown_def v_isKnown_def)
  then show ?thesis by (simp add: quiet_or_told_def)
next
  case False
  with w assms(2) show ?thesis
    by (auto simp: setValueImpl_eq [OF ok] Let_def split: if_splits)
qed

lemma restoreSavedValue_told:
  assumes ok: "variable_ok T v" and "v_isActive v" and w: "v_restoreSavedValue v = Inr w"
  shows "quiet_or_told v w"
  using w assms(2)
  by (auto simp: restoreSavedValue_eq [OF ok] Let_def)
    (simp_all add: quiet_or_told_def shown_def v_isKnown_def)

lemma setElement_told:
  assumes ok: "variable_ok T v" and act: "v_isActive v" and w: "v_setElement i x v = Inr w"
  shows "quiet_or_told v w"
proof -
  obtain a where a: "v_value v = Some a"
    using w by (cases "v_value v") (auto simp: v_setElement_def typedArrayPointer_def)
  show ?thesis using w act by (auto simp: setElement_eq [OF ok a] split: if_splits)
qed

lemma setElementUnknown_untold:
  assumes "v_setElementUnknown i v = Inr w" and "v_isKnown v" and "v_value v = Some a"
    and "isKnown (getElementValue i a)"
  shows "v_published w = v_published v \<and> shown w \<noteq> shown v"
proof -
  obtain b where b: "Array_setElementUnknown i a = Inr b" and w: "w = v\<lparr>v_value := Some b\<rparr>"
    using assms(1-3) by (auto simp: v_setElementUnknown_def v_isKnown_def deref_def)
  have "\<not> isKnown (getElementValue i b)"
    using b by (cases a) (auto simp: setElementUnknown_def getElement_def checkIndex_def)
  with assms(4) have "b \<noteq> a" by auto
  with w assms(2,3) show ?thesis by (simp add: shown_def v_isKnown_def)
qed

text \<open>
  Property C13. A call that changes what an active array variable shows tells its listeners, once;
  only \<open>setElementUnknown\<close> does not: an element that was known becomes unknown and no
  listener is told. (A reference to an element that is set to unknown calls it.) The arrays
  of a variable with a declared size have that size, as they do when the size is a constant,
  which is the only size the parser makes.
\<close>

theorem array_change_published:
  assumes ok: "variable_ok T v" and full: "full_size v" and active: "v_isActive v"
    and w: "run_call c v = Inr w" and still: "v_isActive w"
  shows "((\<nexists>i. c = SetElementUnknown i) \<longrightarrow> shown w \<noteq> shown v \<longrightarrow> v_published w = Suc (v_published v)) \<and>
         (\<forall>i a. c = SetElementUnknown i \<and> shown v = Some a \<and> isKnown (getElementValue i a) \<longrightarrow>
            shown w \<noteq> shown v \<and> v_published w = v_published v)"
proof -
  have "quiet_or_told v w" if "\<nexists>i. c = SetElementUnknown i"
  proof (cases c)
    case (Activate s)
    with w active show ?thesis
      by (auto simp: v_activate_def Let_def v_isActive_def quiet_or_told_def shown_def v_isKnown_def
          split: if_splits)
  next
    case Deactivate
    with w active still show ?thesis
      by (auto simp: v_deactivate_def v_isActive_def quiet_or_told_def shown_def v_isKnown_def)
  next
    case (SetValue x)
    with w obtain p where
      "(case p of Some ary \<Rightarrow> v_setValueImpl ary v | None \<Rightarrow> Inr (v_setUnknown v)) = Inr w"
      by (auto simp: v_setValue_def)
    then show ?thesis
      using setValueImpl_told [OF ok active full] setUnknown_told [OF active] by (auto split: option.splits)
  next
    case Save
    with w active show ?thesis
      by (auto simp: v_saveCurrentValue_def Let_def deref_def quiet_or_told_def shown_def v_isKnown_def
          split: if_splits option.splits)
  qed (use w that setUnknown_told [OF active] restoreSavedValue_told [OF ok active]
        setElement_told [OF ok active] in auto)
  moreover have "shown w \<noteq> shown v \<and> v_published w = v_published v"
    if "c = SetElementUnknown i" "shown v = Some a" "isKnown (getElementValue i a)" for i a
    using setElementUnknown_untold [of i v w a] that w by (auto simp: shown_def split: if_splits)
  ultimately show ?thesis by (auto simp: quiet_or_told_def)
qed

lemma array_change_published_witness:
  "v_published three_assigned = Suc (v_published three_unknown) \<and> shown three_assigned \<noteq> shown three_unknown"
proof -
  have "variable_ok Integers three_unknown"
    by (simp add: variable_ok_def three_unknown_def new_array_variable_def typed_def)
  moreover have "full_size three_unknown" "v_isActive three_unknown" "v_isActive three_assigned"
    by (simp_all add: full_size_def three_unknown_def three_assigned_def v_isActive_def array_size_def)
  moreover have "shown three_assigned \<noteq> shown three_unknown"
    by (simp add: shown_def three_unknown_def three_assigned_def v_isKnown_def v_isActive_def)
  ultimately show ?thesis
    using array_change_published [OF _ _ _ assign_three, of Integers] by blast
qed

end
