(* ===== verification/Array_Reference.thy ===== *)
theory Array_Reference
  imports Array_Notify
begin

text \<open>
  References to the elements of arrays (src/src/expr/ArrayReference.cc): reading through a
  reference, assigning through one, and retracting an assignment to an array or to an element
  (src/src/exec/Assignment.cc).

  A reference is evaluated anew each time: \<open>index\<close> and \<open>arr\<close> are what its subexpressions give at
  the time of the call.
\<close>

section \<open>Reading\<close>

definition selfCheck :: "integer option result \<Rightarrow> array option result \<Rightarrow> (array \<times> nat) option result" where
  "selfCheck index arr =
     known index (\<lambda>idxTemp.
     bindE (check PlanError (0 \<le> sint idxTemp)) (\<lambda>_.
     let idx = nat (sint idxTemp) in
     known arr (\<lambda>valuePtr.
     let knownVec = getKnownVector valuePtr in
     bindE (check PlanError (idx < length knownVec)) (\<lambda>_.
     Inr (if knownVec ! idx then Some (valuePtr, idx) else None)))))"

definition aref_isKnown :: "integer option result \<Rightarrow> array option result \<Rightarrow> bool result" where
  "aref_isKnown index arr = bindE (selfCheck index arr) (\<lambda>p. Inr (p \<noteq> None))"

definition aref_valueType :: "value_type \<Rightarrow> value_type option" where
  "aref_valueType aryType =
     (if isArrayType aryType then arrayElementType aryType else Some UNKNOWN_TYPE)"

definition aref_getBoolean :: "integer option result \<Rightarrow> array option result \<Rightarrow> bool option result" where
  "aref_getBoolean index arr = known (selfCheck index arr) (\<lambda>(ary, idx). getElement_Boolean idx ary)"

definition aref_getInteger :: "integer option result \<Rightarrow> array option result \<Rightarrow> integer option result" where
  "aref_getInteger index arr = known (selfCheck index arr) (\<lambda>(ary, idx). getElement_Integer idx ary)"

definition aref_getString :: "integer option result \<Rightarrow> array option result \<Rightarrow> string option result" where
  "aref_getString index arr = known (selfCheck index arr) (\<lambda>(ary, idx). getElement_String idx ary)"

text \<open>A real can be got from an array of integers.\<close>

definition aref_getReal :: "integer option result \<Rightarrow> array option result \<Rightarrow> real_bits option result" where
  "aref_getReal index arr =
     known (selfCheck index arr) (\<lambda>(ary, idx).
       if array_type_of ary = INTEGER_ARRAY_TYPE
       then bindE (getElement_Integer idx ary) (\<lambda>intResult. Inr (map_option real_of_integer intResult))
       else getElement_Real idx ary)"

definition aref_toValue :: "integer option result \<Rightarrow> array option result \<Rightarrow> pvalue result" where
  "aref_toValue index arr =
     bindE (selfCheck index arr) (\<lambda>p. Inr (case p of
       Some (ary, idx) \<Rightarrow> getElementValue idx ary
     | None \<Rightarrow> Unknown UNKNOWN_TYPE))"

section \<open>Assigning\<close>

record element_reference =
  r_array :: "array_variable option"  \<comment> \<open>\<open>m_mutableArray\<close>: null if the base is no array variable\<close>
  r_saved :: bool
  r_savedValue :: pvalue

definition new_reference :: "array_variable option \<Rightarrow> element_reference" where
  "new_reference base = \<lparr>r_array = base, r_saved = False, r_savedValue = Unknown UNKNOWN_TYPE\<rparr>"

definition mutableSelfCheck :: "integer option result \<Rightarrow> element_reference \<Rightarrow> (nat \<times> array_variable) option result" where
  "mutableSelfCheck index r =
     (case r_array r of
        None \<Rightarrow> Inl PlanError
      | Some v \<Rightarrow>
          if \<not> v_isKnown v then Inr None
          else known index (\<lambda>idxTemp.
               bindE (check PlanError (0 \<le> sint idxTemp)) (\<lambda>_. Inr (Some (nat (sint idxTemp), v)))))"

definition r_setValue :: "integer option result \<Rightarrow> pvalue \<Rightarrow> element_reference \<Rightarrow> element_reference result" where
  "r_setValue index val r =
     bindE (mutableSelfCheck index r) (\<lambda>p. case p of
       None \<Rightarrow> Inr r
     | Some (idx, v) \<Rightarrow> bindE (v_setElement idx val v) (\<lambda>v. Inr (r\<lparr>r_array := Some v\<rparr>)))"

definition r_setUnknown :: "integer option result \<Rightarrow> element_reference \<Rightarrow> element_reference result" where
  "r_setUnknown index r =
     bindE (mutableSelfCheck index r) (\<lambda>p. case p of
       None \<Rightarrow> Inr r
     | Some (idx, v) \<Rightarrow> bindE (v_setElementUnknown idx v) (\<lambda>v. Inr (r\<lparr>r_array := Some v\<rparr>)))"

definition r_saveCurrentValue :: "integer option result \<Rightarrow> element_reference \<Rightarrow> element_reference result" where
  "r_saveCurrentValue index r =
     bindE (mutableSelfCheck index r) (\<lambda>p. case p of
       None \<Rightarrow> Inr (r\<lparr>r_saved := False\<rparr>)
     | Some (idx, v) \<Rightarrow>
         bindE (v_getElementValue idx v) (\<lambda>x. Inr (r\<lparr>r_savedValue := x, r_saved := True\<rparr>)))"

definition r_restoreSavedValue :: "integer option result \<Rightarrow> element_reference \<Rightarrow> element_reference result" where
  "r_restoreSavedValue index r =
     bindE (mutableSelfCheck index r) (\<lambda>p. case p of
       None \<Rightarrow> Inr r
     | Some (idx, v) \<Rightarrow>
         if \<not> r_saved r then Inr r
         else bindE (v_getElementValue idx v) (\<lambda>x.
              bindE (if \<not> value_equals (r_savedValue r) x then v_setElement idx (r_savedValue r) v else Inr v) (\<lambda>v.
              Inr (r\<lparr>r_array := Some v, r_saved := False\<rparr>))))"

definition r_getSavedValue :: "element_reference \<Rightarrow> pvalue" where
  "r_getSavedValue r = r_savedValue r"

definition r_getBaseVariable :: "element_reference \<Rightarrow> array_variable result" where
  "r_getBaseVariable r = (case r_array r of None \<Rightarrow> Inl PlanError | Some v \<Rightarrow> Inr v)"

section \<open>Reading agrees with the value\<close>

lemma knownVector_element:
  "getKnownVector a ! i \<Longrightarrow> i < length (getKnownVector a) \<Longrightarrow>
   (case a of
      BooleanArray b \<Rightarrow> getElement i b = Some (ar_contents b ! i)
    | IntegerArray b \<Rightarrow> getElement i b = Some (ar_contents b ! i)
    | RealArray b \<Rightarrow> getElement i b = Some (ar_contents b ! i)
    | StringArray b \<Rightarrow> getElement i b = Some (ar_contents b ! i))"
  by (cases a) (simp_all add: getElement_def checkIndex_def)

lemma selfCheck_element:
  assumes "selfCheck index arr = Inr (Some (ary, idx))"
  shows "idx < length (getKnownVector ary) \<and> getKnownVector ary ! idx"
  using assms by (auto simp: selfCheck_def known_def Let_def split: option.splits if_splits)

lemma element_reads:
  assumes "selfCheck index arr = Inr (Some (ary, idx))"
  shows "isKnown (getElementValue idx ary)"
    and "getElement_Boolean idx ary = getBoolean (getElementValue idx ary)"
    and "getElement_Integer idx ary = getInteger (getElementValue idx ary)"
    and "array_type_of ary \<noteq> INTEGER_ARRAY_TYPE \<Longrightarrow> getElement_Real idx ary = getReal (getElementValue idx ary)"
    and "array_type_of ary = INTEGER_ARRAY_TYPE \<Longrightarrow>
      bindE (getElement_Integer idx ary) (\<lambda>i. Inr (map_option real_of_integer i)) = getReal (getElementValue idx ary)"
    and "getElement_String idx ary = getString (getElementValue idx ary)"
  using knownVector_element [of ary idx] selfCheck_element [OF assms] by (cases ary; simp)+

lemma unknown_element: "\<not> getKnownVector a ! i \<Longrightarrow> getElementValue i a = Unknown UNKNOWN_TYPE"
  by (cases a) (simp_all add: getElement_def)

text \<open>
  Property C40. Reading an element through a reference: a known index below the size of a known array
  gives the element as it is, known or not; a negative index is an error of the plan even if
  the array is unknown, one beyond the size is an error if the array is known; otherwise the
  reference is unknown. Reading it as a value of some type is the same as reading it as a
  \<open>Value\<close> and taking the value of that type from it.
\<close>

theorem reference_reads:
  "aref_toValue (Inr (Some k)) (Inr (Some a)) =
     (if 0 \<le> sint k \<and> nat (sint k) < array_length a then Inr (getElementValue (nat (sint k)) a)
      else Inl PlanError) \<and>
   aref_toValue (Inr (Some k)) (Inr None) =
     (if 0 \<le> sint k then Inr (Unknown UNKNOWN_TYPE) else Inl PlanError) \<and>
   aref_toValue (Inr None) arr = Inr (Unknown UNKNOWN_TYPE) \<and>
   aref_isKnown index arr = bindE (aref_toValue index arr) (\<lambda>v. Inr (isKnown v)) \<and>
   aref_getBoolean index arr = bindE (aref_toValue index arr) getBoolean \<and>
   aref_getInteger index arr = bindE (aref_toValue index arr) getInteger \<and>
   aref_getReal index arr = bindE (aref_toValue index arr) getReal \<and>
   aref_getString index arr = bindE (aref_toValue index arr) getString"
proof (intro conjI, goal_cases)
  case 1
  then show ?case
    by (simp add: aref_toValue_def selfCheck_def check_def Let_def array_length_known unknown_element)
next
  case 2
  then show ?case by (simp add: aref_toValue_def selfCheck_def check_def)
next
  case 3
  then show ?case by (simp add: aref_toValue_def selfCheck_def)
next
  case 4
  show ?case
    by (cases "selfCheck index arr")
      (auto simp: aref_isKnown_def aref_toValue_def element_reads(1) split: option.splits)
next
  case 5
  show ?case
    by (cases "selfCheck index arr")
      (auto simp: aref_getBoolean_def aref_toValue_def known_def element_reads(2) split: option.splits)
next
  case 6
  show ?case
    by (cases "selfCheck index arr")
      (auto simp: aref_getInteger_def aref_toValue_def known_def element_reads(3) split: option.splits)
next
  case 7
  show ?case
    by (cases "selfCheck index arr")
      (auto simp: aref_getReal_def aref_toValue_def known_def element_reads(4,5) simp del: bindE_eq_Inr
        split: option.splits)
next
  case 8
  show ?case
    by (cases "selfCheck index arr")
      (auto simp: aref_getString_def aref_toValue_def known_def element_reads(6) split: option.splits)
qed

section \<open>Retracting assignments\<close>

text \<open>
  An assignment node that fails: \<open>fixValue\<close> saves the value of the destination, \<open>execute\<close> sets it,
  \<open>retract\<close> restores it.
\<close>

definition failed_assignment ::
  "('s \<Rightarrow> 's result) \<Rightarrow> (pvalue \<Rightarrow> 's \<Rightarrow> 's result) \<Rightarrow> ('s \<Rightarrow> 's result) \<Rightarrow> pvalue \<Rightarrow> 's \<Rightarrow> 's result" where
  "failed_assignment saveCurrentValue setValue restoreSavedValue val s =
     bindE (saveCurrentValue s) (\<lambda>s. bindE (setValue val s) restoreSavedValue)"

text \<open>
  What an \<open>Assignable\<close> owes to assignment nodes: after one assignment the saved value can be
  restored, and the destination is as it was before.
\<close>

locale assignable =
  fixes save :: "'s \<Rightarrow> 's result"
    and assign :: "pvalue \<Rightarrow> 's \<Rightarrow> 's result"
    and restore :: "'s \<Rightarrow> 's result"
    and legal :: "pvalue \<Rightarrow> bool"
    and good :: "'s \<Rightarrow> bool"
    and same :: "'s \<Rightarrow> 's \<Rightarrow> bool"
  assumes retracted: "good s \<Longrightarrow> legal x \<Longrightarrow> save s = Inr t \<Longrightarrow> assign x t = Inr u \<Longrightarrow>
      \<exists>w. restore u = Inr w \<and> good w \<and> same s w"
    and same_refl: "same s s"
    and same_trans: "same s t \<Longrightarrow> same t u \<Longrightarrow> same s u"
begin

lemma attempt:
  assumes "good s" and "legal x" and "failed_assignment save assign restore x s = Inr w"
  shows "good w \<and> same s w"
  using assms retracted by (fastforce simp: failed_assignment_def)

lemma attempts:
  "good s \<Longrightarrow> list_all legal xs \<Longrightarrow> forE (failed_assignment save assign restore) xs s = Inr w \<Longrightarrow>
   good w \<and> same s w"
proof (induction xs arbitrary: s)
  case Nil
  then show ?case by (simp add: same_refl)
next
  case (Cons x xs)
  from Cons.prems obtain t where t: "failed_assignment save assign restore x s = Inr t"
      "forE (failed_assignment save assign restore) xs t = Inr w" by auto
  from attempt [OF _ _ t(1)] Cons.prems have "good t \<and> same s t" by simp
  with Cons.IH [OF _ _ t(2)] Cons.prems show ?case by (auto intro: same_trans)
qed

text \<open>Restoring does not fail.\<close>

lemma attempt_error:
  assumes "good s" and "legal x" and "failed_assignment save assign restore x s = Inl e"
  shows "save s = Inl e \<or> (\<exists>t. save s = Inr t \<and> assign x t = Inl e)"
  using assms retracted by (fastforce simp: failed_assignment_def bindE_eq_Inl)

end

subsection \<open>Arrays\<close>

definition same_array :: "array_variable \<Rightarrow> array_variable \<Rightarrow> bool" where
  "same_array v w \<longleftrightarrow>
     v_known w = v_known v \<and>
     (v_known v \<longrightarrow> v_value w = v_value v \<or>
        (\<exists>a b. v_value v = Some a \<and> v_value w = Some b \<and> arrays_equal b a))"

lemma array_equal_trans:
  assumes "\<And>x y z. eq x y \<Longrightarrow> eq y z \<Longrightarrow> eq x z"
  shows "array_equal eq a b \<Longrightarrow> array_equal eq b c \<Longrightarrow> array_equal eq a c"
  using list_all2_trans [of eq eq eq, OF assms] by (auto simp: array_equal_def split: if_splits)

lemma r_equal_trans: "r_equal x y \<Longrightarrow> r_equal y z \<Longrightarrow> r_equal x z"
  by (simp add: r_equal_def)

lemma arrays_equal_trans: "arrays_equal a b \<Longrightarrow> arrays_equal b c \<Longrightarrow> arrays_equal a c"
  by (cases a; cases b; cases c)
    (auto intro: array_equal_trans [of "(=)"] array_equal_trans [of r_equal, OF r_equal_trans])

text \<open>The variable after the value was saved and one assignment made.\<close>

lemma save_eq:
  assumes "variable_ok T v"
  shows "v_saveCurrentValue v =
     Inr (v\<lparr>v_savedKnown := v_known v, v_savedValue := (if v_known v then v_value v else v_savedValue v)\<rparr>)"
  using assms by (auto simp: v_saveCurrentValue_def variable_ok_def deref_def Let_def)

lemma saved_kept:
  assumes ok: "variable_ok T v" and "v_setValue x v = Inr w"
  shows "v_savedKnown w = v_savedKnown v \<and> v_savedValue w = v_savedValue v \<and>
    (\<not> v_known w \<longrightarrow> v_value w = v_value v)"
proof -
  obtain p where "(case p of Some ary \<Rightarrow> v_setValueImpl ary v | None \<Rightarrow> Inr (v_setUnknown v)) = Inr w"
    using assms(2) by (auto simp: v_setValue_def)
  then show ?thesis
    by (auto simp: setValueImpl_eq [OF ok] v_setUnknown_def Let_def split: option.splits if_splits)
qed

lemma array_retracted:
  assumes ok: "variable_ok T v" and x: "value_formed x"
    and t: "v_saveCurrentValue v = Inr t" and u: "v_setValue x t = Inr u"
  shows "\<exists>w. v_restoreSavedValue u = Inr w \<and> variable_ok T w \<and> same_array v w"
proof -
  have ok_t: "variable_ok T t" using saveCurrentValue_safe [OF ok] t by simp
  have ok_u: "variable_ok T u" using setValue_safe [OF ok_t x] u by simp
  from t have t': "t = v\<lparr>v_savedKnown := v_known v, v_savedValue := (if v_known v then v_value v else v_savedValue v)\<rparr>"
    by (simp add: save_eq [OF ok])
  note kept = saved_kept [OF ok_t u]
  obtain w where w: "v_restoreSavedValue u = Inr w"
    by (simp add: restoreSavedValue_eq [OF ok_u] Let_def)
  moreover have "variable_ok T w" using restoreSavedValue_ok [OF ok_u] w by simp
  moreover have "same_array v w"
    using w kept ok ok_u unfolding t'
    by (auto simp: restoreSavedValue_eq [OF ok_u] Let_def same_array_def variable_ok_def split: if_splits)
  ultimately show ?thesis by blast
qed

interpretation array_variable: assignable v_saveCurrentValue v_setValue v_restoreSavedValue
  value_formed "variable_ok T" same_array for T
proof (unfold_locales, goal_cases)
  case (1 v x t u)
  then show ?case by (rule array_retracted)
next
  case (2 v)
  then show ?case by (simp add: same_array_def)
next
  case (3 u v w)
  then show ?case by (auto simp: same_array_def intro: arrays_equal_trans)
qed

subsection \<open>Elements\<close>

text \<open>The same element, up to the sign of a zero.\<close>

definition same_value :: "pvalue \<Rightarrow> pvalue \<Rightarrow> bool" where
  "same_value x y \<longleftrightarrow> x = y \<or> (\<exists>r s. x = Known (RealVal r) \<and> y = Known (RealVal s) \<and> r_equal r s)"

definition as_element :: "payload option \<Rightarrow> pvalue" where
  "as_element x = (case x of Some p \<Rightarrow> Known p | None \<Rightarrow> Unknown UNKNOWN_TYPE)"

lemma as_element_simps [simp]: "as_element (Some p) = Known p" "as_element None = Unknown UNKNOWN_TYPE"
  by (simp_all add: as_element_def)

lemma same_value_refl [simp]: "same_value x x"
  by (simp add: same_value_def)

lemma same_value_trans: "same_value x y \<Longrightarrow> same_value y z \<Longrightarrow> same_value x z"
  by (auto simp: same_value_def intro: r_equal_trans)

lemma payload_equal_same:
  "payload_equal p q \<Longrightarrow> payload_type p = element_type T \<Longrightarrow> payload_type q = element_type T \<Longrightarrow>
   same_value (Known p) (Known q)"
  by (cases T; cases p; cases q; simp add: payload_equal_def same_value_def)

lemma element_of_typed:
  assumes "typed T a"
  shows "getElementValue i a = Unknown UNKNOWN_TYPE \<or>
    (\<exists>p. getElementValue i a = Known p \<and> payload_type p = element_type T)"
  using assms by (cases a; cases T; simp add: typed_def split: option.splits)

lemma native_of_element:
  "typed T a \<Longrightarrow> \<exists>x. native_value (element_type T) (getElementValue i a) = Inr x \<and> as_element x = getElementValue i a"
  using element_of_typed [of T a i] by (auto simp: native_value_def)

lemma put_element_elements:
  assumes "typed T a" and "array_well_formed a" and "put_element i x a = Inr b"
  shows "getElementValue j b =
    (if j = i \<and> i < array_length a then as_element x else getElementValue j a)"
proof (cases x)
  case None
  with assms show ?thesis
    by (cases a)
      (auto simp: put_element_def setElementUnknown_def getElement_def checkIndex_def array_size_def nth_list_update)
next
  case (Some p)
  with assms show ?thesis
    by (cases "(i, p, a)" rule: Array_setElement.cases)
      (auto simp: put_element_def setElement_def getElement_def checkIndex_def array_size_def nth_list_update)
qed

lemma setElement_effect:
  assumes ok: "variable_ok T v" and a: "v_value v = Some a"
    and val: "native_value (element_type T) val = Inr x" and w: "v_setElement i val v = Inr w"
  shows "\<exists>b. v_value w = Some b \<and> v_known w = v_known v \<and> v_activeCount w = v_activeCount v \<and>
    array_length b = array_length a \<and>
    (\<forall>j. j \<noteq> i \<or> array_length a \<le> i \<longrightarrow> getElementValue j b = getElementValue j a) \<and>
    (i < array_length a \<longrightarrow> same_value (as_element x) (getElementValue i b))"
proof -
  have T: "typed T a" "array_well_formed a" using ok a by (simp_all add: variable_ok_def)
  show ?thesis
  proof (cases "element_same (getElementValue i a) x")
    case True
    moreover have "payload_type p = element_type T" if "x = Some p" for p
      using val that native_value_type by blast
    ultimately have "same_value (as_element x) (getElementValue i a)"
      using element_of_typed [OF T(1), of i]
      by (auto simp: element_same_def intro: payload_equal_same split: pvalue.splits option.splits)
    with True w a show ?thesis by (simp add: setElement_eq [OF ok a] val)
  next
    case False
    with w obtain b where b: "put_element i x a = Inr b" and "w = v_publishChange (v\<lparr>v_value := Some b\<rparr>)"
      by (auto simp: setElement_eq [OF ok a] val)
    with put_element_elements [OF T b] put_element_shape [OF b, of T] show ?thesis by simp
  qed
qed

lemma setElement_total:
  assumes ok: "variable_ok T v" and a: "v_value v = Some a"
    and val: "native_value (element_type T) val = Inr x"
  shows "\<exists>w. v_setElement i val v = Inr w"
proof (cases "element_same (getElementValue i a) x")
  case True
  then show ?thesis by (simp add: setElement_eq [OF ok a] val)
next
  case False
  have T: "typed T a" using ok a by (simp add: variable_ok_def)
  have "\<exists>b. put_element i x a = Inr b"
  proof (cases x)
    case None
    with False have "isKnown (getElementValue i a)"
      by (cases "getElementValue i a") (simp_all add: element_same_def)
    then have "i < array_length a"
      by (cases a) (auto simp: getElement_def checkIndex_def array_size_def split: option.splits if_splits)
    from Array_setElementUnknown_total [OF this] None show ?thesis by (simp add: put_element_def)
  next
    case (Some p)
    with val have "payload_type p = element_type T" by (simp add: native_value_type)
    from Array_setElement_total [OF T this, of i] Some show ?thesis by (simp add: put_element_def)
  qed
  with False show ?thesis by (auto simp: setElement_eq [OF ok a] val)
qed

lemma value_equals_same:
  assumes "typed T a" and "typed T b" and "value_equals (getElementValue i a) (getElementValue j b)"
  shows "same_value (getElementValue i a) (getElementValue j b)"
  using element_of_typed [OF assms(1), of i] element_of_typed [OF assms(2), of j] assms(3)
  by (auto simp: value_equals_def intro: payload_equal_same)

lemma check_at:
  "r_array r = Some v \<Longrightarrow> v_isKnown v \<Longrightarrow> 0 \<le> sint k \<Longrightarrow>
   mutableSelfCheck (Inr (Some k)) r = Inr (Some (nat (sint k), v))"
  by (simp add: mutableSelfCheck_def)

lemma isKnown_cong:
  "v_known w = v_known v \<Longrightarrow> v_activeCount w = v_activeCount v \<Longrightarrow> v_isKnown w = v_isKnown v"
  by (simp add: v_isKnown_def v_isActive_def)

text \<open>Restoring an element that was saved from an array of the same type, at any index.\<close>

lemma restore_effect:
  assumes ok: "variable_ok T v" and kn: "v_isKnown v" and a: "v_value v = Some a"
    and r: "r_array r = Some v" "r_saved r" "r_savedValue r = getElementValue l a'" and a': "typed T a'"
    and k: "0 \<le> sint k"
  shows "\<exists>r' w c. r_restoreSavedValue (Inr (Some k)) r = Inr r' \<and> r_array r' = Some w \<and> \<not> r_saved r' \<and>
    variable_ok T w \<and> v_isKnown w \<and> v_value w = Some c \<and> array_length c = array_length a \<and>
    (\<forall>j. j \<noteq> nat (sint k) \<or> array_length a \<le> nat (sint k) \<longrightarrow> getElementValue j c = getElementValue j a) \<and>
    (nat (sint k) < array_length a \<longrightarrow> same_value (getElementValue l a') (getElementValue (nat (sint k)) c))"
proof -
  let ?i = "nat (sint k)"
  have T: "typed T a" using ok a by (simp add: variable_ok_def)
  have get: "v_getElementValue ?i v = Inr (getElementValue ?i a)"
    using kn a by (simp add: v_getElementValue_def v_isKnown_def deref_def)
  show ?thesis
  proof (cases "value_equals (getElementValue l a') (getElementValue ?i a)")
    case True
    from value_equals_same [OF a' T True] True ok kn a r get show ?thesis
      by (simp add: r_restoreSavedValue_def check_at [OF r(1) kn k])
  next
    case False
    obtain x where x: "native_value (element_type T) (getElementValue l a') = Inr x"
        "as_element x = getElementValue l a'"
      using native_of_element [OF a'] by blast
    obtain w where w: "v_setElement ?i (getElementValue l a') v = Inr w"
      using setElement_total [OF ok a x(1)] by blast
    from setElement_effect [OF ok a x(1) w] obtain c where c: "v_value w = Some c"
        "v_known w = v_known v" "v_activeCount w = v_activeCount v" "array_length c = array_length a"
        "\<forall>j. j \<noteq> ?i \<or> array_length a \<le> ?i \<longrightarrow> getElementValue j c = getElementValue j a"
        "?i < array_length a \<longrightarrow> same_value (getElementValue l a') (getElementValue ?i c)"
      unfolding x(2) by blast
    have "variable_ok T w" using setElement_safe [OF ok a, of ?i "getElementValue l a'"] w by simp
    moreover have "v_isKnown w" using kn isKnown_cong [OF c(2,3)] by simp
    ultimately show ?thesis
      using False r get w c by (simp add: r_restoreSavedValue_def check_at [OF r(1) kn k])
  qed
qed

lemma save_effect:
  assumes "v_isKnown v" and "v_value v = Some a" and "r_array r = Some v" and "0 \<le> sint k"
  shows "r_saveCurrentValue (Inr (Some k)) r =
    Inr (r\<lparr>r_savedValue := getElementValue (nat (sint k)) a, r_saved := True\<rparr>)"
  using assms by (simp add: r_saveCurrentValue_def check_at v_getElementValue_def v_isKnown_def deref_def)

lemma assign_effect:
  assumes ok: "variable_ok T v" and kn: "v_isKnown v" and a: "v_value v = Some a"
    and r: "r_array r = Some v" and k: "0 \<le> sint k" and u: "r_setValue (Inr (Some k)) val r = Inr u"
  shows "\<exists>w b x. native_value (element_type T) val = Inr x \<and> r_array u = Some w \<and>
    r_saved u = r_saved r \<and> r_savedValue u = r_savedValue r \<and>
    variable_ok T w \<and> v_isKnown w \<and> v_value w = Some b \<and> array_length b = array_length a \<and>
    (\<forall>j. j \<noteq> nat (sint k) \<or> array_length a \<le> nat (sint k) \<longrightarrow> getElementValue j b = getElementValue j a) \<and>
    (nat (sint k) < array_length a \<longrightarrow> same_value (as_element x) (getElementValue (nat (sint k)) b))"
proof -
  let ?i = "nat (sint k)"
  from u obtain w where w: "v_setElement ?i val v = Inr w" and u': "u = r\<lparr>r_array := Some w\<rparr>"
    by (auto simp: r_setValue_def check_at [OF r kn k])
  from w obtain x where x: "native_value (element_type T) val = Inr x"
    by (auto simp: setElement_eq [OF ok a])
  from setElement_effect [OF ok a x w] obtain b where b: "v_value w = Some b" "v_known w = v_known v"
      "v_activeCount w = v_activeCount v" "array_length b = array_length a"
      "\<forall>j. j \<noteq> ?i \<or> array_length a \<le> ?i \<longrightarrow> getElementValue j b = getElementValue j a"
      "?i < array_length a \<longrightarrow> same_value (as_element x) (getElementValue ?i b)"
    by blast
  have "variable_ok T w" using setElement_safe [OF ok a, of ?i val] w by simp
  moreover have "v_isKnown w" using kn isKnown_cong [OF b(2,3)] by simp
  ultimately show ?thesis using x b u' by simp
qed

text \<open>Both arrays are unknown, or they have the same elements.\<close>

definition same_elements :: "element_reference \<Rightarrow> element_reference \<Rightarrow> bool" where
  "same_elements r s \<longleftrightarrow>
     (case (r_array r, r_array s) of
        (Some v, Some w) \<Rightarrow>
          v_isKnown w = v_isKnown v \<and>
          (v_isKnown v \<longrightarrow> array_length (the (v_value w)) = array_length (the (v_value v)) \<and>
             (\<forall>j. same_value (getElementValue j (the (v_value v))) (getElementValue j (the (v_value w)))))
      | (None, None) \<Rightarrow> True
      | _ \<Rightarrow> False)"

definition reference_ok :: "element \<Rightarrow> element_reference \<Rightarrow> bool" where
  "reference_ok T r \<longleftrightarrow> (\<exists>v. r_array r = Some v \<and> variable_ok T v)"

lemma same_elements_refl [simp]: "same_elements r r"
  by (cases "r_array r") (simp_all add: same_elements_def)

lemma same_elements_trans: "same_elements r s \<Longrightarrow> same_elements s t \<Longrightarrow> same_elements r t"
  by (cases "r_array r"; cases "r_array s"; cases "r_array t")
    (auto simp: same_elements_def intro: same_value_trans)

lemma element_retracted:
  assumes good: "reference_ok T r" and t: "r_saveCurrentValue index r = Inr t"
    and u: "r_setValue index val t = Inr u"
  shows "\<exists>w. r_restoreSavedValue index u = Inr w \<and> reference_ok T w \<and> same_elements r w"
proof -
  obtain v where v: "r_array r = Some v" and ok: "variable_ok T v" using good by (auto simp: reference_ok_def)
  show ?thesis
  proof (cases "v_isKnown v \<and> index \<noteq> Inr None")
    case False
    then have none: "mutableSelfCheck index s = Inr None" if "r_array s = Some v" for s
      using that by (auto simp: mutableSelfCheck_def)
    have t': "t = r\<lparr>r_saved := False\<rparr>" using t by (simp add: r_saveCurrentValue_def none v)
    then have "u = t" using u by (simp add: r_setValue_def none v)
    then show ?thesis using t' v ok
      by (auto simp: r_restoreSavedValue_def none reference_ok_def same_elements_def)
  next
    case True
    then have "mutableSelfCheck index r = known index (\<lambda>k. bindE (check PlanError (0 \<le> sint k))
        (\<lambda>_. Inr (Some (nat (sint k), v))))"
      by (simp add: mutableSelfCheck_def v)
    with t True obtain k where index: "index = Inr (Some k)" and k: "0 \<le> sint k"
      by (cases index) (auto simp: r_saveCurrentValue_def known_def check_def split: if_splits option.splits)
    from ok True obtain a where a: "v_value v = Some a" by (auto simp: variable_ok_def v_isKnown_def)
    then have T: "typed T a" using ok by (simp add: variable_ok_def)
    have kn: "v_isKnown v" using True by simp
    let ?i = "nat (sint k)"
    have t': "t = r\<lparr>r_savedValue := getElementValue ?i a, r_saved := True\<rparr>"
      using t save_effect [OF kn a v k] by (simp add: index)
    then have tv: "r_array t = Some v" using v by simp
    from assign_effect [OF ok kn a tv k u [unfolded index]] obtain w b where w: "r_array u = Some w"
        "r_saved u" "r_savedValue u = getElementValue ?i a" "variable_ok T w" "v_isKnown w" "v_value w = Some b"
        "array_length b = array_length a"
        "\<forall>j. j \<noteq> ?i \<or> array_length a \<le> ?i \<longrightarrow> getElementValue j b = getElementValue j a"
      using t' by auto
    from restore_effect [OF w(4,5,6,1,2,3) T k] obtain r' w' c where r': "r_restoreSavedValue index u = Inr r'"
        "r_array r' = Some w'" "variable_ok T w'" "v_isKnown w'" "v_value w' = Some c"
        "array_length c = array_length a"
        "\<forall>j. j \<noteq> ?i \<or> array_length a \<le> ?i \<longrightarrow> getElementValue j c = getElementValue j b"
        "?i < array_length a \<longrightarrow> same_value (getElementValue ?i a) (getElementValue ?i c)"
      unfolding index w(7) by blast
    have "same_value (getElementValue j a) (getElementValue j c)" for j
      using r'(7,8) w(8) by (cases "j = ?i \<and> ?i < array_length a") auto
    with r' kn a v show ?thesis
      by (auto simp: reference_ok_def same_elements_def)
  qed
qed

interpretation element_reference: assignable "r_saveCurrentValue index" "r_setValue index"
  "r_restoreSavedValue index" "\<lambda>_. True" "reference_ok T" same_elements for index T
proof (unfold_locales, goal_cases)
  case (1 r x t u)
  then show ?case by (blast intro: element_retracted)
next
  case (2 r)
  then show ?case by simp
next
  case (3 r s t)
  then show ?case by (rule same_elements_trans)
qed

section \<open>Properties of retraction\<close>

text \<open>
  Property C12. However often an assignment to an array, or through a reference to an element of one
  whose index expression gives the same each time it is asked, is executed and then retracted,
  the array is in the end known exactly if it was known, with equal elements; and retracting
  never fails. (Elements are equal up to the sign of a zero. The code evaluates the index
  anew when it retracts; what becomes of the array when the index has moved is in
  \<open>moved_index_overwrites\<close>.)
\<close>

theorem failed_assignments_undone:
  assumes v: "variable_ok T v" and r: "reference_ok T r" and xs: "list_all value_formed xs"
  shows "(\<forall>w. forE (failed_assignment v_saveCurrentValue v_setValue v_restoreSavedValue) xs v = Inr w \<longrightarrow>
            same_array v w) \<and>
         (\<forall>s. forE (failed_assignment (r_saveCurrentValue index) (r_setValue index) (r_restoreSavedValue index)) xs r = Inr s \<longrightarrow>
            same_elements r s) \<and>
         (\<forall>x t u. value_formed x \<and> v_saveCurrentValue v = Inr t \<and> v_setValue x t = Inr u \<longrightarrow>
            (\<exists>w. v_restoreSavedValue u = Inr w)) \<and>
         (\<forall>x t u. r_saveCurrentValue index r = Inr t \<and> r_setValue index x t = Inr u \<longrightarrow>
            (\<exists>s. r_restoreSavedValue index u = Inr s))"
  using array_variable.attempts [OF v xs] element_reference.attempts [OF r, of xs index]
    array_variable.retracted [OF v] element_reference.retracted [OF r]
  by (simp add: list_all_iff) blast

lemma three_unknown_ok: "variable_ok Integers three_unknown"
  by (simp add: variable_ok_def three_unknown_def new_array_variable_def typed_def)

lemma failed_assignments_undone_witness:
  "\<exists>w. failed_assignment v_saveCurrentValue v_setValue v_restoreSavedValue one_element three_unknown = Inr w \<and>
     same_array three_unknown w"
proof -
  let ?t = "three_unknown\<lparr>v_savedKnown := True, v_savedValue := v_value three_unknown\<rparr>"
  have t: "v_saveCurrentValue three_unknown = Inr ?t"
    by (simp add: save_eq [OF three_unknown_ok]) (simp add: three_unknown_def)
  have u: "\<exists>u. v_setValue one_element ?t = Inr u"
    by (simp add: three_unknown_def one_element_def v_setValue_def v_setValueImpl_def
        new_array_variable_def typedArrayPointer_def typed_def array_of_def array_equal_def array_size_def)
  have r: "reference_ok Integers (new_reference (Some three_unknown))"
    by (simp add: reference_ok_def new_reference_def three_unknown_ok)
  have one: "list_all value_formed [one_element]" by (simp add: one_element_def array_of_def)
  note th = failed_assignments_undone [OF three_unknown_ok r one, of "Inr None"]
  from u obtain u where u: "v_setValue one_element ?t = Inr u" ..
  have "value_formed one_element" using one by simp
  with t u obtain w where "v_restoreSavedValue u = Inr w"
    using th [THEN conjunct2, THEN conjunct2, THEN conjunct1, rule_format, of one_element ?t u] by blast
  then have "failed_assignment v_saveCurrentValue v_setValue v_restoreSavedValue one_element three_unknown = Inr w"
    using t u by (simp add: failed_assignment_def)
  with th show ?thesis by auto
qed

text \<open>
  The index is evaluated anew when an assignment to an element is retracted. If it has
  changed in between, the element that was assigned keeps the new value, and the value saved
  from it overwrites another element.
\<close>

theorem moved_index_overwrites:
  assumes ok: "variable_ok T v" and kn: "v_isKnown v" and a: "v_value v = Some a" and r: "r_array r = Some v"
    and k: "0 \<le> sint k" "nat (sint k) < array_length a" and l: "0 \<le> sint l" "nat (sint l) < array_length a"
    and kl: "k \<noteq> l" and x: "native_value (element_type T) val = Inr x"
    and t: "r_saveCurrentValue (Inr (Some k)) r = Inr t" and u: "r_setValue (Inr (Some k)) val t = Inr u"
  shows "\<exists>s w c. r_restoreSavedValue (Inr (Some l)) u = Inr s \<and> r_array s = Some w \<and> v_value w = Some c \<and>
    same_value (as_element x) (getElementValue (nat (sint k)) c) \<and>
    same_value (getElementValue (nat (sint k)) a) (getElementValue (nat (sint l)) c)"
proof -
  have T: "typed T a" using ok a by (simp add: variable_ok_def)
  have "sint k \<noteq> sint l" using kl by (auto dest: signed_word_eqI)
  with k(1) l(1) have kl': "nat (sint k) \<noteq> nat (sint l)" by (simp add: nat_eq_iff)
  have t': "t = r\<lparr>r_savedValue := getElementValue (nat (sint k)) a, r_saved := True\<rparr>"
    using t save_effect [OF kn a r k(1)] by simp
  then have tv: "r_array t = Some v" using r by simp
  from assign_effect [OF ok kn a tv k(1) u] x t' obtain w b where w: "r_array u = Some w" "r_saved u"
      "r_savedValue u = getElementValue (nat (sint k)) a" "variable_ok T w" "v_isKnown w" "v_value w = Some b"
      "array_length b = array_length a" "same_value (as_element x) (getElementValue (nat (sint k)) b)"
    using k(2) by auto
  from restore_effect [OF w(4,5,6,1,2,3) T l(1)] show ?thesis
    using w(7,8) kl' l(2) by auto
qed

lemma moved_index_overwrites_witness:
  "\<exists>s w c. bindE (r_saveCurrentValue (Inr (Some 0)) (new_reference (Some three_assigned))) (\<lambda>t.
       bindE (r_setValue (Inr (Some 0)) (Known (IntegerVal 9)) t) (r_restoreSavedValue (Inr (Some 1)))) = Inr s \<and>
     r_array s = Some w \<and> v_value w = Some c \<and>
     same_value (Known (IntegerVal 9)) (getElementValue 0 c) \<and>
     same_value (Known (IntegerVal 7)) (getElementValue 1 c)"
proof -
  let ?r = "new_reference (Some three_assigned)"
  let ?a = "IntegerArray \<lparr>ar_known = [True, False, False], ar_contents = [7, 0, 0]\<rparr>"
  have ok: "variable_ok Integers three_assigned" and kn: "v_isKnown three_assigned"
    and a: "v_value three_assigned = Some ?a" and r: "r_array ?r = Some three_assigned"
    by (simp_all add: variable_ok_def three_assigned_def three_unknown_def new_array_variable_def typed_def
        v_isKnown_def v_isActive_def new_reference_def)
  have x: "native_value (element_type Integers) (Known (IntegerVal 9)) = Inr (Some (IntegerVal 9))"
    by (simp add: native_value_def)
  obtain t where t: "r_saveCurrentValue (Inr (Some 0)) ?r = Inr t" "r_array t = Some three_assigned"
    using save_effect [OF kn a r, of 0] r by simp
  obtain w where "v_setElement 0 (Known (IntegerVal 9)) three_assigned = Inr w"
    using setElement_total [OF ok a x] by blast
  then obtain u where u: "r_setValue (Inr (Some 0)) (Known (IntegerVal 9)) t = Inr u"
    using check_at [OF t(2) kn, of 0] by (simp add: r_setValue_def)
  from moved_index_overwrites [OF ok kn a r _ _ _ _ _ x t(1) u, of 1] show ?thesis
    using t u by (simp add: array_size_def getElement_def checkIndex_def)
qed

text \<open>
  Restoring gives the value before the last \<open>saveCurrentValue\<close> after one assignment, which is what
  assignment nodes do; if a value is assigned and then made unknown, the variable shows the
  assigned value after restoring, for only the flag is restored.
\<close>

lemma restored_after_unknown:
  assumes ok: "variable_ok T v" and "v_known v" and "v_saveCurrentValue v = Inr t"
    and u: "v_setValueImpl a t = Inr u" and w: "v_restoreSavedValue (v_setUnknown u) = Inr w"
  shows "v_known w \<and> v_value w = v_value u"
proof -
  have ok_t: "variable_ok T t" using saveCurrentValue_safe [OF ok] assms(3) by simp
  have t: "v_savedKnown t" using assms(2,3) by (auto simp: save_eq [OF ok])
  have "v_setValue (Known (ArrayVal a)) t = Inr u" using u by (simp add: v_setValue_def)
  from saved_kept [OF ok_t this] t have "v_savedKnown u" by simp
  then show ?thesis
    using w by (auto simp: v_restoreSavedValue_def v_setUnknown_def Let_def split: if_splits)
qed

text \<open>
  The comment of \<open>mutableSelfCheck\<close> promises an error for an index beyond the size; there is no such
  check. A known value assigned to an element that does not exist is dropped, and yet
  published as a change.
\<close>

lemma assignment_out_of_range:
  assumes ok: "variable_ok T v" and kn: "v_isKnown v" and a: "v_value v = Some a" and r: "r_array r = Some v"
    and k: "0 \<le> sint k" "array_length a \<le> nat (sint k)"
    and x: "native_value (element_type T) val = Inr (Some x)"
  shows "r_setValue (Inr (Some k)) val r = Inr (r\<lparr>r_array := Some (v\<lparr>v_published := Suc (v_published v)\<rparr>)\<rparr>)"
proof -
  let ?i = "nat (sint k)"
  have T: "typed T a" using ok a by (simp add: variable_ok_def)
  have "getElementValue ?i a = Unknown UNKNOWN_TYPE"
    using k(2) by (cases a) (simp_all add: getElement_def checkIndex_def array_size_def)
  then have new: "\<not> element_same (getElementValue ?i a) (Some x)" by (simp add: element_same_def)
  have "Array_setElement ?i x a = Inr a"
    using Array_setElement_total [OF T, of x ?i] native_value_type [OF x] k(2)
    by (cases "(?i, x, a)" rule: Array_setElement.cases)
      (auto simp: setElement_def checkIndex_def array_size_def)
  then have "v_setElement ?i val v = Inr (v_publishChange (v\<lparr>v_value := Some a\<rparr>))"
    using new by (simp add: setElement_eq [OF ok a] x put_element_def)
  also have "v_publishChange (v\<lparr>v_value := Some a\<rparr>) = v\<lparr>v_published := Suc (v_published v)\<rparr>"
    using a kn by (simp add: v_publishChange_def v_isKnown_def v_isActive_def)
  finally show ?thesis by (simp add: r_setValue_def check_at [OF r kn k(1)])
qed

end
