(* ===== verification/Collection_Operators.thy ===== *)
theory Collection_Operators
  imports Array_Variable
begin

text \<open>
  The operators on strings and arrays (src/src/expr/StringOperators.cc, ArrayOperators.cc). An
  argument is what its \<open>getValuePointer\<close> gives. A size is converted to a 32 bit integer.
\<close>

section \<open>Strings\<close>

definition concat0 :: "string option result" where
  "concat0 = Inr (Some [])"

definition concat1 :: "string option result \<Rightarrow> string option result" where
  "concat1 arg = arg"

definition concat2 :: "string option result \<Rightarrow> string option result \<Rightarrow> string option result" where
  "concat2 argA argB = known argA (\<lambda>stringA. known argB (\<lambda>stringB. Inr (Some (stringA @ stringB))))"

text \<open>The loop that gets the pointers to all arguments, and the one that appends.\<close>

fun get_pointers :: "'a option result list \<Rightarrow> 'a list option result" where
  "get_pointers [] = Inr (Some [])"
| "get_pointers (arg # args) = known arg (\<lambda>val. known (get_pointers args) (\<lambda>vals. Inr (Some (val # vals))))"

fun append_loop :: "string \<Rightarrow> string list \<Rightarrow> string" where
  "append_loop result [] = result"
| "append_loop result (val # vals) = append_loop (result @ val) vals"

definition concatN :: "string option result list \<Rightarrow> string option result" where
  "concatN args = known (get_pointers args) (\<lambda>vals. Inr (Some (append_loop [] vals)))"

definition stringLength :: "string option result \<Rightarrow> integer option result" where
  "stringLength arg = known arg (\<lambda>str. Inr (Some (word_of_nat (length str))))"

section \<open>Arrays\<close>

definition arraySize :: "array option result \<Rightarrow> integer option result" where
  "arraySize arg = known arg (\<lambda>ary. Inr (Some (word_of_nat (array_length ary))))"

definition arrayMaxSize :: "array option result \<Rightarrow> integer option result" where
  "arrayMaxSize arg = known arg (\<lambda>ary. Inr (Some (word_of_nat (array_length ary))))"

definition AllElementsKnown :: "array option result \<Rightarrow> bool option result" where
  "AllElementsKnown arg = known arg (\<lambda>ary. Inr (Some (case ary of
     BooleanArray a \<Rightarrow> allElementsKnown a
   | IntegerArray a \<Rightarrow> allElementsKnown a
   | RealArray a \<Rightarrow> allElementsKnown a
   | StringArray a \<Rightarrow> allElementsKnown a)))"

definition AnyElementsKnown :: "array option result \<Rightarrow> bool option result" where
  "AnyElementsKnown arg = known arg (\<lambda>ary. Inr (Some (case ary of
     BooleanArray a \<Rightarrow> anyElementsKnown a
   | IntegerArray a \<Rightarrow> anyElementsKnown a
   | RealArray a \<Rightarrow> anyElementsKnown a
   | StringArray a \<Rightarrow> anyElementsKnown a)))"

section \<open>Properties\<close>

lemma append_loop: "append_loop result vals = result @ concat vals"
  by (induction vals arbitrary: result) simp_all

lemma concatN_simps [simp]:
  "concatN [] = Inr (Some [])"
  "concatN (arg # args) = known arg (\<lambda>x. known (concatN args) (\<lambda>y. Inr (Some (x @ y))))"
proof -
  show "concatN [] = Inr (Some [])" by (simp add: concatN_def)
  show "concatN (arg # args) = known arg (\<lambda>x. known (concatN args) (\<lambda>y. Inr (Some (x @ y))))"
    by (cases arg; cases "get_pointers args")
      (auto simp: concatN_def append_loop known_def split: option.splits)
qed

lemma size_exact: "sint (word_of_nat n :: integer) = int n \<longleftrightarrow> n < 2 ^ 31"
proof
  assume *: "sint (word_of_nat n :: integer) = int n"
  have "sint (word_of_nat n :: integer) < 2 ^ 31" using sint_lt [of "word_of_nat n :: integer"] by simp
  with * show "n < 2 ^ 31" by simp
next
  assume "n < 2 ^ 31"
  then have "int n < 2 ^ 31" by simp
  then show "sint (word_of_nat n :: integer) = int n"
    by (simp add: signed_of_nat signed_take_bit_int_eq_self)
qed

lemma concatN_append: "concatN (xs @ ys) = concat2 (concatN xs) (concatN ys)"
proof (induction xs)
  case Nil
  show ?case
    by (cases "concatN ys") (auto simp: concat2_def known_def split: option.splits)
next
  case (Cons x xs)
  then show ?case
    by (cases x; cases "concatN xs"; cases "concatN ys")
      (auto simp: concat2_def known_def split: option.splits)
qed

lemma concatN_values: "concatN (map Inr ps) = Inr (if None \<in> set ps then None else Some (concat (map the ps)))"
  by (induction ps) (auto simp: known_def split: option.splits)

text \<open>
  Concatenation of any number of strings: the strings one after the other if all are known,
  otherwise unknown; the operators for no, one and two arguments agree with the one for many,
  and the grouping of the arguments does not matter, errors included. The length of a string
  is exact below 2 ^ 31, and that of a concatenation the sum of the lengths, with wrap-around.
\<close>

theorem string_operators:
  "concatN (map Inr ps) = Inr (if None \<in> set ps then None else Some (concat (map the ps))) \<and>
   concatN [] = concat0 \<and> concatN [x] = concat1 x \<and> concatN [x, y] = concat2 x y \<and>
   concatN (xs @ ys) = concat2 (concatN xs) (concatN ys) \<and>
   (\<exists>n. stringLength (Inr (Some s)) = Inr (Some n) \<and> (sint n = int (length s) \<longleftrightarrow> length s < 2 ^ 31)) \<and>
   stringLength (concat2 (Inr (Some s)) (Inr (Some t))) =
     Inr (Some (word_of_nat (length s) + word_of_nat (length t)))"
proof (intro conjI, goal_cases)
  case 1
  show ?case by (rule concatN_values)
next
  case 3
  show ?case by (cases x) (auto simp: concat1_def known_def split: option.splits)
next
  case 4
  show ?case by (cases x; cases y) (auto simp: concat2_def known_def split: option.splits)
next
  case 5
  show ?case by (rule concatN_append)
next
  case 6
  show ?case by (simp add: stringLength_def size_exact)
qed (simp_all add: concat0_def concat2_def stringLength_def)

text \<open>The questions about arrays, in terms of their elements.\<close>

lemma allElementsKnown_element: "allElementsKnown a \<longleftrightarrow> (\<forall>i < array_size a. getElement i a \<noteq> None)"
  by (auto simp: allElementsKnown_def list_all_length array_size_def getElement_def checkIndex_def)

lemma anyElementsKnown_element: "anyElementsKnown a \<longleftrightarrow> (\<exists>i < array_size a. getElement i a \<noteq> None)"
  by (auto simp: anyElementsKnown_def list_ex_length array_size_def getElement_def checkIndex_def)

lemma isKnown_element:
  "isKnown (getElementValue i a) \<longleftrightarrow>
     (case a of BooleanArray b \<Rightarrow> getElement i b \<noteq> None | IntegerArray b \<Rightarrow> getElement i b \<noteq> None
      | RealArray b \<Rightarrow> getElement i b \<noteq> None | StringArray b \<Rightarrow> getElement i b \<noteq> None)"
  by (cases a) (simp_all split: option.splits)

lemma array_operators:
  "AllElementsKnown (Inr (Some a)) = Inr (Some (\<forall>i < array_length a. isKnown (getElementValue i a)))"
  "AnyElementsKnown (Inr (Some a)) = Inr (Some (\<exists>i < array_length a. isKnown (getElementValue i a)))"
  "\<exists>n. arraySize (Inr (Some a)) = Inr (Some n) \<and> (sint n = int (array_length a) \<longleftrightarrow> array_length a < 2 ^ 31)"
proof -
  show "AllElementsKnown (Inr (Some a)) = Inr (Some (\<forall>i < array_length a. isKnown (getElementValue i a)))"
    unfolding AllElementsKnown_def isKnown_element by (cases a) (simp_all add: allElementsKnown_element)
  show "AnyElementsKnown (Inr (Some a)) = Inr (Some (\<exists>i < array_length a. isKnown (getElementValue i a)))"
    unfolding AnyElementsKnown_def isKnown_element by (cases a) (simp_all add: anyElementsKnown_element)
  show "\<exists>n. arraySize (Inr (Some a)) = Inr (Some n) \<and> (sint n = int (array_length a) \<longleftrightarrow> array_length a < 2 ^ 31)"
    by (simp add: arraySize_def size_exact)
qed

end
