(* ===== verification/Spec2Isabelle.thy ===== *)
theory Spec2Isabelle
  imports Node_Constants Linked_Queue Boolean_Operators Reservable Node_Dest Node_Transition
    Expr_Net Expr_Activation Expr_Notify Exec_State Plexil_Exec Exec_Queues Exec_Step Exec_System Exec_Resources
    Resource_Arbiter Exec_Commands Value_Types Ordered_Map Plexil_Value Value_Order Byte_Codec Serialization Real_Arithmetic Doubles Arithmetic Arbiter_Levels Cached_Value State_Cache Cache_Types Lookup_Watch Input_Queue Interface_Manager Array_Reference Collection_Operators
begin

text \<open>
  A model of the PLEXIL executive, the C++ sources under src/src of this repository, and its
  correctness properties. PLEXIL plans are trees of nodes; the executive moves every node
  through a state diagram as the conditions of the node change, and exchanges commands, lookups
  and updates with the world outside.

  The parts of the program and how they interact. An interface reports a value, the state of a
  command or a message to the interface manager (app-framework), which queues it. Before a macro
  step the queue is processed: a value goes to the entry of its state in the state cache
  (intfc), the entry tells the lookups registered with it, and a lookup, being an expression
  (expr), publishes the change to the expressions above it and in the end to the nodes (exec)
  whose conditions they are. A node that is notified becomes a candidate of the executive. The
  step checks the candidates, resolves conflicts over variables and mutexes, makes the
  transitions, performs assignments, and hands commands, after arbitration of their resources,
  and updates to the dispatcher. Values (value) are what all of these compute and exchange.

  Correspondence. A class is a record of its member variables, an enumeration a datatype, a
  member function a function on the state it changes that gives a result or an error of
  \<open>plexil_error\<close>; errors are those the code reports, and the undefined behaviours of C++ that
  the model can reach. Names are those of the source, with a prefix or suffix where a name
  would be ambiguous.

  The theories, in the order of dependency:

  \<^item> \<open>Prelude\<close>: errors (src/src/utils/Error.hh), sequences of fallible steps, preservation of
    invariants, weakest preconditions of results.
  \<^item> \<open>Node_Constants\<close> (value/NodeConstants.cc, CommandHandle.cc, exec/PlexilNodeType.cc): the
    enumerations, their names and parsing.
  \<^item> \<open>Linked_Queue\<close> (utils/LinkedQueue.hh): intrusive lists and priority queues on pointers, and
    that they refine lists; the locale of queues with its interpretation.
  \<^item> \<open>Boolean_Operators\<close> (expr/BooleanOperators.cc): three-valued logic of every arity against
    Kleene's.
  \<^item> \<open>Reservable\<close> (expr/Reservable.cc, exec/Mutex.cc): exclusive holders and their waiting lists.
  \<^item> \<open>Node_Dest\<close> (exec/NodeImpl.cc, ListNode.cc, CommandNode.cc, AssignmentNode.cc,
    UpdateNode.cc): which state a node goes to. The reference is one list of rules for each state.
  \<^item> \<open>Node_Transition\<close> (the same files): what a node does on leaving and entering a state, as
    scripts of calls; the balance of activations and the fit of outcome and state.
  \<^item> \<open>Expr_Net\<close>, \<open>Expr_Activation\<close>, \<open>Expr_Notify\<close> (expr/Notifier.cc, Propagator.cc, Function.cc,
    UserVariable.cc, Comparisons.cc and others): the network of expressions; activation counts
    are reference counts; a change that matters to an active condition notifies its node.
  \<^item> \<open>Exec_State\<close>, \<open>Plexil_Exec\<close> (exec/NodeImpl.cc, AssignmentNode.cc, Assignment.cc,
    PlexilExec.cc): the whole state of the executive and the macro step.
  \<^item> \<open>Exec_Queues\<close>, \<open>Exec_Step\<close>, \<open>Exec_System\<close>: the locale for invariants of the queues; the
    discipline of the queues in every reachable state; bounds of the loops.
  \<^item> \<open>Exec_Resources\<close>: acquisition and release of what nodes reserve; the refinement of the
    transition of one node by that of the executive.
  \<^item> \<open>Resource_Arbiter\<close>, \<open>Exec_Commands\<close> (intfc/ResourceArbiterInterface.cc, CommandImpl.hh): which
    commands of a step are accepted, and that each is dispatched or refused once. The amounts
    are of any type with the operators the code uses; the locale \<open>rounded_sums\<close> states what
    keeping the levels in their limits needs of them.
  \<^item> \<open>Value_Types\<close>, \<open>Plexil_Value\<close>, \<open>Ordered_Map\<close>, \<open>Value_Order\<close> (value/ValueType.cc, Value.cc,
    Array.cc, ArrayImpl.cc, intfc/State.cc): types, values, arrays and states, their comparison,
    and the requirements of \<open>std::map\<close> on the order of states.
  \<^item> \<open>Byte_Codec\<close>, \<open>Serialization\<close> (the same files): the serial form, written and read back.
  \<^item> \<open>Real_Arithmetic\<close>, \<open>Arithmetic\<close> (expr/ArithmeticOperators.cc, ConversionOperators.cc):
    doubles of IEEE 754 on their bit patterns, integers of 32 bits, and the operators.
  \<^item> \<open>Doubles\<close>, \<open>Arbiter_Levels\<close>: the type \<open>double\<close> with its operators, rounding, and the resource
    arbiter on it: levels stay in their limits although sums are rounded, release restores
    them where sums are exact, and an example where it does not and the resource is locked.
  \<^item> \<open>Cached_Value\<close>, \<open>State_Cache\<close>, \<open>Cache_Types\<close>, \<open>Lookup_Watch\<close> (intfc/CachedValueImpl.cc,
    StateCacheEntry.cc, StateCache.cc, Lookup.cc): cached values, entries, lookups and messages;
    the types of entries; the notifications and thresholds of lookups on change.
  \<^item> \<open>Input_Queue\<close>, \<open>Interface_Manager\<close> (app-framework/SimpleInputQueue.cc,
    SerializedInputQueue.cc, InterfaceManager.cc, intfc/QueueEntry.cc): the queue of
    notifications on pointers, its interface as a locale with both implementations, and their
    delivery.
  \<^item> \<open>Array_Variable\<close>, \<open>Array_Invariant\<close>, \<open>Array_Notify\<close>, \<open>Array_Reference\<close> (expr/ArrayVariable.cc,
    ArrayReference.cc, exec/Assignment.cc): variables of array type and references to elements;
    what every call keeps, which changes are told, and the retraction of assignments, stated as
    a locale that both interpret.
  \<^item> \<open>Collection_Operators\<close> (expr/StringOperators.cc, ArrayOperators.cc): operators on strings and
    arrays.

  Bounds. The loops of a macro step run over queues and end within as many rounds as there are
  nodes in them; \<open>loops_bounded\<close> proves the fuel sufficient in every state with the discipline
  of the queues. A macro step repeats its quiescence cycle until nothing changes, which a plan
  can prevent; its fuel is a parameter and running
  out of it the error \<open>OutOfFuel\<close>. Loops over the pointers of a queue are partial functions, and the
  lemmas show that they return on queues that are well formed; flushing and processing the input
  queue take as many rounds as it has entries. Integers have 32 bits and sizes in the serial form
  24; arithmetic out of range is an error, as it is undefined in C++.

  Parameters. What the dispatcher answers to a lookup before it returns is the parameter \<open>ask\<close> of
  \<open>State_Cache\<close>; whether \<open>char\<close> is signed that of \<open>Serialization\<close>; the arbiter of the executive is a
  parameter of \<open>Plexil_Exec\<close>, instantiated in \<open>Exec_Commands\<close>. The locales state the contracts
  between components; each is interpreted on the definitions of the component that provides it.

  What modelling showed to be wrong in the code is proved as it is: theorems and the comments
  before them name the place.

  Not modelled: the XML parsers, which build plans through the pugixml library (the model starts
  from plans that are built); the adapters for IPC, UDP and Java and the time bases, which are
  operating system calls and network protocols; threads, of which only the mutex of the input
  queue appears; aliases, which forward every call; the listeners that print or publish transitions; configuration, logging and
  dynamic loading; printing of values and parsing of numbers. The Java and Python tools of the
  repository, compilers, checkers and viewers, are other programs.
\<close>

end
